(* ===== verification/Guard_Prelude.thy ===== *)
theory Guard_Prelude
  imports Main "HOL-Library.Word" "HOL-Library.AList" "HOL-Library.Sublist" "HOL-Library.Multiset"
    "HOL-Library.Char_ord" "HOL-Library.List_Lexorder"
begin

text \<open>
  The shared vocabulary of the development: machine words and byte strings as Go has them,
  slices with a length and a capacity, little- and big-endian integer codecs, decimal and
  hexadecimal printing (\<open>strconv\<close>), the string helpers the agent uses, \<open>sort.Search\<close>,
  instants and durations, and generic facts on lists and association lists.

  Conventions.  A Go \<open>string\<close> is a \<^typ>\<open>string\<close> (a list of 8-bit characters, so
  \<open>len\<close> counts bytes); a byte array or slice of bytes is a list of \<open>8 word\<close>; a Go map
  that is iterated over is an association list with distinct keys, whose order stands for the
  unspecified iteration order.  Case mapping is the ASCII part of \<open>strings.ToLower\<close> and
  \<open>strings.ToUpper\<close>.
\<close>

unbundle bit_operations_syntax

named_theorems go_defs \<open>definitions of the Go runtime helpers\<close>
named_theorems slice_simps \<open>evaluation of in-range slice accesses\<close>

type_synonym byte = "8 word"
type_synonym u16 = "16 word"
type_synonym u32 = "32 word"
type_synonym u64 = "64 word"

section \<open>Results\<close>

text \<open>Sequencing of fallible computations: the left summand is the error.\<close>

definition sbind :: "'e + 'a \<Rightarrow> ('a \<Rightarrow> 'e + 'b) \<Rightarrow> 'e + 'b" where
  "sbind m f = (case m of Inl e \<Rightarrow> Inl e | Inr x \<Rightarrow> f x)"

lemma sbind_simps [simp]:
  "sbind (Inl e) f = Inl e"
  "sbind (Inr x) f = f x"
  by (simp_all add: sbind_def)

lemma sbind_if: "sbind (if c then a else b) f = (if c then sbind a f else sbind b f)"
  by simp

lemma sbind_eq_Inr: "sbind m f = Inr y \<longleftrightarrow> (\<exists>x. m = Inr x \<and> f x = Inr y)"
  by (cases m) auto

section \<open>Slices of bytes\<close>

text \<open>
  A Go slice is a window on a backing array: \<open>backing\<close> holds the bytes up to the capacity,
  the first \<open>slen\<close> of them are the slice's elements.  Indexing is checked against the length,
  a slice expression with both bounds against the capacity, and \<open>s[lo:]\<close> against the length.
\<close>

record gslice =
  backing :: "byte list"
  slen :: nat

datatype parse_error = RawTooSmall nat nat | IndexPanic

definition slice_ok :: "gslice \<Rightarrow> bool" where
  "slice_ok s \<longleftrightarrow> slen s \<le> length (backing s)"

definition slice_of :: "byte list \<Rightarrow> gslice" where
  "slice_of bs = \<lparr>backing = bs, slen = length bs\<rparr>"

definition slice_bytes :: "gslice \<Rightarrow> byte list" where
  "slice_bytes s = take (slen s) (backing s)"

definition slice_index :: "gslice \<Rightarrow> nat \<Rightarrow> parse_error + byte" where
  "slice_index s i = (if i < slen s then Inr (backing s ! i) else Inl IndexPanic)"

definition slice_range :: "gslice \<Rightarrow> nat \<Rightarrow> nat \<Rightarrow> parse_error + byte list" where
  "slice_range s lo hi =
     (if lo \<le> hi \<and> hi \<le> length (backing s) then Inr (take (hi - lo) (drop lo (backing s)))
      else Inl IndexPanic)"

text \<open>Little-endian and big-endian values of byte lists, and the matching encoders.\<close>

fun le_val :: "byte list \<Rightarrow> nat" where
  "le_val [] = 0"
| "le_val (b # bs) = unat b + 256 * le_val bs"

definition be_val :: "byte list \<Rightarrow> nat" where
  "be_val bs = le_val (rev bs)"

fun le_enc :: "nat \<Rightarrow> nat \<Rightarrow> byte list" where
  "le_enc 0 n = []"
| "le_enc (Suc k) n = word_of_nat n # le_enc k (n div 256)"

definition be_enc :: "nat \<Rightarrow> nat \<Rightarrow> byte list" where
  "be_enc k n = rev (le_enc k n)"

text \<open>
  \<open>binary.LittleEndian.Uint16/32/64(raw[off:])\<close>: the suffix slice needs \<open>off \<le> len\<close>, the
  read itself needs the full width to lie inside the length.
\<close>

definition le_read :: "nat \<Rightarrow> gslice \<Rightarrow> nat \<Rightarrow> parse_error + nat" where
  "le_read k s off =
     (if off + k \<le> slen s then Inr (le_val (take k (drop off (backing s)))) else Inl IndexPanic)"

definition le_u16 :: "gslice \<Rightarrow> nat \<Rightarrow> parse_error + u16" where
  "le_u16 s off = sbind (le_read 2 s off) (\<lambda>n. Inr (word_of_nat n))"

definition le_u32 :: "gslice \<Rightarrow> nat \<Rightarrow> parse_error + u32" where
  "le_u32 s off = sbind (le_read 4 s off) (\<lambda>n. Inr (word_of_nat n))"

definition le_u64 :: "gslice \<Rightarrow> nat \<Rightarrow> parse_error + u64" where
  "le_u64 s off = sbind (le_read 8 s off) (\<lambda>n. Inr (word_of_nat n))"

definition be_u16 :: "gslice \<Rightarrow> nat \<Rightarrow> parse_error + u16" where
  "be_u16 s off =
     (if off + 2 \<le> slen s then Inr (word_of_nat (be_val (take 2 (drop off (backing s)))))
      else Inl IndexPanic)"

lemma length_le_enc [simp]: "length (le_enc k n) = k"
  by (induction k arbitrary: n) simp_all

lemma length_be_enc [simp]: "length (be_enc k n) = k"
  by (simp add: be_enc_def)

lemma le_val_enc: "le_val (le_enc k n) = n mod 256 ^ k"
proof (induction k arbitrary: n)
  case 0
  then show ?case by simp
next
  case (Suc k)
  have "n mod 256 + 256 * (n div 256 mod 256 ^ k) = n mod (256 * 256 ^ k)"
    by (simp add: mod_mult2_eq)
  with Suc show ?case
    by (simp add: unat_of_nat take_bit_eq_mod)
qed

lemma le_val_bound: "le_val bs < 256 ^ length bs"
proof (induction bs)
  case Nil
  then show ?case by simp
next
  case (Cons b bs)
  have "unat b < 256" using unsigned_less [of b, where ?'a = nat] by simp
  with Cons show ?case by simp
qed

lemma be_val_enc: "be_val (be_enc k n) = n mod 256 ^ k"
  by (simp add: be_val_def be_enc_def le_val_enc)

lemma word_of_le_enc16 [simp]: "word_of_nat (le_val (le_enc 2 (unat (w :: u16)))) = w"
  using unsigned_less [of w, where ?'a = nat] by (simp add: le_val_enc)

lemma word_of_le_enc32 [simp]: "word_of_nat (le_val (le_enc 4 (unat (w :: u32)))) = w"
  using unsigned_less [of w, where ?'a = nat] by (simp add: le_val_enc)

lemma word_of_le_enc64 [simp]: "word_of_nat (le_val (le_enc 8 (unat (w :: u64)))) = w"
  using unsigned_less [of w, where ?'a = nat] by (simp add: le_val_enc)

lemma word_of_be_enc16 [simp]: "word_of_nat (be_val (be_enc 2 (unat (w :: u16)))) = w"
  using unsigned_less [of w, where ?'a = nat] by (simp add: be_val_enc)

text \<open>
  In-range reads from a slice whose elements are known as a concatenation: \<open>take k (drop off bs)\<close>
  is reduced by the lengths of the parts.
\<close>

lemma take_drop_append_skip:
  "length xs \<le> n \<Longrightarrow> take k (drop n (xs @ ys)) = take k (drop (n - length xs) ys)"
  by simp

lemma slice_of_simps [simp]:
  "backing (slice_of bs) = bs" "slen (slice_of bs) = length bs" "slice_ok (slice_of bs)"
  "slice_bytes (slice_of bs) = bs"
  by (simp_all add: slice_of_def slice_ok_def slice_bytes_def)

lemma le_u16_ok [slice_simps]:
  "off + 2 \<le> slen s \<Longrightarrow> le_u16 s off = Inr (word_of_nat (le_val (take 2 (drop off (backing s)))))"
  by (simp add: le_u16_def le_read_def)

lemma le_u32_ok [slice_simps]:
  "off + 4 \<le> slen s \<Longrightarrow> le_u32 s off = Inr (word_of_nat (le_val (take 4 (drop off (backing s)))))"
  by (simp add: le_u32_def le_read_def)

lemma le_u64_ok [slice_simps]:
  "off + 8 \<le> slen s \<Longrightarrow> le_u64 s off = Inr (word_of_nat (le_val (take 8 (drop off (backing s)))))"
  by (simp add: le_u64_def le_read_def)

lemma be_u16_ok [slice_simps]:
  "off + 2 \<le> slen s \<Longrightarrow> be_u16 s off = Inr (word_of_nat (be_val (take 2 (drop off (backing s)))))"
  by (simp add: be_u16_def)

lemma slice_index_ok [slice_simps]: "i < slen s \<Longrightarrow> slice_index s i = Inr (backing s ! i)"
  by (simp add: slice_index_def)

lemma slice_range_ok [slice_simps]:
  "lo \<le> hi \<Longrightarrow> hi \<le> length (backing s) \<Longrightarrow>
   slice_range s lo hi = Inr (take (hi - lo) (drop lo (backing s)))"
  by (simp add: slice_range_def)

lemma nth_as_take_drop: "i < length xs \<Longrightarrow> [xs ! i] = take 1 (drop i xs)"
  by (simp add: take_Suc_conv_app_nth hd_drop_conv_nth take_Suc)

text \<open>Decoding then encoding a field gives back its bytes, and adjacent fields join.\<close>

lemma le_enc_le_val: "length bs = k \<Longrightarrow> le_enc k (le_val bs) = bs"
proof (induction bs arbitrary: k)
  case Nil
  then show ?case by simp
next
  case (Cons b bs)
  have "unat b < 256" using unsigned_less [of b, where ?'a = nat] by simp
  moreover have "256 * w = 0" for w :: byte
  proof -
    have "(256 :: byte) = 0" by (simp add: word_unat_eq_iff)
    then show ?thesis by (metis mult_zero_left)
  qed
  then have "(word_of_nat (unat b + 256 * le_val bs) :: byte) = b" by simp
  ultimately show ?case using Cons by auto
qed

lemma le_enc_field:
  assumes "off + k \<le> length xs" "256 ^ k = (2 :: nat) ^ LENGTH('a)"
  shows "le_enc k (unat (word_of_nat (le_val (take k (drop off xs))) :: 'a :: len word)) =
         take k (drop off xs)"
proof -
  have "length (take k (drop off xs)) = k" using assms(1) by simp
  then have "le_val (take k (drop off xs)) < 2 ^ LENGTH('a)"
    using le_val_bound [of "take k (drop off xs)"] assms(2) by metis
  then show ?thesis using assms(1)
    by (simp add: unat_of_nat take_bit_eq_mod le_enc_le_val)
qed

lemma le_enc_fields [slice_simps]:
  "off + 2 \<le> length xs \<Longrightarrow> le_enc 2 (unat (word_of_nat (le_val (take 2 (drop off xs))) :: u16)) = take 2 (drop off xs)"
  "off + 4 \<le> length xs \<Longrightarrow> le_enc 4 (unat (word_of_nat (le_val (take 4 (drop off xs))) :: u32)) = take 4 (drop off xs)"
  "off + 8 \<le> length xs \<Longrightarrow> le_enc 8 (unat (word_of_nat (le_val (take 8 (drop off xs))) :: u64)) = take 8 (drop off xs)"
  by (rule le_enc_field, simp, simp)+

lemma take_join:
  "m = n + k \<Longrightarrow> take k (drop n xs) @ take j (drop m xs) = take (k + j) (drop n xs)"
  "m = n + k \<Longrightarrow> take k (drop n xs) @ take j (drop m xs) @ ys = take (k + j) (drop n xs) @ ys"
  by (simp_all add: take_add add.commute [of n k])

lemma nth_join:
  "m = n + 1 \<Longrightarrow> n < length xs \<Longrightarrow> xs ! n # take j (drop m xs) = take (1 + j) (drop n xs)"
  by (simp add: Cons_nth_drop_Suc [symmetric])

lemma le_enc_field_0 [slice_simps]:
  "4 \<le> length xs \<Longrightarrow> le_enc 4 (unat (word_of_nat (le_val (take 4 xs)) :: u32)) = take 4 xs"
  using le_enc_fields(2) [of 0 xs] by simp

lemma take_join_0:
  "take k xs @ take j (drop k xs) = take (k + j) xs"
  "take k xs @ take j (drop k xs) @ ys = take (k + j) xs @ ys"
  by (simp_all add: take_add)

lemmas wire_join = take_join take_join_0 nth_join nth_as_take_drop

lemma take_drop_of_prefix:
  "take n xs = ys \<Longrightarrow> off + k \<le> n \<Longrightarrow> take k (drop off xs) = take k (drop off ys)"
  by (auto simp: drop_take min_def)

lemma take_of_prefix: "take n xs = ys \<Longrightarrow> k \<le> n \<Longrightarrow> take k xs = take k ys"
  by (auto simp: min_def)

lemma nth_of_prefix: "take n xs = ys \<Longrightarrow> i < n \<Longrightarrow> xs ! i = ys ! i"
  by auto

lemmas of_prefix = take_drop_of_prefix take_of_prefix nth_of_prefix

section \<open>Bytes as text\<close>

definition byte_char :: "byte \<Rightarrow> char" where
  "byte_char b = char_of (unat b)"

definition char_byte :: "char \<Rightarrow> byte" where
  "char_byte c = word_of_nat (of_char c)"

definition string_of_bytes :: "byte list \<Rightarrow> string" where
  "string_of_bytes bs = map byte_char bs"

definition bytes_of_string :: "string \<Rightarrow> byte list" where
  "bytes_of_string s = map char_byte s"

lemma byte_char_inverse [simp]: "char_byte (byte_char b) = b"
  using unsigned_less [of b, where ?'a = nat] by (simp add: byte_char_def char_byte_def)

lemma char_byte_inverse [simp]: "byte_char (char_byte c) = c"
proof -
  have "(of_char c :: nat) < 256"
    by (metis char_of_char mod_less_divisor of_char_of zero_less_numeral)
  then show ?thesis by (simp add: byte_char_def char_byte_def unat_of_nat take_bit_eq_mod)
qed

lemma string_of_bytes_inverse [simp]: "string_of_bytes (bytes_of_string s) = s"
  by (simp add: string_of_bytes_def bytes_of_string_def o_def)

lemma bytes_of_string_inverse [simp]: "bytes_of_string (string_of_bytes bs) = bs"
  by (simp add: string_of_bytes_def bytes_of_string_def o_def)

lemma string_of_bytes_append [simp]:
  "string_of_bytes (xs @ ys) = string_of_bytes xs @ string_of_bytes ys"
  by (simp add: string_of_bytes_def)

lemma length_string_of_bytes [simp]: "length (string_of_bytes bs) = length bs"
  by (simp add: string_of_bytes_def)

lemma length_bytes_of_string [simp]: "length (bytes_of_string s) = length s"
  by (simp add: bytes_of_string_def)

text \<open>\<open>util.BytesToString\<close> and its twins stop at the first NUL byte.\<close>

definition nul_trim :: "byte list \<Rightarrow> byte list" where
  "nul_trim bs = takeWhile (\<lambda>b. b \<noteq> 0) bs"

lemma nul_trim_no_nul: "0 \<notin> set (nul_trim bs)"
  by (auto simp: nul_trim_def dest: set_takeWhileD)

lemma nul_trim_id: "0 \<notin> set bs \<Longrightarrow> nul_trim bs = bs"
  by (auto simp: nul_trim_def takeWhile_eq_all_conv)

lemma nul_trim_append_nul: "0 \<notin> set bs \<Longrightarrow> nul_trim (bs @ 0 # cs) = bs"
  by (subst nul_trim_def, subst takeWhile_append2) auto

section \<open>Numbers as text\<close>

text \<open>\<open>strconv.FormatUint\<close> and \<open>strconv.FormatInt\<close> in base 10 and 16 (lower case).\<close>

definition digit_char :: "nat \<Rightarrow> char" where
  "digit_char d = (if d < 10 then char_of (48 + d) else char_of (87 + d))"

fun nat_text :: "nat \<Rightarrow> nat \<Rightarrow> string" where
  "nat_text base n =
     (if base < 2 \<or> n < base then [digit_char n]
      else nat_text base (n div base) @ [digit_char (n mod base)])"

declare nat_text.simps [simp del]

definition dec_nat :: "nat \<Rightarrow> string" where
  "dec_nat n = nat_text 10 n"

definition hex_nat :: "nat \<Rightarrow> string" where
  "hex_nat n = nat_text 16 n"

definition dec_int :: "int \<Rightarrow> string" where
  "dec_int i = (if i < 0 then CHR ''-'' # dec_nat (nat (- i)) else dec_nat (nat i))"

definition is_digit :: "char \<Rightarrow> bool" where
  "is_digit c \<longleftrightarrow> (let n = (of_char c :: nat) in 48 \<le> n \<and> n \<le> 57)"

text \<open>The value of a digit string, the inverse of printing.\<close>

definition digit_val :: "char \<Rightarrow> nat" where
  "digit_val c = (let n = of_char c in if n < 58 then n - 48 else n - 87)"

fun text_val :: "nat \<Rightarrow> nat \<Rightarrow> string \<Rightarrow> nat" where
  "text_val base acc [] = acc"
| "text_val base acc (c # cs) = text_val base (base * acc + digit_val c) cs"

lemma text_val_append [simp]: "text_val b a (xs @ ys) = text_val b (text_val b a xs) ys"
  by (induction xs arbitrary: a) simp_all

lemma digit_val_char: "d < 16 \<Longrightarrow> digit_val (digit_char d) = d"
  by (auto simp: digit_val_def digit_char_def Let_def)

lemma text_val_nat_text: "1 < b \<Longrightarrow> b \<le> 16 \<Longrightarrow> text_val b 0 (nat_text b n) = n"
proof (induction b n rule: nat_text.induct)
  case (1 b n)
  show ?case
  proof (cases "n < b")
    case True
    with 1(3) have "n < 16" by linarith
    with True show ?thesis by (subst nat_text.simps) (simp add: digit_val_char)
  next
    case False
    have m: "n mod b < 16"
      using 1(2,3) mod_less_divisor [of b n] by linarith
    from False 1(2) have "\<not> (b < 2 \<or> n < b)" by simp
    from 1(1) [OF this 1(2,3)] False 1(2) m show ?thesis
      by (subst nat_text.simps) (simp add: digit_val_char)
  qed
qed

lemma nat_text_inject: "1 < b \<Longrightarrow> b \<le> 16 \<Longrightarrow> nat_text b m = nat_text b n \<longleftrightarrow> m = n"
  by (metis text_val_nat_text)

lemma dec_nat_inject [simp]: "dec_nat m = dec_nat n \<longleftrightarrow> m = n"
  by (simp add: dec_nat_def nat_text_inject)

lemma hex_nat_inject [simp]: "hex_nat m = hex_nat n \<longleftrightarrow> m = n"
  by (simp add: hex_nat_def nat_text_inject)

lemma nat_text_not_Nil [simp]: "nat_text b n \<noteq> []"
  by (subst nat_text.simps) simp

lemma dec_nat_not_Nil [simp]: "dec_nat n \<noteq> []" "hex_nat n \<noteq> []"
  by (simp_all add: dec_nat_def hex_nat_def)

lemma digit_char_is_digit: "d < 10 \<Longrightarrow> is_digit (digit_char d)"
  by (simp add: is_digit_def digit_char_def Let_def)

lemma nat_text_digits: "1 < b \<Longrightarrow> b \<le> 10 \<Longrightarrow> list_all is_digit (nat_text b n)"
proof (induction b n rule: nat_text.induct)
  case (1 b n)
  show ?case
  proof (cases "n < b")
    case True
    with 1(3) have "is_digit (digit_char n)" by (simp add: digit_char_is_digit)
    with True show ?thesis by (simp add: nat_text.simps [of b n])
  next
    case False
    have "n mod b < 10"
      using 1(2,3) mod_less_divisor [of b n] by linarith
    then have "is_digit (digit_char (n mod b))" by (rule digit_char_is_digit)
    moreover from False 1(2) have "\<not> (b < 2 \<or> n < b)" by simp
    ultimately show ?thesis
      using 1(1) [OF _ 1(2,3)] by (simp add: nat_text.simps [of b n])
  qed
qed

lemma dec_nat_digits: "c \<in> set (dec_nat n) \<Longrightarrow> is_digit c"
  using nat_text_digits [of 10 n] by (simp add: dec_nat_def list_all_iff)

lemma minus_not_digit: "\<not> is_digit CHR ''-''" "\<not> is_digit CHR ''.''" "\<not> is_digit CHR 0x00"
  by (simp_all add: is_digit_def Let_def)

lemma dec_nat_not_minus: "dec_nat n \<noteq> CHR ''-'' # s"
  using dec_nat_digits [of "CHR ''-''" n] minus_not_digit(1) by (metis list.set_intros(1))

lemma dec_int_inject [simp]: "dec_int i = dec_int j \<longleftrightarrow> i = j"
  by (auto simp: dec_int_def dec_nat_not_minus dec_nat_not_minus [symmetric])

lemma dec_int_not_Nil [simp]: "dec_int i \<noteq> []"
  by (simp add: dec_int_def)

section \<open>String helpers\<close>

definition lower_char :: "char \<Rightarrow> char" where
  "lower_char c =
     (let n = (of_char c :: nat) in if 65 \<le> n \<and> n \<le> 90 then char_of (n + 32) else c)"

definition upper_char :: "char \<Rightarrow> char" where
  "upper_char c =
     (let n = (of_char c :: nat) in if 97 \<le> n \<and> n \<le> 122 then char_of (n - 32) else c)"

definition to_lower :: "string \<Rightarrow> string" where
  "to_lower s = map lower_char s"

definition to_upper :: "string \<Rightarrow> string" where
  "to_upper s = map upper_char s"

lemma lower_char_idem [simp]: "lower_char (lower_char c) = lower_char c"
  by (simp add: lower_char_def Let_def)

lemma to_lower_idem [simp]: "to_lower (to_lower s) = to_lower s"
  by (simp add: to_lower_def o_def)

text \<open>\<open>strings.LastIndexByte\<close>; \<^const>\<open>None\<close> is Go's \<open>-1\<close>.\<close>

fun last_index :: "char \<Rightarrow> string \<Rightarrow> nat option" where
  "last_index c [] = None"
| "last_index c (x # xs) =
     (case last_index c xs of
        Some i \<Rightarrow> Some (Suc i)
      | None \<Rightarrow> if x = c then Some 0 else None)"

lemma last_index_None: "last_index c s = None \<longleftrightarrow> c \<notin> set s"
  by (induction s) (auto split: option.splits)

lemma last_index_Some:
  "last_index c s = Some i \<Longrightarrow> i < length s \<and> s ! i = c \<and> c \<notin> set (drop (Suc i) s)"
  by (induction s arbitrary: i) (auto simp: last_index_None split: option.splits if_splits)

text \<open>\<open>strings.Join\<close> and \<open>strings.Split\<close> with a one-byte separator.\<close>

fun join_with :: "'a \<Rightarrow> 'a list list \<Rightarrow> 'a list" where
  "join_with c [] = []"
| "join_with c [x] = x"
| "join_with c (x # y # ys) = x @ c # join_with c (y # ys)"

fun split_on :: "'a \<Rightarrow> 'a list \<Rightarrow> 'a list list" where
  "split_on c [] = [[]]"
| "split_on c (x # xs) =
     (if x = c then [] # split_on c xs
      else (case split_on c xs of [] \<Rightarrow> [[x]] | y # ys \<Rightarrow> (x # y) # ys))"

lemma split_on_not_Nil [simp]: "split_on c xs \<noteq> []"
  by (induction xs) (auto split: list.splits)

lemma split_on_append_sep: "c \<notin> set x \<Longrightarrow> split_on c (x @ c # rest) = x # split_on c rest"
  by (induction x) auto

lemma split_on_none: "c \<notin> set x \<Longrightarrow> split_on c x = [x]"
  by (induction x) auto

lemma split_join:
  "xs \<noteq> [] \<Longrightarrow> \<forall>x \<in> set xs. c \<notin> set x \<Longrightarrow> split_on c (join_with c xs) = xs"
  by (induction c xs rule: join_with.induct) (simp_all add: split_on_none split_on_append_sep)

text \<open>Joining separator-free parts is injective on non-empty lists of parts.\<close>

lemma join_with_inject:
  assumes "xs \<noteq> []" "ys \<noteq> []"
    and "\<forall>x \<in> set xs. c \<notin> set x" "\<forall>y \<in> set ys. c \<notin> set y"
    and "join_with c xs = join_with c ys"
  shows "xs = ys"
  using split_join [OF assms(1,3)] split_join [OF assms(2,4)] assms(5) by metis

section \<open>Binary search\<close>

text \<open>\<open>sort.Search n f\<close>, loop for loop.\<close>

function search_loop :: "(nat \<Rightarrow> bool) \<Rightarrow> nat \<Rightarrow> nat \<Rightarrow> nat" where
  "search_loop f i j =
     (if i < j then
        let h = (i + j) div 2
        in if \<not> f h then search_loop f (h + 1) j else search_loop f i h
      else i)"
  by pat_completeness auto
termination
  by (relation "measure (\<lambda>(f, i, j). j - i)") auto

declare search_loop.simps [simp del]

definition sort_search :: "nat \<Rightarrow> (nat \<Rightarrow> bool) \<Rightarrow> nat" where
  "sort_search n f = search_loop f 0 n"

text \<open>
  On a monotone predicate the search returns the boundary: everything below is false,
  everything from it on is true.
\<close>

lemma search_loop_boundary:
  assumes "\<forall>a b. a \<le> b \<and> b < n \<and> f a \<longrightarrow> f b"
    and "i \<le> j" "j \<le> n" "\<forall>k < i. \<not> f k" "\<forall>k. j \<le> k \<and> k < n \<longrightarrow> f k"
  shows "search_loop f i j \<le> n \<and> (\<forall>k < search_loop f i j. \<not> f k) \<and>
         (\<forall>k. search_loop f i j \<le> k \<and> k < n \<longrightarrow> f k)"
  using assms(2-)
proof (induction "j - i" arbitrary: i j rule: less_induct)
  case less
  show ?case
  proof (cases "i < j")
    case False
    then have "search_loop f i j = i" by (subst search_loop.simps) simp
    with False less.prems show ?thesis by simp
  next
    case True
    define h where "h = (i + j) div 2"
    from True have h: "i \<le> h" "h < j" by (auto simp: h_def)
    have eq: "search_loop f i j = (if f h then search_loop f i h else search_loop f (h + 1) j)"
      using True by (subst search_loop.simps) (simp add: h_def Let_def)
    show ?thesis
    proof (cases "f h")
      case True
      then have "\<forall>k. h \<le> k \<and> k < n \<longrightarrow> f k" using assms(1) by blast
      moreover have "h - i < j - i" "h \<le> n" using h less.prems(2) by simp_all
      moreover have e: "search_loop f i j = search_loop f i h" using eq True by simp
      ultimately show ?thesis
        unfolding e using less.hyps [of h i] h(1) less.prems(3) by blast
    next
      case False
      have "h < n" using h(2) less.prems(2) by simp
      then have "\<not> f k" if "k \<le> h" for k
        using that False assms(1) by blast
      then have "\<forall>k < h + 1. \<not> f k" by simp
      moreover have "j - (h + 1) < j - i" "h + 1 \<le> j" using h by simp_all
      moreover have e: "search_loop f i j = search_loop f (h + 1) j" using eq False by simp
      ultimately show ?thesis
        unfolding e using less.hyps [of j "h + 1"] less.prems(2,4) by blast
    qed
  qed
qed

lemma sort_search_boundary:
  assumes "\<forall>a b. a \<le> b \<and> b < n \<and> f a \<longrightarrow> f b"
  shows "sort_search n f \<le> n \<and> (\<forall>k < sort_search n f. \<not> f k) \<and>
         (\<forall>k. sort_search n f \<le> k \<and> k < n \<longrightarrow> f k)"
  unfolding sort_search_def
  by (rule search_loop_boundary [OF assms]) auto

section \<open>Instants and durations\<close>

text \<open>
  A \<open>time.Time\<close> is an integer number of nanoseconds since Go's zero time (1 January of
  year 1), so \<open>IsZero\<close> is equality with 0; \<open>time.Unix(0, ns)\<close> adds the distance to the
  Unix epoch.  A \<open>time.Duration\<close> is a 64-bit integer: \<open>Sub\<close> saturates at its ends, and
  arithmetic on durations wraps.
\<close>

type_synonym time = int
type_synonym duration = int

definition time_is_zero :: "time \<Rightarrow> bool" where
  "time_is_zero t \<longleftrightarrow> t = 0"

definition unix_epoch :: time where
  "unix_epoch = 62135596800 * 1000000000"

definition time_unix_ns :: "u64 \<Rightarrow> time" where
  "time_unix_ns ns = unix_epoch + sint ns"

definition max_duration :: duration where
  "max_duration = 2 ^ 63 - 1"

definition time_sub :: "time \<Rightarrow> time \<Rightarrow> duration" where
  "time_sub a b = max (- (2 ^ 63)) (min max_duration (a - b))"

text \<open>Go's integer division and remainder truncate towards zero.\<close>

definition go_div :: "int \<Rightarrow> int \<Rightarrow> int" where
  "go_div a b = sgn a * sgn b * (\<bar>a\<bar> div \<bar>b\<bar>)"

definition go_mod :: "int \<Rightarrow> int \<Rightarrow> int" where
  "go_mod a b = a - b * go_div a b"

definition wrap64 :: "int \<Rightarrow> int" where
  "wrap64 i = signed_take_bit 63 i"

definition int32 :: "int \<Rightarrow> int" where
  "int32 n = signed_take_bit 31 n"

lemma int32_id: "0 \<le> m \<Longrightarrow> m < 2 ^ 31 \<Longrightarrow> int32 m = m"
  by (simp add: int32_def signed_take_bit_int_eq_self)

definition is_duration :: "duration \<Rightarrow> bool" where
  "is_duration d \<longleftrightarrow> - (2 ^ 63) \<le> d \<and> d \<le> max_duration"

lemma wrap64_id: "is_duration i \<Longrightarrow> wrap64 i = i"
  by (simp add: wrap64_def is_duration_def max_duration_def signed_take_bit_int_eq_self)

lemma time_sub_gt: "is_duration w \<Longrightarrow> w < max_duration \<Longrightarrow> time_sub a b > w \<longleftrightarrow> a - b > w"
  by (auto simp: time_sub_def is_duration_def max_duration_def)

lemma time_sub_le: "is_duration w \<Longrightarrow> w < max_duration \<Longrightarrow> time_sub a b \<le> w \<longleftrightarrow> a - b \<le> w"
  using time_sub_gt [of w a b] by linarith

lemma time_sub_less: "is_duration w \<Longrightarrow> - (2 ^ 63) < w \<Longrightarrow> time_sub a b < w \<longleftrightarrow> a - b < w"
  by (auto simp: time_sub_def is_duration_def max_duration_def)

section \<open>Lists and association lists\<close>

text \<open>The last \<open>n\<close> elements of a list, oldest first: what a bounded log retains.\<close>

definition last_n :: "nat \<Rightarrow> 'a list \<Rightarrow> 'a list" where
  "last_n n xs = drop (length xs - n) xs"

lemma length_last_n [simp]: "length (last_n n xs) = min n (length xs)"
  by (simp add: last_n_def)

lemma last_n_all: "length xs \<le> n \<Longrightarrow> last_n n xs = xs"
  by (simp add: last_n_def)

lemma last_n_snoc: "0 < n \<Longrightarrow> last_n n (last_n n xs @ [x]) = last_n n (xs @ [x])"
  by (cases "n \<le> length xs") (simp_all add: last_n_def Suc_diff_le)

lemma last_n_last_n: "m \<le> n \<Longrightarrow> last_n m (last_n n xs) = last_n m xs"
  by (cases "n \<le> length xs") (simp_all add: last_n_def)

lemma map_of_update_same [simp]: "map_of (AList.update k v al) k = Some v"
  by (simp add: update_conv')

lemma map_of_update_other [simp]: "k \<noteq> k' \<Longrightarrow> map_of (AList.update k v al) k' = map_of al k'"
  by (simp add: update_conv')

lemma map_of_delete_same [simp]: "map_of (AList.delete k al) k = None"
  by (simp add: delete_conv')

lemma map_of_delete_other [simp]: "k \<noteq> k' \<Longrightarrow> map_of (AList.delete k al) k' = map_of al k'"
  by (simp add: delete_conv')

abbreviation distinct_keys :: "('k \<times> 'v) list \<Rightarrow> bool" where
  "distinct_keys al \<equiv> distinct (map fst al)"

lemma distinct_keys_update [simp]: "distinct_keys al \<Longrightarrow> distinct_keys (AList.update k v al)"
  by (rule distinct_update)

lemma distinct_keys_delete [simp]: "distinct_keys al \<Longrightarrow> distinct_keys (AList.delete k al)"
  by (rule distinct_delete)

lemma distinct_keys_filter [simp]: "distinct_keys al \<Longrightarrow> distinct_keys (filter P al)"
  by (rule distinct_map_filter)

lemma length_update_alist:
  "length (AList.update k v al) = (if k \<in> fst ` set al then length al else Suc (length al))"
  by (induction al) auto

lemma filter_keys_map_of:
  "distinct_keys al \<Longrightarrow>
   map_of (filter P al) k = (case map_of al k of Some v \<Rightarrow> if P (k, v) then Some v else None | None \<Rightarrow> None)"
  by (induction al) (auto split: option.splits simp: map_of_eq_None_iff)

lemma map_of_fold_delete:
  "map_of (fold AList.delete ks al) k = (if k \<in> set ks then None else map_of al k)"
  by (induction ks arbitrary: al) (auto simp: AList.delete_conv')

lemma distinct_keys_fold_delete: "distinct_keys al \<Longrightarrow> distinct_keys (fold AList.delete ks al)"
  by (induction ks arbitrary: al) simp_all

lemma length_filter_mono: "(\<And>x. x \<in> set xs \<Longrightarrow> P x \<Longrightarrow> Q x) \<Longrightarrow> length (filter P xs) \<le> length (filter Q xs)"
  by (induction xs) (auto simp: le_Suc_eq)

lemma set_update_alist: "set (AList.update k v al) \<subseteq> insert (k, v) (set al)"
  by (induction al) auto

end
