(* ===== verification/Event_Types.thy ===== *)
theory Event_Types
  imports Guard_Prelude
begin

text \<open>
  The canonical event and alert structures of \<open>src/pkg/types\<close>: event categories and their
  names, the unified event with one optional payload per category, alerts, incidents and the
  Alertmanager payload; the lookups between numeric and textual names; \<open>Event.Reset\<close>, which
  prepares a pooled event for reuse.  Also the byte helpers of \<open>src/internal/util/bytes.go\<close>.

  A nil-able pointer is an option, a fixed-size byte array a list of bytes, a signed integer of
  width \<open>w\<close> a \<open>w word\<close> read with \<^const>\<open>sint\<close>.
\<close>

section \<open>Event categories\<close>

type_synonym event_type = u32

abbreviation EventSyscall :: event_type where "EventSyscall \<equiv> 1"
abbreviation EventTCPConnect :: event_type where "EventTCPConnect \<equiv> 2"
abbreviation EventFileAccess :: event_type where "EventFileAccess \<equiv> 3"
abbreviation EventTLS :: event_type where "EventTLS \<equiv> 4"
abbreviation EventDNS :: event_type where "EventDNS \<equiv> 5"
abbreviation EventPrivesc :: event_type where "EventPrivesc \<equiv> 6"
abbreviation EventNetClose :: event_type where "EventNetClose \<equiv> 7"
abbreviation EventKmodLoad :: event_type where "EventKmodLoad \<equiv> 8"
abbreviation EventCgroupEsc :: event_type where "EventCgroupEsc \<equiv> 9"
abbreviation EventGPU :: event_type where "EventGPU \<equiv> 10"
abbreviation EventLSMAudit :: event_type where "EventLSMAudit \<equiv> 11"
abbreviation EventSequence :: event_type where "EventSequence \<equiv> 12"
abbreviation EventCloudAudit :: event_type where "EventCloudAudit \<equiv> 13"
abbreviation EventIOUring :: event_type where "EventIOUring \<equiv> 14"
abbreviation EventBPFProgram :: event_type where "EventBPFProgram \<equiv> 15"
abbreviation EventHTTPPlaintext :: event_type where "EventHTTPPlaintext \<equiv> 16"

definition eventTypeCanonical :: "(event_type \<times> string) list" where
  "eventTypeCanonical =
    [(EventSyscall, ''syscall''), (EventTCPConnect, ''tcp_connect''), (EventFileAccess, ''file''),
     (EventTLS, ''tls''), (EventDNS, ''dns''), (EventPrivesc, ''privesc''),
     (EventNetClose, ''net_close''), (EventKmodLoad, ''kmod''), (EventCgroupEsc, ''cgroup_esc''),
     (EventGPU, ''gpu''), (EventLSMAudit, ''lsm_audit''), (EventSequence, ''sequence''),
     (EventCloudAudit, ''cloud_audit''), (EventIOUring, ''io_uring''),
     (EventBPFProgram, ''bpf_program''), (EventHTTPPlaintext, ''http_plaintext'')]"

definition EventType_String :: "event_type \<Rightarrow> string" where
  "EventType_String et =
     (case map_of eventTypeCanonical et of Some s \<Rightarrow> s | None \<Rightarrow> ''unknown'')"

definition eventTypeNames :: "(string \<times> event_type) list" where
  "eventTypeNames =
    [(''syscall'', EventSyscall), (''network'', EventTCPConnect), (''tcp_connect'', EventTCPConnect),
     (''file'', EventFileAccess), (''file_access'', EventFileAccess), (''tls'', EventTLS),
     (''dns'', EventDNS), (''privesc'', EventPrivesc), (''net_close'', EventNetClose),
     (''kmod'', EventKmodLoad), (''kmod_load'', EventKmodLoad), (''cgroup_esc'', EventCgroupEsc),
     (''gpu'', EventGPU), (''lsm_audit'', EventLSMAudit), (''sequence'', EventSequence),
     (''cloud_audit'', EventCloudAudit), (''cloud'', EventCloudAudit), (''iouring'', EventIOUring),
     (''io_uring'', EventIOUring), (''bpf_program'', EventBPFProgram),
     (''bpf_prog_load'', EventBPFProgram), (''bpf'', EventBPFProgram),
     (''http_plaintext'', EventHTTPPlaintext), (''http'', EventHTTPPlaintext)]"

text \<open>
  \<open>UnmarshalYAML\<close>.  The YAML decoder is a third-party package: its two decoding attempts on
  the node are arguments (\<^const>\<open>None\<close> is a decoding error).
\<close>

datatype event_type_error = NotNumberOrString | UnknownEventType string

definition EventType_UnmarshalYAML ::
    "('node \<Rightarrow> u32 option) \<Rightarrow> ('node \<Rightarrow> string option) \<Rightarrow> 'node \<Rightarrow> event_type_error + event_type" where
  "EventType_UnmarshalYAML decode_u32 decode_string node =
     (case decode_u32 node of
        Some n \<Rightarrow> Inr n
      | None \<Rightarrow>
          (case decode_string node of
             None \<Rightarrow> Inl NotNumberOrString
           | Some s \<Rightarrow>
               (case map_of eventTypeNames (to_lower s) of
                  None \<Rightarrow> Inl (UnknownEventType s)
                | Some et \<Rightarrow> Inr et)))"

section \<open>BPF program names\<close>

definition bpfProgTypeNames :: "(u32 \<times> string) list" where
  "bpfProgTypeNames =
    [(0, ''SOCKET_FILTER''), (3, ''SCHED_CLS''), (4, ''SCHED_ACT''), (5, ''TRACEPOINT''),
     (6, ''XDP''), (8, ''CGROUP_SKB''), (11, ''SK_MSG''), (15, ''KPROBE''),
     (17, ''CGROUP_SOCK_ADDR''), (26, ''LSM''), (28, ''STRUCT_OPS''), (31, ''SK_LOOKUP'')]"

definition BPFCmdName :: "u32 \<Rightarrow> string" where
  "BPFCmdName cmd =
     (if cmd = 0 then ''MAP_CREATE''
      else if cmd = 1 then ''MAP_LOOKUP_ELEM''
      else if cmd = 2 then ''MAP_UPDATE_ELEM''
      else if cmd = 3 then ''MAP_DELETE_ELEM''
      else if cmd = 4 then ''MAP_GET_NEXT_KEY''
      else if cmd = 5 then ''PROG_LOAD''
      else if cmd = 6 then ''OBJ_PIN''
      else if cmd = 7 then ''OBJ_GET''
      else if cmd = 8 then ''PROG_ATTACH''
      else if cmd = 9 then ''PROG_DETACH''
      else ''BPF_CMD_'' @ dec_nat (unat cmd))"

definition BPFProgTypeName :: "u32 \<Rightarrow> string" where
  "BPFProgTypeName t =
     (case map_of bpfProgTypeNames t of
        Some name \<Rightarrow> name
      | None \<Rightarrow> ''UNKNOWN_'' @ dec_nat (unat t))"

section \<open>Payloads\<close>

record syscall_event =
  sc_nr :: u64
  sc_ret :: u64
  sc_args :: "u64 list"

abbreviation AFInet :: byte where "AFInet \<equiv> 2"
abbreviation AFInet6 :: byte where "AFInet6 \<equiv> 10"

record network_event =
  net_saddr :: "byte list"
  net_daddr :: "byte list"
  net_sport :: u16
  net_dport :: u16
  net_proto :: byte
  net_family :: byte

record file_event =
  fl_filename :: "byte list"
  fl_flags :: u32
  fl_mode :: u32
  fl_op :: byte
  fl_fdpath :: string
  fl_fdpath_truncated :: bool

record tls_event =
  tls_direction :: byte
  tls_data_len :: u32
  tls_data :: "byte list"
  tls_ja3 :: string
  tls_ja4 :: string
  tls_ja3s :: string

record http_event =
  http_direction :: byte
  http_data_len :: u32
  http_data :: "byte list"

record dns_event =
  dns_qname :: string
  dns_qtype :: u16
  dns_rcode :: u16
  dns_direction :: byte
  dns_response_ips :: "string list"

abbreviation DNSDirectionQuery :: byte where "DNSDirectionQuery \<equiv> 0"
abbreviation DNSDirectionResponse :: byte where "DNSDirectionResponse \<equiv> 1"

record privesc_event =
  pe_old_caps :: u64
  pe_new_caps :: u64

record network_close_event =
  nc_saddr :: "byte list"
  nc_daddr :: "byte list"
  nc_sport :: u16
  nc_dport :: u16
  nc_family :: byte
  nc_duration :: u64

record kmod_event =
  km_mod_name :: string
  km_from_tmpfs :: bool

record cgroup_escape_event =
  cg_init_id :: u64
  cg_new_id :: u64

record gpu_event =
  gpu_op :: byte
  gpu_dev_ptr :: u64
  gpu_host_ptr :: u64
  gpu_size :: u64

record iouring_event =
  io_op :: byte
  io_flags :: u32
  io_fd :: u32
  io_to_submit :: u32

record bpf_program_event =
  bp_cmd :: u32
  bp_prog_type :: u32
  bp_ret :: u32

record cloud_audit_event =
  ca_provider :: string
  ca_service :: string
  ca_action :: string
  ca_principal :: string
  ca_resource_arn :: string
  ca_source_ip :: string
  ca_user_agent :: string
  ca_error_code :: string
  ca_region :: string
  ca_event_id :: string

record trace_context =
  tc_trace_id :: string
  tc_span_id :: string
  tc_trace_flags :: string
  tc_trace_state :: string
  tc_source :: string

record enrichment_info =
  en_pod_name :: string
  en_namespace :: string
  en_pod_uid :: string
  en_node_name :: string
  en_labels :: "(string \<times> string) list"
  en_annotations :: "(string \<times> string) list"
  en_container_id :: string
  en_container_name :: string
  en_container_image :: string
  en_runtime_source :: string

section \<open>The unified event\<close>

record event =
  ev_type :: event_type
  ev_timestamp :: u64
  ev_pid :: u32
  ev_tgid :: u32
  ev_ppid :: u32
  ev_uid :: u32
  ev_comm :: "byte list"
  ev_parent_comm :: "byte list"
  ev_syscall :: "syscall_event option"
  ev_network :: "network_event option"
  ev_file :: "file_event option"
  ev_tls :: "tls_event option"
  ev_dns :: "dns_event option"
  ev_privesc :: "privesc_event option"
  ev_net_close :: "network_close_event option"
  ev_kmod :: "kmod_event option"
  ev_cgroup_esc :: "cgroup_escape_event option"
  ev_gpu :: "gpu_event option"
  ev_cloud_audit :: "cloud_audit_event option"
  ev_iouring :: "iouring_event option"
  ev_bpf_program :: "bpf_program_event option"
  ev_http_plaintext :: "http_event option"
  ev_trace_context :: "trace_context option"
  ev_enrichment :: "enrichment_info option"
  ev_proc_args :: string
  ev_proc_args_truncated :: bool

text \<open>The zero value of the struct, and of the enrichment block.\<close>

definition zero_event :: event where
  "zero_event =
    \<lparr>ev_type = 0, ev_timestamp = 0, ev_pid = 0, ev_tgid = 0, ev_ppid = 0, ev_uid = 0,
     ev_comm = replicate 16 0, ev_parent_comm = replicate 16 0, ev_syscall = None,
     ev_network = None, ev_file = None, ev_tls = None, ev_dns = None, ev_privesc = None,
     ev_net_close = None, ev_kmod = None, ev_cgroup_esc = None, ev_gpu = None,
     ev_cloud_audit = None, ev_iouring = None, ev_bpf_program = None, ev_http_plaintext = None,
     ev_trace_context = None, ev_enrichment = None, ev_proc_args = '''',
     ev_proc_args_truncated = False\<rparr>"

definition zero_enrichment :: enrichment_info where
  "zero_enrichment =
    \<lparr>en_pod_name = '''', en_namespace = '''', en_pod_uid = '''', en_node_name = '''',
     en_labels = [], en_annotations = [], en_container_id = '''', en_container_name = '''',
     en_container_image = '''', en_runtime_source = ''''\<rparr>"

text \<open>\<open>Event.Reset\<close>, assignment for assignment.\<close>

definition Event_Reset :: "event \<Rightarrow> event" where
  "Event_Reset e =
    e\<lparr>ev_syscall := None, ev_network := None, ev_file := None, ev_tls := None, ev_dns := None,
      ev_privesc := None, ev_net_close := None, ev_kmod := None, ev_cgroup_esc := None,
      ev_gpu := None, ev_cloud_audit := None, ev_iouring := None, ev_bpf_program := None,
      ev_trace_context := None, ev_enrichment := None, ev_proc_args := '''',
      ev_proc_args_truncated := False\<rparr>"

section \<open>Alerts, incidents, payloads\<close>

type_synonym severity = string

abbreviation SeverityWarning :: severity where "SeverityWarning \<equiv> ''warning''"
abbreviation SeverityCritical :: severity where "SeverityCritical \<equiv> ''critical''"

record process_node =
  pn_pid :: u32
  pn_ppid :: u32
  pn_comm :: string

datatype detail_value = DetailString string | DetailInt int

record alert =
  al_id :: string
  al_timestamp :: time
  al_rule_id :: string
  al_rule_name :: string
  al_severity :: severity
  al_pid :: u32
  al_comm :: string
  al_message :: string
  al_details :: "(string \<times> detail_value) list"
  al_trace_id :: string
  al_span_id :: string
  al_trace_context :: "trace_context option"
  al_enrichment :: enrichment_info
  al_event :: event
  al_process_tree :: "process_node list"
  al_fingerprint :: string
  al_action :: string
  al_enforced :: bool
  al_pre_alert_context :: "event list"
  al_count :: int
  al_first_seen :: time
  al_last_seen :: time
  al_class :: string

definition zero_alert :: alert where
  "zero_alert =
    \<lparr>al_id = '''', al_timestamp = 0, al_rule_id = '''', al_rule_name = '''', al_severity = '''',
     al_pid = 0, al_comm = '''', al_message = '''', al_details = [], al_trace_id = '''',
     al_span_id = '''', al_trace_context = None, al_enrichment = zero_enrichment,
     al_event = zero_event, al_process_tree = [], al_fingerprint = '''', al_action = '''',
     al_enforced = False, al_pre_alert_context = [], al_count = 0, al_first_seen = 0,
     al_last_seen = 0, al_class = ''''\<rparr>"

record incident =
  in_id :: string
  in_first_seen :: time
  in_last_seen :: time
  in_pid :: u32
  in_namespace :: string
  in_alert_ids :: "string list"
  in_alert_count :: int
  in_severity :: severity
  in_status :: string
  in_rule_ids :: "string list"

record alert_labels =
  lb_alertname :: string
  lb_rule_id :: string
  lb_severity :: string
  lb_pod :: string
  lb_namespace :: string
  lb_container_id :: string
  lb_pod_labels :: "(string \<times> string) list"

record alert_annotations =
  an_summary :: string
  an_description :: string

record alert_payload =
  pl_labels :: alert_labels
  pl_annotations :: alert_annotations
  pl_generator_url :: string

section \<open>Byte helpers of the util package\<close>

definition BytesToString :: "byte list \<Rightarrow> string" where
  "BytesToString b = string_of_bytes (nul_trim b)"

text \<open>
  \<open>net.IP.String\<close> on four bytes is dotted decimal.  On sixteen bytes it is dotted decimal for
  an IPv4-mapped address and otherwise the compressed hexadecimal form, which is an argument
  here (\<open>ip6_text\<close>); on any other length it is a placeholder the code never prints.
\<close>

definition dotted_quad :: "byte list \<Rightarrow> string" where
  "dotted_quad b = join_with CHR ''.'' (map (\<lambda>x. dec_nat (unat x)) b)"

definition ipv4_mapped :: "byte list \<Rightarrow> bool" where
  "ipv4_mapped b \<longleftrightarrow> length b = 16 \<and> take 10 b = replicate 10 0 \<and> b ! 10 = 0xff \<and> b ! 11 = 0xff"

definition IP_String :: "(byte list \<Rightarrow> string) \<Rightarrow> byte list \<Rightarrow> string" where
  "IP_String ip6_text b =
     (if length b = 4 then dotted_quad b
      else if ipv4_mapped b then dotted_quad (drop 12 b)
      else ip6_text b)"

definition FormatIP :: "(byte list \<Rightarrow> string) \<Rightarrow> byte list \<Rightarrow> byte \<Rightarrow> string" where
  "FormatIP ip6_text addr family =
     (if family = AFInet6 then IP_String ip6_text addr
      else if length addr < 4 then ''<invalid>''
      else IP_String ip6_text (take 4 addr))"

definition FormatIP16 :: "(byte list \<Rightarrow> string) \<Rightarrow> byte list \<Rightarrow> byte \<Rightarrow> string" where
  "FormatIP16 ip6_text addr family =
     (if family = AFInet6 then IP_String ip6_text addr
      else IP_String ip6_text (take 4 addr))"

section \<open>Facts\<close>

lemma eventTypeNames_canonical:
  "list_all (\<lambda>(et, s). map_of eventTypeNames (to_lower s) = Some et) eventTypeCanonical"
  by code_simp

lemma eventTypeCanonical_distinct: "distinct_keys eventTypeCanonical"
  by code_simp

lemma dotted_quad_inject:
  assumes "length a = 4" "length b = 4"
  shows "dotted_quad a = dotted_quad b \<longleftrightarrow> a = b"
proof
  assume eq: "dotted_quad a = dotted_quad b"
  have dots: "CHR ''.'' \<notin> set (dec_nat n)" for n
    using dec_nat_digits [of "CHR ''.''" n] minus_not_digit(2) by blast
  have "map (\<lambda>x. dec_nat (unat x)) a = map (\<lambda>x. dec_nat (unat x)) b"
    by (rule join_with_inject [where c = "CHR ''.''"])
      (use assms dots eq in \<open>auto simp: dotted_quad_def\<close>)
  then show "a = b"
    by (rule map_injective) (simp add: inj_def word_unat_eq_iff)
qed simp

lemma BytesToString_no_nul: "CHR 0x00 \<notin> set (BytesToString b)"
proof
  assume "CHR 0x00 \<in> set (BytesToString b)"
  then obtain x where "x \<in> set (nul_trim b)" "byte_char x = CHR 0x00"
    by (auto simp: BytesToString_def string_of_bytes_def)
  moreover from this(2) have "x = char_byte (CHR 0x00)" by (metis byte_char_inverse)
  ultimately show False using nul_trim_no_nul [of b] by (simp add: char_byte_def)
qed

section \<open>Properties\<close>

text \<open>
  Whatever way a YAML decoder reads strings, the canonical name of every event
  category, as printed by \<open>EventType.String\<close>, is read back by \<open>UnmarshalYAML\<close> as that category,
  also when its letters are written in upper case.
\<close>

theorem EventType_name_roundtrip:
  assumes "et \<in> fst ` set eventTypeCanonical"
    and "dec_u32 node = None" and "dec_str node = Some s"
    and "to_lower s = EventType_String et"
  shows "EventType_UnmarshalYAML dec_u32 dec_str node = Inr et"
proof -
  from assms(1) obtain name where n: "(et, name) \<in> set eventTypeCanonical" by auto
  then have "EventType_String et = name"
    using eventTypeCanonical_distinct by (simp add: EventType_String_def)
  moreover from n have "map_of eventTypeNames (to_lower name) = Some et"
    using eventTypeNames_canonical by (auto simp: list_all_iff)
  ultimately have "map_of eventTypeNames (to_lower s) = Some et"
    using assms(4) by (metis to_lower_idem)
  with assms(2,3) show ?thesis by (simp add: EventType_UnmarshalYAML_def)
qed

theorem EventType_name_roundtrip_witness:
  "EventType_UnmarshalYAML (\<lambda>_ :: string. None) Some ''IO_Uring'' = Inr EventIOUring"
  by (rule EventType_name_roundtrip) code_simp+

text \<open>
  Pool hygiene: after \<open>Reset\<close> every optional part of a pooled event except the plaintext HTTP
  payload is cleared; the HTTP payload survives into the next use of the pooled event.
\<close>

lemma Event_Reset_clears:
  "ev_syscall (Event_Reset e) = None \<and> ev_network (Event_Reset e) = None \<and>
   ev_file (Event_Reset e) = None \<and> ev_tls (Event_Reset e) = None \<and>
   ev_dns (Event_Reset e) = None \<and> ev_privesc (Event_Reset e) = None \<and>
   ev_net_close (Event_Reset e) = None \<and> ev_kmod (Event_Reset e) = None \<and>
   ev_cgroup_esc (Event_Reset e) = None \<and> ev_gpu (Event_Reset e) = None \<and>
   ev_cloud_audit (Event_Reset e) = None \<and> ev_iouring (Event_Reset e) = None \<and>
   ev_bpf_program (Event_Reset e) = None \<and> ev_trace_context (Event_Reset e) = None \<and>
   ev_enrichment (Event_Reset e) = None \<and> ev_proc_args (Event_Reset e) = '''' \<and>
   ev_http_plaintext (Event_Reset e) = ev_http_plaintext e"
  by (simp add: Event_Reset_def)

end
