(* ===== verification/Wire_Events.thy ===== *)
theory Wire_Events
  imports Event_Types
begin

text \<open>
  Ring-buffer samples: the raw event structures of \<open>src/internal/bpf/events.go\<close>, their
  \<open>Parse...EventInto\<close> functions, the \<open>ToTypesEvent\<close> converters and the routing of network
  samples in \<open>src/internal/collector/network_parse.go\<close>.

  A parser takes the sample as a slice and the structure it fills, and returns the filled
  structure; a size error and an index panic are values of \<^typ>\<open>parse_error\<close>.  Reads are
  at the offsets the running variable \<open>offset\<close> has in the code.  \<open>copy\<close> of an equally long
  slice into a fixed array is an assignment of the array.

  The encoders \<open>enc_*\<close> write the packed little-endian layouts documented above the structures;
  the locale \<open>wire_codec\<close> is the contract between a layout and its parser.
\<close>

named_theorems wire_parsers \<open>parsers and their in-range evaluation\<close>
named_theorems wire_layouts \<open>documented layouts\<close>
named_theorems wire_wf \<open>array lengths of the raw structures\<close>

section \<open>Raw structures\<close>

text \<open>The eight leading fields shared by the structures, in the order they are declared.\<close>

record raw_hdr =
  rh_type :: u32
  rh_timestamp :: u64
  rh_pid :: u32
  rh_tgid :: u32
  rh_ppid :: u32
  rh_uid :: u32
  rh_comm :: "byte list"
  rh_parent_comm :: "byte list"

record SyscallEvent =
  rs_type :: u32
  rs_timestamp :: u64
  rs_pid :: u32
  rs_tgid :: u32
  rs_uid :: u32
  rs_comm :: "byte list"
  rs_nr :: u64
  rs_ret :: u64
  rs_args :: "u64 list"

record NetworkEvent = raw_hdr +
  rn_saddr :: "byte list"
  rn_daddr :: "byte list"
  rn_sport :: u16
  rn_dport :: u16
  rn_proto :: byte
  rn_family :: byte

record FileaccessEvent = raw_hdr +
  rf_filename :: "byte list"
  rf_flags :: u32
  rf_mode :: u32
  rf_op :: byte
  rf_fd_truncated :: byte

record PrivescRawEvent = raw_hdr +
  rp_old_caps :: u64
  rp_new_caps :: u64

record NetworkCloseRawEvent = raw_hdr +
  rc_saddr :: "byte list"
  rc_daddr :: "byte list"
  rc_sport :: u16
  rc_dport :: u16
  rc_proto :: byte
  rc_family :: byte
  rc_duration_ns :: u64

record raw_hdr_short =
  rk_type :: u32
  rk_timestamp :: u64
  rk_pid :: u32
  rk_uid :: u32
  rk_comm :: "byte list"
  rk_parent_comm :: "byte list"
  rk_ppid :: u32

record KmodRawEvent = raw_hdr_short +
  rk_mod_name :: "byte list"
  rk_from_tmpfs :: byte

record CgroupEscapeRawEvent = raw_hdr_short +
  rk_init_cgroup_id :: u64
  rk_new_cgroup_id :: u64

record IOUringRawEvent = raw_hdr +
  ri_op :: byte
  ri_flags :: u32
  ri_fd :: u32
  ri_to_submit :: u32

record BpfMonitorRawEvent = raw_hdr +
  rb_cmd :: u32
  rb_prog_type :: u32
  rb_ret :: u32

record TlsClientHelloRawEvent = raw_hdr +
  rt_dport :: u16
  rt_captured_len :: u16
  rt_original_len :: u32
  rt_data :: "byte list"

section \<open>Parsers\<close>

definition parse_hdr :: "gslice \<Rightarrow> 'a raw_hdr_scheme \<Rightarrow> parse_error + 'a raw_hdr_scheme" where
  "parse_hdr raw out =
    sbind (le_u32 raw 0) (\<lambda>ty.
    sbind (le_u64 raw 4) (\<lambda>ts.
    sbind (le_u32 raw 12) (\<lambda>pid.
    sbind (le_u32 raw 16) (\<lambda>tgid.
    sbind (le_u32 raw 20) (\<lambda>ppid.
    sbind (le_u32 raw 24) (\<lambda>uid.
    sbind (slice_range raw 28 44) (\<lambda>comm.
    sbind (slice_range raw 44 60) (\<lambda>pcomm.
    Inr (out\<lparr>rh_type := ty, rh_timestamp := ts, rh_pid := pid, rh_tgid := tgid, rh_ppid := ppid,
             rh_uid := uid, rh_comm := comm, rh_parent_comm := pcomm\<rparr>)))))))))"

definition parse_hdr_short ::
    "gslice \<Rightarrow> 'a raw_hdr_short_scheme \<Rightarrow> parse_error + 'a raw_hdr_short_scheme" where
  "parse_hdr_short raw out =
    sbind (le_u32 raw 0) (\<lambda>ty.
    sbind (le_u64 raw 4) (\<lambda>ts.
    sbind (le_u32 raw 12) (\<lambda>pid.
    sbind (le_u32 raw 16) (\<lambda>uid.
    sbind (slice_range raw 20 36) (\<lambda>comm.
    sbind (slice_range raw 36 52) (\<lambda>pcomm.
    sbind (le_u32 raw 52) (\<lambda>ppid.
    Inr (out\<lparr>rk_type := ty, rk_timestamp := ts, rk_pid := pid, rk_uid := uid, rk_comm := comm,
             rk_parent_comm := pcomm, rk_ppid := ppid\<rparr>))))))))"

definition ParseSyscallEventInto :: "gslice \<Rightarrow> SyscallEvent \<Rightarrow> parse_error + SyscallEvent" where
  "ParseSyscallEventInto raw out =
    (if slen raw < 104 then Inl (RawTooSmall (slen raw) 104)
     else
      sbind (le_u32 raw 0) (\<lambda>ty.
      sbind (le_u64 raw 4) (\<lambda>ts.
      sbind (le_u32 raw 12) (\<lambda>pid.
      sbind (le_u32 raw 16) (\<lambda>tgid.
      sbind (le_u32 raw 20) (\<lambda>uid.
      sbind (slice_range raw 24 40) (\<lambda>comm.
      sbind (le_u64 raw 40) (\<lambda>nr.
      sbind (le_u64 raw 48) (\<lambda>ret.
      sbind (le_u64 raw 56) (\<lambda>a0.
      sbind (le_u64 raw 64) (\<lambda>a1.
      sbind (le_u64 raw 72) (\<lambda>a2.
      sbind (le_u64 raw 80) (\<lambda>a3.
      sbind (le_u64 raw 88) (\<lambda>a4.
      sbind (le_u64 raw 96) (\<lambda>a5.
      Inr (out\<lparr>rs_type := ty, rs_timestamp := ts, rs_pid := pid, rs_tgid := tgid, rs_uid := uid,
               rs_comm := comm, rs_nr := nr, rs_ret := ret,
               rs_args := [a0, a1, a2, a3, a4, a5]\<rparr>))))))))))))))))"

definition ParseNetworkEventInto :: "gslice \<Rightarrow> NetworkEvent \<Rightarrow> parse_error + NetworkEvent" where
  "ParseNetworkEventInto raw out =
    (if slen raw < 98 then Inl (RawTooSmall (slen raw) 98)
     else
      sbind (parse_hdr raw out) (\<lambda>out.
      sbind (slice_range raw 60 76) (\<lambda>saddr.
      sbind (slice_range raw 76 92) (\<lambda>daddr.
      sbind (le_u16 raw 92) (\<lambda>sport.
      sbind (le_u16 raw 94) (\<lambda>dport.
      sbind (slice_index raw 96) (\<lambda>proto.
      sbind (slice_index raw 97) (\<lambda>family.
      Inr (out\<lparr>rn_saddr := saddr, rn_daddr := daddr, rn_sport := sport, rn_dport := dport,
               rn_proto := proto, rn_family := family\<rparr>)))))))))"

definition ParseFileaccessEventInto ::
    "gslice \<Rightarrow> FileaccessEvent \<Rightarrow> parse_error + FileaccessEvent" where
  "ParseFileaccessEventInto raw out =
    (if slen raw < 326 then Inl (RawTooSmall (slen raw) 326)
     else
      sbind (parse_hdr raw out) (\<lambda>out.
      sbind (slice_range raw 60 316) (\<lambda>filename.
      sbind (le_u32 raw 316) (\<lambda>flags.
      sbind (le_u32 raw 320) (\<lambda>mode.
      sbind (slice_index raw 324) (\<lambda>op.
      sbind (slice_index raw 325) (\<lambda>trunc.
      Inr (out\<lparr>rf_filename := filename, rf_flags := flags, rf_mode := mode, rf_op := op,
               rf_fd_truncated := trunc\<rparr>))))))))"

definition ParsePrivescEventInto ::
    "gslice \<Rightarrow> PrivescRawEvent \<Rightarrow> parse_error + PrivescRawEvent" where
  "ParsePrivescEventInto raw out =
    (if slen raw < 92 then Inl (RawTooSmall (slen raw) 92)
     else
      sbind (parse_hdr raw out) (\<lambda>out.
      sbind (le_u64 raw 76) (\<lambda>old.
      sbind (le_u64 raw 84) (\<lambda>new.
      Inr (out\<lparr>rp_old_caps := old, rp_new_caps := new\<rparr>)))))"

definition ParseNetworkCloseEventInto ::
    "gslice \<Rightarrow> NetworkCloseRawEvent \<Rightarrow> parse_error + NetworkCloseRawEvent" where
  "ParseNetworkCloseEventInto raw out =
    (if slen raw < 84 then Inl (RawTooSmall (slen raw) 84)
     else
      sbind (parse_hdr raw out) (\<lambda>out.
      sbind (slice_range raw 60 76) (\<lambda>saddr.
      sbind (slice_range raw 76 92) (\<lambda>daddr.
      sbind (le_u16 raw 92) (\<lambda>sport.
      sbind (le_u16 raw 94) (\<lambda>dport.
      sbind (slice_index raw 96) (\<lambda>proto.
      sbind (slice_index raw 97) (\<lambda>family.
      sbind (le_u64 raw 76) (\<lambda>dur.
      Inr (out\<lparr>rc_saddr := saddr, rc_daddr := daddr, rc_sport := sport, rc_dport := dport,
               rc_proto := proto, rc_family := family, rc_duration_ns := dur\<rparr>))))))))))"

definition ParseKmodEventInto :: "gslice \<Rightarrow> KmodRawEvent \<Rightarrow> parse_error + KmodRawEvent" where
  "ParseKmodEventInto raw out =
    (if slen raw < 121 then Inl (RawTooSmall (slen raw) 121)
     else
      sbind (parse_hdr_short raw out) (\<lambda>out.
      sbind (slice_range raw 56 120) (\<lambda>name.
      sbind (slice_index raw 120) (\<lambda>tmpfs.
      Inr (out\<lparr>rk_mod_name := name, rk_from_tmpfs := tmpfs\<rparr>)))))"

definition ParseCgroupEscapeEventInto ::
    "gslice \<Rightarrow> CgroupEscapeRawEvent \<Rightarrow> parse_error + CgroupEscapeRawEvent" where
  "ParseCgroupEscapeEventInto raw out =
    (if slen raw < 72 then Inl (RawTooSmall (slen raw) 72)
     else
      sbind (parse_hdr_short raw out) (\<lambda>out.
      sbind (le_u64 raw 56) (\<lambda>init.
      sbind (le_u64 raw 64) (\<lambda>new.
      Inr (out\<lparr>rk_init_cgroup_id := init, rk_new_cgroup_id := new\<rparr>)))))"

definition ParseIOUringEventInto ::
    "gslice \<Rightarrow> IOUringRawEvent \<Rightarrow> parse_error + IOUringRawEvent" where
  "ParseIOUringEventInto raw out =
    (if slen raw < 73 then Inl (RawTooSmall (slen raw) 73)
     else
      sbind (parse_hdr raw out) (\<lambda>out.
      sbind (slice_index raw 60) (\<lambda>op.
      sbind (le_u32 raw 61) (\<lambda>flags.
      sbind (le_u32 raw 65) (\<lambda>fd.
      sbind (le_u32 raw 69) (\<lambda>tosub.
      Inr (out\<lparr>ri_op := op, ri_flags := flags, ri_fd := fd, ri_to_submit := tosub\<rparr>)))))))"

definition ParseBpfMonitorEventInto ::
    "gslice \<Rightarrow> BpfMonitorRawEvent \<Rightarrow> parse_error + BpfMonitorRawEvent" where
  "ParseBpfMonitorEventInto raw out =
    (if slen raw < 72 then Inl (RawTooSmall (slen raw) 72)
     else
      sbind (parse_hdr raw out) (\<lambda>out.
      sbind (le_u32 raw 60) (\<lambda>cmd.
      sbind (le_u32 raw 64) (\<lambda>pty.
      sbind (le_u32 raw 68) (\<lambda>ret.
      Inr (out\<lparr>rb_cmd := cmd, rb_prog_type := pty, rb_ret := ret\<rparr>))))))"

text \<open>\<open>copy(dst, src)\<close>: the common prefix length is overwritten, the rest of \<open>dst\<close> stays.\<close>

definition go_copy :: "byte list \<Rightarrow> byte list \<Rightarrow> byte list" where
  "go_copy dst src = take (length dst) src @ drop (length src) dst"

definition ParseTlsClientHelloEventInto ::
    "gslice \<Rightarrow> TlsClientHelloRawEvent \<Rightarrow> parse_error + TlsClientHelloRawEvent" where
  "ParseTlsClientHelloEventInto raw out =
    (if slen raw < 69 then Inl (RawTooSmall (slen raw) 69)
     else
      sbind (parse_hdr raw out) (\<lambda>out.
      sbind (be_u16 raw 60) (\<lambda>dport.
      sbind (le_u16 raw 62) (\<lambda>cap.
      sbind (le_u32 raw 64) (\<lambda>orig.
      let cap' = (if cap > 512 then 512 else cap) in
      sbind (slice_range raw 68 (68 + unat cap')) (\<lambda>data.
      Inr (out\<lparr>rt_dport := dport, rt_captured_len := cap', rt_original_len := orig,
               rt_data := go_copy (rt_data out) data\<rparr>)))))))"

section \<open>Zero values and the allocating wrappers\<close>

definition zero_hdr :: raw_hdr where
  "zero_hdr = \<lparr>rh_type = 0, rh_timestamp = 0, rh_pid = 0, rh_tgid = 0, rh_ppid = 0, rh_uid = 0,
               rh_comm = replicate 16 0, rh_parent_comm = replicate 16 0\<rparr>"

definition zero_hdr_short :: raw_hdr_short where
  "zero_hdr_short = \<lparr>rk_type = 0, rk_timestamp = 0, rk_pid = 0, rk_uid = 0,
                     rk_comm = replicate 16 0, rk_parent_comm = replicate 16 0, rk_ppid = 0\<rparr>"

definition zero_SyscallEvent :: SyscallEvent where
  "zero_SyscallEvent = \<lparr>rs_type = 0, rs_timestamp = 0, rs_pid = 0, rs_tgid = 0, rs_uid = 0,
     rs_comm = replicate 16 0, rs_nr = 0, rs_ret = 0, rs_args = replicate 6 0\<rparr>"

definition zero_NetworkEvent :: NetworkEvent where
  "zero_NetworkEvent = raw_hdr.extend zero_hdr
     (NetworkEvent.fields (replicate 16 0) (replicate 16 0) 0 0 0 0)"

definition zero_FileaccessEvent :: FileaccessEvent where
  "zero_FileaccessEvent = raw_hdr.extend zero_hdr
     (FileaccessEvent.fields (replicate 256 0) 0 0 0 0)"

definition zero_PrivescRawEvent :: PrivescRawEvent where
  "zero_PrivescRawEvent = raw_hdr.extend zero_hdr (PrivescRawEvent.fields 0 0)"

definition zero_NetworkCloseRawEvent :: NetworkCloseRawEvent where
  "zero_NetworkCloseRawEvent = raw_hdr.extend zero_hdr
     (NetworkCloseRawEvent.fields (replicate 16 0) (replicate 16 0) 0 0 0 0 0)"

definition zero_KmodRawEvent :: KmodRawEvent where
  "zero_KmodRawEvent = raw_hdr_short.extend zero_hdr_short (KmodRawEvent.fields (replicate 64 0) 0)"

definition zero_CgroupEscapeRawEvent :: CgroupEscapeRawEvent where
  "zero_CgroupEscapeRawEvent =
     raw_hdr_short.extend zero_hdr_short (CgroupEscapeRawEvent.fields 0 0)"

definition zero_IOUringRawEvent :: IOUringRawEvent where
  "zero_IOUringRawEvent = raw_hdr.extend zero_hdr (IOUringRawEvent.fields 0 0 0 0)"

definition zero_BpfMonitorRawEvent :: BpfMonitorRawEvent where
  "zero_BpfMonitorRawEvent = raw_hdr.extend zero_hdr (BpfMonitorRawEvent.fields 0 0 0)"

definition zero_TlsClientHelloRawEvent :: TlsClientHelloRawEvent where
  "zero_TlsClientHelloRawEvent = raw_hdr.extend zero_hdr
     (TlsClientHelloRawEvent.fields 0 0 0 (replicate 512 0))"

definition ParseSyscallEvent :: "gslice \<Rightarrow> parse_error + SyscallEvent" where
  "ParseSyscallEvent raw = ParseSyscallEventInto raw zero_SyscallEvent"

definition ParseNetworkEvent :: "gslice \<Rightarrow> parse_error + NetworkEvent" where
  "ParseNetworkEvent raw = ParseNetworkEventInto raw zero_NetworkEvent"

definition ParseFileaccessEvent :: "gslice \<Rightarrow> parse_error + FileaccessEvent" where
  "ParseFileaccessEvent raw = ParseFileaccessEventInto raw zero_FileaccessEvent"

definition ParsePrivescEvent :: "gslice \<Rightarrow> parse_error + PrivescRawEvent" where
  "ParsePrivescEvent raw = ParsePrivescEventInto raw zero_PrivescRawEvent"

definition ParseNetworkCloseEvent :: "gslice \<Rightarrow> parse_error + NetworkCloseRawEvent" where
  "ParseNetworkCloseEvent raw = ParseNetworkCloseEventInto raw zero_NetworkCloseRawEvent"

definition ParseKmodEvent :: "gslice \<Rightarrow> parse_error + KmodRawEvent" where
  "ParseKmodEvent raw = ParseKmodEventInto raw zero_KmodRawEvent"

definition ParseCgroupEscapeEvent :: "gslice \<Rightarrow> parse_error + CgroupEscapeRawEvent" where
  "ParseCgroupEscapeEvent raw = ParseCgroupEscapeEventInto raw zero_CgroupEscapeRawEvent"

definition ParseIOUringEvent :: "gslice \<Rightarrow> parse_error + IOUringRawEvent" where
  "ParseIOUringEvent raw = ParseIOUringEventInto raw zero_IOUringRawEvent"

definition ParseBpfMonitorEvent :: "gslice \<Rightarrow> parse_error + BpfMonitorRawEvent" where
  "ParseBpfMonitorEvent raw = ParseBpfMonitorEventInto raw zero_BpfMonitorRawEvent"

definition ParseTlsClientHelloEvent :: "gslice \<Rightarrow> parse_error + TlsClientHelloRawEvent" where
  "ParseTlsClientHelloEvent raw = ParseTlsClientHelloEventInto raw zero_TlsClientHelloRawEvent"

section \<open>Converters\<close>

definition nullTerminatedString :: "byte list \<Rightarrow> string" where
  "nullTerminatedString b = string_of_bytes (nul_trim b)"

definition SyscallEvent_ToTypesEvent :: "SyscallEvent \<Rightarrow> event" where
  "SyscallEvent_ToTypesEvent e = zero_event
    \<lparr>ev_type := EventSyscall, ev_timestamp := rs_timestamp e, ev_pid := rs_pid e,
     ev_tgid := rs_tgid e, ev_uid := rs_uid e, ev_comm := rs_comm e,
     ev_syscall := Some \<lparr>sc_nr = rs_nr e, sc_ret = rs_ret e, sc_args = rs_args e\<rparr>\<rparr>"

text \<open>The assignments of the eight header fields, shared by the converters below.\<close>

definition hdr_event :: "event_type \<Rightarrow> 'a raw_hdr_scheme \<Rightarrow> event" where
  "hdr_event ty e = zero_event
    \<lparr>ev_type := ty, ev_timestamp := rh_timestamp e, ev_pid := rh_pid e, ev_tgid := rh_tgid e,
     ev_ppid := rh_ppid e, ev_uid := rh_uid e, ev_comm := rh_comm e,
     ev_parent_comm := rh_parent_comm e\<rparr>"

definition hdr_short_event :: "event_type \<Rightarrow> 'a raw_hdr_short_scheme \<Rightarrow> event" where
  "hdr_short_event ty e = zero_event
    \<lparr>ev_type := ty, ev_timestamp := rk_timestamp e, ev_pid := rk_pid e, ev_uid := rk_uid e,
     ev_ppid := rk_ppid e, ev_comm := rk_comm e, ev_parent_comm := rk_parent_comm e\<rparr>"

definition NetworkEvent_ToTypesEvent :: "NetworkEvent \<Rightarrow> event" where
  "NetworkEvent_ToTypesEvent e = (hdr_event EventTCPConnect e)
    \<lparr>ev_network := Some
       \<lparr>net_saddr = rn_saddr e, net_daddr = rn_daddr e, net_sport = rn_sport e,
        net_dport = rn_dport e, net_proto = rn_proto e, net_family = rn_family e\<rparr>\<rparr>"

definition FileaccessEvent_ToTypesEvent :: "FileaccessEvent \<Rightarrow> event" where
  "FileaccessEvent_ToTypesEvent e =
    (let fdPath = nullTerminatedString (rf_filename e) in
     (hdr_event EventFileAccess e)
      \<lparr>ev_file := Some
         \<lparr>fl_filename = rf_filename e, fl_flags = rf_flags e, fl_mode = rf_mode e, fl_op = rf_op e,
          fl_fdpath = fdPath, fl_fdpath_truncated = (rf_fd_truncated e \<noteq> 0)\<rparr>\<rparr>)"

definition PrivescRawEvent_ToTypesEvent :: "PrivescRawEvent \<Rightarrow> event" where
  "PrivescRawEvent_ToTypesEvent e = (hdr_event EventPrivesc e)
    \<lparr>ev_privesc := Some \<lparr>pe_old_caps = rp_old_caps e, pe_new_caps = rp_new_caps e\<rparr>\<rparr>"

definition NetworkCloseRawEvent_ToTypesEvent :: "NetworkCloseRawEvent \<Rightarrow> event" where
  "NetworkCloseRawEvent_ToTypesEvent e = (hdr_event EventNetClose e)
    \<lparr>ev_net_close := Some
       \<lparr>nc_saddr = rc_saddr e, nc_daddr = rc_daddr e, nc_sport = rc_sport e, nc_dport = rc_dport e,
        nc_family = rc_family e, nc_duration = rc_duration_ns e\<rparr>\<rparr>"

definition KmodRawEvent_ToTypesEvent :: "KmodRawEvent \<Rightarrow> event" where
  "KmodRawEvent_ToTypesEvent e = (hdr_short_event EventKmodLoad e)
    \<lparr>ev_kmod := Some \<lparr>km_mod_name = string_of_bytes (nul_trim (rk_mod_name e)),
                    km_from_tmpfs = (rk_from_tmpfs e \<noteq> 0)\<rparr>\<rparr>"

definition CgroupEscapeRawEvent_ToTypesEvent :: "CgroupEscapeRawEvent \<Rightarrow> event" where
  "CgroupEscapeRawEvent_ToTypesEvent e = (hdr_short_event EventCgroupEsc e)
    \<lparr>ev_cgroup_esc := Some \<lparr>cg_init_id = rk_init_cgroup_id e, cg_new_id = rk_new_cgroup_id e\<rparr>\<rparr>"

definition IOUringRawEvent_ToTypesEvent :: "IOUringRawEvent \<Rightarrow> event" where
  "IOUringRawEvent_ToTypesEvent e = (hdr_event EventIOUring e)
    \<lparr>ev_iouring := Some \<lparr>io_op = ri_op e, io_flags = ri_flags e, io_fd = ri_fd e,
                        io_to_submit = ri_to_submit e\<rparr>\<rparr>"

definition BpfMonitorRawEvent_ToTypesEvent :: "BpfMonitorRawEvent \<Rightarrow> event" where
  "BpfMonitorRawEvent_ToTypesEvent e = (hdr_event EventBPFProgram e)
    \<lparr>ev_bpf_program := Some \<lparr>bp_cmd = rb_cmd e, bp_prog_type = rb_prog_type e, bp_ret = rb_ret e\<rparr>\<rparr>"

definition TlsClientHelloRawEvent_ToTypesEvent :: "TlsClientHelloRawEvent \<Rightarrow> event" where
  "TlsClientHelloRawEvent_ToTypesEvent e = (hdr_event EventTLS e)
    \<lparr>ev_tls := Some \<lparr>tls_direction = 0, tls_data_len = rt_original_len e,
                    tls_data = replicate 256 0, tls_ja3 = '''', tls_ja4 = '''', tls_ja3s = ''''\<rparr>\<rparr>"

text \<open>\<open>decodeNetworkEvent\<close>: the first four bytes select the parser.\<close>

definition event_type_word :: "byte \<Rightarrow> byte \<Rightarrow> byte \<Rightarrow> byte \<Rightarrow> u32" where
  "event_type_word b0 b1 b2 b3 =
     ucast b0 OR push_bit 8 (ucast b1) OR push_bit 16 (ucast b2) OR push_bit 24 (ucast b3)"

definition decodeNetworkEvent :: "gslice \<Rightarrow> parse_error + event" where
  "decodeNetworkEvent raw =
    (if slen raw < 4 then Inl (RawTooSmall (slen raw) 4)
     else
      sbind (slice_index raw 0) (\<lambda>b0.
      sbind (slice_index raw 1) (\<lambda>b1.
      sbind (slice_index raw 2) (\<lambda>b2.
      sbind (slice_index raw 3) (\<lambda>b3.
      if event_type_word b0 b1 b2 b3 = EventNetClose then
        sbind (ParseNetworkCloseEventInto raw zero_NetworkCloseRawEvent)
          (\<lambda>nc. Inr (NetworkCloseRawEvent_ToTypesEvent nc))
      else
        sbind (ParseNetworkEventInto raw zero_NetworkEvent)
          (\<lambda>ne. Inr (NetworkEvent_ToTypesEvent ne)))))))"

section \<open>Documented layouts\<close>

definition enc_hdr :: "'a raw_hdr_scheme \<Rightarrow> byte list" where
  "enc_hdr e =
     le_enc 4 (unat (rh_type e)) @ le_enc 8 (unat (rh_timestamp e)) @ le_enc 4 (unat (rh_pid e)) @
     le_enc 4 (unat (rh_tgid e)) @ le_enc 4 (unat (rh_ppid e)) @ le_enc 4 (unat (rh_uid e)) @
     rh_comm e @ rh_parent_comm e"

definition wf_hdr :: "'a raw_hdr_scheme \<Rightarrow> bool" where
  "wf_hdr e \<longleftrightarrow> length (rh_comm e) = 16 \<and> length (rh_parent_comm e) = 16"

definition enc_hdr_short :: "'a raw_hdr_short_scheme \<Rightarrow> byte list" where
  "enc_hdr_short e =
     le_enc 4 (unat (rk_type e)) @ le_enc 8 (unat (rk_timestamp e)) @ le_enc 4 (unat (rk_pid e)) @
     le_enc 4 (unat (rk_uid e)) @ rk_comm e @ rk_parent_comm e @ le_enc 4 (unat (rk_ppid e))"

definition wf_hdr_short :: "'a raw_hdr_short_scheme \<Rightarrow> bool" where
  "wf_hdr_short e \<longleftrightarrow> length (rk_comm e) = 16 \<and> length (rk_parent_comm e) = 16"

definition enc_SyscallEvent :: "SyscallEvent \<Rightarrow> byte list" where
  "enc_SyscallEvent e =
     le_enc 4 (unat (rs_type e)) @ le_enc 8 (unat (rs_timestamp e)) @ le_enc 4 (unat (rs_pid e)) @
     le_enc 4 (unat (rs_tgid e)) @ le_enc 4 (unat (rs_uid e)) @ rs_comm e @
     le_enc 8 (unat (rs_nr e)) @ le_enc 8 (unat (rs_ret e)) @
     le_enc 8 (unat (rs_args e ! 0)) @ le_enc 8 (unat (rs_args e ! 1)) @
     le_enc 8 (unat (rs_args e ! 2)) @ le_enc 8 (unat (rs_args e ! 3)) @
     le_enc 8 (unat (rs_args e ! 4)) @ le_enc 8 (unat (rs_args e ! 5))"

definition wf_SyscallEvent :: "SyscallEvent \<Rightarrow> bool" where
  "wf_SyscallEvent e \<longleftrightarrow> length (rs_comm e) = 16 \<and> length (rs_args e) = 6"

definition enc_NetworkEvent :: "NetworkEvent \<Rightarrow> byte list" where
  "enc_NetworkEvent e =
     enc_hdr e @ rn_saddr e @ rn_daddr e @ le_enc 2 (unat (rn_sport e)) @
     le_enc 2 (unat (rn_dport e)) @ [rn_proto e] @ [rn_family e]"

definition wf_NetworkEvent :: "NetworkEvent \<Rightarrow> bool" where
  "wf_NetworkEvent e \<longleftrightarrow> wf_hdr e \<and> length (rn_saddr e) = 16 \<and> length (rn_daddr e) = 16"

definition enc_FileaccessEvent :: "FileaccessEvent \<Rightarrow> byte list" where
  "enc_FileaccessEvent e =
     enc_hdr e @ rf_filename e @ le_enc 4 (unat (rf_flags e)) @ le_enc 4 (unat (rf_mode e)) @
     [rf_op e] @ [rf_fd_truncated e]"

definition wf_FileaccessEvent :: "FileaccessEvent \<Rightarrow> bool" where
  "wf_FileaccessEvent e \<longleftrightarrow> wf_hdr e \<and> length (rf_filename e) = 256"

text \<open>The syscall member of \<open>struct event\<close> in \<open>src/bpf/common.h\<close>, behind the full header.\<close>

definition enc_c_syscall :: "raw_hdr \<Rightarrow> u64 \<Rightarrow> u64 \<Rightarrow> u64 list \<Rightarrow> byte list" where
  "enc_c_syscall h nr ret args =
     enc_hdr h @ le_enc 8 (unat nr) @ le_enc 8 (unat ret) @ concat (map (\<lambda>a. le_enc 8 (unat a)) args)"

text \<open>The privilege-escalation sample reuses the syscall union: \<open>nr\<close> and \<open>ret\<close> precede the masks.\<close>

definition enc_PrivescRawEvent :: "u64 \<Rightarrow> u64 \<Rightarrow> PrivescRawEvent \<Rightarrow> byte list" where
  "enc_PrivescRawEvent nr ret e =
     enc_hdr e @ le_enc 8 (unat nr) @ le_enc 8 (unat ret) @ le_enc 8 (unat (rp_old_caps e)) @
     le_enc 8 (unat (rp_new_caps e))"

definition enc_KmodRawEvent :: "KmodRawEvent \<Rightarrow> byte list" where
  "enc_KmodRawEvent e = enc_hdr_short e @ rk_mod_name e @ [rk_from_tmpfs e]"

definition wf_KmodRawEvent :: "KmodRawEvent \<Rightarrow> bool" where
  "wf_KmodRawEvent e \<longleftrightarrow> wf_hdr_short e \<and> length (rk_mod_name e) = 64"

definition enc_CgroupEscapeRawEvent :: "CgroupEscapeRawEvent \<Rightarrow> byte list" where
  "enc_CgroupEscapeRawEvent e =
     enc_hdr_short e @ le_enc 8 (unat (rk_init_cgroup_id e)) @ le_enc 8 (unat (rk_new_cgroup_id e))"

definition enc_IOUringRawEvent :: "IOUringRawEvent \<Rightarrow> byte list" where
  "enc_IOUringRawEvent e =
     enc_hdr e @ [ri_op e] @ le_enc 4 (unat (ri_flags e)) @ le_enc 4 (unat (ri_fd e)) @
     le_enc 4 (unat (ri_to_submit e))"

definition enc_BpfMonitorRawEvent :: "BpfMonitorRawEvent \<Rightarrow> byte list" where
  "enc_BpfMonitorRawEvent e =
     enc_hdr e @ le_enc 4 (unat (rb_cmd e)) @ le_enc 4 (unat (rb_prog_type e)) @
     le_enc 4 (unat (rb_ret e))"

definition enc_TlsClientHelloRawEvent :: "TlsClientHelloRawEvent \<Rightarrow> byte list" where
  "enc_TlsClientHelloRawEvent e =
     enc_hdr e @ be_enc 2 (unat (rt_dport e)) @ le_enc 2 (unat (rt_captured_len e)) @
     le_enc 4 (unat (rt_original_len e)) @ rt_data e"

definition wf_TlsClientHelloRawEvent :: "TlsClientHelloRawEvent \<Rightarrow> bool" where
  "wf_TlsClientHelloRawEvent e \<longleftrightarrow>
     wf_hdr e \<and> rt_captured_len e \<le> 512 \<and> length (rt_data e) = 512"

lemmas parser_defs [wire_parsers] =
  ParseSyscallEventInto_def ParseNetworkEventInto_def ParseFileaccessEventInto_def
  ParsePrivescEventInto_def ParseKmodEventInto_def ParseCgroupEscapeEventInto_def
  ParseIOUringEventInto_def ParseBpfMonitorEventInto_def

lemmas layout_defs [wire_layouts] =
  enc_hdr_def enc_hdr_short_def enc_SyscallEvent_def enc_NetworkEvent_def
  enc_FileaccessEvent_def enc_PrivescRawEvent_def enc_KmodRawEvent_def
  enc_CgroupEscapeRawEvent_def enc_IOUringRawEvent_def enc_BpfMonitorRawEvent_def

lemmas wf_defs [wire_wf] =
  wf_hdr_def wf_hdr_short_def wf_SyscallEvent_def wf_NetworkEvent_def
  wf_FileaccessEvent_def wf_KmodRawEvent_def

section \<open>The codec contract\<close>

text \<open>
  A parser for a documented layout: samples shorter than the layout are rejected with the size
  error, every other sample is parsed, and the parsed structure is the one whose encoding the
  sample starts with, whatever the reused structure held before.
\<close>

locale wire_codec =
  fixes parse :: "gslice \<Rightarrow> 'e \<Rightarrow> parse_error + 'e"
    and enc :: "'e \<Rightarrow> byte list" and wf :: "'e \<Rightarrow> bool" and size :: nat
  assumes enc_length: "wf e \<Longrightarrow> length (enc e) = size"
    and parse_short: "slen raw < size \<Longrightarrow> parse raw out = Inl (RawTooSmall (slen raw) size)"
    and parse_total: "slice_ok raw \<Longrightarrow> size \<le> slen raw \<Longrightarrow> \<exists>e. parse raw out = Inr e \<and> wf e"
    and parse_enc: "wf e \<Longrightarrow> slice_ok raw \<Longrightarrow> size \<le> slen raw \<Longrightarrow> take size (backing raw) = enc e \<Longrightarrow>
                    parse raw out = Inr e"
begin

lemma no_panic: "slice_ok raw \<Longrightarrow> parse raw out \<noteq> Inl IndexPanic"
  using parse_short [of raw out] parse_total [of raw out] by (cases "slen raw < size") auto

lemma accepts_iff: "slice_ok raw \<Longrightarrow> (\<exists>e. parse raw out = Inr e) \<longleftrightarrow> size \<le> slen raw"
  using parse_short [of raw out] parse_total [of raw out] by (cases "slen raw < size") auto

lemma roundtrip: "wf e \<Longrightarrow> parse (slice_of (enc e @ rest)) out = Inr e"
  by (rule parse_enc) (simp_all add: enc_length)

lemma enc_inject: "wf a \<Longrightarrow> wf b \<Longrightarrow> enc a = enc b \<longleftrightarrow> a = b"
  by (metis Inr_inject append_Nil2 roundtrip)

end

text \<open>A layout without gaps: the sample is determined by the structure it parses to.\<close>

locale exact_wire_codec = wire_codec +
  assumes enc_parse:
    "slice_ok raw \<Longrightarrow> size \<le> slen raw \<Longrightarrow> parse raw out = Inr e \<Longrightarrow> enc e = take size (backing raw)"
begin

lemma parse_Inr_iff:
  assumes "slice_ok raw"
  shows "parse raw out = Inr e \<longleftrightarrow>
         size \<le> slen raw \<and> wf e \<and> take size (backing raw) = enc e" (is "?l \<longleftrightarrow> ?r")
proof
  assume l: ?l
  then have "size \<le> slen raw" using accepts_iff assms by blast
  with l assms parse_total [of raw out] enc_parse [of raw out e] show ?r by auto
qed (use assms parse_enc in blast)

lemma reuse_irrelevant: "slice_ok raw \<Longrightarrow> parse raw out1 = parse raw out2"
  by (metis accepts_iff not_le_imp_less parse_Inr_iff parse_short)

end

section \<open>The parsers implement their layouts\<close>

lemma parse_hdr_ok [wire_parsers]:
  assumes "slice_ok raw" "60 \<le> slen raw"
  shows "parse_hdr raw out = Inr (out
    \<lparr>rh_type := word_of_nat (le_val (take 4 (drop 0 (backing raw)))),
     rh_timestamp := word_of_nat (le_val (take 8 (drop 4 (backing raw)))),
     rh_pid := word_of_nat (le_val (take 4 (drop 12 (backing raw)))),
     rh_tgid := word_of_nat (le_val (take 4 (drop 16 (backing raw)))),
     rh_ppid := word_of_nat (le_val (take 4 (drop 20 (backing raw)))),
     rh_uid := word_of_nat (le_val (take 4 (drop 24 (backing raw)))),
     rh_comm := take 16 (drop 28 (backing raw)),
     rh_parent_comm := take 16 (drop 44 (backing raw))\<rparr>)"
  using assms by (simp add: parse_hdr_def slice_ok_def slice_simps)

lemma parse_hdr_short_ok [wire_parsers]:
  assumes "slice_ok raw" "56 \<le> slen raw"
  shows "parse_hdr_short raw out = Inr (out
    \<lparr>rk_type := word_of_nat (le_val (take 4 (drop 0 (backing raw)))),
     rk_timestamp := word_of_nat (le_val (take 8 (drop 4 (backing raw)))),
     rk_pid := word_of_nat (le_val (take 4 (drop 12 (backing raw)))),
     rk_uid := word_of_nat (le_val (take 4 (drop 16 (backing raw)))),
     rk_comm := take 16 (drop 20 (backing raw)),
     rk_parent_comm := take 16 (drop 36 (backing raw)),
     rk_ppid := word_of_nat (le_val (take 4 (drop 52 (backing raw))))\<rparr>)"
  using assms by (simp add: parse_hdr_short_def slice_ok_def slice_simps)

interpretation network_codec: exact_wire_codec ParseNetworkEventInto enc_NetworkEvent wf_NetworkEvent 98
proof
  fix e raw out
  show "wf_NetworkEvent e \<Longrightarrow> length (enc_NetworkEvent e) = 98"
    by (simp add: wire_layouts wire_wf)
  show "slen raw < 98 \<Longrightarrow> ParseNetworkEventInto raw out = Inl (RawTooSmall (slen raw) 98)"
    by (simp add: wire_parsers)
  assume ok: "slice_ok raw" "98 \<le> slen raw"
  show "\<exists>e. ParseNetworkEventInto raw out = Inr e \<and> wf_NetworkEvent e"
    using ok by (simp add: wire_parsers wire_wf slice_ok_def slice_simps)
  show "ParseNetworkEventInto raw out = Inr e \<Longrightarrow> enc_NetworkEvent e = take 98 (backing raw)"
    using ok by (auto simp: wire_parsers wire_layouts slice_ok_def slice_simps wire_join)
  assume pre: "wf_NetworkEvent e" "take 98 (backing raw) = enc_NetworkEvent e"
  show "ParseNetworkEventInto raw out = Inr e"
    using ok pre(1) by (cases e, cases out)
      (simp add: wire_parsers wire_layouts wire_wf slice_ok_def slice_simps nth_append
         of_prefix [OF pre(2)])
qed

interpretation file_codec: exact_wire_codec ParseFileaccessEventInto enc_FileaccessEvent wf_FileaccessEvent 326
proof
  fix e raw out
  show "wf_FileaccessEvent e \<Longrightarrow> length (enc_FileaccessEvent e) = 326"
    by (simp add: wire_layouts wire_wf)
  show "slen raw < 326 \<Longrightarrow> ParseFileaccessEventInto raw out = Inl (RawTooSmall (slen raw) 326)"
    by (simp add: wire_parsers)
  assume ok: "slice_ok raw" "326 \<le> slen raw"
  show "\<exists>e. ParseFileaccessEventInto raw out = Inr e \<and> wf_FileaccessEvent e"
    using ok by (simp add: wire_parsers wire_wf slice_ok_def slice_simps)
  show "ParseFileaccessEventInto raw out = Inr e \<Longrightarrow> enc_FileaccessEvent e = take 326 (backing raw)"
    using ok by (auto simp: wire_parsers wire_layouts slice_ok_def slice_simps wire_join)
  assume pre: "wf_FileaccessEvent e" "take 326 (backing raw) = enc_FileaccessEvent e"
  show "ParseFileaccessEventInto raw out = Inr e"
    using ok pre(1) by (cases e, cases out)
      (simp add: wire_parsers wire_layouts wire_wf slice_ok_def slice_simps nth_append
         of_prefix [OF pre(2)])
qed

interpretation privesc_codec: wire_codec ParsePrivescEventInto "enc_PrivescRawEvent nr ret" wf_hdr 92 for nr ret
proof
  fix e raw out
  show "wf_hdr e \<Longrightarrow> length (enc_PrivescRawEvent nr ret e) = 92"
    by (simp add: wire_layouts wire_wf)
  show "slen raw < 92 \<Longrightarrow> ParsePrivescEventInto raw out = Inl (RawTooSmall (slen raw) 92)"
    by (simp add: wire_parsers)
  assume ok: "slice_ok raw" "92 \<le> slen raw"
  show "\<exists>e. ParsePrivescEventInto raw out = Inr e \<and> wf_hdr e"
    using ok by (simp add: wire_parsers wire_wf slice_ok_def slice_simps)
  assume pre: "wf_hdr e" "take 92 (backing raw) = enc_PrivescRawEvent nr ret e"
  show "ParsePrivescEventInto raw out = Inr e"
    using ok pre(1) by (cases e, cases out)
      (simp add: wire_parsers wire_layouts wire_wf slice_ok_def slice_simps nth_append
         of_prefix [OF pre(2)])
qed

interpretation iouring_codec: exact_wire_codec ParseIOUringEventInto enc_IOUringRawEvent wf_hdr 73
proof
  fix e raw out
  show "wf_hdr e \<Longrightarrow> length (enc_IOUringRawEvent e) = 73"
    by (simp add: wire_layouts wire_wf)
  show "slen raw < 73 \<Longrightarrow> ParseIOUringEventInto raw out = Inl (RawTooSmall (slen raw) 73)"
    by (simp add: wire_parsers)
  assume ok: "slice_ok raw" "73 \<le> slen raw"
  show "\<exists>e. ParseIOUringEventInto raw out = Inr e \<and> wf_hdr e"
    using ok by (simp add: wire_parsers wire_wf slice_ok_def slice_simps)
  show "ParseIOUringEventInto raw out = Inr e \<Longrightarrow> enc_IOUringRawEvent e = take 73 (backing raw)"
    using ok by (auto simp: wire_parsers wire_layouts slice_ok_def slice_simps wire_join)
  assume pre: "wf_hdr e" "take 73 (backing raw) = enc_IOUringRawEvent e"
  show "ParseIOUringEventInto raw out = Inr e"
    using ok pre(1) by (cases e, cases out)
      (simp add: wire_parsers wire_layouts wire_wf slice_ok_def slice_simps nth_append
         of_prefix [OF pre(2)])
qed

interpretation bpfmon_codec: exact_wire_codec ParseBpfMonitorEventInto enc_BpfMonitorRawEvent wf_hdr 72
proof
  fix e raw out
  show "wf_hdr e \<Longrightarrow> length (enc_BpfMonitorRawEvent e) = 72"
    by (simp add: wire_layouts wire_wf)
  show "slen raw < 72 \<Longrightarrow> ParseBpfMonitorEventInto raw out = Inl (RawTooSmall (slen raw) 72)"
    by (simp add: wire_parsers)
  assume ok: "slice_ok raw" "72 \<le> slen raw"
  show "\<exists>e. ParseBpfMonitorEventInto raw out = Inr e \<and> wf_hdr e"
    using ok by (simp add: wire_parsers wire_wf slice_ok_def slice_simps)
  show "ParseBpfMonitorEventInto raw out = Inr e \<Longrightarrow> enc_BpfMonitorRawEvent e = take 72 (backing raw)"
    using ok by (auto simp: wire_parsers wire_layouts slice_ok_def slice_simps wire_join)
  assume pre: "wf_hdr e" "take 72 (backing raw) = enc_BpfMonitorRawEvent e"
  show "ParseBpfMonitorEventInto raw out = Inr e"
    using ok pre(1) by (cases e, cases out)
      (simp add: wire_parsers wire_layouts wire_wf slice_ok_def slice_simps nth_append
         of_prefix [OF pre(2)])
qed

interpretation kmod_codec: exact_wire_codec ParseKmodEventInto enc_KmodRawEvent wf_KmodRawEvent 121
proof
  fix e raw out
  show "wf_KmodRawEvent e \<Longrightarrow> length (enc_KmodRawEvent e) = 121"
    by (simp add: wire_layouts wire_wf)
  show "slen raw < 121 \<Longrightarrow> ParseKmodEventInto raw out = Inl (RawTooSmall (slen raw) 121)"
    by (simp add: wire_parsers)
  assume ok: "slice_ok raw" "121 \<le> slen raw"
  show "\<exists>e. ParseKmodEventInto raw out = Inr e \<and> wf_KmodRawEvent e"
    using ok by (simp add: wire_parsers wire_wf slice_ok_def slice_simps)
  show "ParseKmodEventInto raw out = Inr e \<Longrightarrow> enc_KmodRawEvent e = take 121 (backing raw)"
    using ok by (auto simp: wire_parsers wire_layouts slice_ok_def slice_simps wire_join)
  assume pre: "wf_KmodRawEvent e" "take 121 (backing raw) = enc_KmodRawEvent e"
  show "ParseKmodEventInto raw out = Inr e"
    using ok pre(1) by (cases e, cases out)
      (simp add: wire_parsers wire_layouts wire_wf slice_ok_def slice_simps nth_append
         of_prefix [OF pre(2)])
qed

interpretation cgroup_codec: exact_wire_codec ParseCgroupEscapeEventInto enc_CgroupEscapeRawEvent wf_hdr_short 72
proof
  fix e raw out
  show "wf_hdr_short e \<Longrightarrow> length (enc_CgroupEscapeRawEvent e) = 72"
    by (simp add: wire_layouts wire_wf)
  show "slen raw < 72 \<Longrightarrow> ParseCgroupEscapeEventInto raw out = Inl (RawTooSmall (slen raw) 72)"
    by (simp add: wire_parsers)
  assume ok: "slice_ok raw" "72 \<le> slen raw"
  show "\<exists>e. ParseCgroupEscapeEventInto raw out = Inr e \<and> wf_hdr_short e"
    using ok by (simp add: wire_parsers wire_wf slice_ok_def slice_simps)
  show "ParseCgroupEscapeEventInto raw out = Inr e \<Longrightarrow> enc_CgroupEscapeRawEvent e = take 72 (backing raw)"
    using ok by (auto simp: wire_parsers wire_layouts slice_ok_def slice_simps wire_join)
  assume pre: "wf_hdr_short e" "take 72 (backing raw) = enc_CgroupEscapeRawEvent e"
  show "ParseCgroupEscapeEventInto raw out = Inr e"
    using ok pre(1) by (cases e, cases out)
      (simp add: wire_parsers wire_layouts wire_wf slice_ok_def slice_simps nth_append
         of_prefix [OF pre(2)])
qed

lemma list6: "length xs = 6 \<Longrightarrow> [xs ! 0, xs ! Suc 0, xs ! 2, xs ! 3, xs ! 4, xs ! 5] = xs"
  by (simp add: list_eq_iff_nth_eq less_Suc_eq numeral_eq_Suc)

interpretation syscall_codec: exact_wire_codec ParseSyscallEventInto enc_SyscallEvent wf_SyscallEvent 104
proof
  fix e raw out
  show "wf_SyscallEvent e \<Longrightarrow> length (enc_SyscallEvent e) = 104"
    by (simp add: wire_layouts wire_wf)
  show "slen raw < 104 \<Longrightarrow> ParseSyscallEventInto raw out = Inl (RawTooSmall (slen raw) 104)"
    by (simp add: wire_parsers)
  assume ok: "slice_ok raw" "104 \<le> slen raw"
  show "\<exists>e. ParseSyscallEventInto raw out = Inr e \<and> wf_SyscallEvent e"
    using ok by (simp add: wire_parsers wire_wf slice_ok_def slice_simps)
  show "ParseSyscallEventInto raw out = Inr e \<Longrightarrow> enc_SyscallEvent e = take 104 (backing raw)"
    using ok by (auto simp: wire_parsers wire_layouts slice_ok_def slice_simps wire_join)
  assume pre: "wf_SyscallEvent e" "take 104 (backing raw) = enc_SyscallEvent e"
  show "ParseSyscallEventInto raw out = Inr e"
    using ok pre(1) by (cases e, cases out)
      (simp add: wire_parsers wire_layouts wire_wf slice_ok_def slice_simps list6
         of_prefix [OF pre(2)])
qed

text \<open>The four shifted bytes of the routing switch are the little-endian type field.\<close>

lemma bit_byte: "8 \<le> n \<Longrightarrow> \<not> bit (b :: byte) n"
  by (auto dest: bit_imp_le_length)

lemma event_type_word_le: "event_type_word b0 b1 b2 b3 = word_of_nat (le_val [b0, b1, b2, b3])"
proof -
  define a0 a1 a2 a3 :: u32 where a: "a0 = ucast b0" "a1 = push_bit 8 (ucast b1)"
    "a2 = push_bit 16 (ucast b2)" "a3 = push_bit 24 (ucast b3)"
  have 1: "a2 OR a3 = a2 + a3"
    by (rule disjunctive_add [symmetric]) (auto simp: a bit_simps bit_byte)
  have 2: "a1 OR (a2 OR a3) = a1 + (a2 OR a3)"
    by (rule disjunctive_add [symmetric]) (auto simp: a bit_simps bit_byte)
  have 3: "a0 OR (a1 OR (a2 OR a3)) = a0 + (a1 OR (a2 OR a3))"
    by (rule disjunctive_add [symmetric]) (auto simp: a bit_simps bit_byte)
  have "event_type_word b0 b1 b2 b3 = a0 OR (a1 OR (a2 OR a3))"
    by (simp add: event_type_word_def a or.assoc)
  also have "\<dots> = a0 + (a1 + (a2 + a3))" by (metis 1 2 3)
  also have "\<dots> = word_of_nat (le_val [b0, b1, b2, b3])"
    by (simp add: a push_bit_eq_mult distrib_left mult.commute)
  finally show ?thesis .
qed

lemma take4: "4 \<le> length bs \<Longrightarrow> [bs ! 0, bs ! Suc 0, bs ! 2, bs ! 3] = take 4 bs"
  by (auto simp: list_eq_iff_nth_eq less_Suc_eq numeral_eq_Suc)

lemma decodeNetworkEvent_route:
  assumes "slice_ok raw" "4 \<le> slen raw"
  shows "decodeNetworkEvent raw =
     (if (word_of_nat (le_val (take 4 (backing raw))) :: u32) = EventNetClose
      then sbind (ParseNetworkCloseEventInto raw zero_NetworkCloseRawEvent)
             (\<lambda>nc. Inr (NetworkCloseRawEvent_ToTypesEvent nc))
      else sbind (ParseNetworkEventInto raw zero_NetworkEvent)
             (\<lambda>ne. Inr (NetworkEvent_ToTypesEvent ne)))"
  using assms
  by (simp add: decodeNetworkEvent_def slice_simps event_type_word_le take4 slice_ok_def
      del: le_val.simps)


lemma net_close_parse:
  assumes "slice_ok raw" "98 \<le> slen raw"
  shows "\<exists>e. ParseNetworkCloseEventInto raw out = Inr e \<and>
      rc_daddr e = take 16 (drop 76 (backing raw)) \<and>
      rc_duration_ns e = word_of_nat (le_val (take 8 (drop 76 (backing raw))))"
  using assms by (simp add: ParseNetworkCloseEventInto_def wire_parsers slice_ok_def slice_simps)

lemma net_close_short:
  assumes "slice_ok raw" "84 \<le> slen raw" "slen raw < 98"
  shows "ParseNetworkCloseEventInto raw out = Inl IndexPanic"
  using assms
  by (simp add: ParseNetworkCloseEventInto_def parse_hdr_ok le_u16_def le_read_def slice_index_def
      slice_range_def sbind_if)

lemma net_close_outcome:
  assumes "slice_ok raw"
  shows "ParseNetworkCloseEventInto raw out = Inl IndexPanic \<longleftrightarrow> 84 \<le> slen raw \<and> slen raw < 98"
proof (cases "slen raw < 98")
  case True
  then show ?thesis using net_close_short [OF assms, of out]
    by (cases "slen raw < 84") (simp_all add: ParseNetworkCloseEventInto_def)
next
  case False
  then show ?thesis using net_close_parse [OF assms, of out] by auto
qed

lemma tls_parse:
  assumes "slice_ok raw" "69 \<le> slen raw"
  defines "cap \<equiv> min 512 (le_val (take 2 (drop 62 (backing raw))))"
  shows "ParseTlsClientHelloEventInto raw out =
    (if 68 + cap \<le> length (backing raw)
     then Inr (out
      \<lparr>rh_type := word_of_nat (le_val (take 4 (drop 0 (backing raw)))),
       rh_timestamp := word_of_nat (le_val (take 8 (drop 4 (backing raw)))),
       rh_pid := word_of_nat (le_val (take 4 (drop 12 (backing raw)))),
       rh_tgid := word_of_nat (le_val (take 4 (drop 16 (backing raw)))),
       rh_ppid := word_of_nat (le_val (take 4 (drop 20 (backing raw)))),
       rh_uid := word_of_nat (le_val (take 4 (drop 24 (backing raw)))),
       rh_comm := take 16 (drop 28 (backing raw)),
       rh_parent_comm := take 16 (drop 44 (backing raw)),
       rt_dport := word_of_nat (be_val (take 2 (drop 60 (backing raw)))),
       rt_captured_len := word_of_nat cap,
       rt_original_len := word_of_nat (le_val (take 4 (drop 64 (backing raw)))),
       rt_data := go_copy (rt_data out) (take cap (drop 68 (backing raw)))\<rparr>)
     else Inl IndexPanic)"
proof -
  define n where "n = le_val (take 2 (drop 62 (backing raw)))"
  have "length (take 2 (drop 62 (backing raw))) = 2" using assms by (simp add: slice_ok_def)
  then have n: "n < 65536" using le_val_bound [of "take 2 (drop 62 (backing raw))"]
    by (simp add: n_def)
  then have u: "unat (word_of_nat n :: u16) = n" by (simp add: unat_of_nat take_bit_eq_mod)
  have "(if (word_of_nat n :: u16) > 512 then 512 else word_of_nat n) = (word_of_nat cap :: u16)"
    using u by (simp add: cap_def word_less_nat_alt min_def flip: n_def)
  moreover have "unat (word_of_nat cap :: u16) = cap"
    by (simp add: cap_def unat_of_nat take_bit_eq_mod)
  ultimately show ?thesis
    using assms(1,2) by (simp add: ParseTlsClientHelloEventInto_def wire_parsers slice_ok_def
        slice_simps Let_def flip: n_def) (simp add: slice_range_def)
qed

section \<open>Properties\<close>

text \<open>
  C15 (roundtrip).  A network, file access, privilege, kernel module, cgroup escape, io_uring or BPF monitor sample
  that is laid out as documented, followed by anything, is parsed to exactly the structure it encodes, whatever the
  reused structure held.  The parsers of system call and connection close samples are not among these: they read
  other layouts than the documented ones.
\<close>

theorem wire_layouts_roundtrip:
  "(wf_NetworkEvent net \<longrightarrow>
      ParseNetworkEventInto (slice_of (enc_NetworkEvent net @ rest)) net0 = Inr net) \<and>
   (wf_FileaccessEvent fil \<longrightarrow>
      ParseFileaccessEventInto (slice_of (enc_FileaccessEvent fil @ rest)) fil0 = Inr fil) \<and>
   (wf_hdr priv \<longrightarrow>
      ParsePrivescEventInto (slice_of (enc_PrivescRawEvent nr ret priv @ rest)) priv0 = Inr priv) \<and>
   (wf_KmodRawEvent kmod \<longrightarrow>
      ParseKmodEventInto (slice_of (enc_KmodRawEvent kmod @ rest)) kmod0 = Inr kmod) \<and>
   (wf_hdr_short cg \<longrightarrow>
      ParseCgroupEscapeEventInto (slice_of (enc_CgroupEscapeRawEvent cg @ rest)) cg0 = Inr cg) \<and>
   (wf_hdr iou \<longrightarrow>
      ParseIOUringEventInto (slice_of (enc_IOUringRawEvent iou @ rest)) iou0 = Inr iou) \<and>
   (wf_hdr bpf \<longrightarrow>
      ParseBpfMonitorEventInto (slice_of (enc_BpfMonitorRawEvent bpf @ rest)) bpf0 = Inr bpf)"
  by (intro conjI impI network_codec.roundtrip file_codec.roundtrip privesc_codec.roundtrip
      kmod_codec.roundtrip cgroup_codec.roundtrip iouring_codec.roundtrip bpfmon_codec.roundtrip)

lemma wf_zero:
  "wf_NetworkEvent zero_NetworkEvent" "wf_FileaccessEvent zero_FileaccessEvent"
  "wf_hdr zero_PrivescRawEvent" "wf_KmodRawEvent zero_KmodRawEvent"
  "wf_hdr_short zero_CgroupEscapeRawEvent" "wf_hdr zero_IOUringRawEvent"
  "wf_hdr zero_BpfMonitorRawEvent"
  by (simp_all add: wire_wf zero_hdr_def zero_hdr_short_def raw_hdr.defs raw_hdr_short.defs
      zero_NetworkEvent_def NetworkEvent.defs zero_FileaccessEvent_def FileaccessEvent.defs
      zero_PrivescRawEvent_def PrivescRawEvent.defs zero_KmodRawEvent_def KmodRawEvent.defs
      zero_CgroupEscapeRawEvent_def CgroupEscapeRawEvent.defs zero_IOUringRawEvent_def
      IOUringRawEvent.defs zero_BpfMonitorRawEvent_def BpfMonitorRawEvent.defs)

theorem wire_layouts_roundtrip_witness:
  "ParseNetworkEventInto (slice_of (enc_NetworkEvent (zero_NetworkEvent\<lparr>rn_dport := 443\<rparr>) @ [7]))
     zero_NetworkEvent = Inr (zero_NetworkEvent\<lparr>rn_dport := 443\<rparr>)"
proof -
  have "wf_NetworkEvent (zero_NetworkEvent\<lparr>rn_dport := 443\<rparr>)"
    using wf_zero(1) by (simp add: wire_wf)
  then show ?thesis
    using wire_layouts_roundtrip [of "zero_NetworkEvent\<lparr>rn_dport := 443\<rparr>" "[7]" zero_NetworkEvent
        zero_FileaccessEvent zero_FileaccessEvent zero_PrivescRawEvent 0 0 zero_PrivescRawEvent
        zero_KmodRawEvent zero_KmodRawEvent zero_CgroupEscapeRawEvent zero_CgroupEscapeRawEvent
        zero_IOUringRawEvent zero_IOUringRawEvent zero_BpfMonitorRawEvent zero_BpfMonitorRawEvent]
    by blast
qed

text \<open>
  C28 (safety).  The parsers of system call, network, file access, privilege, kernel module, cgroup escape,
  io_uring and BPF monitor samples never index out of range: on every well-formed slice they either report a too
  small sample or succeed, and they succeed exactly on the samples that are at least as long as the layout.  The
  parser of connection close samples is not among these: it panics on samples of 84 to 97 bytes.
\<close>

theorem wire_parsers_no_panic:
  assumes "slice_ok raw"
  shows "ParseSyscallEvent raw \<noteq> Inl IndexPanic \<and> ((\<exists>e. ParseSyscallEvent raw = Inr e) \<longleftrightarrow> 104 \<le> slen raw) \<and>
   ParseNetworkEvent raw \<noteq> Inl IndexPanic \<and> ((\<exists>e. ParseNetworkEvent raw = Inr e) \<longleftrightarrow> 98 \<le> slen raw) \<and>
   ParseFileaccessEvent raw \<noteq> Inl IndexPanic \<and> ((\<exists>e. ParseFileaccessEvent raw = Inr e) \<longleftrightarrow> 326 \<le> slen raw) \<and>
   ParsePrivescEvent raw \<noteq> Inl IndexPanic \<and> ((\<exists>e. ParsePrivescEvent raw = Inr e) \<longleftrightarrow> 92 \<le> slen raw) \<and>
   ParseKmodEvent raw \<noteq> Inl IndexPanic \<and> ((\<exists>e. ParseKmodEvent raw = Inr e) \<longleftrightarrow> 121 \<le> slen raw) \<and>
   ParseCgroupEscapeEvent raw \<noteq> Inl IndexPanic \<and> ((\<exists>e. ParseCgroupEscapeEvent raw = Inr e) \<longleftrightarrow> 72 \<le> slen raw) \<and>
   ParseIOUringEvent raw \<noteq> Inl IndexPanic \<and> ((\<exists>e. ParseIOUringEvent raw = Inr e) \<longleftrightarrow> 73 \<le> slen raw) \<and>
   ParseBpfMonitorEvent raw \<noteq> Inl IndexPanic \<and> ((\<exists>e. ParseBpfMonitorEvent raw = Inr e) \<longleftrightarrow> 72 \<le> slen raw)"
  unfolding ParseSyscallEvent_def ParseNetworkEvent_def ParseFileaccessEvent_def ParsePrivescEvent_def
    ParseKmodEvent_def ParseCgroupEscapeEvent_def ParseIOUringEvent_def ParseBpfMonitorEvent_def
  by (intro conjI syscall_codec.no_panic syscall_codec.accepts_iff network_codec.no_panic
      network_codec.accepts_iff file_codec.no_panic file_codec.accepts_iff privesc_codec.no_panic
      privesc_codec.accepts_iff kmod_codec.no_panic kmod_codec.accepts_iff cgroup_codec.no_panic
      cgroup_codec.accepts_iff iouring_codec.no_panic iouring_codec.accepts_iff
      bpfmon_codec.no_panic bpfmon_codec.accepts_iff assms)

theorem wire_parsers_no_panic_witness:
  "slice_ok (slice_of (replicate 80 0)) \<and>
   (\<exists>e. ParseIOUringEvent (slice_of (replicate 80 0)) = Inr e) \<and>
   \<not> (\<exists>e. ParseNetworkEvent (slice_of (replicate 80 0)) = Inr e)"
  using wire_parsers_no_panic [of "slice_of (replicate 80 0)"] by simp

text \<open>
  A round trip through the collector: a documented network sample that is not tagged as a
  connection close is decoded to the event with its tuple; a too short one is an error.
\<close>

theorem decodeNetworkEvent_roundtrip:
  assumes "wf_NetworkEvent e" "rh_type e \<noteq> EventNetClose"
  shows "decodeNetworkEvent (slice_of (enc_NetworkEvent e @ rest)) = Inr (NetworkEvent_ToTypesEvent e)"
proof -
  have "word_of_nat (le_val (take 4 (enc_NetworkEvent e @ rest))) = rh_type e"
    by (simp add: wire_layouts)
  moreover have "4 \<le> length (enc_NetworkEvent e)"
    using network_codec.enc_length [OF assms(1)] by simp
  ultimately show ?thesis
    using assms network_codec.roundtrip [OF assms(1), of rest]
    by (simp add: decodeNetworkEvent_route)
qed

theorem decodeNetworkEvent_roundtrip_witness:
  "decodeNetworkEvent (slice_of (enc_NetworkEvent (zero_NetworkEvent\<lparr>rn_dport := 443\<rparr>) @ [])) =
   Inr (NetworkEvent_ToTypesEvent (zero_NetworkEvent\<lparr>rn_dport := 443\<rparr>))"
  by (rule decodeNetworkEvent_roundtrip)
    (use wf_zero(1) in \<open>simp_all add: wire_wf zero_NetworkEvent_def zero_hdr_def raw_hdr.defs
       NetworkEvent.defs\<close>)

text \<open>
  The connection-close parser panics exactly on the samples of 84 to 97 bytes, which
  its size check lets through although it reads up to byte 97; and on every sample it accepts,
  the reported duration is the little-endian value of the first eight bytes of the reported
  destination address.
\<close>

theorem net_close_panics_and_aliases:
  assumes "slice_ok raw"
  shows "(ParseNetworkCloseEvent raw = Inl IndexPanic \<longleftrightarrow> 84 \<le> slen raw \<and> slen raw < 98) \<and>
    (\<forall>e. ParseNetworkCloseEvent raw = Inr e \<longrightarrow>
       rc_duration_ns e = word_of_nat (le_val (take 8 (rc_daddr e))))"
proof (intro conjI allI impI)
  fix e assume e: "ParseNetworkCloseEvent raw = Inr e"
  have "98 \<le> slen raw"
  proof (rule ccontr)
    assume "\<not> 98 \<le> slen raw"
    then show False
      using e net_close_short [OF assms] by (cases "slen raw < 84")
        (auto simp: ParseNetworkCloseEvent_def ParseNetworkCloseEventInto_def)
  qed
  then show "rc_duration_ns e = word_of_nat (le_val (take 8 (rc_daddr e)))"
    using e net_close_parse [OF assms, of zero_NetworkCloseRawEvent]
    by (auto simp: ParseNetworkCloseEvent_def)
qed (simp add: ParseNetworkCloseEvent_def net_close_outcome [OF assms])

theorem net_close_panics_and_aliases_witness:
  "slice_ok (slice_of (replicate 90 0)) \<and>
   ParseNetworkCloseEvent (slice_of (replicate 90 0)) = Inl IndexPanic"
  using net_close_panics_and_aliases [of "slice_of (replicate 90 0)"] by simp

text \<open>
  The ClientHello parser accepts a sample of at least 69 bytes exactly when the
  captured length it announces, cut to 512, lies inside the capacity of the slice; otherwise it
  panics.  When it accepts, the captured length is at most 512 and the handshake bytes are those
  of the sample.
\<close>

theorem ParseTlsClientHelloEvent_outcome:
  assumes "slice_ok raw" "69 \<le> slen raw"
  defines "cap \<equiv> min 512 (le_val (take 2 (drop 62 (backing raw))))"
  shows "if 68 + cap \<le> length (backing raw)
    then \<exists>e. ParseTlsClientHelloEvent raw = Inr e \<and> unat (rt_captured_len e) = cap \<and>
           length (rt_data e) = 512 \<and> take cap (rt_data e) = take cap (drop 68 (backing raw))
    else ParseTlsClientHelloEvent raw = Inl IndexPanic"
proof -
  have "cap \<le> 512" by (simp add: cap_def)
  then have "unat (word_of_nat cap :: u16) = cap" by (simp add: unat_of_nat take_bit_eq_mod)
  then show ?thesis
    using tls_parse [OF assms(1,2), of zero_TlsClientHelloRawEvent] \<open>cap \<le> 512\<close>
    by (simp add: ParseTlsClientHelloEvent_def go_copy_def zero_TlsClientHelloRawEvent_def
        raw_hdr.defs TlsClientHelloRawEvent.defs flip: cap_def)
qed

theorem ParseTlsClientHelloEvent_outcome_witness:
  "ParseTlsClientHelloEvent (slice_of (replicate 62 0 @ [200, 0] @ replicate 100 0)) = Inl IndexPanic"
  using ParseTlsClientHelloEvent_outcome [of "slice_of (replicate 62 0 @ [200, 0] @ replicate 100 0)"]
  by (simp add: nth_append)

text \<open>
  On a syscall sample laid out as \<open>struct event\<close> of the kernel side, the
  user-space parser reports the parent's process id as the user id, the user id and the first
  twelve bytes of the command as the command, and takes the syscall number from the last four
  bytes of the command and the first four of the parent's command.
\<close>

theorem syscall_parser_misreads_kernel_layout:
  assumes "wf_hdr h" "length args = 6"
  shows "\<exists>e. ParseSyscallEvent (slice_of (enc_c_syscall h nr ret args)) = Inr e \<and>
     rs_pid e = rh_pid h \<and> rs_tgid e = rh_tgid h \<and> rs_uid e = rh_ppid h \<and>
     rs_comm e = le_enc 4 (unat (rh_uid h)) @ take 12 (rh_comm h) \<and>
     rs_nr e = word_of_nat (le_val (drop 12 (rh_comm h) @ take 4 (rh_parent_comm h)))"
proof -
  have len: "length (enc_c_syscall h nr ret args) = 124"
    using assms by (simp add: enc_c_syscall_def wire_layouts wire_wf length_concat o_def
        sum_list_triv)
  then show ?thesis
    using assms
    by (simp add: ParseSyscallEvent_def wire_parsers slice_simps)
      (simp add: enc_c_syscall_def wire_layouts wire_wf)
qed

theorem syscall_parser_misreads_kernel_layout_witness:
  "\<exists>e. ParseSyscallEvent (slice_of (enc_c_syscall (zero_hdr\<lparr>rh_ppid := 1000\<rparr>) 59 0 [0, 0, 0, 0, 0, 0]))
         = Inr e \<and> rs_uid e = 1000"
  using syscall_parser_misreads_kernel_layout [of "zero_hdr\<lparr>rh_ppid := 1000\<rparr>" "[0, 0, 0, 0, 0, 0]" 59 0]
  by (auto simp: zero_hdr_def wire_wf)

end
