(* ===== verification/Dns_Wire.thy ===== *)
theory Dns_Wire
  imports Event_Types
begin

text \<open>
  DNS samples: \<open>src/internal/collector/dns_parse.go\<close>.  The record header is parsed at fixed
  offsets, the captured UDP payload by an RFC 1035 decoder that follows compression pointers.

  Every slice access is a checked access whose failure is the value \<open>IndexPanic\<close>; the \<open>nil\<close> and
  \<open>ok = false\<close> results are \<^const>\<open>None\<close>.  The name decoder is a loop over four variables; it
  terminates because every iteration either moves the position forward or uses up one of the
  \<open>dnsMaxNameJumps\<close> jumps.
\<close>

section \<open>Names\<close>

definition dnsMaxNameJumps :: nat where
  "dnsMaxNameJumps = 32"

definition dnsMaxPayload :: nat where
  "dnsMaxPayload = 256"

definition dnsRawEventFixedLen :: nat where
  "dnsRawEventFixedLen = 4 + 8 + 4 + 4 + 4 + 16 + 1 + 2"

text \<open>\<open>int(binary.BigEndian.Uint16(b) & 0x3FFF)\<close>\<close>

definition dns_pointer :: "byte list \<Rightarrow> nat" where
  "dns_pointer bs = unat ((word_of_nat (be_val bs) :: u16) AND 0x3FFF)"

definition dns_is_pointer :: "byte \<Rightarrow> bool" where
  "dns_is_pointer b \<longleftrightarrow> b AND 0xC0 = 0xC0"

text \<open>One value of \<open>pos\<close>, \<open>endPos\<close> (\<^const>\<open>None\<close> is \<open>-1\<close>), \<open>jumps\<close> and the string builder per call.\<close>

function dns_name_loop ::
    "gslice \<Rightarrow> nat \<Rightarrow> nat option \<Rightarrow> nat \<Rightarrow> string \<Rightarrow> parse_error + (string \<times> nat) option" where
  "dns_name_loop payload pos endPos jumps sb =
    (if slen payload \<le> pos then Inr None
     else
       case slice_index payload pos of
         Inl e \<Rightarrow> Inl e
       | Inr b \<Rightarrow>
           if b = 0 then
             Inr (Some (sb, case endPos of None \<Rightarrow> pos + 1 | Some e \<Rightarrow> e))
           else if dns_is_pointer b then
             (if slen payload \<le> pos + 1 then Inr None
              else if dnsMaxNameJumps < jumps + 1 then Inr None
              else
                case slice_range payload pos (pos + 2) of
                  Inl e \<Rightarrow> Inl e
                | Inr bs \<Rightarrow>
                    dns_name_loop payload (dns_pointer bs)
                      (case endPos of None \<Rightarrow> Some (pos + 2) | Some e \<Rightarrow> Some e) (jumps + 1) sb)
           else
             (if slen payload < pos + 1 + unat b then Inr None
              else
                case slice_range payload (pos + 1) (pos + 1 + unat b) of
                  Inl e \<Rightarrow> Inl e
                | Inr label \<Rightarrow>
                    dns_name_loop payload (pos + 1 + unat b) endPos jumps
                      ((if sb \<noteq> [] then sb @ ''.'' else sb) @ string_of_bytes label)))"
  by pat_completeness auto

termination
proof (relation "(\<lambda>(payload, pos, endPos, jumps, sb). dnsMaxNameJumps + 1 - jumps) <*mlex*>
    measure (\<lambda>(payload, pos, endPos, jumps, sb). slen payload - pos)")
  show "wf ((\<lambda>(payload, pos, endPos, jumps, sb). dnsMaxNameJumps + 1 - jumps) <*mlex*>
    measure (\<lambda>(payload :: gslice, pos, endPos :: nat option, jumps, sb :: string). slen payload - pos))"
    by (rule wf_mlex) simp
qed (auto simp: mlex_prod_def)

declare dns_name_loop.simps [simp del]

definition decodeDNSName :: "gslice \<Rightarrow> nat \<Rightarrow> parse_error + (string \<times> nat) option" where
  "decodeDNSName payload pos = dns_name_loop payload pos None 0 []"

section \<open>Messages\<close>

record dnsWireMessage =
  dm_qname :: string
  dm_qtype :: u16
  dm_rcode :: u16
  dm_response_ips :: "string list"

definition be_at :: "gslice \<Rightarrow> nat \<Rightarrow> parse_error + u16" where
  "be_at payload off = sbind (slice_range payload off (off + 2)) (\<lambda>bs. Inr (word_of_nat (be_val bs)))"

fun dns_answer_loop :: "gslice \<Rightarrow> nat \<Rightarrow> nat \<Rightarrow> string list \<Rightarrow> parse_error + string list" where
  "dns_answer_loop payload 0 pos ips = Inr ips"
| "dns_answer_loop payload (Suc n) pos ips =
    sbind (decodeDNSName payload pos) (\<lambda>r.
    case r of
      None \<Rightarrow> Inr ips
    | Some (_, pos) \<Rightarrow>
        if slen payload < pos + 10 then Inr ips
        else
          sbind (be_at payload pos) (\<lambda>rtype.
          sbind (be_at payload (pos + 8)) (\<lambda>rdlen.
          if slen payload < pos + 10 + unat rdlen then Inr ips
          else if rtype = 1 \<and> unat rdlen = 4 then
            sbind (slice_index payload (pos + 10)) (\<lambda>a.
            sbind (slice_index payload (pos + 11)) (\<lambda>b.
            sbind (slice_index payload (pos + 12)) (\<lambda>c.
            sbind (slice_index payload (pos + 13)) (\<lambda>d.
            dns_answer_loop payload n (pos + 10 + unat rdlen) (ips @ [dotted_quad [a, b, c, d]])))))
          else dns_answer_loop payload n (pos + 10 + unat rdlen) ips)))"

definition decodeDNSAnswerIPs :: "gslice \<Rightarrow> nat \<Rightarrow> u16 \<Rightarrow> parse_error + string list" where
  "decodeDNSAnswerIPs payload pos anCount = dns_answer_loop payload (unat anCount) pos []"

definition parseDNSWireMessage :: "gslice \<Rightarrow> parse_error + dnsWireMessage option" where
  "parseDNSWireMessage payload =
    (if slen payload < 12 then Inr None
     else
      sbind (be_at payload 2) (\<lambda>flags.
      sbind (be_at payload 4) (\<lambda>qdCount.
      sbind (be_at payload 6) (\<lambda>anCount.
      let isResponse = (flags AND 0x8000 \<noteq> 0); rcode = flags AND 0x000f in
      if qdCount = 0 then Inr None
      else
        sbind (decodeDNSName payload 12) (\<lambda>r.
        case r of
          None \<Rightarrow> Inr None
        | Some (qname, pos) \<Rightarrow>
            if slen payload < pos + 4 then
              Inr (Some \<lparr>dm_qname = qname, dm_qtype = 0, dm_rcode = rcode, dm_response_ips = []\<rparr>)
            else
              sbind (be_at payload pos) (\<lambda>qtype.
              sbind (if isResponse then decodeDNSAnswerIPs payload (pos + 4) anCount else Inr []) (\<lambda>ips.
              Inr (Some \<lparr>dm_qname = qname, dm_qtype = qtype, dm_rcode = rcode,
                         dm_response_ips = ips\<rparr>))))))))"

definition decodeDNSEvent :: "gslice \<Rightarrow> parse_error + event option" where
  "decodeDNSEvent raw =
    (if slen raw < dnsRawEventFixedLen then Inr None
     else
      sbind (le_u32 raw 0) (\<lambda>eventType.
      if eventType \<noteq> EventDNS then Inr None
      else
      sbind (le_u64 raw 4) (\<lambda>timestamp.
      sbind (le_u32 raw 12) (\<lambda>pid.
      sbind (le_u32 raw 16) (\<lambda>tgid.
      sbind (le_u32 raw 20) (\<lambda>uid.
      sbind (slice_range raw 24 40) (\<lambda>comm.
      sbind (slice_index raw 40) (\<lambda>direction.
      sbind (le_u16 raw 41) (\<lambda>payloadLen.
      if dnsMaxPayload < unat payloadLen \<or> slen raw < 43 + unat payloadLen then Inr None
      else
        sbind (parseDNSWireMessage \<lparr>backing = drop 43 (backing raw), slen = unat payloadLen\<rparr>) (\<lambda>r.
        case r of
          None \<Rightarrow> Inr None
        | Some msg \<Rightarrow> Inr (Some (zero_event
            \<lparr>ev_type := EventDNS, ev_timestamp := timestamp, ev_pid := pid, ev_tgid := tgid,
             ev_uid := uid, ev_comm := comm,
             ev_dns := Some \<lparr>dns_qname = dm_qname msg, dns_qtype = dm_qtype msg,
                            dns_rcode = dm_rcode msg, dns_direction = direction,
                            dns_response_ips = dm_response_ips msg\<rparr>\<rparr>))))))))))))"

section \<open>Printing\<close>

definition intToIPv4 :: "u32 \<Rightarrow> string" where
  "intToIPv4 ip = dotted_quad (be_enc 4 (unat ip))"

definition qtypeToString :: "u16 \<Rightarrow> string" where
  "qtypeToString q =
     (if q = 1 then ''A'' else if q = 2 then ''NS'' else if q = 5 then ''CNAME''
      else if q = 6 then ''SOA'' else if q = 12 then ''PTR'' else if q = 15 then ''MX''
      else if q = 16 then ''TXT'' else if q = 28 then ''AAAA'' else if q = 33 then ''SRV''
      else if q = 255 then ''ANY'' else ''TYPE'' @ dec_nat (unat q))"

definition rcodeToString :: "u16 \<Rightarrow> string" where
  "rcodeToString r =
     (if r = 0 then ''NOERROR'' else if r = 1 then ''FORMERR'' else if r = 2 then ''SERVFAIL''
      else if r = 3 then ''NXDOMAIN'' else if r = 4 then ''NOTIMP'' else if r = 5 then ''REFUSED''
      else ''RCODE'' @ dec_nat (unat r))"

section \<open>No panics, bounds and progress\<close>

text \<open>The four outcomes of one iteration on a well-formed slice.\<close>

lemma dns_loop_out: "slen p \<le> pos \<Longrightarrow> dns_name_loop p pos ep j sb = Inr None"
  by (simp add: dns_name_loop.simps [of p pos])

lemma dns_loop_zero:
  "pos < slen p \<Longrightarrow> backing p ! pos = 0 \<Longrightarrow>
   dns_name_loop p pos ep j sb = Inr (Some (sb, case ep of None \<Rightarrow> pos + 1 | Some e \<Rightarrow> e))"
  by (simp add: dns_name_loop.simps [of p pos] slice_simps)

lemma dns_loop_pointer:
  "slice_ok p \<Longrightarrow> pos < slen p \<Longrightarrow> backing p ! pos \<noteq> 0 \<Longrightarrow> dns_is_pointer (backing p ! pos) \<Longrightarrow>
   dns_name_loop p pos ep j sb =
     (if slen p \<le> pos + 1 \<or> dnsMaxNameJumps < j + 1 then Inr None
      else dns_name_loop p (dns_pointer (take 2 (drop pos (backing p))))
             (case ep of None \<Rightarrow> Some (pos + 2) | Some e \<Rightarrow> Some e) (j + 1) sb)"
  by (simp add: dns_name_loop.simps [of p pos] slice_simps slice_ok_def)

lemma dns_loop_label:
  "slice_ok p \<Longrightarrow> pos < slen p \<Longrightarrow> backing p ! pos \<noteq> 0 \<Longrightarrow> \<not> dns_is_pointer (backing p ! pos) \<Longrightarrow>
   dns_name_loop p pos ep j sb =
     (if slen p < pos + 1 + unat (backing p ! pos) then Inr None
      else dns_name_loop p (pos + 1 + unat (backing p ! pos)) ep j
             ((if sb \<noteq> [] then sb @ ''.'' else sb) @
              string_of_bytes (take (unat (backing p ! pos)) (drop (pos + 1) (backing p)))))"
  by (simp add: dns_name_loop.simps [of p pos] slice_simps slice_ok_def)

definition dns_end_ok :: "gslice \<Rightarrow> nat \<Rightarrow> nat option \<Rightarrow> (string \<times> nat) option \<Rightarrow> bool" where
  "dns_end_ok payload pos endPos r \<longleftrightarrow>
     (case r of None \<Rightarrow> True
      | Some (_, e) \<Rightarrow> (case endPos of None \<Rightarrow> pos < e \<and> e \<le> slen payload | Some e0 \<Rightarrow> e = e0))"

lemma dns_end_ok_mono:
  "dns_end_ok p pos' ep r \<Longrightarrow> pos \<le> pos' \<Longrightarrow> dns_end_ok p pos ep r"
  by (auto simp: dns_end_ok_def split: option.splits)

lemma dns_end_ok_jump:
  "dns_end_ok p pos' (case ep of None \<Rightarrow> Some (pos + 2) | Some e \<Rightarrow> Some e) r \<Longrightarrow> pos + 2 \<le> slen p \<Longrightarrow>
   dns_end_ok p pos ep r"
  by (auto simp: dns_end_ok_def split: option.splits)

lemma dns_name_loop_end:
  assumes "slice_ok p"
  shows "\<exists>r. dns_name_loop p pos ep j sb = Inr r \<and> dns_end_ok p pos ep r"
  using assms
proof (induction p pos ep j sb rule: dns_name_loop.induct)
  case (1 p pos ep j sb)
  let ?b = "backing p ! pos"
  show ?case
  proof (cases "slen p \<le> pos \<or> ?b = 0")
    case True
    then show ?thesis
      by (cases "slen p \<le> pos") (auto simp: dns_loop_out dns_loop_zero dns_end_ok_def split: option.splits)
  next
    case False
    then have b: "pos < slen p" "?b \<noteq> 0" and i: "slice_index p pos = Inr ?b"
      by (simp_all add: slice_simps)
    show ?thesis
    proof (cases "dns_is_pointer ?b")
      case ptr: True
      show ?thesis
      proof (cases "slen p \<le> pos + 1 \<or> dnsMaxNameJumps < j + 1")
        case False
        then have "slice_range p pos (pos + 2) = Inr (take 2 (drop pos (backing p)))"
          using 1(3) by (simp add: slice_simps slice_ok_def)
        from 1(1) [OF _ i b(2) ptr _ _ this 1(3)] False b
        obtain r where "dns_name_loop p (dns_pointer (take 2 (drop pos (backing p))))
             (case ep of None \<Rightarrow> Some (pos + 2) | Some e \<Rightarrow> Some e) (j + 1) sb = Inr r"
          and "dns_end_ok p (dns_pointer (take 2 (drop pos (backing p))))
             (case ep of None \<Rightarrow> Some (pos + 2) | Some e \<Rightarrow> Some e) r" by auto
        with False show ?thesis
          by (simp add: dns_loop_pointer [OF 1(3) b ptr] dns_end_ok_jump)
      qed (simp add: dns_loop_pointer [OF 1(3) b ptr] dns_end_ok_def)
    next
      case lab: False
      show ?thesis
      proof (cases "slen p < pos + 1 + unat ?b")
        case False
        then have "slice_range p (pos + 1) (pos + 1 + unat ?b) =
            Inr (take (unat ?b) (drop (pos + 1) (backing p)))"
          using 1(3) by (simp add: slice_simps slice_ok_def)
        from 1(2) [OF _ i b(2) lab False this 1(3)] False b show ?thesis
          by (auto simp: dns_loop_label [OF 1(3) b lab] elim!: dns_end_ok_mono)
      qed (simp add: dns_loop_label [OF 1(3) b lab] dns_end_ok_def)
    qed
  qed
qed

lemma decodeDNSName_end:
  assumes "slice_ok payload"
  shows "\<exists>r. decodeDNSName payload pos = Inr r \<and>
     (\<forall>name e. r = Some (name, e) \<longrightarrow> pos < e \<and> e \<le> slen payload)"
  using dns_name_loop_end [OF assms, of pos None 0 "[]"]
  by (auto simp: decodeDNSName_def dns_end_ok_def)

lemma be_at_ok [slice_simps]:
  "slice_ok p \<Longrightarrow> off + 2 \<le> slen p \<Longrightarrow>
   be_at p off = Inr (word_of_nat (be_val (take 2 (drop off (backing p)))))"
  by (simp add: be_at_def slice_simps slice_ok_def)

lemma dns_answer_loop_total:
  assumes "slice_ok p"
  shows "\<exists>ips'. dns_answer_loop p n pos ips = Inr (ips @ ips') \<and> length ips' \<le> n"
proof (induction n arbitrary: pos ips)
  case (Suc n)
  obtain r where r: "decodeDNSName p pos = Inr r" using decodeDNSName_end [OF assms] by blast
  show ?case
  proof (cases r)
    case (Some ne)
    then obtain name e where r': "r = Some (name, e)" by (cases ne) auto
    let ?w = "\<lambda>off. word_of_nat (be_val (take 2 (drop off (backing p)))) :: u16"
    let ?rd = "unat (?w (e + 8))"
    consider "slen p < e + 10" | "e + 10 \<le> slen p" "slen p < e + 10 + ?rd"
      | "e + 10 + ?rd \<le> slen p" by linarith
    then show ?thesis
    proof cases
      case 3
      show ?thesis
      proof (cases "?w e = 1 \<and> ?rd = 4")
        case True
        with 3 r r' Suc.IH [of "14 + e" "ips @ [dotted_quad (map (\<lambda>i. backing p ! (e + i)) [10, 11, 12, 13])]"]
        show ?thesis by (auto simp: slice_simps assms)
      next
        case False
        with 3 r r' Suc.IH [of "e + 10 + ?rd" ips] show ?thesis
          by (auto simp: slice_simps assms)
      qed
    qed (use r r' assms in \<open>auto simp: slice_simps\<close>)
  qed (use r in simp)
qed simp

lemma parseDNSWireMessage_total:
  assumes "slice_ok p"
  shows "\<exists>r. parseDNSWireMessage p = Inr r"
proof (cases "slen p < 12")
  case False
  obtain r where r: "decodeDNSName p 12 = Inr r" using decodeDNSName_end [OF assms] by blast
  have "\<exists>ips. decodeDNSAnswerIPs p pos n = Inr ips" for pos n
    using dns_answer_loop_total [OF assms, of "unat n" pos "[]"] by (auto simp: decodeDNSAnswerIPs_def)
  then show ?thesis
    using False r by (cases r) (auto simp: parseDNSWireMessage_def slice_simps assms Let_def sbind_def
        split: sum.splits, metis Inr_Inl_False sum.inject(2))
qed (simp add: parseDNSWireMessage_def)

text \<open>
  C29 (termination).  Decoding a DNS record never indexes out of range and always returns, whatever the
  captured bytes are: malformed names, pointer cycles and lying length fields included.
\<close>

theorem decodeDNSEvent_no_panic:
  assumes "slice_ok raw"
  shows "\<exists>r. decodeDNSEvent raw = Inr r"
proof (cases "slen raw < 43")
  case False
  obtain n where n: "le_u16 raw 41 = Inr n" using False by (simp add: slice_simps)
  have "slice_ok \<lparr>backing = drop 43 (backing raw), slen = unat n\<rparr>" if "43 + unat n \<le> slen raw"
    using that assms by (simp add: slice_ok_def)
  with parseDNSWireMessage_total
  have "43 + unat n \<le> slen raw \<Longrightarrow>
    \<exists>m. parseDNSWireMessage \<lparr>backing = drop 43 (backing raw), slen = unat n\<rparr> = Inr m" by blast
  with n False assms show ?thesis
    by (auto simp: decodeDNSEvent_def dnsRawEventFixedLen_def slice_simps slice_ok_def
        split: option.splits)
qed (simp add: decodeDNSEvent_def dnsRawEventFixedLen_def)

theorem decodeDNSEvent_no_panic_witness:
  "slice_ok (slice_of ([5, 0, 0, 0] @ replicate 37 0 @ [20, 0] @ [0, 0, 0, 0, 0, 1, 0, 0, 0, 0, 0, 0, 192, 12]
      @ replicate 6 0)) \<and>
   (\<exists>r. decodeDNSEvent (slice_of ([5, 0, 0, 0] @ replicate 37 0 @ [20, 0] @
      [0, 0, 0, 0, 0, 1, 0, 0, 0, 0, 0, 0, 192, 12] @ replicate 6 0)) = Inr r)"
  using decodeDNSEvent_no_panic slice_of_simps(3) by blast

section \<open>Round trip\<close>

text \<open>
  The encoder of RFC 1035 messages: names as length-prefixed labels, pointers with the two top
  bits set, and resource records whose owner is a pointer to the question's name.
\<close>

definition enc_labels :: "byte list list \<Rightarrow> byte list" where
  "enc_labels ls = concat (map (\<lambda>l. word_of_nat (length l) # l) ls)"

definition label_ok :: "byte list \<Rightarrow> bool" where
  "label_ok l \<longleftrightarrow> 0 < length l \<and> length l < 64"

definition enc_pointer :: "nat \<Rightarrow> byte list" where
  "enc_pointer t = be_enc 2 (0xC000 + t)"

text \<open>The bytes \<open>bs\<close> stand at \<open>pos\<close> inside the elements of the slice.\<close>

definition at_pos :: "gslice \<Rightarrow> nat \<Rightarrow> byte list \<Rightarrow> bool" where
  "at_pos p pos bs \<longleftrightarrow> pos + length bs \<le> slen p \<and> take (length bs) (drop pos (backing p)) = bs"

lemma at_pos_append:
  assumes "slice_ok p"
  shows "at_pos p pos (xs @ ys) \<longleftrightarrow> at_pos p pos xs \<and> at_pos p (pos + length xs) ys"
proof -
  have "pos + length (xs @ ys) \<le> slen p \<Longrightarrow>
     take (length (xs @ ys)) (drop pos (backing p)) =
       take (length xs) (drop pos (backing p)) @ take (length ys) (drop (pos + length xs) (backing p))"
    by (simp add: take_add add.commute)
  moreover have "length (take (length xs) (drop pos (backing p))) = length xs"
    if "pos + length xs \<le> slen p" using that assms by (simp add: slice_ok_def)
  ultimately show ?thesis by (auto simp: at_pos_def)
qed

lemma at_pos_Cons:
  assumes "slice_ok p"
  shows "at_pos p pos (x # xs) \<longleftrightarrow> pos < slen p \<and> backing p ! pos = x \<and> at_pos p (pos + 1) xs"
proof -
  have "at_pos p pos [x] \<longleftrightarrow> pos < slen p \<and> backing p ! pos = x"
    using assms by (auto simp: at_pos_def slice_ok_def take_Suc_conv_app_nth hd_drop_conv_nth take_Suc)
  then show ?thesis using at_pos_append [OF assms, of pos "[x]" xs] by simp
qed

lemma small_not_pointer: "n < 64 \<Longrightarrow> \<not> dns_is_pointer (word_of_nat n)"
proof -
  have "list_all (\<lambda>n. \<not> dns_is_pointer (word_of_nat n)) [0..<64]" by code_simp
  then show "n < 64 \<Longrightarrow> \<not> dns_is_pointer (word_of_nat n)" by (simp add: list_all_iff)
qed

lemma pointer_byte: "n < 64 \<Longrightarrow> dns_is_pointer (word_of_nat (192 + n)) \<and> (word_of_nat (192 + n) :: byte) \<noteq> 0"
proof -
  have "list_all (\<lambda>n. dns_is_pointer (word_of_nat (192 + n)) \<and> (word_of_nat (192 + n) :: byte) \<noteq> 0) [0..<64]"
    by code_simp
  then show "n < 64 \<Longrightarrow> dns_is_pointer (word_of_nat (192 + n)) \<and> (word_of_nat (192 + n) :: byte) \<noteq> 0"
    by (simp add: list_all_iff)
qed

lemma dns_pointer_enc: "t < 0x4000 \<Longrightarrow> dns_pointer (enc_pointer t) = t"
proof -
  assume t: "t < 0x4000"
  have m: "(0x3FFF :: u16) = mask 14" by (simp add: mask_eq_exp_minus_1)
  have "unat ((word_of_nat (0xC000 + t) :: u16) AND mask 14) = (0xC000 + t) mod 2 ^ 14"
    using t by (simp only: take_bit_eq_mask [symmetric] unsigned_take_bit_eq unsigned_of_nat take_bit_take_bit)
      (simp add: take_bit_eq_mod min_def)
  moreover have "(0xC000 + t) mod 2 ^ 14 = t"
    using t mod_mult_self1 [of t 3 "2 ^ 14"] by (simp add: add.commute)
  ultimately show ?thesis
    using t by (simp add: dns_pointer_def enc_pointer_def be_val_enc m)
qed


definition add_label :: "string \<Rightarrow> byte list \<Rightarrow> string" where
  "add_label sb l = (if sb \<noteq> [] then sb @ ''.'' else sb) @ string_of_bytes l"

lemma dns_loop_at_label:
  assumes "slice_ok p" "label_ok l" "at_pos p pos (word_of_nat (length l) # l)"
  shows "dns_name_loop p pos ep j sb = dns_name_loop p (pos + 1 + length l) ep j (add_label sb l)"
proof -
  have b: "pos < slen p" "backing p ! pos = word_of_nat (length l)" "at_pos p (pos + 1) l"
    using assms(3) by (simp_all add: at_pos_Cons [OF assms(1)])
  have l: "0 < length l" "length l < 64" using assms(2) by (simp_all add: label_ok_def)
  then have u: "unat (word_of_nat (length l) :: byte) = length l"
    by (simp add: unat_of_nat take_bit_eq_mod)
  then have "backing p ! pos \<noteq> 0" using b(2) l(1) by (metis less_irrefl unsigned_0)
  moreover have "\<not> dns_is_pointer (backing p ! pos)" using small_not_pointer [OF l(2)] b(2) by simp
  ultimately show ?thesis
    using b u by (simp add: dns_loop_label [OF assms(1)] at_pos_def add_label_def)
qed

lemma dns_loop_labels:
  assumes "slice_ok p" "list_all label_ok ls" "at_pos p pos (enc_labels ls)"
  shows "dns_name_loop p pos ep j sb =
         dns_name_loop p (pos + length (enc_labels ls)) ep j (foldl add_label sb ls)"
  using assms(2,3)
proof (induction ls arbitrary: pos sb)
  case (Cons l ls)
  have "enc_labels (l # ls) = (word_of_nat (length l) # l) @ enc_labels ls"
    by (simp add: enc_labels_def)
  with Cons.prems have "at_pos p pos (word_of_nat (length l) # l)"
    and "at_pos p (pos + (1 + length l)) (enc_labels ls)"
    by (simp_all only: at_pos_append [OF assms(1)] list.size) simp_all
  then have "dns_name_loop p pos ep j sb =
      dns_name_loop p (pos + (1 + length l) + length (enc_labels ls)) ep j (foldl add_label (add_label sb l) ls)"
    using Cons.IH [of "pos + (1 + length l)" "add_label sb l"] Cons.prems(1)
      dns_loop_at_label [OF assms(1), of l pos ep j sb] by simp
  then show ?case by (simp add: enc_labels_def add.assoc)
qed (simp add: enc_labels_def)

lemma add_label_not_Nil: "label_ok l \<Longrightarrow> add_label sb l \<noteq> []"
  by (auto simp: add_label_def label_ok_def string_of_bytes_def)

lemma foldl_add_label_app:
  "list_all label_ok ls \<Longrightarrow> sb \<noteq> [] \<Longrightarrow>
   foldl add_label sb ls = join_with CHR ''.'' (sb # map string_of_bytes ls)"
proof (induction ls arbitrary: sb)
  case (Cons l ls)
  have "join_with c ((x @ c # y) # ys) = x @ c # join_with c (y # ys)" for c and x y :: string and ys
    by (cases ys) simp_all
  with Cons show ?case by (simp add: add_label_not_Nil) (simp add: add_label_def)
qed simp

lemma foldl_add_label:
  "list_all label_ok ls \<Longrightarrow> foldl add_label [] ls = join_with CHR ''.'' (map string_of_bytes ls)"
  by (cases ls) (simp_all add: foldl_add_label_app add_label_not_Nil, simp add: add_label_def)

definition dotted_name :: "byte list list \<Rightarrow> string" where
  "dotted_name ls = join_with CHR ''.'' (map string_of_bytes ls)"

lemma decodeDNSName_labels:
  assumes "slice_ok p" "list_all label_ok ls" "at_pos p pos (enc_labels ls @ [0])"
  shows "dns_name_loop p pos ep j [] =
    Inr (Some (dotted_name ls, case ep of None \<Rightarrow> pos + length (enc_labels ls) + 1 | Some e \<Rightarrow> e))"
proof -
  let ?e = "pos + length (enc_labels ls)"
  have "at_pos p pos (enc_labels ls)" "?e < slen p" "backing p ! ?e = 0"
    using assms(3) by (simp_all add: at_pos_append [OF assms(1)] at_pos_Cons [OF assms(1)])
  then show ?thesis
    using assms(2)
    by (simp add: dns_loop_labels [OF assms(1)] dns_loop_zero foldl_add_label dotted_name_def)
qed

lemma decodeDNSName_pointer:
  assumes "slice_ok p" "list_all label_ok ls" "at_pos p t (enc_labels ls @ [0])"
    and "t < 0x4000" "at_pos p pos (enc_pointer t)"
  shows "decodeDNSName p pos = Inr (Some (dotted_name ls, pos + 2))"
proof -
  have "(0xC000 + t) div 256 = 192 + t div 256"
    using div_mult_self1 [of 256 t 192] by (simp add: add.commute)
  then have enc: "enc_pointer t = [word_of_nat (192 + t div 256), word_of_nat (0xC000 + t)]"
    by (simp add: enc_pointer_def be_enc_def numeral_2_eq_2 del: of_nat_add)
  have two: "pos + 2 \<le> slen p" "take 2 (drop pos (backing p)) = enc_pointer t"
    using assms(5) by (simp_all add: at_pos_def enc_pointer_def)
  have b: "pos < slen p" "backing p ! pos = word_of_nat (192 + t div 256)"
    using assms(5) unfolding enc by (simp_all add: at_pos_Cons [OF assms(1)])
  have "t div 256 < 64" using assms(4) by simp
  from pointer_byte [OF this] b(2)
  have "dns_is_pointer (backing p ! pos)" "backing p ! pos \<noteq> 0" by simp_all
  then show ?thesis
    using two b(1) assms
    by (simp add: decodeDNSName_def dns_loop_pointer [OF assms(1)] dnsMaxNameJumps_def
        dns_pointer_enc decodeDNSName_labels)
qed

record dns_rr =
  rr_type :: u16
  rr_class :: u16
  rr_ttl :: u32
  rr_data :: "byte list"

definition enc_rr :: "dns_rr \<Rightarrow> byte list" where
  "enc_rr r = enc_pointer 12 @ be_enc 2 (unat (rr_type r)) @ be_enc 2 (unat (rr_class r)) @
     be_enc 4 (unat (rr_ttl r)) @ be_enc 2 (length (rr_data r)) @ rr_data r"

definition rr_ok :: "dns_rr \<Rightarrow> bool" where
  "rr_ok r \<longleftrightarrow> length (rr_data r) < 65536"

definition a_records :: "dns_rr list \<Rightarrow> string list" where
  "a_records rrs =
     map (\<lambda>r. dotted_quad (rr_data r)) (filter (\<lambda>r. rr_type r = 1 \<and> length (rr_data r) = 4) rrs)"

lemma at_pos_Nil [simp]: "at_pos p pos [] \<longleftrightarrow> pos \<le> slen p"
  by (simp add: at_pos_def)

lemma be_at_enc:
  assumes "slice_ok p" "at_pos p pos (be_enc 2 n)" "n < 65536"
  shows "be_at p pos = Inr (word_of_nat n)"
  using assms by (simp add: at_pos_def slice_simps be_val_enc)

lemma at_pos_nth:
  assumes "slice_ok p" "at_pos p pos bs" "i < length bs"
  shows "backing p ! (pos + i) = bs ! i" "pos + i < slen p"
proof -
  have t: "take (length bs) (drop pos (backing p)) = bs" "pos + length bs \<le> slen p"
    using assms(2) by (simp_all add: at_pos_def)
  show "backing p ! (pos + i) = bs ! i"
    by (subst t(1) [symmetric]) (use t(2) assms(1,3) in \<open>simp add: slice_ok_def\<close>)
  show "pos + i < slen p" using t(2) assms(3) by simp
qed

lemma dns_answer_step:
  assumes "slice_ok p" "list_all label_ok ls" "at_pos p 12 (enc_labels ls @ [0])"
    and "rr_ok r" "at_pos p pos (enc_rr r)"
  shows "dns_answer_loop p (Suc n) pos ips =
         dns_answer_loop p n (pos + length (enc_rr r)) (ips @ a_records [r])"
proof -
  note ap = at_pos_append [OF assms(1)]
  from assms(5) have at: "at_pos p pos (enc_pointer 12)" "at_pos p (pos + 2) (be_enc 2 (unat (rr_type r)))"
    "at_pos p (pos + 10) (be_enc 2 (length (rr_data r)))" "at_pos p (pos + 12) (rr_data r)"
    by (simp_all add: enc_rr_def ap enc_pointer_def add.commute [of pos])
  have name: "decodeDNSName p pos = Inr (Some (dotted_name ls, pos + 2))"
    using decodeDNSName_pointer [OF assms(1-3) _ at(1)] by simp
  have ty: "be_at p (pos + 2) = Inr (rr_type r)"
    using be_at_enc [OF assms(1) at(2)] unsigned_less [of "rr_type r", where ?'a = nat] by simp
  have rlen: "be_at p (pos + 2 + 8) = Inr (word_of_nat (length (rr_data r)))"
    using be_at_enc [OF assms(1) at(3)] assms(4) by (simp add: rr_ok_def add.commute [of pos])
  have u: "unat (word_of_nat (length (rr_data r)) :: u16) = length (rr_data r)"
    using assms(4) by (simp add: rr_ok_def unat_of_nat take_bit_eq_mod)
  have room: "pos + 12 + length (rr_data r) \<le> slen p" using at(4) by (simp add: at_pos_def)
  have data: "dotted_quad [backing p ! (pos + 2 + 10), backing p ! (pos + 2 + 11),
      backing p ! (pos + 2 + 12), backing p ! (pos + 2 + 13)] = dotted_quad (rr_data r)"
    if "length (rr_data r) = 4"
  proof -
    from that obtain a b c d where d: "rr_data r = [a, b, c, d]"
      by (auto simp: numeral_eq_Suc length_Suc_conv)
    show ?thesis
      using at_pos_nth(1) [OF assms(1) at(4), of 0] at_pos_nth(1) [OF assms(1) at(4), of 1]
        at_pos_nth(1) [OF assms(1) at(4), of 2] at_pos_nth(1) [OF assms(1) at(4), of 3]
      by (simp add: d eval_nat_numeral)
  qed
  define e where "e = pos + 2"
  have l: "pos + length (enc_rr r) = e + 10 + length (rr_data r)"
    by (simp add: enc_rr_def enc_pointer_def e_def)
  have "e + 10 + length (rr_data r) \<le> slen p" using room by (simp add: e_def)
  with data [folded e_def] show ?thesis
    by (simp add: name [folded e_def] ty [folded e_def] rlen [folded e_def] u l a_records_def slice_simps flip: e_def)
qed

lemma dns_answer_loop_enc:
  assumes "slice_ok p" "list_all label_ok ls" "at_pos p 12 (enc_labels ls @ [0])"
    and "list_all rr_ok rrs" "at_pos p pos (concat (map enc_rr rrs))"
  shows "dns_answer_loop p (length rrs) pos ips = Inr (ips @ a_records rrs)"
  using assms(4,5)
proof (induction rrs arbitrary: pos ips)
  case (Cons r rrs)
  then have "at_pos p pos (enc_rr r)" "at_pos p (pos + length (enc_rr r)) (concat (map enc_rr rrs))"
    by (simp_all add: at_pos_append [OF assms(1)])
  with Cons.prems(1) Cons.IH [of "pos + length (enc_rr r)" "ips @ a_records [r]"]
  show ?case
    using dns_answer_step [OF assms(1-3), of r pos "length rrs" ips]
    by (simp del: dns_answer_loop.simps) (simp add: a_records_def)
qed (simp add: a_records_def)

definition enc_dns_message ::
    "u16 \<Rightarrow> u16 \<Rightarrow> byte list list \<Rightarrow> u16 \<Rightarrow> u16 \<Rightarrow> dns_rr list \<Rightarrow> byte list" where
  "enc_dns_message ident flags ls qtype qclass rrs =
     be_enc 2 (unat ident) @ be_enc 2 (unat flags) @ be_enc 2 1 @ be_enc 2 (length rrs) @
     be_enc 4 0 @ (enc_labels ls @ [0]) @ be_enc 2 (unat qtype) @ be_enc 2 (unat qclass) @
     concat (map enc_rr rrs)"

lemma parseDNSWireMessage_enc:
  assumes "slice_ok p" "at_pos p 0 (enc_dns_message ident flags ls qtype qclass rrs)"
    and "list_all label_ok ls" "list_all rr_ok rrs" "length rrs < 65536"
  shows "parseDNSWireMessage p = Inr (Some
    \<lparr>dm_qname = dotted_name ls, dm_qtype = qtype, dm_rcode = flags AND 0x000f,
     dm_response_ips = (if flags AND 0x8000 \<noteq> 0 then a_records rrs else [])\<rparr>)"
proof -
  define q where "q = 12 + length (enc_labels ls) + 1"
  note ok = assms(1)
  from assms(2)
  have at: "at_pos p 2 (be_enc 2 (unat flags))" "at_pos p 4 (be_enc 2 1)"
    "at_pos p 6 (be_enc 2 (length rrs))" "at_pos p 12 (enc_labels ls @ [0])"
    "at_pos p q (be_enc 2 (unat qtype))"
    "at_pos p (q + 4) (concat (map enc_rr rrs))"
    by (simp_all add: enc_dns_message_def at_pos_append [OF ok] at_pos_Cons [OF ok] add_ac q_def
        del: add_2_eq_Suc add_2_eq_Suc')
  have w: "unat (w :: u16) < 65536" for w using unsigned_less [of w, where ?'a = nat] by simp
  have len: "q + 4 \<le> slen p" using at(6) by (simp add: at_pos_def)
  then have l12: "12 \<le> slen p" by (simp add: q_def)
  have reads: "be_at p 2 = Inr flags" "be_at p 4 = Inr 1" "be_at p 6 = Inr (word_of_nat (length rrs))"
    "be_at p q = Inr qtype"
    using be_at_enc [OF ok at(1) w] be_at_enc [OF ok at(2)] be_at_enc [OF ok at(3) assms(5)]
      be_at_enc [OF ok at(5) w] by simp_all
  have name: "decodeDNSName p 12 = Inr (Some (dotted_name ls, q))"
    using decodeDNSName_labels [OF ok assms(3) at(4)] by (simp add: decodeDNSName_def q_def)
  have n: "unat (word_of_nat (length rrs) :: u16) = length rrs"
    using assms(5) by (simp add: unat_of_nat take_bit_eq_mod)
  have ips: "decodeDNSAnswerIPs p (q + 4) (word_of_nat (length rrs)) = Inr (a_records rrs)"
    using dns_answer_loop_enc [OF ok assms(3) at(4) assms(4) at(6), of "[]"] n
    by (simp add: decodeDNSAnswerIPs_def)
  show ?thesis
    using len l12 by (simp add: parseDNSWireMessage_def reads name ips Let_def)
qed

section \<open>Records\<close>

text \<open>The packed \<open>struct dns_event\<close> of the kernel side, with the captured payload.\<close>

definition enc_dns_record ::
    "u64 \<Rightarrow> u32 \<Rightarrow> u32 \<Rightarrow> u32 \<Rightarrow> byte list \<Rightarrow> byte \<Rightarrow> byte list \<Rightarrow> byte list" where
  "enc_dns_record ts pid tgid uid comm dir payload =
     le_enc 4 (unat EventDNS) @ le_enc 8 (unat ts) @ le_enc 4 (unat pid) @ le_enc 4 (unat tgid) @
     le_enc 4 (unat uid) @ comm @ [dir] @ le_enc 2 (length payload) @ payload"

lemma decodeDNSEvent_record:
  assumes "length comm = 16" "length payload \<le> 256"
  shows "decodeDNSEvent (slice_of (enc_dns_record ts pid tgid uid comm dir payload @ rest)) =
    sbind (parseDNSWireMessage \<lparr>backing = payload @ rest, slen = length payload\<rparr>) (\<lambda>r.
      case r of None \<Rightarrow> Inr None
      | Some msg \<Rightarrow> Inr (Some (zero_event
          \<lparr>ev_type := EventDNS, ev_timestamp := ts, ev_pid := pid, ev_tgid := tgid, ev_uid := uid,
           ev_comm := comm,
           ev_dns := Some \<lparr>dns_qname = dm_qname msg, dns_qtype = dm_qtype msg,
             dns_rcode = dm_rcode msg, dns_direction = dir, dns_response_ips = dm_response_ips msg\<rparr>\<rparr>)))"
proof -
  define bs where "bs = enc_dns_record ts pid tgid uid comm dir payload @ rest"
  have len: "length bs = 43 + length payload + length rest"
    using assms by (simp add: bs_def enc_dns_record_def)
  have n: "unat (word_of_nat (le_val (le_enc 2 (length payload))) :: u16) = length payload"
    using assms(2) by (simp add: le_val_enc unat_of_nat take_bit_eq_mod)
  have ty: "word_of_nat (le_val (le_enc 4 5)) = (5 :: u32)"
    using word_of_le_enc32 [of 5] by simp
  have fields: "take 4 bs = le_enc 4 5" "take 8 (drop 4 bs) = le_enc 8 (unat ts)"
    "take 4 (drop 12 bs) = le_enc 4 (unat pid)" "take 4 (drop 16 bs) = le_enc 4 (unat tgid)"
    "take 4 (drop 20 bs) = le_enc 4 (unat uid)" "take 16 (drop 24 bs) = comm" "bs ! 40 = dir"
    "take 2 (drop 41 bs) = le_enc 2 (length payload)" "drop 43 bs = payload @ rest"
    using assms(1) by (simp_all add: bs_def enc_dns_record_def nth_append)
  have "decodeDNSEvent (slice_of bs) = sbind (parseDNSWireMessage \<lparr>backing = payload @ rest, slen = length payload\<rparr>)
     (\<lambda>r. case r of None \<Rightarrow> Inr None
      | Some msg \<Rightarrow> Inr (Some (zero_event
          \<lparr>ev_type := EventDNS, ev_timestamp := ts, ev_pid := pid, ev_tgid := tgid, ev_uid := uid,
           ev_comm := comm,
           ev_dns := Some \<lparr>dns_qname = dm_qname msg, dns_qtype = dm_qtype msg,
             dns_rcode = dm_rcode msg, dns_direction = dir, dns_response_ips = dm_response_ips msg\<rparr>\<rparr>)))"
    using assms(2)
    by (simp add: decodeDNSEvent_def dnsRawEventFixedLen_def dnsMaxPayload_def slice_simps len fields ty n)
  then show ?thesis by (simp add: bs_def)
qed

text \<open>
  C16 (roundtrip).  C26 (round trip).  A DNS record that carries an RFC 1035 message, with the question's name given
  by its labels and resource records that refer to it by a compression pointer, is decoded to the
  event with the dotted name, the query type, the response code and, for a response, the addresses
  of exactly the A records in their order.
\<close>

theorem decodeDNSEvent_roundtrip:
  assumes "length comm = 16" "list_all label_ok ls" "list_all rr_ok rrs" "length rrs < 65536"
    and "payload = enc_dns_message ident flags ls qtype qclass rrs" "length payload \<le> 256"
  shows "decodeDNSEvent (slice_of (enc_dns_record ts pid tgid uid comm dir payload @ rest)) =
    Inr (Some (zero_event
      \<lparr>ev_type := EventDNS, ev_timestamp := ts, ev_pid := pid, ev_tgid := tgid, ev_uid := uid,
       ev_comm := comm,
       ev_dns := Some \<lparr>dns_qname = join_with CHR ''.'' (map string_of_bytes ls), dns_qtype = qtype,
         dns_rcode = flags AND 0x000f, dns_direction = dir,
         dns_response_ips = (if flags AND 0x8000 \<noteq> 0 then a_records rrs else [])\<rparr>\<rparr>))"
proof -
  have "at_pos \<lparr>backing = payload @ rest, slen = length payload\<rparr> 0 payload"
    by (simp add: at_pos_def)
  then have "parseDNSWireMessage \<lparr>backing = payload @ rest, slen = length payload\<rparr> = Inr (Some
    \<lparr>dm_qname = dotted_name ls, dm_qtype = qtype, dm_rcode = flags AND 0x000f,
     dm_response_ips = (if flags AND 0x8000 \<noteq> 0 then a_records rrs else [])\<rparr>)"
    using parseDNSWireMessage_enc [of "\<lparr>backing = payload @ rest, slen = length payload\<rparr>"
        ident flags ls qtype qclass rrs] assms by (simp add: slice_ok_def)
  then show ?thesis
    by (simp add: decodeDNSEvent_record [OF assms(1,6)] dotted_name_def)
qed

theorem decodeDNSEvent_roundtrip_witness:
  "decodeDNSEvent (slice_of (enc_dns_record 1 2 3 4 (replicate 16 0) 1
      (enc_dns_message 7 0x8183 [bytes_of_string ''a'', bytes_of_string ''io''] 1 1
        [\<lparr>rr_type = 1, rr_class = 1, rr_ttl = 60, rr_data = [10, 0, 0, 7]\<rparr>]) @ [])) =
   Inr (Some (zero_event
      \<lparr>ev_type := EventDNS, ev_timestamp := 1, ev_pid := 2, ev_tgid := 3, ev_uid := 4,
       ev_comm := replicate 16 0,
       ev_dns := Some \<lparr>dns_qname = ''a.io'', dns_qtype = 1, dns_rcode = 3, dns_direction = 1,
         dns_response_ips = [dotted_quad [10, 0, 0, 7]]\<rparr>\<rparr>))"
proof -
  have "(0x8183 AND 0x000f :: u16) = 3" "(0x8183 AND 0x8000 :: u16) \<noteq> 0" by simp_all
  then show ?thesis
    by (subst decodeDNSEvent_roundtrip [where ls = "[bytes_of_string ''a'', bytes_of_string ''io'']"
        and rrs = "[\<lparr>rr_type = 1, rr_class = 1, rr_ttl = 60, rr_data = [10, 0, 0, 7]\<rparr>]"
        and flags = "0x8183" and qtype = 1 and qclass = 1 and ident = 7])
      (simp_all add: label_ok_def rr_ok_def a_records_def enc_dns_message_def enc_labels_def
         enc_rr_def enc_pointer_def)
qed

end
