(* ===== verification/Go_Float.thy ===== *)
theory Go_Float
  imports Complex_Main Guard_Prelude "HOL-Library.Log_Nat"
begin

text \<open>
  Go's \<open>float64\<close>: a rational, an infinity or not-a-number.  Comparison is that of IEEE 754 (every
  comparison with NaN is false; the sign of zero is not observed by the code modelled here).
  Arithmetic is the exact result rounded to the nearest binary64 value, ties to even.
\<close>

datatype f64 = Fin rat | PInf | NInf | NaN

fun f64_less :: "f64 \<Rightarrow> f64 \<Rightarrow> bool" where
  "f64_less (Fin x) (Fin y) \<longleftrightarrow> x < y"
| "f64_less NInf (Fin _) \<longleftrightarrow> True"
| "f64_less NInf PInf \<longleftrightarrow> True"
| "f64_less (Fin _) PInf \<longleftrightarrow> True"
| "f64_less _ _ \<longleftrightarrow> False"

fun f64_le :: "f64 \<Rightarrow> f64 \<Rightarrow> bool" where
  "f64_le (Fin x) (Fin y) \<longleftrightarrow> x \<le> y"
| "f64_le NInf NaN \<longleftrightarrow> False"
| "f64_le NInf _ \<longleftrightarrow> True"
| "f64_le NaN PInf \<longleftrightarrow> False"
| "f64_le _ PInf \<longleftrightarrow> True"
| "f64_le _ _ \<longleftrightarrow> False"

abbreviation f64_greater :: "f64 \<Rightarrow> f64 \<Rightarrow> bool" where "f64_greater x y \<equiv> f64_less y x"
abbreviation f64_ge :: "f64 \<Rightarrow> f64 \<Rightarrow> bool" where "f64_ge x y \<equiv> f64_le y x"

text \<open>Rounding to nearest, ties to even, of a non-negative rational to an integer.\<close>

definition round_even :: "rat \<Rightarrow> int" where
  "round_even x =
     (let n = \<lfloor>x\<rfloor>; d = x - of_int n in
      if d < 1/2 then n else if d > 1/2 then n + 1 else if even n then n else n + 1)"

definition rat_pow2 :: "int \<Rightarrow> rat" where
  "rat_pow2 e = (if 0 \<le> e then 2 ^ nat e else 1 / 2 ^ nat (- e))"

text \<open>The exponent of the binade of a positive rational.\<close>

definition rat_exp2 :: "rat \<Rightarrow> int" where
  "rat_exp2 x =
     (let (p, q) = quotient_of x; e = bitlen p - bitlen q in
      if rat_pow2 e \<le> x then e else e - 1)"

text \<open>Rounding to a format with \<open>p\<close> fraction bits and exponents from \<open>emin\<close> to below \<open>emax\<close>.\<close>

definition fp_round :: "nat \<Rightarrow> int \<Rightarrow> int \<Rightarrow> rat \<Rightarrow> f64" where
  "fp_round p emin emax r =
     (if r = 0 then Fin 0
      else
        let e = max emin (rat_exp2 \<bar>r\<bar>); u = rat_pow2 (e - int p);
            v = of_int (round_even (\<bar>r\<bar> / u)) * u in
        if rat_pow2 emax \<le> v then (if 0 < r then PInf else NInf)
        else Fin (if 0 < r then v else - v))"

definition f64_round :: "rat \<Rightarrow> f64" where
  "f64_round = fp_round 52 (- 1022) 1024"

definition f64_of_int :: "int \<Rightarrow> f64" where
  "f64_of_int n = f64_round (of_int n)"

text \<open>\<open>float32\<close> values are the binary64 values that are binary32 values.\<close>

definition f32_round :: "rat \<Rightarrow> f64" where
  "f32_round = fp_round 23 (- 126) 128"

fun f32_of_f64 :: "f64 \<Rightarrow> f64" where
  "f32_of_f64 (Fin x) = f32_round x"
| "f32_of_f64 y = y"

fun f64_mul :: "f64 \<Rightarrow> f64 \<Rightarrow> f64" where
  "f64_mul (Fin x) (Fin y) = f64_round (x * y)"
| "f64_mul NaN _ = NaN"
| "f64_mul _ NaN = NaN"
| "f64_mul (Fin x) y = (if x = 0 then NaN else if (0 < x) = (y = PInf) then PInf else NInf)"
| "f64_mul y (Fin x) = (if x = 0 then NaN else if (0 < x) = (y = PInf) then PInf else NInf)"
| "f64_mul x y = (if x = y then PInf else NInf)"

fun f64_add :: "f64 \<Rightarrow> f64 \<Rightarrow> f64" where
  "f64_add (Fin x) (Fin y) = f64_round (x + y)"
| "f64_add NaN _ = NaN"
| "f64_add _ NaN = NaN"
| "f64_add (Fin x) y = y"
| "f64_add y (Fin x) = y"
| "f64_add x y = (if x = y then x else NaN)"

fun f64_neg :: "f64 \<Rightarrow> f64" where
  "f64_neg (Fin x) = Fin (- x)"
| "f64_neg PInf = NInf"
| "f64_neg NInf = PInf"
| "f64_neg NaN = NaN"

definition f64_sub :: "f64 \<Rightarrow> f64 \<Rightarrow> f64" where
  "f64_sub x y = f64_add x (f64_neg y)"

text \<open>Division, with the rounding as a parameter; the zeros of the code are positive.\<close>

fun fp_quot :: "(rat \<Rightarrow> f64) \<Rightarrow> f64 \<Rightarrow> f64 \<Rightarrow> f64" where
  "fp_quot rnd (Fin x) (Fin y) =
     (if y = 0 then (if x = 0 then NaN else if 0 < x then PInf else NInf) else rnd (x / y))"
| "fp_quot rnd NaN _ = NaN"
| "fp_quot rnd _ NaN = NaN"
| "fp_quot rnd (Fin _) _ = Fin 0"
| "fp_quot rnd x (Fin y) = (if (x = PInf) = (0 \<le> y) then PInf else NInf)"
| "fp_quot rnd _ _ = NaN"

definition f64_quot :: "f64 \<Rightarrow> f64 \<Rightarrow> f64" where
  "f64_quot = fp_quot f64_round"

definition f32_quot :: "f64 \<Rightarrow> f64 \<Rightarrow> f64" where
  "f32_quot = fp_quot f32_round"

fun f32_add :: "f64 \<Rightarrow> f64 \<Rightarrow> f64" where
  "f32_add (Fin x) (Fin y) = f32_round (x + y)"
| "f32_add NaN _ = NaN"
| "f32_add _ NaN = NaN"
| "f32_add (Fin x) y = y"
| "f32_add y (Fin x) = y"
| "f32_add x y = (if x = y then x else NaN)"

lemma f64_NaN [simp]:
  "\<not> f64_less NaN x" "\<not> f64_less x NaN" "\<not> f64_le NaN x" "\<not> f64_le x NaN"
  by (cases x; simp)+

lemma f64_less_le_trans: "f64_less a b \<Longrightarrow> f64_le b c \<Longrightarrow> f64_less a c"
  by (cases a; cases b; cases c) simp_all

lemma f64_not_less_ge: "f64_le b a \<Longrightarrow> \<not> f64_less a b"
  by (cases a; cases b) simp_all

section \<open>Rounding\<close>

lemma round_even_int [simp]: "round_even (of_int n) = n"
  by (simp add: round_even_def Let_def)

lemma round_even_ge: "of_int n \<le> x \<Longrightarrow> n \<le> round_even x"
  by (simp add: round_even_def Let_def) linarith

lemma round_even_le: "x \<le> of_int n \<Longrightarrow> round_even x \<le> n"
  by (simp add: round_even_def Let_def) linarith

lemma rat_pow2_pos [simp]: "0 < rat_pow2 e"
  by (simp add: rat_pow2_def)

lemma rat_pow2_nonzero [simp]: "rat_pow2 e \<noteq> 0"
  by (simp add: rat_pow2_def)

lemma rat_pow2_powr: "rat_pow2 e = 2 powi e"
  by (simp add: rat_pow2_def power_int_def inverse_eq_divide power_one_over)

lemma rat_pow2_add: "rat_pow2 (a + b) = rat_pow2 a * rat_pow2 b"
  by (simp add: rat_pow2_powr power_int_add)

lemma rat_pow2_mono: "a \<le> b \<Longrightarrow> rat_pow2 a \<le> rat_pow2 b"
  by (simp add: rat_pow2_powr power_int_increasing)

lemma rat_pow2_nat: "rat_pow2 (int n) = 2 ^ n"
  by (simp add: rat_pow2_def)

lemma rat_pow2_of_int: "0 \<le> e \<Longrightarrow> rat_pow2 e = of_int (2 ^ nat e)"
  by (simp add: rat_pow2_def)

lemma rat_exp2_bounds:
  assumes "0 < x"
  shows "rat_pow2 (rat_exp2 x) \<le> x" "x < rat_pow2 (rat_exp2 x + 1)"
proof -
  obtain p q where pq: "quotient_of x = (p, q)" by (cases "quotient_of x") auto
  have x: "x = of_int p / of_int q" using quotient_of_div [OF pq] .
  have q: "0 < q" using quotient_of_denom_pos [OF pq] .
  have p: "0 < p" using assms x q by (simp add: zero_less_divide_iff)
  have b: "2 ^ nat (bitlen p - 1) \<le> p" "p < 2 ^ nat (bitlen p)"
    "2 ^ nat (bitlen q - 1) \<le> q" "q < 2 ^ nat (bitlen q)"
    using bitlen_bounds [OF p] bitlen_bounds [OF q] by simp_all
  have pos: "0 < bitlen p" "0 < bitlen q" 
    using b(2,4) p q by (auto intro: ccontr simp: not_less)
  have r: "rat_pow2 (bitlen p - 1) \<le> of_int p" "of_int p < rat_pow2 (bitlen p)"
    "rat_pow2 (bitlen q - 1) \<le> of_int q" "of_int q < rat_pow2 (bitlen q)"
    using b pos by (simp_all only: rat_pow2_of_int of_int_le_iff of_int_less_iff zle_diff1_eq less_imp_le
        int_one_le_iff_zero_less diff_ge_0_iff_ge)
  let ?e = "bitlen p - bitlen q"
  have "x < rat_pow2 (bitlen p) / rat_pow2 (bitlen q - 1)"
    unfolding x using r q p by (intro frac_less) simp_all
  also have "\<dots> = rat_pow2 (?e + 1)"
    using rat_pow2_add [of "?e + 1" "bitlen q - 1"] by simp
  finally have u: "x < rat_pow2 (?e + 1)" .
  have "rat_pow2 (bitlen p - 1) / rat_pow2 (bitlen q) < x"
    unfolding x using r q p by (intro frac_less2) simp_all
  then have l: "rat_pow2 (?e - 1) \<le> x"
    using rat_pow2_add [of "?e - 1" "bitlen q"] by simp
  show "rat_pow2 (rat_exp2 x) \<le> x" "x < rat_pow2 (rat_exp2 x + 1)"
    using u l by (auto simp: rat_exp2_def Let_def pq)
qed

text \<open>Rounding does not cross a power of two that the format has, nor zero.\<close>

lemma fp_round_ge_1:
  assumes "1 \<le> r" "emin \<le> 0" "0 \<le> emax"
  shows "fp_round p emin emax r = PInf \<or> (\<exists>v. fp_round p emin emax r = Fin v \<and> 1 \<le> v)"
proof -
  have r: "0 < r" "\<bar>r\<bar> = r" using assms(1) by simp_all
  define x where "x = rat_exp2 r"
  have "rat_pow2 x \<le> r" "r < rat_pow2 (x + 1)"
    using rat_exp2_bounds [OF r(1)] by (simp_all add: x_def)
  have x: "0 \<le> x"
  proof (rule ccontr)
    assume "\<not> 0 \<le> x"
    then have "rat_pow2 (x + 1) \<le> rat_pow2 0" by (intro rat_pow2_mono) simp
    with \<open>r < rat_pow2 (x + 1)\<close> assms(1) show False by (simp add: rat_pow2_def)
  qed
  define u where "u = rat_pow2 (x - int p)"
  have "rat_pow2 x = 2 ^ p * u"
    using rat_pow2_add [of "x - int p" "int p"] by (simp add: u_def rat_pow2_nat mult.commute)
  then have ru: "of_int (2 ^ p) \<le> r / u"
    using \<open>rat_pow2 x \<le> r\<close> by (simp add: u_def pos_le_divide_eq)
  have "of_int (2 ^ p) * u \<le> of_int (round_even (r / u)) * u"
    using round_even_ge [OF ru] by (intro mult_right_mono) (simp_all add: u_def less_imp_le)
  moreover have "1 \<le> rat_pow2 x" using rat_pow2_mono [OF x] by (simp add: rat_pow2_def)
  ultimately have "1 \<le> of_int (round_even (r / u)) * u"
    using \<open>rat_pow2 x = 2 ^ p * u\<close> by simp
  moreover have "max emin x = x" using x assms(2) by simp
  ultimately show ?thesis
    using r by (simp add: fp_round_def Let_def x_def [symmetric] u_def [symmetric])
qed

lemma fp_round_unit:
  assumes "0 \<le> r" "r \<le> 1" "emin \<le> 0" "0 < emax"
  shows "\<exists>v. fp_round p emin emax r = Fin v \<and> 0 \<le> v \<and> v \<le> 1"
proof (cases "r = 0")
  case False
  with assms(1) have r: "0 < r" "\<bar>r\<bar> = r" by simp_all
  define e where "e = max emin (rat_exp2 r)"
  have "rat_exp2 r \<le> 0"
  proof (rule ccontr)
    assume "\<not> rat_exp2 r \<le> 0"
    then have "rat_pow2 1 \<le> rat_pow2 (rat_exp2 r)" by (intro rat_pow2_mono) simp
    with rat_exp2_bounds(1) [OF r(1)] assms(2) show False by (simp add: rat_pow2_def)
  qed
  then have e: "e \<le> 0" using assms(3) by (simp add: e_def)
  define u where "u = rat_pow2 (e - int p)"
  have u: "0 < u" by (simp add: u_def)
  define N where "N = (2 :: int) ^ nat (int p - e)"
  have N: "of_int N * u = 1" using e by (simp add: N_def u_def rat_pow2_def)
  then have "r / u \<le> of_int N" using assms(2) u by (simp add: pos_divide_le_eq)
  then have "of_int (round_even (r / u)) * u \<le> of_int N * u"
    using u by (intro mult_right_mono) (simp_all add: round_even_le)
  moreover have "0 \<le> of_int (round_even (r / u)) * u"
    using round_even_ge [of 0 "r / u"] u r(1) by simp
  moreover have "1 < rat_pow2 emax"
    using rat_pow2_mono [of 1 emax] assms(4) by (simp add: rat_pow2_def)
  ultimately show ?thesis
    using r N unfolding fp_round_def Let_def r(2) e_def [symmetric] u_def [symmetric] by auto
qed (simp add: fp_round_def)

text \<open>Integers that fit in the fraction are represented exactly.\<close>

lemma rat_exp2_le:
  assumes "0 < n" "n < 2 ^ Suc p"
  shows "rat_exp2 (of_int n) \<le> int p"
proof (rule ccontr)
  assume "\<not> rat_exp2 (of_int n) \<le> int p"
  then have "rat_pow2 (int (Suc p)) \<le> rat_pow2 (rat_exp2 (of_int n))" by (intro rat_pow2_mono) simp
  also have "\<dots> \<le> of_int n" using rat_exp2_bounds(1) [of "of_int n"] assms(1) by simp
  finally have "(2 :: rat) ^ Suc p \<le> of_int n" by (simp only: rat_pow2_nat)
  with assms(2) show False by (metis not_le of_int_le_iff of_int_numeral of_int_power)
qed

lemma fp_round_int:
  assumes "\<bar>n\<bar> < 2 ^ Suc p" "emin \<le> int p" "int (Suc p) \<le> emax"
  shows "fp_round p emin emax (of_int n) = Fin (of_int n)"
proof (cases "n = 0")
  case False
  let ?m = "\<bar>n\<bar>"
  define e where "e = max emin (rat_exp2 (of_int ?m))"
  have e: "e \<le> int p" using rat_exp2_le [of ?m p] assms False by (simp add: e_def)
  define u where "u = rat_pow2 (e - int p)"
  have u: "u = 1 / 2 ^ nat (int p - e)" using e by (auto simp: u_def rat_pow2_def)
  have "of_int ?m / u = of_int (?m * 2 ^ nat (int p - e))" by (simp add: u)
  then have "round_even (of_int ?m / u) = ?m * 2 ^ nat (int p - e)" by (simp only: round_even_int)
  then have v: "of_int (round_even (of_int ?m / u)) * u = of_int ?m" by (simp add: u)
  have "of_int ?m < rat_pow2 (int (Suc p))"
    using assms(1) by (simp only: rat_pow2_nat) (metis of_int_less_iff of_int_numeral of_int_power)
  also have "\<dots> \<le> rat_pow2 emax" using assms(3) by (rule rat_pow2_mono)
  finally have big: "of_int ?m < rat_pow2 emax" .
  have a: "\<bar>of_int n :: rat\<bar> = of_int ?m" by simp
  show ?thesis
    unfolding fp_round_def Let_def a e_def [symmetric] u_def [symmetric] v using False big by auto
qed (simp add: fp_round_def)

lemma f64_of_int_exact: "\<bar>n\<bar> < 2 ^ 53 \<Longrightarrow> f64_of_int n = Fin (of_int n)"
  unfolding f64_of_int_def f64_round_def by (rule fp_round_int) simp_all

lemma f32_round_int: "\<bar>n\<bar> < 2 ^ 24 \<Longrightarrow> f32_round (of_int n) = Fin (of_int n)"
  unfolding f32_round_def by (rule fp_round_int) simp_all

end
