(* ===== verification/Ring_Buffer.thy ===== *)
theory Ring_Buffer
  imports Guard_Prelude
begin

text \<open>
  Circular buffers.  Several components keep a bounded history in an array with the index of its
  oldest entry and a count; this theory relates such an array to the list of its live entries, oldest
  first, so that the components are proved against lists.
\<close>

definition ring_list :: "'a list \<Rightarrow> nat \<Rightarrow> nat \<Rightarrow> 'a list" where
  "ring_list buf h n = map (\<lambda>i. buf ! ((h + i) mod length buf)) [0..<n]"

lemma length_ring_list [simp]: "length (ring_list buf h n) = n"
  by (simp add: ring_list_def)

lemma ring_list_0 [simp]: "ring_list buf h 0 = []"
  by (simp add: ring_list_def)

lemma nth_ring_list: "i < n \<Longrightarrow> ring_list buf h n ! i = buf ! ((h + i) mod length buf)"
  by (simp add: ring_list_def)

lemma ring_list_eq_Nil [simp]: "ring_list buf h n = [] \<longleftrightarrow> n = 0"
  by (simp add: ring_list_def)

lemma ring_index_inject:
  assumes "i < L" "j < L" "(h + i) mod L = (h + j) mod (L :: nat)"
  shows "i = j"
proof -
  have "int i mod int L = int j mod int L"
    using assms(3) by (metis add_left_cancel mod_add_right_eq zmod_int of_nat_add
        add.commute add_diff_cancel_left' mod_diff_left_eq)
  then show ?thesis using assms(1,2) by simp
qed

lemma ring_push:
  assumes "n < length buf"
  shows "ring_list (buf[(h + n) mod length buf := x]) h (Suc n) = ring_list buf h n @ [x]"
proof (rule nth_equalityI)
  fix i assume "i < length (ring_list (buf[(h + n) mod length buf := x]) h (Suc n))"
  then have i: "i < Suc n" by simp
  have L: "(h + n) mod length buf < length buf" "(h + i) mod length buf < length buf"
    using assms by (auto intro!: mod_less_divisor)
  show "ring_list (buf[(h + n) mod length buf := x]) h (Suc n) ! i = (ring_list buf h n @ [x]) ! i"
  proof (cases "i = n")
    case True
    with L show ?thesis by (simp add: nth_ring_list nth_append)
  next
    case False
    with i have "i < n" by simp
    moreover have "(h + i) mod length buf \<noteq> (h + n) mod length buf"
      using ring_index_inject [of i "length buf" n h] \<open>i < n\<close> assms by auto
    ultimately show ?thesis by (simp add: nth_ring_list nth_append)
  qed
qed simp

lemma ring_pop:
  assumes "0 < n"
  shows "ring_list buf h n = buf ! (h mod length buf) # ring_list buf (Suc h mod length buf) (n - 1)"
proof (rule nth_equalityI)
  fix i assume "i < length (ring_list buf h n)"
  then show "ring_list buf h n ! i =
      (buf ! (h mod length buf) # ring_list buf (Suc h mod length buf) (n - 1)) ! i"
    by (cases i) (simp_all add: nth_ring_list mod_add_left_eq)
qed (use assms in simp)

lemma ring_head_mod: "ring_list buf (h mod length buf) n = ring_list buf h n"
  by (simp add: ring_list_def mod_add_left_eq)

text \<open>A full ring is the array rotated.\<close>

lemma ring_full:
  assumes "h < length buf"
  shows "ring_list buf h (length buf) = drop h buf @ take h buf"
proof (rule nth_equalityI)
  fix i assume "i < length (ring_list buf h (length buf))"
  then have i: "i < length buf" by simp
  show "ring_list buf h (length buf) ! i = (drop h buf @ take h buf) ! i"
  proof (cases "h + i < length buf")
    case True
    with i show ?thesis by (simp add: nth_ring_list nth_append less_diff_conv add.commute)
  next
    case False
    then have "(h + i) mod length buf = h + i - length buf"
      using i assms le_mod_geq [of "length buf" "h + i"] by simp
    moreover have "\<not> i < length buf - h" "i - (length buf - h) = h + i - length buf"
      using False assms by linarith+
    ultimately show ?thesis using i assms by (simp add: nth_ring_list nth_append)
  qed
qed (use assms in simp)

text \<open>Overwriting the oldest entry of a full ring.\<close>

lemma ring_overwrite:
  assumes "h < length buf"
  shows "ring_list (buf[h := x]) (Suc h mod length buf) (length buf) = tl (ring_list buf h (length buf)) @ [x]"
proof -
  let ?L = "length buf"
  have pop: "ring_list buf h ?L = buf ! h # ring_list buf (Suc h mod ?L) (?L - 1)"
    using ring_pop [of ?L buf h] assms by (cases buf) auto
  have "(Suc h mod ?L + (?L - 1)) mod ?L = h"
  proof (cases "Suc h = ?L")
    case False
    with assms have "Suc h mod ?L + (?L - 1) = h + ?L" by simp
    with assms show ?thesis by simp
  qed simp
  moreover have "?L - 1 < ?L" "Suc (?L - 1) = ?L" using assms by auto
  ultimately have "ring_list (buf[h := x]) (Suc h mod ?L) ?L = ring_list buf (Suc h mod ?L) (?L - 1) @ [x]"
    using ring_push [of "?L - 1" buf "Suc h mod ?L" x] by simp
  with pop show ?thesis by simp
qed

text \<open>The last entries of a ring.\<close>

lemma ring_drop:
  assumes "k \<le> n"
  shows "drop k (ring_list buf h n) = ring_list buf ((h + k) mod length buf) (n - k)"
proof (rule nth_equalityI)
  fix i assume "i < length (drop k (ring_list buf h n))"
  then have "i < n - k" "k + i < n" by simp_all
  then show "drop k (ring_list buf h n) ! i = ring_list buf ((h + k) mod length buf) (n - k) ! i"
    using assms by (simp add: nth_ring_list mod_add_left_eq add.assoc)
qed (use assms in simp)

lemma ring_last: "0 < n \<Longrightarrow> last (ring_list buf h n) = buf ! ((h + n - 1) mod length buf)"
  by (simp add: last_conv_nth nth_ring_list)

section \<open>Bounded logs\<close>

text \<open>
  The contract of a history that keeps a bounded number of entries: appending never fails and leaves
  the most recent entries in order.  Whatever implements it, after any sequence of appends it holds
  exactly the last entries of the sequence.
\<close>

locale bounded_log =
  fixes ok :: "nat \<Rightarrow> 's \<Rightarrow> bool" and contents :: "nat \<Rightarrow> 's \<Rightarrow> 'a list"
    and append :: "nat \<Rightarrow> 's \<Rightarrow> 'a \<Rightarrow> 's option" and empty :: 's
  assumes empty: "0 < m \<Longrightarrow> ok m empty \<and> contents m empty = []"
    and append: "0 < m \<Longrightarrow> ok m s \<Longrightarrow>
      \<exists>s'. append m s x = Some s' \<and> ok m s' \<and> contents m s' = last_n m (contents m s @ [x])"
begin

definition holds :: "nat \<Rightarrow> 'a list \<Rightarrow> 's \<Rightarrow> bool" where
  "holds m xs s \<longleftrightarrow> ok m s \<and> contents m s = last_n m xs"

lemma holds_empty: "0 < m \<Longrightarrow> holds m [] empty"
  using empty by (simp add: holds_def last_n_def)

lemma holds_append:
  "0 < m \<Longrightarrow> holds m xs s \<Longrightarrow> \<exists>s'. append m s x = Some s' \<and> holds m (xs @ [x]) s'"
  using append [of m s x] by (auto simp: holds_def last_n_snoc)

end

end
