(* ===== verification/Dns_Analysis.thy ===== *)
theory Dns_Analysis
  imports Go_Float Ring_Buffer Event_Types
begin

text \<open>
  Statistical analysis of domain names: \<open>src/internal/correlator/dns_entropy.go\<close> (Shannon entropy,
  suspicious TLDs, the 512-entry analysis cache) and \<open>dga_ngram.go\<close> (the character bigram model).

  From outside come the functions of Go's \<open>math\<close>, the Unicode tables beyond ASCII, and the order in
  which a \<open>range\<close> visits a map, which Go leaves open: the record \<open>dns_env\<close>.  A range over the rune
  counts gets its order from \<open>de_range\<close>, indexed by call site.  Products and sums are rounded
  separately, as on amd64.
\<close>

section \<open>Runes\<close>

definition utf8_cont :: "nat \<Rightarrow> bool" where
  "utf8_cont b \<longleftrightarrow> 0x80 \<le> b \<and> b \<le> 0xBF"

text \<open>The rune that starts with byte \<open>b\<close> and the number of further bytes it takes; an invalid
  sequence is \<open>RuneError\<close> of width one.\<close>

definition rune_at :: "nat \<Rightarrow> nat list \<Rightarrow> nat \<times> nat" where
  "rune_at b bs =
     (if b < 0x80 then (b, 0)
      else if 0xC2 \<le> b \<and> b \<le> 0xDF then
        (case bs of
           c1 # _ \<Rightarrow> if utf8_cont c1 then ((b - 0xC0) * 64 + (c1 - 0x80), 1) else (0xFFFD, 0)
         | _ \<Rightarrow> (0xFFFD, 0))
      else if 0xE0 \<le> b \<and> b \<le> 0xEF then
        (case bs of
           c1 # c2 # _ \<Rightarrow>
             if (if b = 0xE0 then 0xA0 else 0x80) \<le> c1 \<and> c1 \<le> (if b = 0xED then 0x9F else 0xBF) \<and> utf8_cont c2
             then ((b - 0xE0) * 4096 + (c1 - 0x80) * 64 + (c2 - 0x80), 2) else (0xFFFD, 0)
         | _ \<Rightarrow> (0xFFFD, 0))
      else if 0xF0 \<le> b \<and> b \<le> 0xF4 then
        (case bs of
           c1 # c2 # c3 # _ \<Rightarrow>
             if (if b = 0xF0 then 0x90 else 0x80) \<le> c1 \<and> c1 \<le> (if b = 0xF4 then 0x8F else 0xBF) \<and>
               utf8_cont c2 \<and> utf8_cont c3
             then ((b - 0xF0) * 262144 + (c1 - 0x80) * 4096 + (c2 - 0x80) * 64 + (c3 - 0x80), 3)
             else (0xFFFD, 0)
         | _ \<Rightarrow> (0xFFFD, 0))
      else (0xFFFD, 0))"

function runes_of :: "nat list \<Rightarrow> nat list" where
  "runes_of [] = []"
| "runes_of (b # bs) = fst (rune_at b bs) # runes_of (drop (snd (rune_at b bs)) bs)"
  by pat_completeness auto
termination by (relation "measure length") auto

definition runes :: "string \<Rightarrow> nat list" where
  "runes s = runes_of (map of_char s)"

definition utf8_encode :: "nat \<Rightarrow> string" where
  "utf8_encode r =
     map char_of
       (if r < 0x80 then [r]
        else if r < 0x800 then [0xC0 + r div 64, 0x80 + r mod 64]
        else if r < 0x10000 then [0xE0 + r div 4096, 0x80 + r div 64 mod 64, 0x80 + r mod 64]
        else [0xF0 + r div 262144, 0x80 + r div 4096 mod 64, 0x80 + r div 64 mod 64, 0x80 + r mod 64])"

definition is_ascii :: "string \<Rightarrow> bool" where
  "is_ascii s \<longleftrightarrow> list_all (\<lambda>c. (of_char c :: nat) < 0x80) s"

section \<open>What comes from outside\<close>

record dns_env =
  de_log2 :: "f64 \<Rightarrow> f64"
  de_log :: "f64 \<Rightarrow> f64"
  de_exp :: "f64 \<Rightarrow> f64"
  de_lower :: "nat \<Rightarrow> nat"
  de_is_letter :: "nat \<Rightarrow> bool"
  de_is_digit :: "nat \<Rightarrow> bool"
  de_range :: "nat \<Rightarrow> nat list \<Rightarrow> nat list"

definition unicode_ToLower :: "dns_env \<Rightarrow> nat \<Rightarrow> nat" where
  "unicode_ToLower env r = (if r < 0x80 then (if 65 \<le> r \<and> r \<le> 90 then r + 32 else r) else de_lower env r)"

definition unicode_IsDigit :: "dns_env \<Rightarrow> nat \<Rightarrow> bool" where
  "unicode_IsDigit env r = (if r < 0x80 then 48 \<le> r \<and> r \<le> 57 else de_is_digit env r)"

definition unicode_IsLetter :: "dns_env \<Rightarrow> nat \<Rightarrow> bool" where
  "unicode_IsLetter env r =
     (if r < 0x80 then 65 \<le> r \<and> r \<le> 90 \<or> 97 \<le> r \<and> r \<le> 122 else de_is_letter env r)"

definition strings_ToLower :: "dns_env \<Rightarrow> string \<Rightarrow> string" where
  "strings_ToLower env s =
     (if is_ascii s then to_lower s
      else concat (map (\<lambda>r. utf8_encode (unicode_ToLower env r)) (runes s)))"

section \<open>Bigram model\<close>

definition ngramCharsetSize :: nat where
  "ngramCharsetSize = 37"

definition legitimateDomainCorpus :: string where
  "legitimateDomainCorpus =
      ''google youtube facebook amazon apple microsoft netflix twitter instagram '' @
      ''linkedin github stackoverflow wordpress cloudflare wikipedia reddit discord '' @
      ''dropbox twitch spotify salesforce shopify paypal adobe atlassian slack zoom '' @
      ''tumblr medium azure gcloud heroku netlify vercel supabase railway render '' @
      ''planetscale neon oracle ibm intel nvidia amd qualcomm broadcom samsung sony '' @
      ''akamai fastly jsdelivr stackpath bunnycdn cloudfront maxcdn edgecast limelight '' @
      ''cdn1 cdn2 static1 static2 img1 img2 assets1 assets2 media1 media2 '' @
      ''eu-west us-east us-west asia-pacific ap-southeast ap-northeast '' @
      ''primary secondary backup failover replica master slave node1 node2 '' @
      ''login portal admin dashboard control panel secure private api gateway proxy '' @
      ''auth oauth sso ldap saml oidc token secret key certificate ssl tls '' @
      ''mail smtp imap pop3 webmail relay sendgrid mailgun postmark sparkpost '' @
      ''server hosting database storage cache redis memcached elastic search '' @
      ''static media assets images photos videos audio podcast content upload '' @
      ''news feed blog post article release update patch version changelog docs '' @
      ''shop store market place catalog inventory shipping billing subscription '' @
      ''support helpdesk tickets forum community social network profile settings '' @
      ''analytics metrics monitor health status check ping test staging dev prod '' @
      ''cloud compute platform service solution system software hardware infra '' @
      ''mobile web desktop enterprise business professional personal home office '' @
      ''search engine index crawler automation pipeline workflow scheduler '' @
      ''payment gateway banking finance insurance investment capital account '' @
      ''health medical research laboratory science engineering technology '' @
      ''education training learning certificate professional developer '' @
      ''travel booking hotel airline reservation transport logistics fleet '' @
      ''gaming entertainment streaming broadcast video music creative studio '' @
      ''legal compliance governance policy regulation audit report dashboard '' @
      ''internal external public private vpn tunnel bridge router switch '' @
      ''information technology computer science management application development '' @
      ''operations security infrastructure performance reliability availability '' @
      ''communication collaboration workspace project agile release cycle '' @
      ''community creative design brand marketing digital transformation '' @
      ''professional services consulting enterprise architecture integration '' @
      ''global local regional national international standard framework '' @
      ''protection detection prevention response analysis intelligence threat '' @
      ''access control identity management authentication authorization policy ''"

record NgramDGADetector =
  nd_bigram_lp :: "f64 list list"
  nd_threshold :: f64
  nd_whitelist :: "string list"

definition ngramCharIdx :: "char \<Rightarrow> nat option" where
  "ngramCharIdx c =
     (let n = (of_char c :: nat) in
      if 97 \<le> n \<and> n \<le> 122 then Some (n - 97)
      else if 48 \<le> n \<and> n \<le> 57 then Some (n - 48 + 26)
      else if n = 45 then Some 36
      else None)"

definition ngramExtractSLD :: "dns_env \<Rightarrow> string \<Rightarrow> string" where
  "ngramExtractSLD env domain =
     (let domain = strings_ToLower env (if suffix ''.'' domain then butlast domain else domain);
          parts = split_on (CHR ''.'') domain in
      if length parts < 2 then domain else parts ! (length parts - 2))"

text \<open>\<open>train\<close>: the tallies, then the logarithms of the row-normalised tallies.\<close>

definition count_bigram :: "char \<times> char \<Rightarrow> f64 list list \<Rightarrow> f64 list list" where
  "count_bigram ab counts =
     (case (ngramCharIdx (fst ab), ngramCharIdx (snd ab)) of
        (Some p, Some c) \<Rightarrow> counts[p := (counts ! p)[c := f32_add (counts ! p ! c) (Fin 1)]]
      | _ \<Rightarrow> counts)"

definition corpus_tokens :: "string list" where
  "corpus_tokens = filter (\<lambda>t. t \<noteq> []) (split_on (CHR '' '') legitimateDomainCorpus)"

definition train_counts :: "f64 list list" where
  "train_counts =
     fold (\<lambda>tok counts. let tok = to_lower tok in fold count_bigram (zip tok (tl tok)) counts)
       corpus_tokens (replicate ngramCharsetSize (replicate ngramCharsetSize (Fin 1)))"

definition train :: "dns_env \<Rightarrow> f64 list list" where
  "train env =
     map (\<lambda>row. let total = fold (\<lambda>c t. f32_add t c) row (Fin 0) in
                map (\<lambda>c. f32_of_f64 (de_log env (f32_quot c total))) row) train_counts"

definition NewNgramDGADetector :: "dns_env \<Rightarrow> f64 \<Rightarrow> NgramDGADetector" where
  "NewNgramDGADetector env threshold =
     \<lparr>nd_bigram_lp = train env, nd_threshold = threshold, nd_whitelist = []\<rparr>"

definition DefaultNgramDGADetector :: "dns_env \<Rightarrow> NgramDGADetector" where
  "DefaultNgramDGADetector env = NewNgramDGADetector env (f64_round (70 / 100))"

definition SetWhitelist :: "dns_env \<Rightarrow> string list \<Rightarrow> NgramDGADetector \<Rightarrow> NgramDGADetector" where
  "SetWhitelist env slds d = d\<lparr>nd_whitelist := remdups (map (strings_ToLower env) slds)\<rparr>"

definition score_step :: "f64 list list \<Rightarrow> char \<times> char \<Rightarrow> f64 \<times> nat \<Rightarrow> f64 \<times> nat" where
  "score_step lp ab st =
     (case (ngramCharIdx (fst ab), ngramCharIdx (snd ab)) of
        (Some p, Some c) \<Rightarrow> (f64_add (fst st) (lp ! p ! c), snd st + 1)
      | _ \<Rightarrow> st)"

definition NgramScore :: "dns_env \<Rightarrow> NgramDGADetector \<Rightarrow> string \<Rightarrow> f64" where
  "NgramScore env d domain =
     (let sld = ngramExtractSLD env domain in
      if length sld < 4 then Fin 0
      else
        case fold (score_step (nd_bigram_lp d)) (zip sld (tl sld)) (Fin 0, 0) of (lnProbSum, n) \<Rightarrow>
          if n = 0 then Fin 0
          else
            let avgLnP = f64_quot lnProbSum (f64_of_int (int n)) in
            f64_quot (Fin 1) (f64_add (Fin 1) (de_exp env (f64_add avgLnP (Fin (7 / 2))))))"

definition NgramIsDGA :: "dns_env \<Rightarrow> NgramDGADetector \<Rightarrow> string \<Rightarrow> bool" where
  "NgramIsDGA env d domain =
     (if nd_whitelist d \<noteq> [] \<and> ngramExtractSLD env domain \<in> set (nd_whitelist d) then False
      else f64_ge (NgramScore env d domain) (nd_threshold d))"

definition Score :: "dns_env \<Rightarrow> string \<Rightarrow> f64" where
  "Score env domain = NgramScore env (DefaultNgramDGADetector env) domain"

section \<open>The entropy calculator\<close>

definition analysisCacheMaxSize :: nat where
  "analysisCacheMaxSize = 512"

record DomainAnalysis =
  da_domain :: string
  da_base_domain :: string
  da_entropy :: f64
  da_is_dga :: bool
  da_is_tunneling :: bool
  da_has_suspicious_tld :: bool
  da_length :: nat
  da_subdomain_count :: nat
  da_digit_ratio :: f64
  da_consonant_vowel_ratio :: f64
  da_ngram_score :: f64

record DNSEntropyCalculator =
  dc_dga_threshold :: f64
  dc_tunneling_min_length :: int
  dc_suspicious_tlds :: "string list"
  dc_cache :: "(string \<times> DomainAnalysis) list"
  dc_evict_q :: "string list"
  dc_head :: nat
  dc_tail :: nat

definition NewDNSEntropyCalculator :: DNSEntropyCalculator where
  "NewDNSEntropyCalculator =
     \<lparr>dc_dga_threshold = Fin (7 / 2), dc_tunneling_min_length = 50,
      dc_suspicious_tlds = [''.onion'', ''.bit'', ''.bazar'', ''.coin'', ''.lib'', ''.emc'', ''.zip'',
        ''.mov'', ''.phd'', ''.xxx''],
      dc_cache = [], dc_evict_q = replicate analysisCacheMaxSize '''', dc_head = 0, dc_tail = 0\<rparr>"

definition CalculateShannonEntropy :: "dns_env \<Rightarrow> nat \<Rightarrow> string \<Rightarrow> f64" where
  "CalculateShannonEntropy env site s =
     (if s = '''' then Fin 0
      else
        let rs = runes s; len = f64_of_int (int (length s)) in
        fold (\<lambda>r entropy.
            let probability = f64_quot (f64_of_int (int (count_list rs r))) len in
            if f64_greater probability (Fin 0)
            then f64_sub entropy (f64_mul probability (de_log2 env probability)) else entropy)
          (de_range env site (remdups rs)) (Fin 0))"

definition extractBaseDomain :: "string \<Rightarrow> string" where
  "extractBaseDomain domain =
     (let parts = split_on (CHR ''.'') domain in
      if length parts \<le> 2 then (case parts of p # _ \<Rightarrow> p | [] \<Rightarrow> domain)
      else concat (butlast parts))"

definition IsDGADomain :: "dns_env \<Rightarrow> DNSEntropyCalculator \<Rightarrow> string \<Rightarrow> bool" where
  "IsDGADomain env c domain =
     (let baseDomain = extractBaseDomain (strings_ToLower env domain) in
      if length baseDomain < 10 then False
      else f64_greater (CalculateShannonEntropy env 1 baseDomain) (dc_dga_threshold c))"

definition IsDNSTunneling :: "DNSEntropyCalculator \<Rightarrow> string \<Rightarrow> bool" where
  "IsDNSTunneling c domain \<longleftrightarrow> int (length domain) > dc_tunneling_min_length c"

definition HasSuspiciousTLD :: "dns_env \<Rightarrow> DNSEntropyCalculator \<Rightarrow> string \<Rightarrow> bool" where
  "HasSuspiciousTLD env c domain =
     (let domain = strings_ToLower env domain in list_ex (\<lambda>tld. suffix tld domain) (dc_suspicious_tlds c))"

definition IsHighFrequencyQuery :: "int \<Rightarrow> int \<Rightarrow> bool" where
  "IsHighFrequencyQuery uniqueDomains windowSeconds =
     (if uniqueDomains \<le> 0 then False
      else
        let windowSeconds = (if windowSeconds \<le> 0 then 60 else windowSeconds);
            threshold = go_div (wrap64 (100 * windowSeconds + 59)) 60 in
        uniqueDomains > threshold)"

definition countSubdomains :: "string \<Rightarrow> nat" where
  "countSubdomains domain =
     (let parts = split_on (CHR ''.'') domain in if length parts \<le> 2 then 0 else length parts - 2)"

definition calculateDigitRatio :: "dns_env \<Rightarrow> string \<Rightarrow> f64" where
  "calculateDigitRatio env s =
     (if s = '''' then Fin 0
      else f64_quot (f64_of_int (int (length (filter (unicode_IsDigit env) (runes s)))))
             (f64_of_int (int (length s))))"

definition calculateConsonantVowelRatio :: "dns_env \<Rightarrow> string \<Rightarrow> f64" where
  "calculateConsonantVowelRatio env s =
     (let letters = filter (unicode_IsLetter env) (runes (strings_ToLower env s));
          vowels = map of_char ''aeiou'';
          vowelCount = length (filter (\<lambda>r. r \<in> set vowels) letters);
          consonantCount = length (filter (\<lambda>r. r \<notin> set vowels) letters) in
      if vowelCount = 0 then f64_of_int (int consonantCount)
      else f64_quot (f64_of_int (int consonantCount)) (f64_of_int (int vowelCount)))"

text \<open>
  \<open>AnalyzeDomain\<close> takes the lock twice: to look the domain up, and to store the result computed in
  between.  The three parts are separate so that calls can be interleaved.
\<close>

definition analysis_of :: "dns_env \<Rightarrow> DNSEntropyCalculator \<Rightarrow> string \<Rightarrow> DomainAnalysis" where
  "analysis_of env c domain =
     (let baseDomain = extractBaseDomain domain in
      \<lparr>da_domain = domain, da_base_domain = baseDomain,
       da_entropy = CalculateShannonEntropy env 0 baseDomain,
       da_is_dga = IsDGADomain env c domain,
       da_is_tunneling = IsDNSTunneling c domain,
       da_has_suspicious_tld = HasSuspiciousTLD env c domain,
       da_length = length domain,
       da_subdomain_count = countSubdomains domain,
       da_digit_ratio = calculateDigitRatio env baseDomain,
       da_consonant_vowel_ratio = calculateConsonantVowelRatio env baseDomain,
       da_ngram_score = Score env domain\<rparr>)"

definition cache_lookup :: "DNSEntropyCalculator \<Rightarrow> string \<Rightarrow> DomainAnalysis option" where
  "cache_lookup c domain = map_of (dc_cache c) domain"

definition cache_evict :: "DNSEntropyCalculator \<Rightarrow> DNSEntropyCalculator" where
  "cache_evict c =
     (if analysisCacheMaxSize \<le> length (dc_cache c) then
        let oldest = dc_evict_q c ! dc_head c in
        c\<lparr>dc_head := (dc_head c + 1) mod analysisCacheMaxSize, dc_cache := AList.delete oldest (dc_cache c)\<rparr>
      else c)"

definition cache_store :: "string \<Rightarrow> DomainAnalysis \<Rightarrow> DNSEntropyCalculator \<Rightarrow> DNSEntropyCalculator" where
  "cache_store domain result c =
     (case map_of (dc_cache c) domain of
        Some _ \<Rightarrow> c
      | None \<Rightarrow>
          let c = cache_evict c in
          c\<lparr>dc_evict_q := (dc_evict_q c)[dc_tail c := domain],
            dc_tail := (dc_tail c + 1) mod analysisCacheMaxSize,
            dc_cache := AList.update domain result (dc_cache c)\<rparr>)"

definition AnalyzeDomain ::
    "dns_env \<Rightarrow> string \<Rightarrow> DNSEntropyCalculator \<Rightarrow> DomainAnalysis \<times> DNSEntropyCalculator" where
  "AnalyzeDomain env domain c =
     (let domain = strings_ToLower env domain in
      case cache_lookup c domain of
        Some cached \<Rightarrow> (cached, c)
      | None \<Rightarrow> let result = analysis_of env c domain in (result, cache_store domain result c))"

text \<open>Settings.\<close>

definition SetDGAThreshold :: "f64 \<Rightarrow> DNSEntropyCalculator \<Rightarrow> DNSEntropyCalculator" where
  "SetDGAThreshold threshold c = c\<lparr>dc_dga_threshold := threshold\<rparr>"

definition SetTunnelingMinLength :: "int \<Rightarrow> DNSEntropyCalculator \<Rightarrow> DNSEntropyCalculator" where
  "SetTunnelingMinLength len c = c\<lparr>dc_tunneling_min_length := len\<rparr>"

definition dot_tld :: "string \<Rightarrow> string" where
  "dot_tld tld = (if prefix ''.'' tld then tld else CHR ''.'' # tld)"

definition AddSuspiciousTLD :: "dns_env \<Rightarrow> string \<Rightarrow> DNSEntropyCalculator \<Rightarrow> DNSEntropyCalculator" where
  "AddSuspiciousTLD env tld c =
     c\<lparr>dc_suspicious_tlds := List.insert (strings_ToLower env (dot_tld tld)) (dc_suspicious_tlds c)\<rparr>"

definition RemoveSuspiciousTLD :: "dns_env \<Rightarrow> string \<Rightarrow> DNSEntropyCalculator \<Rightarrow> DNSEntropyCalculator" where
  "RemoveSuspiciousTLD env tld c =
     c\<lparr>dc_suspicious_tlds := removeAll (strings_ToLower env (dot_tld tld)) (dc_suspicious_tlds c)\<rparr>"

section \<open>The cache is a bounded FIFO of true analyses\<close>

text \<open>The reference: the domains cached, oldest first.\<close>

definition fifo_insert :: "nat \<Rightarrow> 'a \<Rightarrow> 'a list \<Rightarrow> 'a list" where
  "fifo_insert cap x q =
     (if x \<in> set q then q else (if cap \<le> length q then tl q else q) @ [x])"

definition cached_domains :: "DNSEntropyCalculator \<Rightarrow> string list" where
  "cached_domains c = ring_list (dc_evict_q c) (dc_head c) (length (dc_cache c))"

definition same_settings :: "DNSEntropyCalculator \<Rightarrow> DNSEntropyCalculator \<Rightarrow> bool" where
  "same_settings c d \<longleftrightarrow>
     dc_dga_threshold c = dc_dga_threshold d \<and> dc_tunneling_min_length c = dc_tunneling_min_length d \<and>
     dc_suspicious_tlds c = dc_suspicious_tlds d"

definition cache_ok :: "DNSEntropyCalculator \<Rightarrow> bool" where
  "cache_ok c \<longleftrightarrow>
     length (dc_evict_q c) = analysisCacheMaxSize \<and> length (dc_cache c) \<le> analysisCacheMaxSize \<and>
     dc_head c < analysisCacheMaxSize \<and>
     dc_tail c = (dc_head c + length (dc_cache c)) mod analysisCacheMaxSize \<and>
     distinct_keys (dc_cache c) \<and> distinct (cached_domains c) \<and>
     set (cached_domains c) = fst ` set (dc_cache c)"

lemma cache_max_pos [simp]: "0 < analysisCacheMaxSize"
  by (simp add: analysisCacheMaxSize_def)

lemma cache_ok_new: "cache_ok NewDNSEntropyCalculator" "cached_domains NewDNSEntropyCalculator = []"
  by (simp_all add: cache_ok_def NewDNSEntropyCalculator_def cached_domains_def)

lemma length_delete_present:
  "distinct_keys al \<Longrightarrow> k \<in> fst ` set al \<Longrightarrow> length (AList.delete k al) = length al - 1"
proof (induction al)
  case (Cons p al)
  show ?case
  proof (cases "fst p = k")
    case True
    with Cons.prems(1) have "AList.delete k al = al"
      by (intro delete_id) auto
    with True show ?thesis by (cases p) simp
  next
    case False
    with Cons have "k \<in> fst ` set al" by auto
    moreover from this have "0 < length al" by auto
    ultimately show ?thesis using Cons False by (cases p) simp
  qed
qed simp

lemma cache_evict_ok:
  assumes "cache_ok c"
  shows "cache_ok (cache_evict c)"
    and "cached_domains (cache_evict c) =
      (if analysisCacheMaxSize \<le> length (cached_domains c) then tl (cached_domains c) else cached_domains c)"
    and "length (dc_cache (cache_evict c)) < analysisCacheMaxSize"
    and "map_of (dc_cache (cache_evict c)) d \<in> {None, map_of (dc_cache c) d}"
    and "same_settings (cache_evict c) c"
proof -
  let ?N = analysisCacheMaxSize and ?q = "dc_evict_q c" and ?h = "dc_head c" and ?n = "length (dc_cache c)"
  have c: "length ?q = ?N" "?n \<le> ?N" "?h < ?N" "dc_tail c = (?h + ?n) mod ?N" "distinct_keys (dc_cache c)"
    "distinct (cached_domains c)" "set (cached_domains c) = fst ` set (dc_cache c)"
    using assms by (simp_all add: cache_ok_def)
  show "same_settings (cache_evict c) c"
    by (simp add: cache_evict_def same_settings_def Let_def)
  show "map_of (dc_cache (cache_evict c)) d \<in> {None, map_of (dc_cache c) d}"
    using c(5) by (auto simp: cache_evict_def Let_def delete_conv')
  have "cache_ok (cache_evict c) \<and>
    cached_domains (cache_evict c) = (if ?N \<le> ?n then tl (cached_domains c) else cached_domains c) \<and>
    length (dc_cache (cache_evict c)) < ?N"
  proof (cases "?N \<le> ?n")
    case True
    then have n: "?n = ?N" "0 < ?n" using c(2) by simp_all
    let ?k = "?q ! ?h" and ?h' = "(?h + 1) mod ?N"
    have abs: "cached_domains c = ?k # ring_list ?q ?h' (?n - 1)"
      using ring_pop [OF n(2), of ?q ?h] c(1,3) by (simp add: cached_domains_def)
    then have "?k \<in> fst ` set (dc_cache c)" using c(7) by auto
    then have len: "length (AList.delete ?k (dc_cache c)) = ?n - 1"
      by (rule length_delete_present [OF c(5)])
    have abs': "cached_domains (cache_evict c) = tl (cached_domains c)"
      using True abs by (simp add: cache_evict_def cached_domains_def Let_def len)
    have "set (tl (cached_domains c)) = fst ` set (AList.delete ?k (dc_cache c))"
      using c(6,7) abs by (auto simp: dom_map_of_conv_image_fst [symmetric] delete_conv')
    moreover have "dc_tail c = (?h' + (?n - 1)) mod ?N"
    proof -
      have "?h + 1 + (?n - 1) = ?h + ?n" using n(2) by simp
      with c(4) show ?thesis by (simp only: mod_add_left_eq)
    qed
    ultimately show ?thesis
      using True c n abs abs' len
      by (simp add: cache_ok_def cache_evict_def Let_def distinct_tl)
  next
    case False
    with assms show ?thesis by (simp add: cache_evict_def)
  qed
  then show "cache_ok (cache_evict c)" "length (dc_cache (cache_evict c)) < ?N"
    "cached_domains (cache_evict c) =
      (if ?N \<le> length (cached_domains c) then tl (cached_domains c) else cached_domains c)"
    by (simp_all add: cached_domains_def)
qed

lemma cache_store_ok:
  assumes "cache_ok c"
  shows "cache_ok (cache_store d r c)"
    and "cached_domains (cache_store d r c) = fifo_insert analysisCacheMaxSize d (cached_domains c)"
    and "same_settings (cache_store d r c) c"
    and "map_of (dc_cache (cache_store d r c)) x = Some a \<Longrightarrow>
      map_of (dc_cache c) x = Some a \<or> x = d \<and> a = r"
proof -
  let ?N = analysisCacheMaxSize
  have dom: "fst ` set (dc_cache c) = set (cached_domains c)" using assms by (simp add: cache_ok_def)
  have "cache_ok (cache_store d r c) \<and>
    cached_domains (cache_store d r c) = fifo_insert ?N d (cached_domains c) \<and>
    same_settings (cache_store d r c) c \<and>
    (map_of (dc_cache (cache_store d r c)) x = Some a \<longrightarrow> map_of (dc_cache c) x = Some a \<or> x = d \<and> a = r)"
  proof (cases "map_of (dc_cache c) d")
    case None
    define e where "e = cache_evict c"
    note ev = cache_evict_ok [OF assms, folded e_def]
    have new: "d \<notin> set (cached_domains c)"
      using None dom by (simp add: map_of_eq_None_iff)
    let ?q = "dc_evict_q e" and ?n = "length (dc_cache e)"
    have e: "length ?q = ?N" "dc_tail e = (dc_head e + ?n) mod ?N" "distinct_keys (dc_cache e)"
      "distinct (cached_domains e)" "set (cached_domains e) = fst ` set (dc_cache e)" "dc_head e < ?N"
      using ev(1) by (simp_all add: cache_ok_def)
    have sub: "set (cached_domains e) \<subseteq> set (cached_domains c)"
      unfolding ev(2) by (cases "cached_domains c") auto
    then have fresh: "d \<notin> fst ` set (dc_cache e)" using new e(5) by auto
    then have len: "length (AList.update d r (dc_cache e)) = Suc ?n"
      by (simp add: length_update_alist)
    have st: "cache_store d r c = e\<lparr>dc_evict_q := ?q[dc_tail e := d],
        dc_tail := (dc_tail e + 1) mod ?N, dc_cache := AList.update d r (dc_cache e)\<rparr>"
      using None by (simp add: cache_store_def Let_def e_def)
    have abs: "cached_domains (cache_store d r c) = cached_domains e @ [d]"
      using ring_push [of ?n ?q "dc_head e" d] ev(3) e(1,2)
      by (simp add: st cached_domains_def len)
    have spec: "fifo_insert ?N d (cached_domains c) = cached_domains e @ [d]"
      using new by (simp add: fifo_insert_def ev(2))
    have "cache_ok (cache_store d r c)"
      unfolding cache_ok_def abs using e ev(3) fresh
      by (simp add: st len mod_Suc_eq dom_map_of_conv_image_fst [symmetric] update_conv' distinct_keys_update)
    moreover have "same_settings (cache_store d r c) c"
      using ev(5) by (simp add: st same_settings_def)
    moreover have "map_of (dc_cache (cache_store d r c)) x = Some a \<longrightarrow>
        map_of (dc_cache c) x = Some a \<or> x = d \<and> a = r"
      using ev(4) [of x] by (auto simp: st update_conv')
    ultimately show ?thesis by (simp add: abs spec)
  next
    case (Some y)
    then have "d \<in> set (cached_domains c)"
      using dom by (metis domI dom_map_of_conv_image_fst)
    with Some assms show ?thesis
      by (simp add: cache_store_def fifo_insert_def same_settings_def)
  qed
  then show "cache_ok (cache_store d r c)" "same_settings (cache_store d r c) c"
    "cached_domains (cache_store d r c) = fifo_insert ?N d (cached_domains c)"
    "map_of (dc_cache (cache_store d r c)) x = Some a \<Longrightarrow>
      map_of (dc_cache c) x = Some a \<or> x = d \<and> a = r" by blast+
qed


text \<open>
  Any interleaving of calls is, for the shared state, a sequence of stores: a call that hits the cache
  changes nothing, and the others store what they computed under the iteration order they happened to
  see.
\<close>

definition store_step :: "dns_env \<Rightarrow> string \<times> (nat \<Rightarrow> nat list \<Rightarrow> nat list) \<Rightarrow> DNSEntropyCalculator \<Rightarrow> DNSEntropyCalculator" where
  "store_step env x c = cache_store (fst x) (analysis_of (env\<lparr>de_range := snd x\<rparr>) c (fst x)) c"

lemma analysis_of_settings: "same_settings c c' \<Longrightarrow> analysis_of env c d = analysis_of env c' d"
  by (simp add: analysis_of_def same_settings_def IsDGADomain_def IsDNSTunneling_def HasSuspiciousTLD_def Let_def)

lemma strings_ToLower_range [simp]: "strings_ToLower (env\<lparr>de_range := ord\<rparr>) s = strings_ToLower env s"
  by (simp add: strings_ToLower_def unicode_ToLower_def cong: if_cong)

lemma store_run:
  fixes env :: dns_env and ds :: "(string \<times> (nat \<Rightarrow> nat list \<Rightarrow> nat list)) list"
  defines "c \<equiv> fold (store_step env) ds NewDNSEntropyCalculator"
  shows "cache_ok c" "same_settings c NewDNSEntropyCalculator"
    "cached_domains c = fold (fifo_insert analysisCacheMaxSize) (map fst ds) []"
    "map_of (dc_cache c) d = Some a \<Longrightarrow>
      \<exists>ord. a = analysis_of (env\<lparr>de_range := ord\<rparr>) NewDNSEntropyCalculator d"
proof -
  let ?P = "\<lambda>ds c. cache_ok c \<and> same_settings c NewDNSEntropyCalculator \<and>
    cached_domains c = fold (fifo_insert analysisCacheMaxSize) (map fst ds) [] \<and>
    (\<forall>d a. map_of (dc_cache c) d = Some a \<longrightarrow>
      (\<exists>ord. a = analysis_of (env\<lparr>de_range := ord\<rparr>) NewDNSEntropyCalculator d))"
  have "?P ds (fold (store_step env) ds NewDNSEntropyCalculator)"
  proof (induction ds rule: rev_induct)
    case Nil
    show ?case by (simp add: cache_ok_new same_settings_def) (simp add: NewDNSEntropyCalculator_def)
  next
    case (snoc x ds)
    define b where "b = fold (store_step env) ds NewDNSEntropyCalculator"
    define r where "r = analysis_of (env\<lparr>de_range := snd x\<rparr>) b (fst x)"
    have b: "?P ds b" using snoc by (simp add: b_def)
    note st = cache_store_ok [of b "fst x" r]
    have "r = analysis_of (env\<lparr>de_range := snd x\<rparr>) NewDNSEntropyCalculator (fst x)"
      using b analysis_of_settings unfolding r_def by blast
    then have "\<exists>ord. a = analysis_of (env\<lparr>de_range := ord\<rparr>) NewDNSEntropyCalculator d"
      if "map_of (dc_cache (cache_store (fst x) r b)) d = Some a" for d a
      using st(4) [OF _ that] b by blast
    moreover have "same_settings (cache_store (fst x) r b) NewDNSEntropyCalculator"
      using st(3) b by (simp add: same_settings_def)
    ultimately have P: "?P (ds @ [x]) (cache_store (fst x) r b)"
      using st(1,2) b by simp
    have eq: "fold (store_step env) (ds @ [x]) NewDNSEntropyCalculator = cache_store (fst x) r b"
      by (simp add: b_def r_def store_step_def [of env x])
    show ?case unfolding eq by (rule P)
  qed
  then show "cache_ok c" "same_settings c NewDNSEntropyCalculator"
    "cached_domains c = fold (fifo_insert analysisCacheMaxSize) (map fst ds) []"
    "map_of (dc_cache c) d = Some a \<Longrightarrow>
      \<exists>ord. a = analysis_of (env\<lparr>de_range := ord\<rparr>) NewDNSEntropyCalculator d"
    by (simp_all add: c_def)
qed

text \<open>
  C24 (refinement).  After any interleaving of analyses the cache holds at most 512 domains, those a
  first-in-first-out queue of that capacity would hold, and a call returns the true analysis of its
  domain, lower-cased, for some order of iteration over the rune counts, whether it hits or misses.
\<close>

theorem AnalyzeDomain_refines_fifo:
  fixes env :: dns_env and ds :: "(string \<times> (nat \<Rightarrow> nat list \<Rightarrow> nat list)) list"
  defines "c \<equiv> fold (store_step env) ds NewDNSEntropyCalculator"
  shows "length (dc_cache c) \<le> 512 \<and>
    fst ` set (dc_cache c) = set (fold (fifo_insert 512) (map fst ds) []) \<and>
    (\<exists>ord. fst (AnalyzeDomain env d c) =
       analysis_of (env\<lparr>de_range := ord\<rparr>) NewDNSEntropyCalculator (strings_ToLower env d))"
proof -
  note run = store_run [of env ds, folded c_def]
  have "length (dc_cache c) \<le> 512" "fst ` set (dc_cache c) = set (cached_domains c)"
    using run(1) by (simp_all add: cache_ok_def analysisCacheMaxSize_def)
  moreover have "\<exists>ord. fst (AnalyzeDomain env d c) =
       analysis_of (env\<lparr>de_range := ord\<rparr>) NewDNSEntropyCalculator (strings_ToLower env d)"
  proof (cases "map_of (dc_cache c) (strings_ToLower env d)")
    case None
    then show ?thesis
      using analysis_of_settings [OF run(2), of env]
      by (intro exI [of _ "de_range env"]) (simp add: AnalyzeDomain_def cache_lookup_def Let_def)
  next
    case (Some a)
    with run(4) show ?thesis by (simp add: AnalyzeDomain_def cache_lookup_def Let_def)
  qed
  ultimately show ?thesis using run(3) by (simp add: analysisCacheMaxSize_def)
qed

section \<open>The score is a probability\<close>

definition nonpos :: "f64 \<Rightarrow> bool" where
  "nonpos x \<longleftrightarrow> x = NInf \<or> (\<exists>y\<le>0. x = Fin y)"

lemma fp_round_nonpos: "r \<le> 0 \<Longrightarrow> nonpos (fp_round p emin emax r)"
proof (cases "r = 0")
  case False
  assume "r \<le> 0"
  with False have r: "r < 0" "\<not> 0 < r" by simp_all
  define u where "u = rat_pow2 (max emin (rat_exp2 \<bar>r\<bar>) - int p)"
  have "0 \<le> of_int (round_even (\<bar>r\<bar> / u)) * u"
    using round_even_ge [of 0 "\<bar>r\<bar> / u"] by (simp add: u_def less_imp_le)
  with r show ?thesis
    unfolding fp_round_def Let_def u_def [symmetric] by (simp add: nonpos_def)
qed (simp add: fp_round_def nonpos_def)

lemma nonpos_round:
  "r \<le> 0 \<Longrightarrow> nonpos (f64_round r)" "r \<le> 0 \<Longrightarrow> nonpos (f32_round r)"
  by (simp_all add: f64_round_def f32_round_def fp_round_nonpos)

lemma nonpos_f32: "nonpos x \<Longrightarrow> nonpos (f32_of_f64 x)"
  by (auto simp: nonpos_def [of x] nonpos_round) (simp add: nonpos_def)

lemma nonpos_add: "nonpos x \<Longrightarrow> nonpos y \<Longrightarrow> nonpos (f64_add x y)"
  by (auto simp: nonpos_def [of x] nonpos_def [of y] nonpos_round) (simp_all add: nonpos_def)

lemma nonpos_quot: "nonpos x \<Longrightarrow> 0 < n \<Longrightarrow> nonpos (f64_quot x (Fin n))"
  by (auto simp: nonpos_def [of x] f64_quot_def nonpos_round divide_nonpos_pos) (simp add: nonpos_def)

lemma score_unit:
  assumes "e = PInf \<or> (\<exists>y\<ge>0. e = Fin y)"
  shows "\<exists>v. f64_quot (Fin 1) (f64_add (Fin 1) e) = Fin v \<and> 0 \<le> v \<and> v \<le> 1"
proof -
  have s: "f64_add (Fin 1) e = PInf \<or> (\<exists>w\<ge>1. f64_add (Fin 1) e = Fin w)"
  proof (cases e)
    case (Fin y)
    with assms have "1 \<le> 1 + y" by auto
    from fp_round_ge_1 [OF this, of "- 1022" 1024 52] Fin show ?thesis
      by (auto simp: f64_round_def)
  qed (use assms in auto)
  have "\<exists>v. f64_round (1 / w) = Fin v \<and> 0 \<le> v \<and> v \<le> 1" if "1 \<le> w" for w
    using that unfolding f64_round_def by (intro fp_round_unit) simp_all
  with s show ?thesis by (auto simp: f64_quot_def)
qed

text \<open>The tallies are positive integers, small enough for \<open>float32\<close>.\<close>

definition tally_row :: "int \<Rightarrow> f64 list \<Rightarrow> bool" where
  "tally_row N row \<longleftrightarrow>
     (\<exists>ks. row = map (\<lambda>k. Fin (of_int k)) ks \<and> length ks = ngramCharsetSize \<and> (\<forall>k \<in> set ks. 1 \<le> k) \<and>
       sum_list ks \<le> int ngramCharsetSize + N)"

definition tallies :: "int \<Rightarrow> f64 list list \<Rightarrow> bool" where
  "tallies N counts \<longleftrightarrow> length counts = ngramCharsetSize \<and> (\<forall>row \<in> set counts. tally_row N row)"

lemma sum_list_update_int:
  "c < length ks \<Longrightarrow> sum_list (ks[c := x]) = sum_list ks + x - (ks ! c :: int)"
  by (induction ks arbitrary: c) (auto split: nat.split)

lemma elem_le_sum_list_int:
  "x \<in> set ks \<Longrightarrow> \<forall>k \<in> set ks. 0 \<le> k \<Longrightarrow> x \<le> (sum_list ks :: int)"
  by (induction ks) (auto intro: add_increasing2 sum_list_nonneg)

lemma ngramCharIdx_less: "ngramCharIdx c = Some i \<Longrightarrow> i < ngramCharsetSize"
  by (auto simp: ngramCharIdx_def ngramCharsetSize_def Let_def split: if_splits)

lemma tally_row_mono: "tally_row N row \<Longrightarrow> N \<le> M \<Longrightarrow> tally_row M row"
  by (force simp: tally_row_def)

lemma tally_row_bump:
  assumes "tally_row N row" "c < ngramCharsetSize" "0 \<le> N" "N < 2 ^ 23"
  shows "tally_row (N + 1) (row[c := f32_add (row ! c) (Fin 1)])"
proof -
  obtain ks where ks: "row = map (\<lambda>k. Fin (of_int k)) ks" "length ks = ngramCharsetSize"
    "\<forall>k \<in> set ks. 1 \<le> k" "sum_list ks \<le> int ngramCharsetSize + N"
    using assms(1) by (auto simp: tally_row_def)
  have "ks ! c \<in> set ks" using assms(2) ks(2) by simp
  then have "ks ! c \<le> sum_list ks" "1 \<le> ks ! c"
    using ks(3) by (force intro: elem_le_sum_list_int)+
  then have "\<bar>ks ! c + 1\<bar> < 2 ^ 24" using ks(4) assms(4) by (simp add: ngramCharsetSize_def)
  then have "f32_round (of_int (ks ! c + 1)) = Fin (of_int (ks ! c + 1))" by (rule f32_round_int)
  then have "row[c := f32_add (row ! c) (Fin 1)] = map (\<lambda>k. Fin (of_int k)) (ks[c := ks ! c + 1])"
    using ks(1,2) assms(2) by (simp add: map_update)
  moreover have "\<forall>k \<in> set (ks[c := ks ! c + 1]). 1 \<le> k"
    using ks(3) \<open>1 \<le> ks ! c\<close> by (auto dest!: subsetD [OF set_update_subset_insert])
  moreover have "sum_list (ks[c := ks ! c + 1]) \<le> int ngramCharsetSize + (N + 1)"
    using ks(2,4) assms(2) by (simp add: sum_list_update_int)
  ultimately show ?thesis using ks(2) unfolding tally_row_def by (metis length_list_update)
qed

lemma count_bigram_tallies:
  assumes "tallies N counts" "0 \<le> N" "N < 2 ^ 23"
  shows "tallies (N + 1) (count_bigram ab counts)"
proof (cases "ngramCharIdx (fst ab)"; cases "ngramCharIdx (snd ab)")
  fix p c assume ix: "ngramCharIdx (fst ab) = Some p" "ngramCharIdx (snd ab) = Some c"
  then have "p < length counts" "c < ngramCharsetSize"
    using assms(1) ngramCharIdx_less by (auto simp: tallies_def)
  then have "tally_row (N + 1) ((counts ! p)[c := f32_add (counts ! p ! c) (Fin 1)])"
    using assms by (intro tally_row_bump) (simp_all add: tallies_def)
  with assms(1) ix show ?thesis
    by (auto simp: tallies_def count_bigram_def dest!: subsetD [OF set_update_subset_insert]
        intro: tally_row_mono)
qed (use assms(1) in \<open>auto simp: tallies_def count_bigram_def intro: tally_row_mono\<close>)

lemma fold_bigram_tallies:
  "tallies N counts \<Longrightarrow> 0 \<le> N \<Longrightarrow> N + int (length xs) \<le> 2 ^ 23 \<Longrightarrow>
   tallies (N + int (length xs)) (fold count_bigram xs counts)"
proof (induction xs arbitrary: N counts)
  case (Cons x xs)
  have "tallies (N + 1) (count_bigram x counts)"
    using Cons.prems by (intro count_bigram_tallies) simp_all
  from Cons.IH [OF this] Cons.prems show ?case by (simp add: algebra_simps)
qed simp

lemma sum_split_on: "sum_list (map length (split_on c s)) \<le> length s"
  by (induction s) (auto split: list.splits)

lemma fold_tokens_tallies:
  "tallies N counts \<Longrightarrow> 0 \<le> N \<Longrightarrow> N + int (sum_list (map length toks)) \<le> 2 ^ 23 \<Longrightarrow>
   tallies (N + int (sum_list (map length toks)))
     (fold (\<lambda>tok counts. let tok = to_lower tok in fold count_bigram (zip tok (tl tok)) counts) toks counts)"
proof (induction toks arbitrary: N counts)
  case (Cons t toks)
  let ?x = "zip (to_lower t) (tl (to_lower t))"
  have len: "length ?x \<le> length t" by (simp add: to_lower_def)
  have step: "tallies (N + int (length ?x)) (fold count_bigram ?x counts)"
    using Cons.prems len by (intro fold_bigram_tallies) simp_all
  have "tallies (N + int (length t)) (fold count_bigram ?x counts)"
    using step len by (auto simp: tallies_def elim!: tally_row_mono)
  from Cons.IH [OF this] Cons.prems show ?case by (simp add: Let_def algebra_simps)
qed simp

lemma length_corpus: "length legitimateDomainCorpus < 4000"
  unfolding legitimateDomainCorpus_def by code_simp

lemma sum_list_filter_le: "sum_list (map length (filter P xs)) \<le> sum_list (map length xs)"
  by (induction xs) auto

lemma train_counts_tallies: "tallies 4000 train_counts"
proof -
  have "sum_list (map length corpus_tokens) \<le> 4000"
    using sum_list_filter_le [of "\<lambda>t. t \<noteq> []" "split_on (CHR '' '') legitimateDomainCorpus"]
      sum_split_on [of "CHR '' ''" legitimateDomainCorpus] length_corpus
    unfolding corpus_tokens_def by linarith
  moreover have "tallies 0 (replicate ngramCharsetSize (replicate ngramCharsetSize (Fin 1)))"
    by (auto simp: tallies_def tally_row_def sum_list_replicate
        intro!: exI [of _ "replicate ngramCharsetSize 1"])
  ultimately have "tallies (0 + int (sum_list (map length corpus_tokens))) train_counts"
    unfolding train_counts_def by (intro fold_tokens_tallies) simp_all
  with \<open>sum_list (map length corpus_tokens) \<le> 4000\<close> show ?thesis
    by (auto simp: tallies_def elim!: tally_row_mono)
qed

lemma fold_f32_total:
  "\<forall>k \<in> set ks. 1 \<le> k \<Longrightarrow> 0 \<le> a \<Longrightarrow> a + sum_list ks < 2 ^ 24 \<Longrightarrow>
   fold (\<lambda>c t. f32_add t c) (map (\<lambda>k. Fin (of_int k)) ks) (Fin (of_int a)) = Fin (of_int (a + sum_list ks))"
proof (induction ks arbitrary: a)
  case (Cons k ks)
  have "0 \<le> sum_list ks" using Cons.prems(1) by (intro sum_list_nonneg) auto
  then have "\<bar>a + k\<bar> < 2 ^ 24" using Cons.prems by simp
  then have "f32_add (Fin (of_int a)) (Fin (of_int k)) = Fin (of_int (a + k))"
    by (metis f32_add.simps(1) f32_round_int of_int_add)
  with Cons.IH [of "a + k"] Cons.prems show ?case by (simp add: add.assoc)
qed simp

text \<open>What the documentation of \<open>math.Log\<close> and \<open>math.Exp\<close> promises, as far as it is used.\<close>

definition log_nonpos :: "dns_env \<Rightarrow> bool" where
  "log_nonpos env \<longleftrightarrow> (\<forall>x. 0 \<le> x \<and> x \<le> 1 \<longrightarrow> nonpos (de_log env (Fin x)))"

definition exp_nonneg :: "dns_env \<Rightarrow> bool" where
  "exp_nonneg env \<longleftrightarrow>
     (\<forall>x. x \<noteq> NaN \<longrightarrow> de_exp env x = PInf \<or> (\<exists>y\<ge>0. de_exp env x = Fin y))"

lemma tally_row_logs:
  assumes "tally_row 4000 row" "log_nonpos env" "c \<in> set row"
  shows "nonpos (f32_of_f64 (de_log env (f32_quot c (fold (\<lambda>c t. f32_add t c) row (Fin 0)))))"
proof -
  obtain ks where ks: "row = map (\<lambda>k. Fin (of_int k)) ks" "\<forall>k \<in> set ks. 1 \<le> k" "sum_list ks \<le> 4037"
    using assms(1) by (auto simp: tally_row_def ngramCharsetSize_def)
  have total: "fold (\<lambda>c t. f32_add t c) row (Fin 0) = Fin (of_int (sum_list ks))"
    using fold_f32_total [of ks 0] ks by simp
  obtain k where k: "c = Fin (of_int k)" "k \<in> set ks" using assms(3) ks(1) by auto
  have le: "1 \<le> k" "k \<le> sum_list ks"
    using ks(2) k(2) by (force intro: elem_le_sum_list_int)+
  then have "\<exists>v. f32_round (of_int k / of_int (sum_list ks)) = Fin v \<and> 0 \<le> v \<and> v \<le> 1"
    unfolding f32_round_def by (intro fp_round_unit) simp_all
  then obtain v where "f32_quot c (Fin (of_int (sum_list ks))) = Fin v" "0 \<le> v" "v \<le> 1"
    using le by (auto simp: f32_quot_def k(1))
  with assms(2) show ?thesis by (auto simp: total log_nonpos_def intro: nonpos_f32)
qed

lemma train_shape:
  assumes "log_nonpos env"
  shows "length (train env) = ngramCharsetSize"
    and "row \<in> set (train env) \<Longrightarrow> length row = ngramCharsetSize \<and> (\<forall>x \<in> set row. nonpos x)"
  using train_counts_tallies tally_row_logs [OF _ assms]
  by (auto simp: train_def tallies_def Let_def) (auto simp: tally_row_def)

lemma score_fold_nonpos:
  assumes "log_nonpos env" "nonpos (fst st)"
  shows "nonpos (fst (fold (score_step (train env)) xs st)) \<and>
    snd (fold (score_step (train env)) xs st) \<le> snd st + length xs"
  using assms(2)
proof (induction xs arbitrary: st)
  case (Cons ab xs)
  have "nonpos (fst (score_step (train env) ab st)) \<and> snd (score_step (train env) ab st) \<le> snd st + 1"
  proof (cases "ngramCharIdx (fst ab)"; cases "ngramCharIdx (snd ab)")
    fix p c assume ix: "ngramCharIdx (fst ab) = Some p" "ngramCharIdx (snd ab) = Some c"
    then have "train env ! p \<in> set (train env)"
      using train_shape(1) [OF assms(1)] ngramCharIdx_less by (metis nth_mem)
    then have "nonpos (train env ! p ! c)"
      using train_shape(2) [OF assms(1)] ix ngramCharIdx_less by (metis nth_mem)
    with ix Cons.prems show ?thesis by (simp add: score_step_def nonpos_add)
  qed (use Cons.prems in \<open>simp_all add: score_step_def\<close>)
  with Cons.IH [of "score_step (train env) ab st"] show ?case by auto
qed simp

lemma fp_round_not_NaN: "fp_round p emin emax r \<noteq> NaN"
  unfolding fp_round_def Let_def by (auto split: if_splits)

lemma length_runes_of: "length (runes_of bs) \<le> length bs"
proof (induction bs rule: runes_of.induct)
  case (2 b bs)
  then have "length (runes_of (drop (snd (rune_at b bs)) bs)) \<le> length bs" by simp
  then show ?case by simp
qed simp

lemma length_strings_ToLower: "length (strings_ToLower env s) \<le> 4 * length s"
proof -
  have "length (concat (map (\<lambda>r. utf8_encode (unicode_ToLower env r)) rs)) \<le> 4 * length rs" for rs
    by (induction rs) (auto simp: utf8_encode_def)
  moreover have "length (runes s) \<le> length s"
    using length_runes_of [of "map of_char s"] by (simp add: runes_def)
  ultimately have "length (concat (map (\<lambda>r. utf8_encode (unicode_ToLower env r)) (runes s))) \<le> 4 * length s"
    by (meson mult_le_mono2 order_trans)
  then show ?thesis by (simp add: strings_ToLower_def to_lower_def)
qed

lemma length_split_on: "x \<in> set (split_on c s) \<Longrightarrow> length x \<le> length s"
  using sum_split_on [of c s] member_le_sum_list [of "length x" "map length (split_on c s)"] by auto

lemma length_ngramExtractSLD: "length (ngramExtractSLD env d) \<le> 4 * length d"
proof -
  define s where "s = (if suffix ''.'' d then butlast d else d)"
  define t where "t = strings_ToLower env s"
  have "length t \<le> 4 * length d"
    using length_strings_ToLower [of env s] by (auto simp: t_def s_def split: if_splits)
  moreover have "length (split_on (CHR ''.'') t ! (length (split_on (CHR ''.'') t) - 2)) \<le> length t"
    by (rule length_split_on, rule nth_mem) (simp add: diff_less)
  ultimately show ?thesis
    unfolding ngramExtractSLD_def Let_def s_def [symmetric] t_def [symmetric] by simp
qed

text \<open>
  The bigram score of every domain name is a finite number between 0 and 1, as the
  comment on \<open>Score\<close> says, provided \<open>math.Log\<close> is not positive (and not NaN) on the unit interval and
  \<open>math.Exp\<close> is not negative (and not NaN) on numbers.
\<close>

theorem Score_unit_interval:
  assumes "log_nonpos env" "exp_nonneg env" "length domain < 2 ^ 50"
  shows "\<exists>v. Score env domain = Fin v \<and> 0 \<le> v \<and> v \<le> 1"
proof -
  define sld where "sld = ngramExtractSLD env domain"
  define st where "st = fold (score_step (train env)) (zip sld (tl sld)) (Fin 0, 0)"
  have st: "nonpos (fst st)" "snd st \<le> length sld"
    using score_fold_nonpos [OF assms(1), of "(Fin 0, 0)" "zip sld (tl sld)"]
    by (auto simp: st_def nonpos_def)
  have "length sld < 2 ^ 53"
    using length_ngramExtractSLD [of env domain] assms(3) by (simp add: sld_def)
  show ?thesis
  proof (cases "length sld < 4 \<or> snd st = 0")
    case True
    then have "Score env domain = Fin 0"
      by (auto simp: Score_def NgramScore_def DefaultNgramDGADetector_def NewNgramDGADetector_def
          sld_def [symmetric] st_def [symmetric] split: prod.splits)
    then show ?thesis by simp
  next
    case False
    have "\<bar>int (snd st)\<bar> < 2 ^ 53" 
      using le_less_trans [OF st(2) \<open>length sld < 2 ^ 53\<close>] by simp
    then have n: "f64_of_int (int (snd st)) = Fin (of_nat (snd st))"
      using f64_of_int_exact by simp
    define avg where "avg = f64_quot (fst st) (f64_of_int (int (snd st)))"
    have "nonpos avg" unfolding avg_def n using st(1) False by (intro nonpos_quot) simp_all
    then have "f64_add avg (Fin (7 / 2)) \<noteq> NaN"
      by (auto simp: nonpos_def f64_round_def fp_round_not_NaN)
    then have e: "de_exp env (f64_add avg (Fin (7 / 2))) = PInf \<or>
        (\<exists>y\<ge>0. de_exp env (f64_add avg (Fin (7 / 2))) = Fin y)"
      using assms(2) by (simp add: exp_nonneg_def)
    have "Score env domain = f64_quot (Fin 1) (f64_add (Fin 1) (de_exp env (f64_add avg (Fin (7 / 2)))))"
      using False
      by (simp add: Score_def NgramScore_def DefaultNgramDGADetector_def NewNgramDGADetector_def
          sld_def [symmetric] st_def [symmetric] avg_def Let_def case_prod_beta)
    with score_unit [OF e] show ?thesis by simp
  qed
qed

definition example_dns_env :: dns_env where
  "example_dns_env =
     \<lparr>de_log2 = (\<lambda>_. Fin 0), de_log = (\<lambda>_. Fin 0), de_exp = (\<lambda>_. Fin 1), de_lower = (\<lambda>r. r),
      de_is_letter = (\<lambda>_. False), de_is_digit = (\<lambda>_. False), de_range = (\<lambda>_ rs. rs)\<rparr>"

theorem Score_unit_interval_witness:
  "\<exists>v. Score example_dns_env ''www.example.com'' = Fin v \<and> 0 \<le> v \<and> v \<le> 1"
  by (rule Score_unit_interval)
    (simp_all add: log_nonpos_def exp_nonneg_def nonpos_def example_dns_env_def)

end
