(* ===== verification/Dns_Prefilter.thy ===== *)
theory Dns_Prefilter
  imports Dns_Analysis
begin

text \<open>
  The filter in front of the policy engine (\<open>src/internal/correlator/dns_prefilter.go\<close>) and the policy
  rules it must not starve (\<open>src/rules/rego/dns.rego\<close>).  An alert about a DNS event for which
  \<open>ShouldEvaluate\<close> answers false never reaches the policies.
\<close>

section \<open>The filter\<close>

record DNSPrefilter =
  pf_entropy_threshold :: f64
  pf_dga_threshold :: f64

definition DefaultDNSPrefilter :: DNSPrefilter where
  "DefaultDNSPrefilter = \<lparr>pf_entropy_threshold = Fin (7 / 2), pf_dga_threshold = f64_round (8 / 10)\<rparr>"

definition NewDNSPrefilter :: "f64 \<Rightarrow> f64 \<Rightarrow> DNSPrefilter" where
  "NewDNSPrefilter entropyThreshold dgaThreshold =
     \<lparr>pf_entropy_threshold = entropyThreshold, pf_dga_threshold = dgaThreshold\<rparr>"

definition dnsRegoSuspiciousTLDs :: "string list" where
  "dnsRegoSuspiciousTLDs =
     [''.tk'', ''.ml'', ''.ga'', ''.cf'', ''.gq'', ''.top'', ''.xyz'', ''.click'', ''.link'']"

definition hasDNSRegoSuspiciousTLD :: "string \<Rightarrow> bool" where
  "hasDNSRegoSuspiciousTLD lower = list_ex (\<lambda>tld. suffix tld lower) dnsRegoSuspiciousTLDs"

definition isMiningDomain :: "string \<Rightarrow> bool" where
  "isMiningDomain lower \<longleftrightarrow>
     sublist ''xmrig'' lower \<or> sublist ''minexmr'' lower \<or> sublist ''supportxmr'' lower \<or>
     sublist ''nanopool'' lower \<or> sublist ''stratum'' lower \<or> sublist ''hashvault'' lower \<or>
     sublist ''moneroocean'' lower \<or> sublist ''pool'' lower \<and> sublist ''mine'' lower"

definition isDynamicDNSDomain :: "string \<Rightarrow> bool" where
  "isDynamicDNSDomain lower \<longleftrightarrow>
     sublist ''ddns'' lower \<or> sublist ''dyndns'' lower \<or> sublist ''no-ip'' lower \<or>
     sublist ''duckdns'' lower \<or> suffix ''.hopto.org'' lower \<or> suffix ''.zapto.org'' lower \<or>
     suffix ''.sytes.net'' lower \<or> suffix ''.ddns.net'' lower"

definition isMinerComm :: "dns_env \<Rightarrow> string \<Rightarrow> bool" where
  "isMinerComm env comm =
     (let lower = strings_ToLower env comm in
      lower = ''xmrig'' \<or> lower = ''minerd'' \<or> lower = ''cgminer'' \<or> lower = ''bfgminer'' \<or>
      sublist ''miner'' lower \<or> sublist ''xmr'' lower)"

text \<open>The shared analyzer is threaded through: a call may fill its cache.\<close>

definition prefilter_ShouldEvaluate ::
    "dns_env \<Rightarrow> DNSPrefilter \<Rightarrow> dns_event option \<Rightarrow> string \<Rightarrow> DNSEntropyCalculator \<Rightarrow>
     bool \<times> DNSEntropyCalculator" where
  "prefilter_ShouldEvaluate env f dns comm calc =
     (case dns of
        None \<Rightarrow> (True, calc)
      | Some dns \<Rightarrow>
          let qname = dns_qname dns; lower = strings_ToLower env qname in
          if dns_qtype dns = 16 then (True, calc)
          else if dns_direction dns = DNSDirectionResponse \<and> dns_rcode dns = 3 then (True, calc)
          else if 50 < length qname then (True, calc)
          else if isMinerComm env comm then (True, calc)
          else
            case AnalyzeDomain env qname calc of (analysis, calc') \<Rightarrow>
              (if da_is_dga analysis \<or> f64_greater (da_ngram_score analysis) (pf_dga_threshold f) then True
               else if da_has_suspicious_tld analysis then True
               else if hasDNSRegoSuspiciousTLD lower then True
               else if isMiningDomain lower then True
               else if sublist ''tor'' lower \<and> sublist ''exit'' lower then True
               else isDynamicDNSDomain lower, calc'))"

section \<open>The policy rules\<close>

text \<open>
  One predicate per rule of \<open>dns.rego\<close>, of the DNS part of the input and the process name.
  \<open>lower\<close>, \<open>contains\<close>, \<open>endswith\<close>, \<open>split\<close> and \<open>count\<close> are OPA built-ins: the lower-casing of
  Go, substring and suffix tests, splitting, and the number of runes.
\<close>

definition rego_contains_dictionary_word :: "dns_env \<Rightarrow> string \<Rightarrow> bool" where
  "rego_contains_dictionary_word env name =
     list_ex (\<lambda>w. sublist w (strings_ToLower env name))
       [''www'', ''mail'', ''ftp'', ''smtp'', ''pop'', ''imap'', ''ns'', ''dns'', ''api'', ''cdn'', ''app'',
        ''blog'', ''shop'', ''news'', ''mail'']"

definition rego_contains_digit :: "string \<Rightarrow> bool" where
  "rego_contains_digit s =
     list_ex (\<lambda>w. sublist w s) [''0'', ''1'', ''2'', ''3'', ''4'', ''5'', ''6'', ''7'', ''8'', ''9'']"

definition rego_is_dga_domain :: "dns_env \<Rightarrow> string \<Rightarrow> bool" where
  "rego_is_dga_domain env domain =
     (let parts = split_on (CHR ''.'') domain; name = hd parts in
      1 < length parts \<and> 12 < length (runes name) \<and> \<not> rego_contains_dictionary_word env name \<and>
      rego_contains_digit name)"

definition rego_is_suspicious_tld :: "dns_env \<Rightarrow> string \<Rightarrow> bool" where
  "rego_is_suspicious_tld env domain =
     list_ex (\<lambda>t. suffix t (strings_ToLower env domain))
       [''.tk'', ''.ml'', ''.ga'', ''.cf'', ''.gq'', ''.top'', ''.xyz'', ''.click'', ''.link'']"

definition rego_is_mining_domain :: "dns_env \<Rightarrow> string \<Rightarrow> bool" where
  "rego_is_mining_domain env domain =
     (let d = strings_ToLower env domain in
      list_ex (\<lambda>w. sublist w d) [''xmrig'', ''minexmr'', ''supportxmr'', ''nanopool''] \<or>
      sublist ''pool'' d \<and> sublist ''mine'' d \<or>
      list_ex (\<lambda>w. sublist w d) [''stratum'', ''hashvault'', ''moneroocean''])"

definition rego_is_dynamic_dns_domain :: "dns_env \<Rightarrow> string \<Rightarrow> bool" where
  "rego_is_dynamic_dns_domain env domain =
     (let d = strings_ToLower env domain in
      list_ex (\<lambda>w. sublist w d) [''ddns'', ''dyndns'', ''no-ip'', ''duckdns''] \<or>
      list_ex (\<lambda>w. suffix w d) [''.hopto.org'', ''.zapto.org'', ''.sytes.net'', ''.ddns.net''])"

definition rego_is_miner :: "dns_env \<Rightarrow> string \<Rightarrow> bool" where
  "rego_is_miner env comm \<longleftrightarrow>
     comm \<in> {''xmrig'', ''minerd'', ''cgminer'', ''bfgminer''} \<or>
     sublist ''miner'' (strings_ToLower env comm) \<or> sublist ''xmr'' (strings_ToLower env comm)"

definition rego_is_dns_tool :: "string \<Rightarrow> bool" where
  "rego_is_dns_tool comm \<longleftrightarrow>
     comm \<in> {''dig'', ''nslookup'', ''host'', ''resolvectl'', ''systemd-resolve'', ''unbound'', ''dnsmasq''}"

definition rego_is_shell :: "string \<Rightarrow> bool" where
  "rego_is_shell comm \<longleftrightarrow>
     comm \<in> {''bash'', ''sh'', ''zsh'', ''dash'', ''fish'', ''python'', ''python3'', ''perl'', ''ruby''}"

definition dns_rego_rules :: "dns_env \<Rightarrow> (string \<times> (dns_event \<Rightarrow> string \<Rightarrow> bool)) list" where
  "dns_rego_rules env =
     [(''dga_domain'', \<lambda>d comm. dns_direction d = 0 \<and> rego_is_dga_domain env (dns_qname d)),
      (''suspicious_tld'', \<lambda>d comm. dns_direction d = 0 \<and> rego_is_suspicious_tld env (dns_qname d)),
      (''dns_txt_query'', \<lambda>d comm. dns_direction d = 0 \<and> dns_qtype d = 16 \<and> \<not> rego_is_dns_tool comm),
      (''mining_pool_dns'', \<lambda>d comm. dns_direction d = 0 \<and> rego_is_mining_domain env (dns_qname d)),
      (''tor_dns_query'', \<lambda>d comm. dns_direction d = 0 \<and>
         sublist ''tor'' (strings_ToLower env (dns_qname d)) \<and> sublist ''exit'' (strings_ToLower env (dns_qname d))),
      (''long_dns_query'', \<lambda>d comm. dns_direction d = 0 \<and> 50 < length (runes (dns_qname d)) \<and> \<not> rego_is_dns_tool comm),
      (''dynamic_dns_query'', \<lambda>d comm. dns_direction d = 0 \<and> rego_is_dynamic_dns_domain env (dns_qname d)),
      (''nxdomain_response'', \<lambda>d comm. dns_direction d = 1 \<and> dns_rcode d = 3 \<and> rego_is_shell comm),
      (''miner_dns_query'', \<lambda>d comm. dns_direction d = 0 \<and> rego_is_miner env comm)]"

definition dns_rego_fires :: "dns_env \<Rightarrow> string \<Rightarrow> dns_event \<Rightarrow> string \<Rightarrow> bool" where
  "dns_rego_fires env rule_id d comm =
     (case map_of (dns_rego_rules env) rule_id of Some P \<Rightarrow> P d comm | None \<Rightarrow> False)"

text \<open>Of \<open>lineage.rego\<close>, also in the partition evaluated for DNS events, a rule that reads only process names.\<close>

definition rego_init_spawns_shell :: "string \<Rightarrow> string \<Rightarrow> bool" where
  "rego_init_spawns_shell parent_comm comm \<longleftrightarrow> parent_comm = ''init'' \<and> rego_is_shell comm"

section \<open>Properties\<close>

lemma runes_le: "length (runes s) \<le> length s"
  using length_runes_of [of "map of_char s"] by (simp add: runes_def)

lemma tlds_agree: "rego_is_suspicious_tld env q = hasDNSRegoSuspiciousTLD (strings_ToLower env q)"
  by (simp add: rego_is_suspicious_tld_def hasDNSRegoSuspiciousTLD_def dnsRegoSuspiciousTLDs_def)

lemma mining_agrees: "rego_is_mining_domain env q = isMiningDomain (strings_ToLower env q)"
  by (auto simp: rego_is_mining_domain_def isMiningDomain_def Let_def)

lemma dynamic_agrees: "rego_is_dynamic_dns_domain env q = isDynamicDNSDomain (strings_ToLower env q)"
  by (simp add: rego_is_dynamic_dns_domain_def isDynamicDNSDomain_def Let_def)

lemma to_lower_known:
  "to_lower ''xmrig'' = ''xmrig''" "to_lower ''minerd'' = ''minerd''" "to_lower ''cgminer'' = ''cgminer''"
  "to_lower ''bfgminer'' = ''bfgminer''"
  by (simp_all add: to_lower_def lower_char_def)

lemma is_ascii_known: "is_ascii ''xmrig''" "is_ascii ''minerd''" "is_ascii ''cgminer''" "is_ascii ''bfgminer''"
  by (simp_all add: is_ascii_def)

lemma miner_agrees: "rego_is_miner env comm \<Longrightarrow> isMinerComm env comm"
  unfolding rego_is_miner_def isMinerComm_def Let_def
  by (auto simp: strings_ToLower_def to_lower_known is_ascii_known)

text \<open>
  C27 (safety).  The filter starves no policy rule but the DGA rule: whatever the state of the analyzer
  and the thresholds, if a rule of \<open>dns.rego\<close> other than \<open>dga_domain\<close> fires on a DNS event, the event
  is passed on to the policies.
\<close>

theorem prefilter_passes_all_but_dga:
  assumes "dns_rego_fires env rule_id dns comm" "rule_id \<noteq> ''dga_domain''"
  shows "fst (prefilter_ShouldEvaluate env f (Some dns) comm calc)"
proof -
  let ?q = "dns_qname dns"
  have "dns_qtype dns = 16 \<or> dns_direction dns = 1 \<and> dns_rcode dns = 3 \<or> 50 < length ?q \<or>
    isMinerComm env comm \<or> hasDNSRegoSuspiciousTLD (strings_ToLower env ?q) \<or>
    isMiningDomain (strings_ToLower env ?q) \<or> isDynamicDNSDomain (strings_ToLower env ?q) \<or>
    sublist ''tor'' (strings_ToLower env ?q) \<and> sublist ''exit'' (strings_ToLower env ?q)"
    using assms runes_le [of ?q] miner_agrees [of env comm]
    by (auto simp: dns_rego_fires_def dns_rego_rules_def tlds_agree mining_agrees dynamic_agrees
        split: if_splits)
  then show ?thesis
    by (cases "AnalyzeDomain env ?q calc") (auto simp: prefilter_ShouldEvaluate_def Let_def)
qed

theorem prefilter_passes_all_but_dga_witness:
  "fst (prefilter_ShouldEvaluate example_dns_env DefaultDNSPrefilter
     (Some \<lparr>dns_qname = ''evil.tk'', dns_qtype = 1, dns_rcode = 0, dns_direction = 0, dns_response_ips = []\<rparr>)
     ''curl'' NewDNSEntropyCalculator)"
  by (rule prefilter_passes_all_but_dga [of _ "''suspicious_tld''"])
    (simp_all add: dns_rego_fires_def dns_rego_rules_def rego_is_suspicious_tld_def strings_ToLower_def
      is_ascii_def to_lower_def lower_char_def suffix_def)

definition bypass_event :: dns_event where
  "bypass_event = \<lparr>dns_qname = ''1111111111111.1.io'', dns_qtype = 1, dns_rcode = 0, dns_direction = 0,
     dns_response_ips = []\<rparr>"

lemma bypass_lower: "strings_ToLower env (dns_qname bypass_event) = dns_qname bypass_event"
  by (simp add: strings_ToLower_def bypass_event_def is_ascii_def to_lower_def lower_char_def)

lemma bypass_base: "extractBaseDomain (dns_qname bypass_event) = replicate 14 (CHR ''1'')"
  by (simp add: extractBaseDomain_def bypass_event_def Let_def numeral_eq_Suc)

lemma runes_replicate_1: "runes (replicate n (CHR ''1'')) = replicate n 49"
  by (induction n) (simp_all add: runes_def rune_at_def)

lemma remdups_replicate: "0 < n \<Longrightarrow> remdups (replicate n x) = [x]"
  by (induction n) auto

lemma f64_round_small [simp]: "f64_round 0 = Fin 0" "f64_round 1 = Fin 1"
  using f64_of_int_exact [of 0] f64_of_int_exact [of 1] by (simp_all add: f64_of_int_def)

lemma entropy_constant:
  assumes "de_log2 env (Fin 1) = Fin 0" "de_range env site [49] = [49]" "0 < n" "n < 2 ^ 53"
  shows "CalculateShannonEntropy env site (replicate n (CHR ''1'')) = Fin 0"
proof -
  have "\<bar>int n\<bar> < 2 ^ 53" using assms(4) by simp
  then have n: "f64_of_int (int n) = Fin (of_nat n)" using f64_of_int_exact by simp
  have "count_list (replicate n (49 :: nat)) 49 = n" by (induction n) simp_all
  with assms(1-3) n show ?thesis
    by (simp add: CalculateShannonEntropy_def Let_def runes_replicate_1 remdups_replicate f64_quot_def
        f64_sub_def)
qed

lemma bypass_score: "Score env (dns_qname bypass_event) = Fin 0"
proof -
  have "ngramExtractSLD env (dns_qname bypass_event) = ''1''"
    using bypass_lower [of env]
    by (simp add: ngramExtractSLD_def bypass_event_def Let_def suffix_def numeral_eq_Suc)
  then show ?thesis by (simp add: Score_def NgramScore_def)
qed

text \<open>
  The filter starves the DGA rule of \<open>dns.rego\<close> and the process-lineage rules: there is
  a DNS query on which both fire and which the filter drops with its default thresholds, since it looks
  at the entropy and at the second-level label only.
\<close>

theorem prefilter_bypasses_dga_rule:
  assumes "de_log2 env (Fin 1) = Fin 0" "\<And>site. de_range env site [49] = [49]"
  shows "dns_rego_fires env ''dga_domain'' bypass_event ''bash'' \<and>
    rego_init_spawns_shell ''init'' ''bash'' \<and>
    \<not> fst (prefilter_ShouldEvaluate env DefaultDNSPrefilter (Some bypass_event) ''bash'' NewDNSEntropyCalculator)"
proof (intro conjI)
  let ?q = "dns_qname bypass_event"
  have name: "hd (split_on (CHR ''.'') ?q) = replicate 13 (CHR ''1'')" "1 < length (split_on (CHR ''.'') ?q)"
    by (simp_all add: bypass_event_def numeral_eq_Suc)
  have low: "strings_ToLower env (replicate 13 (CHR ''1'')) = replicate 13 (CHR ''1'')"
    by (simp add: strings_ToLower_def is_ascii_def to_lower_def lower_char_def numeral_eq_Suc)
  have "\<not> rego_contains_dictionary_word env (replicate 13 (CHR ''1''))"
    unfolding rego_contains_dictionary_word_def low by (auto dest!: set_mono_sublist)
  moreover have "rego_contains_digit (replicate 13 (CHR ''1''))"
    by (simp add: rego_contains_digit_def numeral_eq_Suc sublist_Cons_right)
  ultimately have "rego_is_dga_domain env ?q"
    using name by (simp add: rego_is_dga_domain_def Let_def runes_replicate_1)
  then show "dns_rego_fires env ''dga_domain'' bypass_event ''bash''"
    by (simp add: dns_rego_fires_def dns_rego_rules_def) (simp add: bypass_event_def)
  show "rego_init_spawns_shell ''init'' ''bash''"
    by (simp add: rego_init_spawns_shell_def rego_is_shell_def)
  have dga: "\<not> IsDGADomain env NewDNSEntropyCalculator ?q"
    by (simp add: IsDGADomain_def bypass_lower bypass_base entropy_constant assms NewDNSEntropyCalculator_def)
  have thr: "\<not> f64_greater (Fin 0) (pf_dga_threshold DefaultDNSPrefilter)"
    using fp_round_unit [of "8 / 10" "- 1022" 1024 52]
    by (auto simp: DefaultDNSPrefilter_def f64_round_def)
  have miner: "\<not> isMinerComm env ''bash''"
    by (simp add: isMinerComm_def strings_ToLower_def is_ascii_def to_lower_def lower_char_def sublist_Cons_right)
  have tlds: "\<not> HasSuspiciousTLD env NewDNSEntropyCalculator ?q" "\<not> hasDNSRegoSuspiciousTLD ?q"
    unfolding HasSuspiciousTLD_def hasDNSRegoSuspiciousTLD_def dnsRegoSuspiciousTLDs_def bypass_lower
    by (simp_all add: NewDNSEntropyCalculator_def bypass_event_def suffix_to_prefix)
  have words: "\<not> isMiningDomain ?q" "\<not> isDynamicDNSDomain ?q" "\<not> sublist ''tor'' ?q"
    by (simp_all add: isMiningDomain_def isDynamicDNSDomain_def bypass_event_def suffix_to_prefix sublist_Cons_right)
  have event: "dns_qtype bypass_event = 1" "dns_direction bypass_event = 0" "length ?q = 18"
    by (simp_all add: bypass_event_def)
  have "fst (AnalyzeDomain env ?q NewDNSEntropyCalculator) = analysis_of env NewDNSEntropyCalculator ?q"
    by (simp add: AnalyzeDomain_def bypass_lower cache_lookup_def NewDNSEntropyCalculator_def Let_def)
  with dga thr miner tlds words event
  show "\<not> fst (prefilter_ShouldEvaluate env DefaultDNSPrefilter (Some bypass_event) ''bash'' NewDNSEntropyCalculator)"
    by (cases "AnalyzeDomain env ?q NewDNSEntropyCalculator")
      (simp add: prefilter_ShouldEvaluate_def Let_def bypass_lower analysis_of_def bypass_score)
qed

theorem prefilter_bypasses_dga_rule_witness:
  "\<not> fst (prefilter_ShouldEvaluate example_dns_env DefaultDNSPrefilter (Some bypass_event) ''bash''
     NewDNSEntropyCalculator)"
  using prefilter_bypasses_dga_rule [of example_dns_env] by (simp add: example_dns_env_def)

end
