(* ===== verification/Net_Addr.thy ===== *)
theory Net_Addr
  imports Event_Types
begin

text \<open>
  The parts of Go's \<open>net\<close> package the rule engine uses: \<open>ParseIP\<close>, \<open>ParseCIDR\<close> and
  \<open>IPNet.Contains\<close>.  IPv4 text is parsed here; the textual grammar of IPv6 addresses is an argument
  \<open>parse_ip6\<close> (it yields the sixteen bytes of an address without zone, and \<^const>\<open>None\<close> otherwise).
\<close>

definition parse_octet :: "string \<Rightarrow> byte option" where
  "parse_octet s =
     (if s \<noteq> [] \<and> list_all is_digit s \<and> (length s = 1 \<or> hd s \<noteq> CHR ''0'') \<and> text_val 10 0 s \<le> 255
      then Some (word_of_nat (text_val 10 0 s)) else None)"

definition parse_ipv4 :: "string \<Rightarrow> byte list option" where
  "parse_ipv4 s =
     (case map parse_octet (split_on CHR ''.'' s) of
        [Some a, Some b, Some c, Some d] \<Rightarrow> Some [a, b, c, d]
      | _ \<Rightarrow> None)"

text \<open>\<open>netip.ParseAddr\<close>: the first separator decides the family; four or sixteen bytes.\<close>

definition parse_addr :: "(string \<Rightarrow> byte list option) \<Rightarrow> string \<Rightarrow> byte list option" where
  "parse_addr parse_ip6 s =
     (case dropWhile (\<lambda>c. c \<noteq> CHR ''.'' \<and> c \<noteq> CHR '':'' \<and> c \<noteq> CHR ''%'') s of
        [] \<Rightarrow> None
      | c # _ \<Rightarrow> if c = CHR ''.'' then parse_ipv4 s else if c = CHR '':'' then parse_ip6 s else None)"

definition as16 :: "byte list \<Rightarrow> byte list" where
  "as16 b = (if length b = 4 then replicate 10 0 @ [0xff, 0xff] @ b else b)"

definition to4 :: "byte list \<Rightarrow> byte list option" where
  "to4 b = (if length b = 4 then Some b else if ipv4_mapped b then Some (drop 12 b) else None)"

definition ParseIP :: "(string \<Rightarrow> byte list option) \<Rightarrow> string \<Rightarrow> byte list option" where
  "ParseIP parse_ip6 s = map_option as16 (parse_addr parse_ip6 s)"

record ipnet =
  ipnet_ip :: "byte list"
  ipnet_mask :: "byte list"

fun cidr_mask :: "nat \<Rightarrow> nat \<Rightarrow> byte list" where
  "cidr_mask n 0 = []"
| "cidr_mask n (Suc l) =
     (if 8 \<le> n then 0xff # cidr_mask (n - 8) l else NOT (drop_bit n 0xff) # cidr_mask 0 l)"

definition mask_ip :: "byte list \<Rightarrow> byte list \<Rightarrow> byte list" where
  "mask_ip ip m =
     (let ip' = (if length m = 4 \<and> ipv4_mapped ip then drop 12 ip else ip) in map2 (AND) ip' m)"

definition ParseCIDR :: "(string \<Rightarrow> byte list option) \<Rightarrow> string \<Rightarrow> ipnet option" where
  "ParseCIDR parse_ip6 s =
     (if CHR ''/'' \<notin> set s then None
      else
        let addr = takeWhile (\<lambda>c. c \<noteq> CHR ''/'') s; mask = drop (length addr + 1) s in
        case parse_addr parse_ip6 addr of
          None \<Rightarrow> None
        | Some b \<Rightarrow>
            if mask \<noteq> [] \<and> list_all is_digit mask \<and> text_val 10 0 mask \<le> 8 * length b then
              let m = cidr_mask (text_val 10 0 mask) (length b) in
              Some \<lparr>ipnet_ip = mask_ip (as16 b) m, ipnet_mask = m\<rparr>
            else None)"

text \<open>\<open>IPNet.Contains\<close> through \<open>networkNumberAndMask\<close>.\<close>

definition IPNet_Contains :: "ipnet \<Rightarrow> byte list \<Rightarrow> bool" where
  "IPNet_Contains n ip =
     (let nn = (case to4 (ipnet_ip n) of Some x \<Rightarrow> x | None \<Rightarrow> ipnet_ip n);
          m = (if length (ipnet_mask n) = 16 \<and> length nn = 4 then drop 12 (ipnet_mask n) else ipnet_mask n);
          x = (case to4 ip of Some y \<Rightarrow> y | None \<Rightarrow> ip) in
      (length nn = 4 \<or> length nn = 16) \<and> length m = length nn \<and> length x = length nn \<and>
      list_all (\<lambda>(a, b, c). a AND b = c AND b) (zip nn (zip m x)))"

section \<open>Printing and parsing addresses\<close>

lemma hd_nat_text: "1 < b \<Longrightarrow> b \<le> 10 \<Longrightarrow> 0 < n \<Longrightarrow> hd (nat_text b n) \<noteq> CHR ''0''"
proof (induction b n rule: nat_text.induct)
  case (1 b n)
  have d: "0 < m \<Longrightarrow> m < 10 \<Longrightarrow> digit_char m \<noteq> CHR ''0''" for m
    using digit_val_char [of m] by (auto simp: digit_val_def)
  show ?case
  proof (cases "n < b")
    case True
    with 1(3,4) d [of n] show ?thesis by (simp add: nat_text.simps [of b n])
  next
    case False
    with 1(2) have "0 < n div b" by (simp add: div_greater_zero_iff)
    with False 1 show ?thesis by (simp add: nat_text.simps [of b n])
  qed
qed

lemma parse_octet_dec: "parse_octet (dec_nat (unat (b :: byte))) = Some b"
proof -
  have "unat b < 256" using unsigned_less [of b, where ?'a = nat] by simp
  have "list_all is_digit (dec_nat (unat b))"
    using nat_text_digits [of 10 "unat b"] by (simp add: dec_nat_def)
  moreover have "text_val 10 0 (dec_nat (unat b)) = unat b"
    by (simp add: dec_nat_def text_val_nat_text)
  moreover have "length (dec_nat (unat b)) = 1 \<or> hd (dec_nat (unat b)) \<noteq> CHR ''0''"
    using hd_nat_text [of 10 "unat b"]
    by (cases "unat b = 0") (simp_all add: dec_nat_def nat_text.simps [of 10 0])
  ultimately show ?thesis using \<open>unat b < 256\<close> by (simp add: parse_octet_def)
qed

lemma parse_ipv4_dotted: "length b = 4 \<Longrightarrow> parse_ipv4 (dotted_quad b) = Some b"
proof -
  assume l: "length b = 4"
  have dots: "CHR ''.'' \<notin> set (dec_nat n)" for n
    using dec_nat_digits [of "CHR ''.''" n] minus_not_digit(2) by blast
  from l obtain x y z w where b: "b = [x, y, z, w]"
    by (auto simp: numeral_eq_Suc length_Suc_conv)
  have "split_on CHR ''.'' (dotted_quad b) = map (\<lambda>x. dec_nat (unat x)) b"
    unfolding dotted_quad_def by (rule split_join) (use b dots in auto)
  then show ?thesis by (simp add: parse_ipv4_def b parse_octet_dec)
qed

lemma ParseIP_dotted:
  assumes "length b = 4"
  shows "ParseIP parse_ip6 (dotted_quad b) = Some (as16 b)"
proof -
  obtain x y z w where b: "b = [x, y, z, w]"
    using assms by (auto simp: numeral_eq_Suc length_Suc_conv)
  have "\<forall>c \<in> set (dec_nat n). c \<noteq> CHR ''.'' \<and> c \<noteq> CHR '':'' \<and> c \<noteq> CHR ''%''" for n
    using dec_nat_digits [of _ n] by (force simp: is_digit_def)
  then have "dropWhile (\<lambda>c. c \<noteq> CHR ''.'' \<and> c \<noteq> CHR '':'' \<and> c \<noteq> CHR ''%'') (dotted_quad b) =
      CHR ''.'' # drop (length (dec_nat (unat x)) + 1) (dotted_quad b)"
    by (simp add: dotted_quad_def b dropWhile_append2)
  then show ?thesis
    by (simp add: ParseIP_def parse_addr_def parse_ipv4_dotted [OF assms])
qed

end
