(* ===== verification/Rule_Model.thy ===== *)
theory Rule_Model
  imports Go_Float Net_Addr Dns_Analysis
begin

text \<open>
  Detection rules as data (\<open>src/internal/correlator/rules.go\<close>): operators and their numeric codes,
  conditions, condition groups, exceptions, rules; and the extraction of a named field from an
  event, one definition per event category.

  What the agent takes from elsewhere is collected in the record \<open>go_env\<close>: the regular expression
  engine, decimal parsing and printing of floats, the text of IPv6 addresses, and what the analysis of
  domain names takes.  Every theorem holds for every value of it.
\<close>

section \<open>Operators\<close>

type_synonym RuleConditionOperator = string

datatype condOpCode =
    condOpUnknown | condOpIn | condOpNotIn | condOpEquals | condOpNotEquals | condOpPrefix
  | condOpNotPrefix | condOpSuffix | condOpNotSuffix | condOpContains | condOpRegex | condOpGT
  | condOpLT | condOpGTE | condOpLTE | condOpInCIDR | condOpNotInCIDR | condOpCapsGained
  | condOpCapsDropped

definition opCodeOf :: "RuleConditionOperator \<Rightarrow> condOpCode" where
  "opCodeOf op =
     (if op = ''in'' then condOpIn
      else if op = ''not_in'' then condOpNotIn
      else if op = ''equals'' \<or> op = ''eq'' then condOpEquals
      else if op = ''not_equals'' \<or> op = ''neq'' then condOpNotEquals
      else if op = ''prefix'' then condOpPrefix
      else if op = ''not_prefix'' then condOpNotPrefix
      else if op = ''suffix'' then condOpSuffix
      else if op = ''not_suffix'' then condOpNotSuffix
      else if op = ''contains'' then condOpContains
      else if op = ''regex'' then condOpRegex
      else if op = ''gt'' then condOpGT
      else if op = ''lt'' then condOpLT
      else if op = ''gte'' then condOpGTE
      else if op = ''lte'' then condOpLTE
      else if op = ''in_cidr'' then condOpInCIDR
      else if op = ''not_in_cidr'' then condOpNotInCIDR
      else if op = ''caps_gained'' then condOpCapsGained
      else if op = ''caps_dropped'' then condOpCapsDropped
      else condOpUnknown)"

section \<open>Conditions, groups, rules\<close>

text \<open>\<open>valueSet\<close> is nil until compilation; the set is given by its elements.\<close>

record RuleCondition =
  rc_field :: string
  rc_op :: RuleConditionOperator
  rc_values :: "string list"
  rc_set_key :: string
  rc_value_set :: "string list option"
  rc_opcode :: condOpCode

datatype RuleConditionGroup =
  Group (grp_operator: string) (grp_conditions: "RuleCondition list")
    (grp_subgroups: "RuleConditionGroup list")

record RuleException =
  rx_name :: string
  rx_condition :: RuleCondition
  rx_group :: "RuleConditionGroup option"

abbreviation ActionAlert :: string where "ActionAlert \<equiv> ''alert''"
abbreviation ActionDrop :: string where "ActionDrop \<equiv> ''drop''"
abbreviation ActionBlock :: string where "ActionBlock \<equiv> ''block''"
abbreviation ActionKill :: string where "ActionKill \<equiv> ''kill''"
abbreviation ActionThrottle :: string where "ActionThrottle \<equiv> ''throttle''"

record RuleSampling =
  rsm_rate :: f64
  rsm_mode :: string

record Rule =
  ru_id :: string
  ru_name :: string
  ru_description :: string
  ru_event_type :: event_type
  ru_skip_sampler :: bool
  ru_condition :: RuleCondition
  ru_group :: "RuleConditionGroup option"
  ru_severity :: severity
  ru_action :: string
  ru_exceptions :: "RuleException list"
  ru_tags :: "string list"
  ru_class :: string
  ru_sampling :: "RuleSampling option"
  ru_sample_rate :: f64
  ru_sample_deterministic :: bool

definition EffectiveClass :: "Rule \<Rightarrow> string" where
  "EffectiveClass r = (if ru_class r = '''' then ''threat'' else ru_class r)"

definition zero_condition :: RuleCondition where
  "zero_condition = \<lparr>rc_field = '''', rc_op = '''', rc_values = [], rc_set_key = '''',
     rc_value_set = None, rc_opcode = condOpUnknown\<rparr>"

section \<open>The environment\<close>

record 're go_env =
  env_regex_compile :: "string \<Rightarrow> 're option"
  env_regex_match :: "'re \<Rightarrow> string \<Rightarrow> bool"
  env_parse_float :: "string \<Rightarrow> f64 option"
  env_format_float4 :: "f64 \<Rightarrow> string"
  env_format_float :: "f64 \<Rightarrow> string"
  env_parse_ip6 :: "string \<Rightarrow> byte list option"
  env_ip6_text :: "byte list \<Rightarrow> string"
  env_dns :: dns_env

text \<open>
  The field reader asks the shared domain analyzer; its cache does not show in the result
  (theory \<open>Dns_Analysis\<close>).
\<close>

definition analyze_domain :: "'re go_env \<Rightarrow> string \<Rightarrow> DomainAnalysis" where
  "analyze_domain env qname =
     analysis_of (env_dns env) NewDNSEntropyCalculator (strings_ToLower (env_dns env) qname)"

section \<open>Fields of events\<close>

definition fieldNotFound :: string where
  "fieldNotFound = CHR 0x00 # ''__field_not_found__''"

definition field_aliases :: "(string \<times> string) list" where
  "field_aliases =
    [(''file.path'', ''filename''), (''file.op'', ''op''), (''file.flags'', ''flags''),
     (''file.mode'', ''mode''), (''file.directory'', ''directory''),
     (''file.extension'', ''extension''), (''proc.comm'', ''comm''),
     (''network.dport'', ''dport''), (''network.sport'', ''sport''),
     (''network.daddr'', ''daddr''), (''network.saddr'', ''saddr''),
     (''network.proto'', ''proto''), (''network.family'', ''family''),
     (''syscall.nr'', ''nr''), (''syscall.ret'', ''ret''), (''syscall.arg0'', ''arg0''),
     (''syscall.arg1'', ''arg1''), (''syscall.arg2'', ''arg2''), (''syscall.arg3'', ''arg3''),
     (''syscall.arg4'', ''arg4''), (''syscall.arg5'', ''arg5'')]"

definition normaliseFieldName :: "string \<Rightarrow> string" where
  "normaliseFieldName field =
     (case map_of field_aliases field of Some f \<Rightarrow> f | None \<Rightarrow> field)"

definition bool_text :: "bool \<Rightarrow> string" where
  "bool_text b = (if b then ''true'' else ''false'')"

definition comm_text :: "event \<Rightarrow> string" where
  "comm_text e = BytesToString (ev_comm e)"

definition uid_text :: "event \<Rightarrow> string" where
  "uid_text e = dec_nat (unat (ev_uid e))"

definition family_text :: "byte \<Rightarrow> string" where
  "family_text f = (if f = AFInet6 then ''ipv6'' else ''ipv4'')"

definition fileOpNames :: "string list" where
  "fileOpNames = [''open'', ''read'', ''write'']"

definition gpuOpNames :: "string list" where
  "gpuOpNames = [''alloc'', ''free'', ''memcpy_htod'', ''memcpy_dtoh'', ''memcpy_dtod'', ''kernel_launch'']"

definition syscallNrStrings :: "string list" where
  "syscallNrStrings = map dec_nat [0..<512]"

definition field_tcp :: "'re go_env \<Rightarrow> event \<Rightarrow> network_event \<Rightarrow> string \<Rightarrow> string" where
  "field_tcp env e n field =
     (if field = ''dport'' then dec_nat (unat (net_dport n))
      else if field = ''sport'' then dec_nat (unat (net_sport n))
      else if field = ''daddr'' then FormatIP (env_ip6_text env) (net_daddr n) (net_family n)
      else if field = ''saddr'' then FormatIP (env_ip6_text env) (net_saddr n) (net_family n)
      else if field = ''proto'' then dec_nat (unat (net_proto n))
      else if field = ''family'' then family_text (net_family n)
      else if field = ''proc.args'' then ev_proc_args e
      else if field = ''proc.args_truncated'' then bool_text (ev_proc_args_truncated e)
      else if field = ''comm'' then comm_text e
      else if field = ''uid'' then uid_text e
      else fieldNotFound)"

definition field_file :: "event \<Rightarrow> file_event \<Rightarrow> string \<Rightarrow> string" where
  "field_file e f field =
     (if field = ''filename'' then BytesToString (fl_filename f)
      else if field = ''fd.name'' then fl_fdpath f
      else if field = ''fd.name_truncated'' then bool_text (fl_fdpath_truncated f)
      else if field = ''flags'' then dec_int (sint (fl_flags f))
      else if field = ''mode'' then dec_nat (unat (fl_mode f))
      else if field = ''op'' then
        (if unat (fl_op f) < length fileOpNames then fileOpNames ! unat (fl_op f)
         else dec_nat (unat (fl_op f)))
      else if field = ''directory'' then
        (let p = BytesToString (fl_filename f) in
         case last_index CHR ''/'' p of Some i \<Rightarrow> take i p | None \<Rightarrow> ''/'')
      else if field = ''extension'' then
        (let p = BytesToString (fl_filename f) in
         case last_index CHR ''.'' p of Some i \<Rightarrow> drop i p | None \<Rightarrow> '''')
      else if field = ''proc.args'' then ev_proc_args e
      else if field = ''proc.args_truncated'' then bool_text (ev_proc_args_truncated e)
      else if field = ''comm'' then comm_text e
      else if field = ''uid'' then uid_text e
      else fieldNotFound)"

definition field_syscall :: "event \<Rightarrow> syscall_event \<Rightarrow> string \<Rightarrow> string" where
  "field_syscall e s field =
     (if field = ''nr'' then
        (if 0 \<le> sint (sc_nr s) \<and> sint (sc_nr s) < 512 then syscallNrStrings ! nat (sint (sc_nr s))
         else dec_int (sint (sc_nr s)))
      else if field = ''ret'' then dec_int (sint (sc_ret s))
      else if field = ''uid'' then uid_text e
      else if field = ''comm'' then comm_text e
      else if field = ''arg0'' then dec_nat (unat (sc_args s ! 0))
      else if field = ''arg1'' then dec_nat (unat (sc_args s ! 1))
      else if field = ''arg2'' then dec_nat (unat (sc_args s ! 2))
      else if field = ''arg3'' then dec_nat (unat (sc_args s ! 3))
      else if field = ''arg4'' then dec_nat (unat (sc_args s ! 4))
      else if field = ''arg5'' then dec_nat (unat (sc_args s ! 5))
      else if field = ''fd.name'' then (case ev_file e of Some f \<Rightarrow> fl_fdpath f | None \<Rightarrow> '''')
      else if field = ''proc.args'' then ev_proc_args e
      else if field = ''proc.args_truncated'' then bool_text (ev_proc_args_truncated e)
      else fieldNotFound)"

text \<open>
  The analysis is the one precomputed for the event, or is computed on demand; \<open>0.70\<close> is the
  threshold of the default n-gram detector.
\<close>

definition ngram_threshold :: f64 where
  "ngram_threshold = f64_round (70 / 100)"

definition field_dns ::
    "'re go_env \<Rightarrow> dns_event \<Rightarrow> DomainAnalysis option \<Rightarrow> string \<Rightarrow> string" where
  "field_dns env d analysis field =
     (let a = (case analysis of Some a \<Rightarrow> a | None \<Rightarrow> analyze_domain env (dns_qname d)) in
      if field = ''qname'' \<or> field = ''dns.qname'' then dns_qname d
      else if field = ''qtype'' then dec_nat (unat (dns_qtype d))
      else if field = ''rcode'' then dec_nat (unat (dns_rcode d))
      else if field = ''direction'' then dec_nat (unat (dns_direction d))
      else if field = ''qname_length'' then dec_nat (length (dns_qname d))
      else if field = ''qname_entropy'' then env_format_float4 env (da_entropy a)
      else if field = ''qname_dga_score'' then env_format_float4 env (da_ngram_score a)
      else if field = ''qname_digit_ratio'' then env_format_float4 env (da_digit_ratio a)
      else if field = ''qname_subdomain_count'' then dec_nat (da_subdomain_count a)
      else if field = ''qname_is_dga'' then
        bool_text (da_is_dga a \<or> f64_ge (da_ngram_score a) ngram_threshold)
      else fieldNotFound)"

definition capture_text :: "u32 \<Rightarrow> byte list \<Rightarrow> string" where
  "capture_text n data = string_of_bytes (take (min (unat n) (length data)) data)"

definition field_tls :: "tls_event \<Rightarrow> string \<Rightarrow> string" where
  "field_tls t field =
     (if field = ''tls_data'' \<or> field = ''data'' then capture_text (tls_data_len t) (tls_data t)
      else if field = ''direction'' then dec_nat (unat (tls_direction t))
      else if field = ''data_len'' then dec_nat (unat (tls_data_len t))
      else if field = ''ja3'' then tls_ja3 t
      else if field = ''ja4'' then tls_ja4 t
      else if field = ''ja3s'' then tls_ja3s t
      else fieldNotFound)"

definition field_http :: "event \<Rightarrow> http_event \<Rightarrow> string \<Rightarrow> string" where
  "field_http e h field =
     (if field = ''http_data'' \<or> field = ''data'' then capture_text (http_data_len h) (http_data h)
      else if field = ''direction'' then dec_nat (unat (http_direction h))
      else if field = ''data_len'' then dec_nat (unat (http_data_len h))
      else if field = ''comm'' then comm_text e
      else fieldNotFound)"

definition field_privesc :: "event \<Rightarrow> string \<Rightarrow> string" where
  "field_privesc e field =
     (if field = ''uid'' then uid_text e
      else if field = ''comm'' then comm_text e
      else if field = ''caps'' then
        (case ev_privesc e of Some p \<Rightarrow> ''0x'' @ hex_nat (unat (pe_new_caps p)) | None \<Rightarrow> ''0x0'')
      else fieldNotFound)"

text \<open>Go's integer division truncates; \<open>Duration.Seconds\<close> is computed in floating point.\<close>

definition int_of_f64 :: "f64 \<Rightarrow> int" where
  "int_of_f64 x = (case x of Fin r \<Rightarrow> (if 0 \<le> r then \<lfloor>r\<rfloor> else \<lceil>r\<rceil>) | _ \<Rightarrow> 0)"

definition f64_div :: "f64 \<Rightarrow> rat \<Rightarrow> f64" where
  "f64_div x d = (case x of Fin r \<Rightarrow> f64_round (r / d) | y \<Rightarrow> y)"

definition duration_seconds :: "int \<Rightarrow> f64" where
  "duration_seconds d =
     f64_add (f64_of_int (go_div d 1000000000))
       (f64_div (f64_of_int (go_mod d 1000000000)) 1000000000)"

definition field_net_close :: "'re go_env \<Rightarrow> network_close_event \<Rightarrow> string \<Rightarrow> string" where
  "field_net_close env n field =
     (if field = ''dport'' then dec_nat (unat (nc_dport n))
      else if field = ''sport'' then dec_nat (unat (nc_sport n))
      else if field = ''daddr'' then FormatIP (env_ip6_text env) (nc_daddr n) (nc_family n)
      else if field = ''saddr'' then FormatIP (env_ip6_text env) (nc_saddr n) (nc_family n)
      else if field = ''family'' then family_text (nc_family n)
      else if field = ''duration_sec'' then dec_int (int_of_f64 (duration_seconds (sint (nc_duration n))))
      else if field = ''duration_ms'' then dec_int (go_div (sint (nc_duration n)) 1000000)
      else fieldNotFound)"

definition field_gpu :: "event \<Rightarrow> gpu_event \<Rightarrow> string \<Rightarrow> string" where
  "field_gpu e g field =
     (if field = ''gpu_op'' then
        (if unat (gpu_op g) < length gpuOpNames then gpuOpNames ! unat (gpu_op g)
         else dec_nat (unat (gpu_op g)))
      else if field = ''gpu_size'' then dec_nat (unat (gpu_size g))
      else if field = ''gpu_dev_ptr'' then ''0x'' @ hex_nat (unat (gpu_dev_ptr g))
      else if field = ''gpu_host_ptr'' then ''0x'' @ hex_nat (unat (gpu_host_ptr g))
      else if field = ''comm'' then comm_text e
      else if field = ''uid'' then uid_text e
      else fieldNotFound)"

definition field_cloud :: "cloud_audit_event \<Rightarrow> string \<Rightarrow> string" where
  "field_cloud c field =
     (if field = ''cloud.provider'' then ca_provider c
      else if field = ''cloud.service'' then ca_service c
      else if field = ''cloud.action'' then ca_action c
      else if field = ''cloud.principal'' then ca_principal c
      else if field = ''cloud.resource'' then ca_resource_arn c
      else if field = ''cloud.source_ip'' then ca_source_ip c
      else if field = ''cloud.user_agent'' then ca_user_agent c
      else if field = ''cloud.error_code'' then ca_error_code c
      else if field = ''cloud.region'' then ca_region c
      else if field = ''cloud.event_id'' then ca_event_id c
      else fieldNotFound)"

definition field_kmod :: "event \<Rightarrow> kmod_event \<Rightarrow> string \<Rightarrow> string" where
  "field_kmod e k field =
     (if field = ''name'' then km_mod_name k
      else if field = ''filename'' then km_mod_name k
      else if field = ''from_tmpfs'' then bool_text (km_from_tmpfs k)
      else if field = ''comm'' then comm_text e
      else if field = ''parent_comm'' then BytesToString (ev_parent_comm e)
      else if field = ''uid'' then uid_text e
      else if field = ''fingerprint'' then ''''
      else fieldNotFound)"

definition field_iouring :: "event \<Rightarrow> iouring_event \<Rightarrow> string \<Rightarrow> string" where
  "field_iouring e i field =
     (if field = ''op'' then (if io_op i = 0 then ''setup'' else ''enter'')
      else if field = ''flags'' then dec_nat (unat (io_flags i))
      else if field = ''fd'' then dec_int (sint (io_fd i))
      else if field = ''to_submit'' then dec_nat (unat (io_to_submit i))
      else if field = ''comm'' then comm_text e
      else if field = ''uid'' then uid_text e
      else fieldNotFound)"

definition field_bpf :: "event \<Rightarrow> bpf_program_event \<Rightarrow> string \<Rightarrow> string" where
  "field_bpf e b field =
     (if field = ''cmd'' then BPFCmdName (bp_cmd b)
      else if field = ''cmd_nr'' then dec_nat (unat (bp_cmd b))
      else if field = ''prog_type'' then BPFProgTypeName (bp_prog_type b)
      else if field = ''prog_type_nr'' then dec_nat (unat (bp_prog_type b))
      else if field = ''ret'' then dec_int (sint (bp_ret b))
      else if field = ''uid'' then uid_text e
      else if field = ''comm'' then comm_text e
      else fieldNotFound)"

text \<open>An absent payload reads as the empty string, before the field name is looked at.\<close>

definition payload_field :: "'p option \<Rightarrow> ('p \<Rightarrow> string \<Rightarrow> string) \<Rightarrow> string \<Rightarrow> string" where
  "payload_field p get field = (case p of None \<Rightarrow> '''' | Some x \<Rightarrow> get x field)"

definition getFieldValue ::
    "'re go_env \<Rightarrow> event \<Rightarrow> string \<Rightarrow> DomainAnalysis option \<Rightarrow> string" where
  "getFieldValue env e field0 analysis =
     (let field = normaliseFieldName field0; t = ev_type e in
      if t = EventTCPConnect then payload_field (ev_network e) (field_tcp env e) field
      else if t = EventFileAccess then payload_field (ev_file e) (field_file e) field
      else if t = EventSyscall then payload_field (ev_syscall e) (field_syscall e) field
      else if t = EventDNS then payload_field (ev_dns e) (\<lambda>d. field_dns env d analysis) field
      else if t = EventTLS then payload_field (ev_tls e) field_tls field
      else if t = EventHTTPPlaintext then payload_field (ev_http_plaintext e) (field_http e) field
      else if t = EventPrivesc then field_privesc e field
      else if t = EventNetClose then payload_field (ev_net_close e) (field_net_close env) field
      else if t = EventGPU then payload_field (ev_gpu e) (field_gpu e) field
      else if t = EventCloudAudit then payload_field (ev_cloud_audit e) field_cloud field
      else if t = EventKmodLoad then payload_field (ev_kmod e) (field_kmod e) field
      else if t = EventIOUring then payload_field (ev_iouring e) (field_iouring e) field
      else if t = EventBPFProgram then payload_field (ev_bpf_program e) (field_bpf e) field
      else fieldNotFound)"

end
