(* ===== verification/Rule_Sampler.thy ===== *)
theory Rule_Sampler
  imports Rule_Model
begin

text \<open>
  Per-rule sampling (\<open>src/internal/correlator/sampler.go\<close> and \<open>shouldSample\<close> of \<open>rules.go\<close>):
  the table of effective rates, the sampling decision, and the CPU-driven adaptive override.

  A random draw and the CPU utilisation come from outside; they are arguments.  The FNV-1 hash is
  computed on 32-bit words.
\<close>

section \<open>The decision\<close>

definition fnv1_32 :: "byte list \<Rightarrow> u32" where
  "fnv1_32 bs = foldl (\<lambda>h b. (h * 16777619) XOR ucast b) 2166136261 bs"

definition shouldSample :: "u32 \<Rightarrow> u64 \<Rightarrow> f64 \<Rightarrow> bool \<Rightarrow> f64 \<Rightarrow> bool" where
  "shouldSample pid ts rate deterministic draw =
     (if deterministic then
        let h = fnv1_32 (le_enc 4 (unat pid) @ le_enc 8 (unat (drop_bit 30 ts))) in
        f64_less (f64_of_int (int (unat h mod 1000))) (f64_mul rate (Fin 1000))
      else f64_less draw rate)"

section \<open>The table of rates\<close>

abbreviation SamplingModeRandom :: string where "SamplingModeRandom \<equiv> ''random''"
abbreviation SamplingModeHashPID :: string where "SamplingModeHashPID \<equiv> ''hash_pid''"

record ruleEntry =
  se_base :: f64
  se_adaptive :: f64
  se_mode :: string

definition entry_effective :: "ruleEntry \<Rightarrow> f64" where
  "entry_effective e =
     (if f64_greater (se_adaptive e) (Fin 0) \<and> f64_less (se_adaptive e) (se_base e)
      then se_adaptive e else se_base e)"

record RuleSampler =
  sm_entries :: "(string \<times> ruleEntry) list"
  sm_entry_count :: nat

definition rate_is_full :: "f64 \<Rightarrow> bool" where
  "rate_is_full r \<longleftrightarrow> f64_le r (Fin 0) \<or> f64_ge r (Fin 1)"

definition sampler_add_rule :: "Rule \<Rightarrow> (string \<times> ruleEntry) list \<Rightarrow> (string \<times> ruleEntry) list" where
  "sampler_add_rule r es =
     (if rate_is_full (ru_sample_rate r) then es
      else AList.update (ru_id r)
        \<lparr>se_base = ru_sample_rate r, se_adaptive = Fin 0,
         se_mode = (if ru_sample_deterministic r then SamplingModeHashPID else SamplingModeRandom)\<rparr> es)"

definition NewRuleSampler :: "Rule list \<Rightarrow> RuleSampler" where
  "NewRuleSampler rules =
     (let es = fold sampler_add_rule rules [] in \<lparr>sm_entries = es, sm_entry_count = length es\<rparr>)"

text \<open>The four results of \<open>CheckSampling\<close>; \<open>fmtRate\<close> is the environment's shortest float text.\<close>

definition CheckSampling ::
    "'re go_env \<Rightarrow> RuleSampler \<Rightarrow> string \<Rightarrow> u32 \<Rightarrow> u64 \<Rightarrow> f64 \<Rightarrow> bool \<times> bool \<times> string \<times> string" where
  "CheckSampling env s ruleID pid ts draw =
     (case map_of (sm_entries s) ruleID of
        None \<Rightarrow> (False, False, '''', '''')
      | Some e \<Rightarrow>
          let rate = entry_effective e; det = (se_mode e = SamplingModeHashPID) in
          if rate_is_full rate then (False, False, '''', '''')
          else if shouldSample pid ts rate det draw
          then (True, False, se_mode e, env_format_float env rate)
          else (True, True, se_mode e, env_format_float env rate))"

definition ShouldEvaluate :: "RuleSampler \<Rightarrow> string \<Rightarrow> u32 \<Rightarrow> u64 \<Rightarrow> f64 \<Rightarrow> bool" where
  "ShouldEvaluate s ruleID pid ts draw =
     (case map_of (sm_entries s) ruleID of
        None \<Rightarrow> True
      | Some e \<Rightarrow>
          let rate = entry_effective e in
          if f64_ge rate (Fin 1) then True
          else shouldSample pid ts rate (se_mode e = SamplingModeHashPID) draw)"

definition HasSampling :: "RuleSampler \<Rightarrow> string \<Rightarrow> bool" where
  "HasSampling s ruleID =
     (case map_of (sm_entries s) ruleID of
        None \<Rightarrow> False
      | Some e \<Rightarrow> f64_greater (entry_effective e) (Fin 0) \<and> f64_less (entry_effective e) (Fin 1))"

definition SamplerMode :: "RuleSampler \<Rightarrow> string \<Rightarrow> string" where
  "SamplerMode s ruleID =
     (case map_of (sm_entries s) ruleID of
        None \<Rightarrow> SamplingModeRandom
      | Some e \<Rightarrow> if se_mode e = '''' then SamplingModeRandom else se_mode e)"

definition setAdaptiveRate :: "string \<Rightarrow> f64 \<Rightarrow> RuleSampler \<Rightarrow> RuleSampler" where
  "setAdaptiveRate ruleID rate s =
     (let prev = length (sm_entries s);
          es = (case map_of (sm_entries s) ruleID of
                  Some e \<Rightarrow> AList.update ruleID (e\<lparr>se_adaptive := rate\<rparr>) (sm_entries s)
                | None \<Rightarrow>
                    if f64_greater rate (Fin 0) \<and> f64_less rate (Fin 1) then
                      AList.update ruleID
                        \<lparr>se_base = Fin 1, se_adaptive = rate, se_mode = SamplingModeRandom\<rparr> (sm_entries s)
                    else sm_entries s);
          curr = length es in
      \<lparr>sm_entries = es, sm_entry_count = (if curr \<noteq> prev then curr else sm_entry_count s)\<rparr>)"

definition clearAdaptiveRate :: "string \<Rightarrow> RuleSampler \<Rightarrow> RuleSampler" where
  "clearAdaptiveRate ruleID s =
     (let prev = length (sm_entries s);
          es = (case map_of (sm_entries s) ruleID of
                  Some e \<Rightarrow>
                    if f64_ge (se_base e) (Fin 1) then AList.delete ruleID (sm_entries s)
                    else AList.update ruleID (e\<lparr>se_adaptive := Fin 0\<rparr>) (sm_entries s)
                | None \<Rightarrow> sm_entries s);
          curr = length es in
      \<lparr>sm_entries = es, sm_entry_count = (if curr \<noteq> prev then curr else sm_entry_count s)\<rparr>)"

section \<open>The adaptive override\<close>

record AdaptiveSamplingConfig =
  ac_enabled :: bool
  ac_trigger_cpu_percent :: f64
  ac_warning_sample_rate :: f64
  ac_critical_sample_rate :: f64
  ac_check_interval :: duration

record AdaptiveSampler =
  as_cfg :: AdaptiveSamplingConfig
  as_rules :: "Rule list"
  as_sampler :: RuleSampler
  as_active :: bool

definition NewAdaptiveSampler ::
    "AdaptiveSamplingConfig \<Rightarrow> Rule list \<Rightarrow> RuleSampler \<Rightarrow> AdaptiveSampler" where
  "NewAdaptiveSampler cfg rules s =
     (let cfg = (if ac_check_interval cfg \<le> 0 then cfg\<lparr>ac_check_interval := 5 * 1000000000\<rparr> else cfg);
          cfg = (if f64_le (ac_critical_sample_rate cfg) (Fin 0)
                 then cfg\<lparr>ac_critical_sample_rate := Fin 1\<rparr> else cfg);
          cfg = (if f64_le (ac_warning_sample_rate cfg) (Fin 0)
                 then cfg\<lparr>ac_warning_sample_rate := Fin (1/4)\<rparr> else cfg) in
      \<lparr>as_cfg = cfg, as_rules = rules, as_sampler = s, as_active = False\<rparr>)"

definition adaptive_step :: "bool \<Rightarrow> f64 \<Rightarrow> Rule \<Rightarrow> RuleSampler \<Rightarrow> RuleSampler" where
  "adaptive_step activate w rule s =
     (if ru_severity rule = SeverityCritical then s
      else if activate then setAdaptiveRate (ru_id rule) w s
      else clearAdaptiveRate (ru_id rule) s)"

text \<open>\<open>check\<close>: the argument is the result of \<open>cpu.Percent\<close>, \<^const>\<open>None\<close> on error.\<close>

definition adaptive_check :: "f64 list option \<Rightarrow> AdaptiveSampler \<Rightarrow> AdaptiveSampler" where
  "adaptive_check pcts a =
     (case pcts of
        Some (p # _) \<Rightarrow>
          let activate = f64_ge p (ac_trigger_cpu_percent (as_cfg a)) in
          if activate = as_active a then a
          else a\<lparr>as_active := activate,
                 as_sampler := fold (adaptive_step activate (ac_warning_sample_rate (as_cfg a)))
                                 (as_rules a) (as_sampler a)\<rparr>
      | _ \<Rightarrow> a)"

section \<open>The sampling gate as an interface\<close>

text \<open>
  What the rule engine relies on: with no entry the gate is inactive for every rule, and an
  inactive gate never skips.  So the engine may test the entry count before taking the lock.
\<close>

locale sampling_gate =
  fixes check :: "'s \<Rightarrow> string \<Rightarrow> u32 \<Rightarrow> u64 \<Rightarrow> f64 \<Rightarrow> bool \<times> bool \<times> string \<times> string"
    and count :: "'s \<Rightarrow> nat" and ok :: "'s \<Rightarrow> bool"
  assumes empty_inactive: "ok s \<Longrightarrow> count s = 0 \<Longrightarrow> check s i p t d = (False, False, '''', '''')"
    and inactive_no_skip: "check s i p t d = (False, k, m, r) \<Longrightarrow> \<not> k"
begin

lemma fast_path:
  "ok s \<Longrightarrow> (if b \<or> 0 < count s then check s i p t d else (False, False, '''', '''')) = check s i p t d"
  using empty_inactive by auto

end

definition sampler_ok :: "RuleSampler \<Rightarrow> bool" where
  "sampler_ok s \<longleftrightarrow> distinct_keys (sm_entries s) \<and> sm_entry_count s = length (sm_entries s)"

interpretation rule_gate: sampling_gate "CheckSampling env" sm_entry_count sampler_ok for env
proof
  show "sampler_ok s \<Longrightarrow> sm_entry_count s = 0 \<Longrightarrow>
      CheckSampling env s i p t d = (False, False, '''', '''')" for s i p t d
    by (simp add: sampler_ok_def CheckSampling_def)
  show "CheckSampling env s i p t d = (False, k, m, r) \<Longrightarrow> \<not> k" for s i p t d k m r
    by (auto simp: CheckSampling_def Let_def split: option.splits if_splits)
qed

section \<open>The table\<close>

lemma fold_sampler_add_distinct:
  "distinct_keys es \<Longrightarrow> distinct_keys (fold sampler_add_rule rules es)"
  by (induction rules arbitrary: es) (auto simp: sampler_add_rule_def distinct_keys_update)

lemma sampler_ok_new: "sampler_ok (NewRuleSampler rules)"
  by (simp add: sampler_ok_def NewRuleSampler_def Let_def fold_sampler_add_distinct)

lemma sampler_ok_set: "sampler_ok s \<Longrightarrow> sampler_ok (setAdaptiveRate i r s)"
  by (auto simp: sampler_ok_def setAdaptiveRate_def Let_def distinct_keys_update split: option.splits)

lemma sampler_ok_clear: "sampler_ok s \<Longrightarrow> sampler_ok (clearAdaptiveRate i s)"
  by (auto simp: sampler_ok_def clearAdaptiveRate_def Let_def distinct_keys_update
      distinct_keys_delete split: option.splits)

lemma entries_new_unsampled:
  assumes "map_of (fold sampler_add_rule rules es) i = Some e" "map_of es i \<noteq> Some e"
  shows "se_adaptive e = Fin 0 \<and> \<not> rate_is_full (se_base e) \<and>
    (\<exists>r \<in> set rules. ru_id r = i \<and> se_base e = ru_sample_rate r)"
  using assms
proof (induction rules arbitrary: es)
  case (Cons r rules)
  show ?case
  proof (cases "map_of (sampler_add_rule r es) i = Some e")
    case True
    with Cons.prems(2) show ?thesis
      by (auto simp: sampler_add_rule_def update_conv' split: if_splits)
  next
    case False
    with Cons.IH [of "sampler_add_rule r es"] Cons.prems(1) show ?thesis by auto
  qed
qed simp

lemma entries_new:
  assumes "map_of (sm_entries (NewRuleSampler rules)) i = Some e"
  shows "se_adaptive e = Fin 0 \<and> \<not> rate_is_full (se_base e)"
  using entries_new_unsampled [of rules "[]" i e] assms by (simp add: NewRuleSampler_def Let_def)

section \<open>The adaptive override in closed form\<close>

text \<open>What activation and deactivation do to the entry of one rule.\<close>

definition adapt :: "f64 \<Rightarrow> ruleEntry option \<Rightarrow> ruleEntry option" where
  "adapt w x =
     (case x of
        Some e \<Rightarrow> Some (e\<lparr>se_adaptive := w\<rparr>)
      | None \<Rightarrow>
          if f64_greater w (Fin 0) \<and> f64_less w (Fin 1)
          then Some \<lparr>se_base = Fin 1, se_adaptive = w, se_mode = SamplingModeRandom\<rparr> else None)"

definition unadapt :: "ruleEntry option \<Rightarrow> ruleEntry option" where
  "unadapt x =
     (case x of
        Some e \<Rightarrow> if f64_ge (se_base e) (Fin 1) then None else Some (e\<lparr>se_adaptive := Fin 0\<rparr>)
      | None \<Rightarrow> None)"

lemma set_entries:
  "map_of (sm_entries (setAdaptiveRate i w s)) j =
     (if j = i then adapt w (map_of (sm_entries s) i) else map_of (sm_entries s) j)"
  by (auto simp: setAdaptiveRate_def adapt_def Let_def update_conv' split: option.splits)

lemma clear_entries:
  "sampler_ok s \<Longrightarrow> map_of (sm_entries (clearAdaptiveRate i s)) j =
     (if j = i then unadapt (map_of (sm_entries s) i) else map_of (sm_entries s) j)"
  by (auto simp: clearAdaptiveRate_def unadapt_def sampler_ok_def Let_def update_conv' delete_conv'
      split: option.splits)

lemma adapt_idem: "adapt w (adapt w x) = adapt w x"
  by (simp add: adapt_def split: option.splits)

lemma unadapt_idem: "unadapt (unadapt x) = unadapt x"
  by (simp add: unadapt_def split: option.splits)

definition noncritical_ids :: "Rule list \<Rightarrow> string set" where
  "noncritical_ids rules = {ru_id r | r. r \<in> set rules \<and> ru_severity r \<noteq> SeverityCritical}"

lemma fold_set_entries:
  "map_of (sm_entries (fold (adaptive_step True w) rules s)) j =
     (if j \<in> noncritical_ids rules then adapt w (map_of (sm_entries s) j) else map_of (sm_entries s) j)"
  by (induction rules arbitrary: s)
    (auto simp: noncritical_ids_def adaptive_step_def set_entries adapt_idem)

lemma fold_clear_entries:
  "sampler_ok s \<Longrightarrow> map_of (sm_entries (fold (adaptive_step False w) rules s)) j =
     (if j \<in> noncritical_ids rules then unadapt (map_of (sm_entries s) j) else map_of (sm_entries s) j)"
  by (induction rules arbitrary: s)
    (auto simp: noncritical_ids_def adaptive_step_def clear_entries unadapt_idem sampler_ok_clear)

lemma sampler_ok_fold: "sampler_ok s \<Longrightarrow> sampler_ok (fold (adaptive_step b w) rules s)"
  by (induction rules arbitrary: s) (auto simp: adaptive_step_def sampler_ok_set sampler_ok_clear)

definition adaptive_ok :: "Rule list \<Rightarrow> RuleSampler \<Rightarrow> AdaptiveSampler \<Rightarrow> bool" where
  "adaptive_ok rules s0 a \<longleftrightarrow>
     as_rules a = rules \<and> sampler_ok (as_sampler a) \<and>
     (\<forall>j. map_of (sm_entries (as_sampler a)) j =
        (if as_active a \<and> j \<in> noncritical_ids rules
         then adapt (ac_warning_sample_rate (as_cfg a)) (map_of (sm_entries s0) j)
         else map_of (sm_entries s0) j))"

lemma unadapt_adapt_new:
  "unadapt (adapt w (map_of (sm_entries (NewRuleSampler rules)) j)) =
   map_of (sm_entries (NewRuleSampler rules)) j"
proof (cases "map_of (sm_entries (NewRuleSampler rules)) j")
  case (Some e)
  from entries_new [OF this] Some show ?thesis
    by (cases e) (auto simp: unadapt_def adapt_def rate_is_full_def)
qed (simp add: unadapt_def adapt_def)

lemma adaptive_ok_check:
  assumes "adaptive_ok rules (NewRuleSampler rules) a"
  shows "adaptive_ok rules (NewRuleSampler rules) (adaptive_check pcts a)"
proof -
  have "adaptive_ok rules (NewRuleSampler rules) (a\<lparr>as_active := act,
      as_sampler := fold (adaptive_step act (ac_warning_sample_rate (as_cfg a))) (as_rules a) (as_sampler a)\<rparr>)"
    if "act \<noteq> as_active a" for act
    using assms that
    by (cases act) (simp_all add: adaptive_ok_def fold_set_entries fold_clear_entries sampler_ok_fold
        unadapt_adapt_new)
  with assms show ?thesis
    by (auto simp: adaptive_check_def Let_def split: option.splits list.splits)
qed

lemma adaptive_ok_run:
  "adaptive_ok rules (NewRuleSampler rules)
     (fold adaptive_check readings (NewAdaptiveSampler cfg rules (NewRuleSampler rules)))"
proof -
  have "adaptive_ok rules (NewRuleSampler rules) (NewAdaptiveSampler cfg rules (NewRuleSampler rules))"
    by (simp add: adaptive_ok_def NewAdaptiveSampler_def Let_def sampler_ok_new)
  then show ?thesis
    by (induction readings rule: rev_induct) (simp_all add: adaptive_ok_check)
qed

lemma CheckSampling_cong:
  "map_of (sm_entries s) i = map_of (sm_entries s') i \<Longrightarrow>
   CheckSampling env s i p t d = CheckSampling env s' i p t d"
  by (simp add: CheckSampling_def)

section \<open>Properties\<close>

text \<open>
  C30 (invariant).  After any sequence of CPU readings, adaptive sampling leaves every critical
  rule's sampling decision as configured (unless a non-critical rule carries the same ID), and
  while it is not engaged every rule's decision is exactly the configured one: engaging and
  releasing it any number of times leaves no trace.
\<close>

theorem adaptive_sampling_restores:
  assumes "a = fold adaptive_check readings (NewAdaptiveSampler cfg rules (NewRuleSampler rules))"
    and "\<not> as_active a \<or> i \<notin> {ru_id r | r. r \<in> set rules \<and> ru_severity r \<noteq> SeverityCritical}"
  shows "CheckSampling env (as_sampler a) i pid ts draw =
         CheckSampling env (NewRuleSampler rules) i pid ts draw"
  using adaptive_ok_run [of rules readings cfg] assms
  by (intro CheckSampling_cong) (auto simp: adaptive_ok_def noncritical_ids_def)

text \<open>Concrete values the witnesses evaluate on.\<close>

definition example_env :: "unit go_env" where
  "example_env = \<lparr>env_regex_compile = (\<lambda>_. None), env_regex_match = (\<lambda>_ _. False),
     env_parse_float = (\<lambda>_. None), env_format_float4 = (\<lambda>_. ''0''), env_format_float = (\<lambda>_. ''0''),
     env_parse_ip6 = (\<lambda>_. None), env_ip6_text = (\<lambda>_. ''''),
     env_dns = example_dns_env\<rparr>"

definition example_rule :: Rule where
  "example_rule = \<lparr>ru_id = ''r1'', ru_name = ''n'', ru_description = ''d'', ru_event_type = EventSyscall,
     ru_skip_sampler = False,
     ru_condition = zero_condition\<lparr>rc_field := ''nr'', rc_op := ''equals'', rc_values := [''59'']\<rparr>,
     ru_group = None, ru_severity = SeverityWarning, ru_action = ActionAlert, ru_exceptions = [],
     ru_tags = [], ru_class = '''', ru_sampling = None, ru_sample_rate = Fin 1,
     ru_sample_deterministic = False\<rparr>"

definition example_cfg :: AdaptiveSamplingConfig where
  "example_cfg = \<lparr>ac_enabled = True, ac_trigger_cpu_percent = Fin 80, ac_warning_sample_rate = Fin (1/4),
     ac_critical_sample_rate = Fin 1, ac_check_interval = 1\<rparr>"

theorem adaptive_sampling_restores_witness:
  "CheckSampling example_env
     (as_sampler (fold adaptive_check [Some [Fin 90], Some [Fin 10]]
        (NewAdaptiveSampler example_cfg [example_rule] (NewRuleSampler [example_rule])))) ''r1'' 1 2 (Fin 0) =
   CheckSampling example_env (NewRuleSampler [example_rule]) ''r1'' 1 2 (Fin 0)"
  by (rule adaptive_sampling_restores [OF refl])
    (simp add: adaptive_check_def NewAdaptiveSampler_def Let_def example_cfg_def)

end
