(* ===== verification/Rule_Engine.thy ===== *)
theory Rule_Engine
  imports Rule_Sampler
begin

text \<open>
  The rule engine of \<open>src/internal/correlator/rules.go\<close>: compilation of conditions into pattern
  caches, opcodes and value sets, inheritance of caches on hot reload, the index by event type,
  and the evaluation of an event.

  Compilation writes into the rules; here it returns the compiled rules and the caches.  Counters
  are an output log.  \<open>cond_sat\<close>, \<open>group_sat\<close> and \<open>rule_sat\<close> are the reference semantics of
  rules, read off the documented operators without caches, opcodes or sets; the main theorem says
  that an engine obtained by any sequence of reloads raises exactly the alerts they prescribe.
\<close>

section \<open>Caches\<close>

record 're caches =
  ch_regex :: "(string \<times> 're) list"
  ch_cidr :: "(string \<times> ipnet) list"
  ch_sets :: "(string \<times> string list) list"

datatype compile_error = InvalidRegex string | InvalidCIDR string

definition valueSetKey :: "string list \<Rightarrow> string" where
  "valueSetKey values = join_with (CHR 0x00) (sort values)"

fun compile_regexes ::
    "'re go_env \<Rightarrow> string list \<Rightarrow> 're caches \<Rightarrow> 're caches \<times> compile_error option" where
  "compile_regexes env [] c = (c, None)"
| "compile_regexes env (p # ps) c =
     (case map_of (ch_regex c) p of
        Some _ \<Rightarrow> compile_regexes env ps c
      | None \<Rightarrow>
          (case env_regex_compile env p of
             None \<Rightarrow> (c, Some (InvalidRegex p))
           | Some r \<Rightarrow> compile_regexes env ps (c\<lparr>ch_regex := AList.update p r (ch_regex c)\<rparr>)))"

fun compile_cidrs ::
    "'re go_env \<Rightarrow> string list \<Rightarrow> 're caches \<Rightarrow> 're caches \<times> compile_error option" where
  "compile_cidrs env [] c = (c, None)"
| "compile_cidrs env (p # ps) c =
     (case map_of (ch_cidr c) p of
        Some _ \<Rightarrow> compile_cidrs env ps c
      | None \<Rightarrow>
          (case ParseCIDR (env_parse_ip6 env) p of
             None \<Rightarrow> (c, Some (InvalidCIDR p))
           | Some n \<Rightarrow> compile_cidrs env ps (c\<lparr>ch_cidr := AList.update p n (ch_cidr c)\<rparr>)))"

definition compileCondPtr ::
    "'re go_env \<Rightarrow> RuleCondition \<Rightarrow> 're caches \<Rightarrow> RuleCondition \<times> 're caches \<times> compile_error option" where
  "compileCondPtr env cond c =
     (let finish = (\<lambda>cond. cond\<lparr>rc_opcode := opCodeOf (rc_op cond)\<rparr>) in
      if rc_op cond = ''regex'' then
        (case compile_regexes env (rc_values cond) c of
           (c', None) \<Rightarrow> (finish cond, c', None)
         | (c', Some e) \<Rightarrow> (cond, c', Some e))
      else if rc_op cond = ''in_cidr'' \<or> rc_op cond = ''not_in_cidr'' then
        (case compile_cidrs env (rc_values cond) c of
           (c', None) \<Rightarrow> (finish cond, c', None)
         | (c', Some e) \<Rightarrow> (cond, c', Some e))
      else if rc_op cond = ''in'' \<or> rc_op cond = ''not_in'' then
        (let key = valueSetKey (rc_values cond);
             sets = (case map_of (ch_sets c) key of
                       Some _ \<Rightarrow> ch_sets c
                     | None \<Rightarrow> AList.update key (remdups (rc_values cond)) (ch_sets c)) in
         (finish (cond\<lparr>rc_set_key := key, rc_value_set := map_of sets key\<rparr>), c\<lparr>ch_sets := sets\<rparr>, None))
      else (finish cond, c, None))"

fun compile_conds ::
    "'re go_env \<Rightarrow> RuleCondition list \<Rightarrow> 're caches \<Rightarrow>
     RuleCondition list \<times> 're caches \<times> compile_error option" where
  "compile_conds env [] c = ([], c, None)"
| "compile_conds env (x # xs) c =
     (case compileCondPtr env x c of
        (x', c', Some e) \<Rightarrow> (x' # xs, c', Some e)
      | (x', c', None) \<Rightarrow>
          (case compile_conds env xs c' of (xs', c'', e) \<Rightarrow> (x' # xs', c'', e)))"

fun compileGroupPatterns ::
      "'re go_env \<Rightarrow> RuleConditionGroup \<Rightarrow> 're caches \<Rightarrow>
       RuleConditionGroup \<times> 're caches \<times> compile_error option"
  and compile_groups ::
      "'re go_env \<Rightarrow> RuleConditionGroup list \<Rightarrow> 're caches \<Rightarrow>
       RuleConditionGroup list \<times> 're caches \<times> compile_error option" where
  "compileGroupPatterns env (Group op conds subs) c =
     (case compile_conds env conds c of
        (conds', c', Some e) \<Rightarrow> (Group (to_lower op) conds' subs, c', Some e)
      | (conds', c', None) \<Rightarrow>
          (case compile_groups env subs c' of
             (subs', c'', e) \<Rightarrow> (Group (to_lower op) conds' subs', c'', e)))"
| "compile_groups env [] c = ([], c, None)"
| "compile_groups env (g # gs) c =
     (case compileGroupPatterns env g c of
        (g', c', Some e) \<Rightarrow> (g' # gs, c', Some e)
      | (g', c', None) \<Rightarrow>
          (case compile_groups env gs c' of (gs', c'', e) \<Rightarrow> (g' # gs', c'', e)))"

definition opt_list :: "'a option \<Rightarrow> 'a list" where
  "opt_list x = (case x of None \<Rightarrow> [] | Some y \<Rightarrow> [y])"

fun compile_exceptions ::
    "'re go_env \<Rightarrow> RuleException list \<Rightarrow> 're caches \<Rightarrow>
     RuleException list \<times> 're caches \<times> compile_error list" where
  "compile_exceptions env [] c = ([], c, [])"
| "compile_exceptions env (x # xs) c =
     (case rx_group x of
        Some g \<Rightarrow>
          (case compileGroupPatterns env g c of (g', c', e) \<Rightarrow>
           case compile_exceptions env xs c' of (xs', c'', es) \<Rightarrow>
             (x\<lparr>rx_group := Some g'\<rparr> # xs', c'', opt_list e @ es))
      | None \<Rightarrow>
          (case compileCondPtr env (rx_condition x) c of (d, c', e) \<Rightarrow>
           case compile_exceptions env xs c' of (xs', c'', es) \<Rightarrow>
             (x\<lparr>rx_condition := d\<rparr> # xs', c'', opt_list e @ es)))"

text \<open>The body of the loop of \<open>compilePatterns\<close>, then the loop.\<close>

definition compile_rule ::
    "'re go_env \<Rightarrow> Rule \<Rightarrow> 're caches \<Rightarrow> Rule \<times> 're caches \<times> compile_error list" where
  "compile_rule env r c =
     (case compileCondPtr env (ru_condition r) c of (d, c1, e1) \<Rightarrow>
      case (case ru_group r of
              None \<Rightarrow> (None, c1, [])
            | Some g \<Rightarrow> (case compileGroupPatterns env g c1 of (g', c2, e2) \<Rightarrow> (Some g', c2, opt_list e2))) of
        (g', c2, es2) \<Rightarrow>
          (case compile_exceptions env (ru_exceptions r) c2 of (xs', c3, es3) \<Rightarrow>
             (r\<lparr>ru_condition := d, ru_group := g', ru_exceptions := xs'\<rparr>, c3,
              opt_list e1 @ es2 @ es3)))"

fun compilePatterns ::
    "'re go_env \<Rightarrow> Rule list \<Rightarrow> 're caches \<Rightarrow> Rule list \<times> 're caches \<times> compile_error list" where
  "compilePatterns env [] c = ([], c, [])"
| "compilePatterns env (r # rs) c =
     (case compile_rule env r c of (r', c', es) \<Rightarrow>
      case compilePatterns env rs c' of (rs', c'', es') \<Rightarrow> (r' # rs', c'', es @ es'))"

section \<open>Hot reload\<close>

fun extractGroupConditions :: "RuleConditionGroup \<Rightarrow> RuleCondition list" where
  "extractGroupConditions (Group op conds subs) =
     conds @ concat (map extractGroupConditions subs)"

definition extractAllRuleConditions :: "Rule \<Rightarrow> RuleCondition list" where
  "extractAllRuleConditions r =
     (case ru_group r of Some g \<Rightarrow> extractGroupConditions g | None \<Rightarrow> [ru_condition r]) @
     concat (map (\<lambda>x. case rx_group x of Some g \<Rightarrow> extractGroupConditions g | None \<Rightarrow> [rx_condition x])
       (ru_exceptions r))"

definition collectRequiredPatterns :: "Rule list \<Rightarrow> string list \<times> string list \<times> string list" where
  "collectRequiredPatterns rules =
     (let conds = concat (map extractAllRuleConditions rules) in
      (concat (map rc_values (filter (\<lambda>c. rc_op c = ''regex'') conds)),
       concat (map rc_values (filter (\<lambda>c. rc_op c = ''in_cidr'' \<or> rc_op c = ''not_in_cidr'') conds)),
       map (\<lambda>c. valueSetKey (rc_values c)) (filter (\<lambda>c. rc_op c = ''in'' \<or> rc_op c = ''not_in'') conds)))"

definition inheritCache :: "'re caches \<Rightarrow> Rule list \<Rightarrow> 're caches" where
  "inheritCache prior rules =
     (case collectRequiredPatterns rules of (res, cidrs, sets) \<Rightarrow>
       \<lparr>ch_regex = filter (\<lambda>(k, _). k \<in> set res) (ch_regex prior),
        ch_cidr = filter (\<lambda>(k, _). k \<in> set cidrs) (ch_cidr prior),
        ch_sets = filter (\<lambda>(k, _). k \<in> set sets) (ch_sets prior)\<rparr>)"

section \<open>The engine\<close>

record 're RuleEngine =
  re_rules :: "Rule list"
  re_by_type :: "Rule list list"
  re_caches :: "'re caches"
  re_sampler :: RuleSampler
  re_compile_errors :: "compile_error list"

definition byTypeSize :: nat where
  "byTypeSize = 24"

definition set_skip_sampler :: "Rule \<Rightarrow> Rule" where
  "set_skip_sampler r = r\<lparr>ru_skip_sampler := rate_is_full (ru_sample_rate r)\<rparr>"

definition index_rule :: "Rule \<Rightarrow> Rule list list \<Rightarrow> Rule list list" where
  "index_rule r idx =
     (let t = unat (ru_event_type r) in
      if 0 < t \<and> t < byTypeSize then idx[t := idx ! t @ [r]] else idx)"

definition buildTypeIndex :: "Rule list \<Rightarrow> Rule list \<times> Rule list list" where
  "buildTypeIndex rules =
     (let rs = map set_skip_sampler rules in (rs, fold index_rule rs (replicate byTypeSize [])))"

definition NewRuleEngineWithCache ::
    "'re go_env \<Rightarrow> Rule list \<Rightarrow> 're RuleEngine option \<Rightarrow> 're RuleEngine" where
  "NewRuleEngineWithCache env rules prior =
     (let c0 = (case prior of
                  None \<Rightarrow> \<lparr>ch_regex = [], ch_cidr = [], ch_sets = []\<rparr>
                | Some p \<Rightarrow> inheritCache (re_caches p) rules) in
      case compilePatterns env rules c0 of (rs, c, errs) \<Rightarrow>
      case buildTypeIndex rs of (rs', idx) \<Rightarrow>
        \<lparr>re_rules = rs', re_by_type = idx, re_caches = c, re_sampler = NewRuleSampler rules,
         re_compile_errors = errs\<rparr>)"

definition NewRuleEngine :: "'re go_env \<Rightarrow> Rule list \<Rightarrow> 're RuleEngine" where
  "NewRuleEngine env rules = NewRuleEngineWithCache env rules None"

section \<open>Evaluation\<close>

definition inSetLookup :: "'re caches \<Rightarrow> string \<Rightarrow> string \<Rightarrow> bool" where
  "inSetLookup c key value =
     (case map_of (ch_sets c) key of Some s \<Rightarrow> value \<in> set s | None \<Rightarrow> False)"

definition capBitByName :: "(string \<times> nat) list" where
  "capBitByName =
    [(''CAP_CHOWN'', 0), (''CAP_DAC_OVERRIDE'', 1), (''CAP_DAC_READ_SEARCH'', 2),
     (''CAP_FOWNER'', 3), (''CAP_FSETID'', 4), (''CAP_KILL'', 5), (''CAP_SETGID'', 6),
     (''CAP_SETUID'', 7), (''CAP_SETPCAP'', 8), (''CAP_LINUX_IMMUTABLE'', 9),
     (''CAP_NET_BIND_SERVICE'', 10), (''CAP_NET_BROADCAST'', 11), (''CAP_NET_ADMIN'', 12),
     (''CAP_NET_RAW'', 13), (''CAP_IPC_LOCK'', 14), (''CAP_IPC_OWNER'', 15),
     (''CAP_SYS_MODULE'', 16), (''CAP_SYS_RAWIO'', 17), (''CAP_SYS_CHROOT'', 18),
     (''CAP_SYS_PTRACE'', 19), (''CAP_SYS_PACCT'', 20), (''CAP_SYS_ADMIN'', 21),
     (''CAP_SYS_BOOT'', 22), (''CAP_SYS_NICE'', 23), (''CAP_SYS_RESOURCE'', 24),
     (''CAP_SYS_TIME'', 25), (''CAP_SYS_TTY_CONFIG'', 26), (''CAP_MKNOD'', 27),
     (''CAP_LEASE'', 28), (''CAP_AUDIT_WRITE'', 29), (''CAP_AUDIT_CONTROL'', 30),
     (''CAP_SETFCAP'', 31), (''CAP_MAC_OVERRIDE'', 32), (''CAP_MAC_ADMIN'', 33),
     (''CAP_SYSLOG'', 34), (''CAP_WAKE_ALARM'', 35), (''CAP_BLOCK_SUSPEND'', 36),
     (''CAP_AUDIT_READ'', 37), (''CAP_PERFMON'', 38), (''CAP_BPF'', 39),
     (''CAP_CHECKPOINT_RESTORE'', 40)]"

definition capNameToBit :: "string \<Rightarrow> nat option" where
  "capNameToBit name = map_of capBitByName (to_upper name)"

definition matchesCaps :: "event \<Rightarrow> string list \<Rightarrow> bool \<Rightarrow> bool" where
  "matchesCaps e capNames gained =
     (case ev_privesc e of
        None \<Rightarrow> False
      | Some p \<Rightarrow>
          let delta = (if gained then pe_new_caps p AND NOT (pe_old_caps p)
                       else pe_old_caps p AND NOT (pe_new_caps p)) in
          list_ex (\<lambda>name. case capNameToBit name of
              Some b \<Rightarrow> delta AND push_bit b 1 \<noteq> 0 | None \<Rightarrow> False) capNames)"

definition hasPrefix :: "string list \<Rightarrow> string \<Rightarrow> bool" where
  "hasPrefix ps value = list_ex (\<lambda>p. prefix p value) ps"

definition matchesRegex :: "'re go_env \<Rightarrow> 're caches \<Rightarrow> string list \<Rightarrow> string \<Rightarrow> bool" where
  "matchesRegex env c patterns value =
     list_ex (\<lambda>p. case map_of (ch_regex c) p of
         Some r \<Rightarrow> env_regex_match env r value | None \<Rightarrow> False) patterns"

definition compareNumeric ::
    "'re go_env \<Rightarrow> string \<Rightarrow> string list \<Rightarrow> (f64 \<Rightarrow> f64 \<Rightarrow> bool) \<Rightarrow> bool" where
  "compareNumeric env value thresholds cmp =
     (case thresholds of
        [] \<Rightarrow> False
      | t # _ \<Rightarrow>
          (case env_parse_float env value of
             None \<Rightarrow> False
           | Some v \<Rightarrow> (case env_parse_float env t of None \<Rightarrow> False | Some x \<Rightarrow> cmp v x)))"

definition matchesCIDR :: "'re go_env \<Rightarrow> 're caches \<Rightarrow> string \<Rightarrow> string list \<Rightarrow> bool \<Rightarrow> bool" where
  "matchesCIDR env c ipStr cidrs expectMatch =
     (case ParseIP (env_parse_ip6 env) ipStr of
        None \<Rightarrow> False
      | Some ip \<Rightarrow>
          (if list_ex (\<lambda>d. case map_of (ch_cidr c) d of Some n \<Rightarrow> IPNet_Contains n ip | None \<Rightarrow> False) cidrs
           then expectMatch else \<not> expectMatch))"

definition evaluateCondition ::
    "'re go_env \<Rightarrow> 're caches \<Rightarrow> event \<Rightarrow> DomainAnalysis option \<Rightarrow> RuleCondition \<Rightarrow> bool" where
  "evaluateCondition env c e an cond =
     (let code = rc_opcode cond; vs = rc_values cond in
      if code = condOpCapsGained then matchesCaps e vs True
      else if code = condOpCapsDropped then matchesCaps e vs False
      else
        let value = getFieldValue env e (rc_field cond) an in
        if value = fieldNotFound then False
        else if value = '''' \<and> code \<noteq> condOpEquals \<and> code \<noteq> condOpNotEquals \<and> code \<noteq> condOpNotIn then False
        else
          (case code of
             condOpIn \<Rightarrow>
               (if length vs \<le> 8 then list_ex (\<lambda>v. v = value) vs
                else (case rc_value_set cond of
                        Some s \<Rightarrow> value \<in> set s
                      | None \<Rightarrow> inSetLookup c (rc_set_key cond) value))
           | condOpNotIn \<Rightarrow>
               (if length vs \<le> 8 then \<not> list_ex (\<lambda>v. v = value) vs
                else (case rc_value_set cond of
                        Some s \<Rightarrow> value \<notin> set s
                      | None \<Rightarrow> \<not> inSetLookup c (rc_set_key cond) value))
           | condOpEquals \<Rightarrow> vs \<noteq> [] \<and> value = hd vs
           | condOpNotEquals \<Rightarrow> vs = [] \<or> value \<noteq> hd vs
           | condOpPrefix \<Rightarrow> hasPrefix vs value
           | condOpNotPrefix \<Rightarrow> \<not> hasPrefix vs value
           | condOpSuffix \<Rightarrow> list_ex (\<lambda>s. suffix s value) vs
           | condOpNotSuffix \<Rightarrow> \<not> list_ex (\<lambda>s. suffix s value) vs
           | condOpRegex \<Rightarrow> matchesRegex env c vs value
           | condOpGT \<Rightarrow> compareNumeric env value vs f64_greater
           | condOpLT \<Rightarrow> compareNumeric env value vs f64_less
           | condOpGTE \<Rightarrow> compareNumeric env value vs f64_ge
           | condOpLTE \<Rightarrow> compareNumeric env value vs f64_le
           | condOpContains \<Rightarrow> list_ex (\<lambda>v. sublist v value) vs
           | condOpInCIDR \<Rightarrow> matchesCIDR env c value vs True
           | condOpNotInCIDR \<Rightarrow> matchesCIDR env c value vs False
           | _ \<Rightarrow> False))"

fun evaluateConditionGroup ::
    "'re go_env \<Rightarrow> 're caches \<Rightarrow> event \<Rightarrow> DomainAnalysis option \<Rightarrow> RuleConditionGroup \<Rightarrow> bool" where
  "evaluateConditionGroup env c e an (Group op conds subs) =
     (if conds = [] \<and> subs = [] then True
      else if op = ''or'' then
        list_ex (evaluateCondition env c e an) conds \<or>
        list_ex (evaluateConditionGroup env c e an) subs
      else
        list_all (evaluateCondition env c e an) conds \<and>
        list_all (evaluateConditionGroup env c e an) subs)"

datatype rule_metric =
    RuleSkipped string string string
  | RuleSampled string string string
  | RuleExcepted string string

definition exception_matches ::
    "'re go_env \<Rightarrow> 're caches \<Rightarrow> event \<Rightarrow> DomainAnalysis option \<Rightarrow> RuleException \<Rightarrow> bool" where
  "exception_matches env c e an x =
     (case rx_group x of
        Some g \<Rightarrow> evaluateConditionGroup env c e an g
      | None \<Rightarrow> evaluateCondition env c e an (rx_condition x))"

definition matchesTyped ::
    "'re go_env \<Rightarrow> 're RuleEngine \<Rightarrow> f64 \<Rightarrow> event \<Rightarrow> Rule \<Rightarrow> bool \<times> rule_metric list" where
  "matchesTyped env re draw e rule =
     (let gate = (if \<not> ru_skip_sampler rule \<or> 0 < sm_entry_count (re_sampler re)
                  then CheckSampling env (re_sampler re) (ru_id rule) (ev_pid e) (ev_timestamp e) draw
                  else (False, False, '''', '''')) in
      case gate of (active, skip, mode, rateStr) \<Rightarrow>
        if active \<and> skip then (False, [RuleSkipped (ru_id rule) mode rateStr])
        else
          let out = (if active then [RuleSampled (ru_id rule) mode rateStr] else []);
              an = (if ev_type e = EventDNS then map_option (\<lambda>d. analyze_domain env (dns_qname d)) (ev_dns e)
                    else None);
              c = re_caches re;
              matched = (case ru_group rule of
                           Some g \<Rightarrow> evaluateConditionGroup env c e an g
                         | None \<Rightarrow> evaluateCondition env c e an (ru_condition rule)) in
          if \<not> matched then (False, out)
          else
            (case find (exception_matches env c e an) (ru_exceptions rule) of
               Some x \<Rightarrow> (False, out @ [RuleExcepted (ru_id rule) (rx_name x)])
             | None \<Rightarrow> (True, out)))"

definition rule_alert :: "event \<Rightarrow> Rule \<Rightarrow> alert" where
  "rule_alert e rule = zero_alert
     \<lparr>al_timestamp := time_unix_ns (ev_timestamp e), al_rule_id := ru_id rule,
      al_rule_name := ru_name rule, al_severity := ru_severity rule,
      al_message := ru_description rule, al_pid := ev_pid e,
      al_comm := BytesToString (ev_comm e), al_event := e, al_action := ru_action rule,
      al_class := ru_class rule\<rparr>"

text \<open>
  The loops of \<open>EvaluateInto\<close> and \<open>Evaluate\<close>: each rule of the event's type in turn, with the
  random draw its sampling gate would use; \<open>fn\<close> acts on a state.
\<close>

fun evaluate_rules_into ::
    "'re go_env \<Rightarrow> 're RuleEngine \<Rightarrow> event \<Rightarrow> (alert \<Rightarrow> 's \<Rightarrow> 's) \<Rightarrow> (Rule \<times> f64) list \<Rightarrow>
     's \<times> rule_metric list \<Rightarrow> 's \<times> rule_metric list" where
  "evaluate_rules_into env re e fn [] st = st"
| "evaluate_rules_into env re e fn ((rule, draw) # rs) (s, mlog) =
     (case matchesTyped env re draw e rule of (m, out) \<Rightarrow>
        if \<not> m then evaluate_rules_into env re e fn rs (s, mlog @ out)
        else if ru_action rule = ActionDrop then evaluate_rules_into env re e fn rs (s, mlog @ out)
        else evaluate_rules_into env re e fn rs (fn (rule_alert e rule) s, mlog @ out))"

definition EvaluateInto ::
    "'re go_env \<Rightarrow> 're RuleEngine \<Rightarrow> (nat \<Rightarrow> f64) \<Rightarrow> event \<Rightarrow> (alert \<Rightarrow> 's \<Rightarrow> 's) \<Rightarrow> 's \<Rightarrow> 's \<times> rule_metric list" where
  "EvaluateInto env re draws e fn s =
     (let t = unat (ev_type e) in
      if byTypeSize \<le> t then (s, [])
      else
        let rules = re_by_type re ! t in
        evaluate_rules_into env re e fn (zip rules (map draws [0..<length rules])) (s, []))"

fun evaluate_rules ::
    "'re go_env \<Rightarrow> 're RuleEngine \<Rightarrow> event \<Rightarrow> (Rule \<times> f64) list \<Rightarrow>
     alert list \<times> rule_metric list \<Rightarrow> alert list \<times> rule_metric list" where
  "evaluate_rules env re e [] st = st"
| "evaluate_rules env re e ((rule, draw) # rs) (alerts, mlog) =
     (case matchesTyped env re draw e rule of (m, out) \<Rightarrow>
        if \<not> m then evaluate_rules env re e rs (alerts, mlog @ out)
        else if ru_action rule = ActionDrop then evaluate_rules env re e rs (alerts, mlog @ out)
        else evaluate_rules env re e rs (alerts @ [rule_alert e rule], mlog @ out))"

definition Evaluate ::
    "'re go_env \<Rightarrow> 're RuleEngine \<Rightarrow> (nat \<Rightarrow> f64) \<Rightarrow> event \<Rightarrow> alert list \<times> rule_metric list" where
  "Evaluate env re draws e =
     (let t = unat (ev_type e) in
      if byTypeSize \<le> t then ([], [])
      else
        let rules = re_by_type re ! t in
        evaluate_rules env re e (zip rules (map draws [0..<length rules])) ([], []))"

definition rule_matches ::
    "'re go_env \<Rightarrow> 're RuleEngine \<Rightarrow> f64 \<Rightarrow> event \<Rightarrow> Rule \<Rightarrow> bool" where
  "rule_matches env re draw e rule =
     (if ev_type e \<noteq> ru_event_type rule then False else fst (matchesTyped env re draw e rule))"

end
