(* ===== verification/Rule_Semantics.thy ===== *)
theory Rule_Semantics
  imports Rule_Engine
begin

text \<open>
  Reference semantics of detection rules and the correctness of the compiled, cached and indexed
  evaluation against it.
\<close>

section \<open>Reference semantics\<close>

text \<open>
  The meaning of a condition from its operator name and values alone: membership is membership in
  the list of values, patterns and networks are those the values denote.
\<close>

definition cond_sat :: "'re go_env \<Rightarrow> event \<Rightarrow> DomainAnalysis option \<Rightarrow> RuleCondition \<Rightarrow> bool" where
  "cond_sat env e an cond =
     (let code = opCodeOf (rc_op cond); vs = rc_values cond;
          value = getFieldValue env e (rc_field cond) an in
      if code = condOpCapsGained then matchesCaps e vs True
      else if code = condOpCapsDropped then matchesCaps e vs False
      else if value = fieldNotFound then False
      else if value = '''' \<and> code \<notin> {condOpEquals, condOpNotEquals, condOpNotIn} then False
      else
        (case code of
           condOpIn \<Rightarrow> value \<in> set vs
         | condOpNotIn \<Rightarrow> value \<notin> set vs
         | condOpEquals \<Rightarrow> vs \<noteq> [] \<and> value = hd vs
         | condOpNotEquals \<Rightarrow> vs = [] \<or> value \<noteq> hd vs
         | condOpPrefix \<Rightarrow> (\<exists>p \<in> set vs. prefix p value)
         | condOpNotPrefix \<Rightarrow> \<not> (\<exists>p \<in> set vs. prefix p value)
         | condOpSuffix \<Rightarrow> (\<exists>p \<in> set vs. suffix p value)
         | condOpNotSuffix \<Rightarrow> \<not> (\<exists>p \<in> set vs. suffix p value)
         | condOpContains \<Rightarrow> (\<exists>p \<in> set vs. sublist p value)
         | condOpRegex \<Rightarrow> (\<exists>p \<in> set vs. \<exists>r. env_regex_compile env p = Some r \<and> env_regex_match env r value)
         | condOpGT \<Rightarrow> compareNumeric env value vs f64_greater
         | condOpLT \<Rightarrow> compareNumeric env value vs f64_less
         | condOpGTE \<Rightarrow> compareNumeric env value vs f64_ge
         | condOpLTE \<Rightarrow> compareNumeric env value vs f64_le
         | condOpInCIDR \<Rightarrow>
             (\<exists>ip. ParseIP (env_parse_ip6 env) value = Some ip \<and>
               (\<exists>d \<in> set vs. \<exists>n. ParseCIDR (env_parse_ip6 env) d = Some n \<and> IPNet_Contains n ip))
         | condOpNotInCIDR \<Rightarrow>
             (\<exists>ip. ParseIP (env_parse_ip6 env) value = Some ip \<and>
               \<not> (\<exists>d \<in> set vs. \<exists>n. ParseCIDR (env_parse_ip6 env) d = Some n \<and> IPNet_Contains n ip))
         | _ \<Rightarrow> False))"

fun group_sat :: "'re go_env \<Rightarrow> event \<Rightarrow> DomainAnalysis option \<Rightarrow> RuleConditionGroup \<Rightarrow> bool" where
  "group_sat env e an (Group op conds subs) =
     (if conds = [] \<and> subs = [] then True
      else if to_lower op = ''or'' then
        list_ex (cond_sat env e an) conds \<or> list_ex (group_sat env e an) subs
      else list_all (cond_sat env e an) conds \<and> list_all (group_sat env e an) subs)"

definition event_analysis :: "'re go_env \<Rightarrow> event \<Rightarrow> DomainAnalysis option" where
  "event_analysis env e =
     (if ev_type e = EventDNS then map_option (\<lambda>d. analyze_domain env (dns_qname d)) (ev_dns e) else None)"

definition either_sat ::
    "'re go_env \<Rightarrow> event \<Rightarrow> RuleConditionGroup option \<Rightarrow> RuleCondition \<Rightarrow> bool" where
  "either_sat env e g cond =
     (case g of Some g \<Rightarrow> group_sat env e (event_analysis env e) g
      | None \<Rightarrow> cond_sat env e (event_analysis env e) cond)"

text \<open>A rule fires when its condition holds and none of its exceptions does.\<close>

definition rule_sat :: "'re go_env \<Rightarrow> event \<Rightarrow> Rule \<Rightarrow> bool" where
  "rule_sat env e r \<longleftrightarrow>
     either_sat env e (ru_group r) (ru_condition r) \<and>
     (\<forall>x \<in> set (ru_exceptions r). \<not> either_sat env e (rx_group x) (rx_condition x))"

definition sampled_out :: "'re go_env \<Rightarrow> RuleSampler \<Rightarrow> event \<Rightarrow> Rule \<Rightarrow> f64 \<Rightarrow> bool" where
  "sampled_out env s e r draw \<longleftrightarrow>
     fst (snd (CheckSampling env s (ru_id r) (ev_pid e) (ev_timestamp e) draw))"

text \<open>The alerts an event should raise: one per rule of its type that is not sampled out, fires, and
  does not drop, in rule order.\<close>

definition spec_alerts ::
    "'re go_env \<Rightarrow> Rule list \<Rightarrow> RuleSampler \<Rightarrow> (nat \<Rightarrow> f64) \<Rightarrow> event \<Rightarrow> alert list" where
  "spec_alerts env rules s draws e =
     (let rs = (if 0 < unat (ev_type e) \<and> unat (ev_type e) < byTypeSize
                then filter (\<lambda>r. ru_event_type r = ev_type e) rules else []) in
      map (\<lambda>(r, _). rule_alert e r)
        (filter (\<lambda>(r, d). \<not> sampled_out env s e r d \<and> rule_sat env e r \<and> ru_action r \<noteq> ActionDrop)
          (zip rs (map draws [0..<length rs]))))"

section \<open>Compilation is correct\<close>

text \<open>Value lists of set conditions must not contain NUL, the separator of the cache key.\<close>

definition nul_free :: "string list \<Rightarrow> bool" where
  "nul_free vs \<longleftrightarrow> (\<forall>v \<in> set vs. CHR 0x00 \<notin> set v)"

definition cond_clean :: "RuleCondition \<Rightarrow> bool" where
  "cond_clean c \<longleftrightarrow> (rc_op c = ''in'' \<or> rc_op c = ''not_in'' \<longrightarrow> nul_free (rc_values c))"

definition cache_inv :: "'re go_env \<Rightarrow> 're caches \<Rightarrow> bool" where
  "cache_inv env c \<longleftrightarrow>
     (\<forall>k r. map_of (ch_regex c) k = Some r \<longrightarrow> env_regex_compile env k = Some r) \<and>
     (\<forall>k n. map_of (ch_cidr c) k = Some n \<longrightarrow> ParseCIDR (env_parse_ip6 env) k = Some n) \<and>
     (\<forall>k s. map_of (ch_sets c) k = Some s \<longrightarrow> (\<exists>vs. nul_free vs \<and> k = valueSetKey vs \<and> set s = set vs))"

definition cache_le :: "'re caches \<Rightarrow> 're caches \<Rightarrow> bool" where
  "cache_le c d \<longleftrightarrow>
     map_of (ch_regex c) \<subseteq>\<^sub>m map_of (ch_regex d) \<and> map_of (ch_cidr c) \<subseteq>\<^sub>m map_of (ch_cidr d) \<and>
     map_of (ch_sets c) \<subseteq>\<^sub>m map_of (ch_sets d)"

definition cond_ready :: "'re go_env \<Rightarrow> 're caches \<Rightarrow> RuleCondition \<Rightarrow> RuleCondition \<Rightarrow> bool" where
  "cond_ready env c x x' \<longleftrightarrow>
     rc_field x' = rc_field x \<and> rc_values x' = rc_values x \<and> rc_opcode x' = opCodeOf (rc_op x) \<and>
     (rc_op x = ''regex'' \<longrightarrow> set (rc_values x) \<subseteq> dom (map_of (ch_regex c))) \<and>
     (rc_op x = ''in_cidr'' \<or> rc_op x = ''not_in_cidr'' \<longrightarrow> set (rc_values x) \<subseteq> dom (map_of (ch_cidr c))) \<and>
     (rc_op x = ''in'' \<or> rc_op x = ''not_in'' \<longrightarrow> 8 < length (rc_values x) \<longrightarrow>
        (\<exists>s. rc_value_set x' = Some s \<and> set s = set (rc_values x)))"

lemma cache_le_refl [simp]: "cache_le c c"
  by (simp add: cache_le_def)

lemma cache_le_trans: "cache_le a b \<Longrightarrow> cache_le b c \<Longrightarrow> cache_le a c"
  unfolding cache_le_def by (meson map_le_trans)

lemma cache_le_lookup:
  assumes "cache_le c d"
  shows "map_of (ch_regex c) k = Some r \<Longrightarrow> map_of (ch_regex d) k = Some r"
    and "map_of (ch_cidr c) k = Some n \<Longrightarrow> map_of (ch_cidr d) k = Some n"
  using assms unfolding cache_le_def map_le_def by (metis domI)+

lemma cond_ready_mono:
  assumes "cond_ready env c x x'" "cache_le c d"
  shows "cond_ready env d x x'"
proof -
  have "dom (map_of (ch_regex c)) \<subseteq> dom (map_of (ch_regex d))"
    "dom (map_of (ch_cidr c)) \<subseteq> dom (map_of (ch_cidr d))"
    using assms(2) by (simp_all add: cache_le_def map_le_implies_dom_le)
  with assms(1) show ?thesis unfolding cond_ready_def by blast
qed

lemma valueSetKey_inject:
  assumes "nul_free vs" "nul_free ws" "vs \<noteq> []" "ws \<noteq> []" "valueSetKey vs = valueSetKey ws"
  shows "set vs = set ws"
proof -
  have "sort vs \<noteq> []" "sort ws \<noteq> []" using assms(3,4) by (metis length_0_conv length_sort)+
  then have "sort vs = sort ws"
    by (rule join_with_inject [where c = "CHR 0x00"])
      (use assms(1,2,5) in \<open>auto simp: nul_free_def valueSetKey_def\<close>)
  then show ?thesis by (metis set_sort)
qed

lemma valueSetKey_long: "8 < length vs \<Longrightarrow> CHR 0x00 \<in> set (valueSetKey vs)"
proof -
  assume "8 < length vs"
  define ss where "ss = sort vs"
  from \<open>8 < length vs\<close> have "Suc (Suc 0) \<le> length ss" by (simp add: ss_def)
  then obtain x y ys where "ss = x # y # ys" by (auto simp: Suc_le_length_iff)
  then show ?thesis by (simp add: valueSetKey_def ss_def)
qed

lemma compile_regexes_ok:
  "cache_inv env c \<Longrightarrow> compile_regexes env ps c = (c', None) \<Longrightarrow>
   cache_inv env c' \<and> cache_le c c' \<and> set ps \<subseteq> dom (map_of (ch_regex c'))"
proof (induction env ps c rule: compile_regexes.induct)
  case (2 env p ps c)
  show ?case
  proof (cases "map_of (ch_regex c) p")
    case None
    with 2(4) obtain r where r: "env_regex_compile env p = Some r"
      and rest: "compile_regexes env ps (c\<lparr>ch_regex := AList.update p r (ch_regex c)\<rparr>) = (c', None)"
      by (auto split: option.splits)
    let ?c = "c\<lparr>ch_regex := AList.update p r (ch_regex c)\<rparr>"
    have inv: "cache_inv env ?c" using 2(3) r by (simp add: cache_inv_def update_conv')
    have le: "cache_le c ?c" using None by (auto simp: cache_le_def update_conv' map_le_def)
    from 2(1) [OF None r inv rest] le have "cache_inv env c'" "cache_le c c'" "cache_le ?c c'"
      "set ps \<subseteq> dom (map_of (ch_regex c'))" by (auto intro: cache_le_trans)
    moreover have "p \<in> dom (map_of (ch_regex c'))"
      using cache_le_lookup(1) [OF \<open>cache_le ?c c'\<close>, of p r] by (simp add: update_conv' domI)
    ultimately show ?thesis by simp
  next
    case (Some r)
    with 2(2) [OF Some 2(3)] 2(4) show ?thesis
      by (auto dest: cache_le_lookup(1))
  qed
qed simp

lemma compile_cidrs_ok:
  "cache_inv env c \<Longrightarrow> compile_cidrs env ps c = (c', None) \<Longrightarrow>
   cache_inv env c' \<and> cache_le c c' \<and> set ps \<subseteq> dom (map_of (ch_cidr c'))"
proof (induction env ps c rule: compile_cidrs.induct)
  case (2 env p ps c)
  show ?case
  proof (cases "map_of (ch_cidr c) p")
    case None
    with 2(4) obtain r where r: "ParseCIDR (env_parse_ip6 env) p = Some r"
      and rest: "compile_cidrs env ps (c\<lparr>ch_cidr := AList.update p r (ch_cidr c)\<rparr>) = (c', None)"
      by (auto split: option.splits)
    let ?c = "c\<lparr>ch_cidr := AList.update p r (ch_cidr c)\<rparr>"
    have inv: "cache_inv env ?c" using 2(3) r by (simp add: cache_inv_def update_conv')
    have le: "cache_le c ?c" using None by (auto simp: cache_le_def update_conv' map_le_def)
    from 2(1) [OF None r inv rest] le have "cache_inv env c'" "cache_le c c'" "cache_le ?c c'"
      "set ps \<subseteq> dom (map_of (ch_cidr c'))" by (auto intro: cache_le_trans)
    moreover have "p \<in> dom (map_of (ch_cidr c'))"
      using cache_le_lookup(2) [OF \<open>cache_le ?c c'\<close>, of p r] by (simp add: update_conv' domI)
    ultimately show ?thesis by simp
  next
    case (Some r)
    with 2(2) [OF Some 2(3)] 2(4) show ?thesis
      by (auto dest: cache_le_lookup(2))
  qed
qed simp

text \<open>
  Recompiling must not fail: a list of errors is the code's \<open>compilePatternsError\<close>.  The relation
  between a rule and its compiled form is lifted from conditions to groups, exceptions and rules.
\<close>

lemma compileCondPtr_ok:
  assumes "cache_inv env c" "cond_clean x" "compileCondPtr env x c = (x', c', None)"
  shows "cache_inv env c' \<and> cache_le c c' \<and> cond_ready env c' x x'"
proof -
  consider "rc_op x = ''regex''" | "rc_op x = ''in_cidr'' \<or> rc_op x = ''not_in_cidr''"
    | "rc_op x = ''in'' \<or> rc_op x = ''not_in''"
    | "rc_op x \<notin> {''regex'', ''in_cidr'', ''not_in_cidr'', ''in'', ''not_in''}" by auto
  then show ?thesis
  proof cases
    case 1
    then have "compile_regexes env (rc_values x) c = (c', None)"
      using assms(3) by (auto simp: compileCondPtr_def Let_def split: prod.splits option.splits)
    from compile_regexes_ok [OF assms(1) this] assms(3) 1 show ?thesis
      by (auto simp: compileCondPtr_def cond_ready_def Let_def split: prod.splits option.splits)
  next
    case 2
    then have "compile_cidrs env (rc_values x) c = (c', None)"
      using assms(3) by (auto simp: compileCondPtr_def Let_def split: prod.splits option.splits)
    from compile_cidrs_ok [OF assms(1) this] assms(3) 2 show ?thesis
      by (auto simp: compileCondPtr_def cond_ready_def Let_def split: prod.splits option.splits)
  next
    case 3
    let ?k = "valueSetKey (rc_values x)"
    have nf: "nul_free (rc_values x)" using assms(2) 3 by (simp add: cond_clean_def)
    show ?thesis
    proof (cases "map_of (ch_sets c) ?k")
      case None
      with 3 assms(3) have "c' = c\<lparr>ch_sets := AList.update ?k (remdups (rc_values x)) (ch_sets c)\<rparr>"
        "x' = x\<lparr>rc_set_key := ?k, rc_value_set := Some (remdups (rc_values x)), rc_opcode := opCodeOf (rc_op x)\<rparr>"
        by (auto simp: compileCondPtr_def Let_def update_conv')
      with None 3 assms(1) nf show ?thesis
        by (auto simp: cache_inv_def cache_le_def cond_ready_def update_conv' map_le_def)
    next
      case (Some s)
      with 3 assms(3) have c': "c' = c"
        "x' = x\<lparr>rc_set_key := ?k, rc_value_set := Some s, rc_opcode := opCodeOf (rc_op x)\<rparr>"
        by (auto simp: compileCondPtr_def Let_def)
      obtain vs where vs: "nul_free vs" "?k = valueSetKey vs" "set s = set vs"
        using assms(1) Some unfolding cache_inv_def by blast
      have "set s = set (rc_values x)" if "8 < length (rc_values x)"
      proof -
        have "vs \<noteq> []" using valueSetKey_long [OF that] vs(2) by (auto simp: valueSetKey_def)
        moreover have "rc_values x \<noteq> []" using that by auto
        ultimately show ?thesis using valueSetKey_inject [OF nf vs(1) _ _ vs(2)] vs(3) by simp
      qed
      with c' 3 assms(1) show ?thesis by (auto simp: cond_ready_def)
    qed
  next
    case 4
    with assms show ?thesis by (auto simp: compileCondPtr_def cond_ready_def Let_def)
  qed
qed

lemma compile_conds_ok:
  "cache_inv env c \<Longrightarrow> list_all cond_clean xs \<Longrightarrow> compile_conds env xs c = (xs', c', None) \<Longrightarrow>
   cache_inv env c' \<and> cache_le c c' \<and> list_all2 (cond_ready env c') xs xs'"
proof (induction xs arbitrary: c xs')
  case (Cons x xs)
  from Cons.prems(3) obtain x1 c1 xs1 where x1: "compileCondPtr env x c = (x1, c1, None)"
    "compile_conds env xs c1 = (xs1, c', None)" "xs' = x1 # xs1"
    by (auto split: prod.splits option.splits)
  have a: "cache_inv env c1 \<and> cache_le c c1 \<and> cond_ready env c1 x x1"
    using compileCondPtr_ok [OF Cons.prems(1) _ x1(1)] Cons.prems(2) by simp
  with Cons.IH [OF _ _ x1(2)] Cons.prems(2)
  have "cache_inv env c' \<and> cache_le c1 c' \<and> list_all2 (cond_ready env c') xs xs1" by simp
  with a x1(3) show ?case by (auto intro: cache_le_trans cond_ready_mono)
qed simp

inductive group_ready :: "'re go_env \<Rightarrow> 're caches \<Rightarrow> RuleConditionGroup \<Rightarrow> RuleConditionGroup \<Rightarrow> bool"
  for env c where
  "list_all2 (cond_ready env c) cs cs' \<Longrightarrow> list_all2 (group_ready env c) gs gs' \<Longrightarrow>
   group_ready env c (Group op cs gs) (Group (to_lower op) cs' gs')"

inductive_cases group_ready_GroupE: "group_ready env c (Group op cs gs) g'"

definition group_clean :: "RuleConditionGroup \<Rightarrow> bool" where
  "group_clean g \<longleftrightarrow> list_all cond_clean (extractGroupConditions g)"

lemma group_clean_Group [simp]:
  "group_clean (Group op cs gs) \<longleftrightarrow> list_all cond_clean cs \<and> list_all group_clean gs"
  by (induction gs) (auto simp: group_clean_def)

lemma group_ready_mono:
  "group_ready env c g g' \<Longrightarrow> cache_le c d \<Longrightarrow> group_ready env d g g'"
proof (induction rule: group_ready.induct)
  case (1 cs cs' gs gs' op)
  then have "list_all2 (group_ready env d) gs gs'" by (auto elim!: list_all2_mono)
  moreover have "list_all2 (cond_ready env d) cs cs'"
    using 1(1) by (rule list_all2_mono) (use 1(3) in \<open>blast intro: cond_ready_mono\<close>)
  ultimately show ?case by (rule group_ready.intros [rotated])
qed

lemma compile_groups_ok:
  "cache_inv env c \<Longrightarrow> group_clean g \<Longrightarrow> compileGroupPatterns env g c = (g', c', None) \<Longrightarrow>
     cache_inv env c' \<and> cache_le c c' \<and> group_ready env c' g g'"
  "cache_inv env c \<Longrightarrow> list_all group_clean gs \<Longrightarrow> compile_groups env gs c = (gs', c', None) \<Longrightarrow>
     cache_inv env c' \<and> cache_le c c' \<and> list_all2 (group_ready env c') gs gs'"
proof (induction env g c and env gs c arbitrary: g' c' and gs' c'
    rule: compileGroupPatterns_compile_groups.induct)
  case (1 env op conds subs c)
  from 1(4) obtain cs1 c1 gs1 where x: "compile_conds env conds c = (cs1, c1, None)"
    "compile_groups env subs c1 = (gs1, c', None)" "g' = Group (to_lower op) cs1 gs1"
    by (auto split: prod.splits option.splits)
  have a: "cache_inv env c1 \<and> cache_le c c1 \<and> list_all2 (cond_ready env c1) conds cs1"
    using compile_conds_ok [OF 1(2) _ x(1)] 1(3) by simp
  have b: "cache_inv env c' \<and> cache_le c1 c' \<and> list_all2 (group_ready env c') subs gs1"
    using 1(1) [OF x(1) [symmetric] refl refl _ _ x(2)] a 1(3) by simp
  then have "list_all2 (cond_ready env c') conds cs1"
    using a by (auto elim!: list_all2_mono intro: cond_ready_mono)
  with a b x(3) show ?case by (auto intro: cache_le_trans group_ready.intros)
next
  case (3 env g gs c)
  from 3(5) obtain g1 c1 gs1 where x: "compileGroupPatterns env g c = (g1, c1, None)"
    "compile_groups env gs c1 = (gs1, c', None)" "gs' = g1 # gs1"
    by (auto split: prod.splits option.splits)
  have a: "cache_inv env c1 \<and> cache_le c c1 \<and> group_ready env c1 g g1"
    using 3(1) [OF 3(3) _ x(1)] 3(4) by simp
  have b: "cache_inv env c' \<and> cache_le c1 c' \<and> list_all2 (group_ready env c') gs gs1"
    using 3(2) [OF x(1) [symmetric] refl refl _ _ x(2)] a 3(4) by simp
  with a x(3) show ?case by (auto intro: cache_le_trans group_ready_mono)
qed simp

definition exc_ready :: "'re go_env \<Rightarrow> 're caches \<Rightarrow> RuleException \<Rightarrow> RuleException \<Rightarrow> bool" where
  "exc_ready env c x x' \<longleftrightarrow>
     (case rx_group x of
        Some g \<Rightarrow> (\<exists>g'. rx_group x' = Some g' \<and> group_ready env c g g')
      | None \<Rightarrow> rx_group x' = None \<and> cond_ready env c (rx_condition x) (rx_condition x'))"

definition exc_clean :: "RuleException \<Rightarrow> bool" where
  "exc_clean x \<longleftrightarrow> (case rx_group x of Some g \<Rightarrow> group_clean g | None \<Rightarrow> cond_clean (rx_condition x))"

lemma exc_ready_mono: "exc_ready env c x x' \<Longrightarrow> cache_le c d \<Longrightarrow> exc_ready env d x x'"
  by (auto simp: exc_ready_def intro: cond_ready_mono group_ready_mono split: option.splits)

lemma opt_list_Nil [simp]: "opt_list x = [] \<longleftrightarrow> x = None"
  by (cases x) (simp_all add: opt_list_def)

lemma compile_exceptions_ok:
  "cache_inv env c \<Longrightarrow> list_all exc_clean xs \<Longrightarrow> compile_exceptions env xs c = (xs', c', []) \<Longrightarrow>
   cache_inv env c' \<and> cache_le c c' \<and> list_all2 (exc_ready env c') xs xs'"
proof (induction xs arbitrary: c xs')
  case (Cons x xs)
  obtain x1 c1 xs1 where x1: "compile_exceptions env xs c1 = (xs1, c', [])" "xs' = x1 # xs1"
    and a: "cache_inv env c1 \<and> cache_le c c1 \<and> exc_ready env c1 x x1"
  proof (cases "rx_group x")
    case None
    from Cons.prems(3) None obtain d c1 xs1 where d: "compileCondPtr env (rx_condition x) c = (d, c1, None)"
      "compile_exceptions env xs c1 = (xs1, c', [])" "xs' = x\<lparr>rx_condition := d\<rparr> # xs1"
      by (auto split: prod.splits)
    from compileCondPtr_ok [OF Cons.prems(1) _ d(1)] Cons.prems(2) None
    have "cache_inv env c1 \<and> cache_le c c1 \<and> exc_ready env c1 x (x\<lparr>rx_condition := d\<rparr>)"
      by (simp add: exc_clean_def exc_ready_def)
    with d that show ?thesis by blast
  next
    case (Some g)
    from Cons.prems(3) Some obtain d c1 xs1 where d: "compileGroupPatterns env g c = (d, c1, None)"
      "compile_exceptions env xs c1 = (xs1, c', [])" "xs' = x\<lparr>rx_group := Some d\<rparr> # xs1"
      by (auto split: prod.splits)
    from compile_groups_ok(1) [OF Cons.prems(1) _ d(1)] Cons.prems(2) Some
    have "cache_inv env c1 \<and> cache_le c c1 \<and> exc_ready env c1 x (x\<lparr>rx_group := Some d\<rparr>)"
      by (simp add: exc_clean_def exc_ready_def)
    with d that show ?thesis by blast
  qed
  with Cons.IH [OF _ _ x1(1)] Cons.prems(2)
  have "cache_inv env c' \<and> cache_le c1 c' \<and> list_all2 (exc_ready env c') xs xs1" by simp
  with a x1(2) show ?case by (auto intro: cache_le_trans exc_ready_mono)
qed simp

definition rule_clean :: "Rule \<Rightarrow> bool" where
  "rule_clean r \<longleftrightarrow>
     cond_clean (ru_condition r) \<and> (case ru_group r of Some g \<Rightarrow> group_clean g | None \<Rightarrow> True) \<and>
     list_all exc_clean (ru_exceptions r)"

definition either_ready ::
    "'re go_env \<Rightarrow> 're caches \<Rightarrow> RuleConditionGroup option \<Rightarrow> RuleCondition \<Rightarrow>
     RuleConditionGroup option \<Rightarrow> RuleCondition \<Rightarrow> bool" where
  "either_ready env c g x g' x' \<longleftrightarrow>
     (case g of
        Some g0 \<Rightarrow> (\<exists>g1. g' = Some g1 \<and> group_ready env c g0 g1)
      | None \<Rightarrow> g' = None \<and> cond_ready env c x x')"

lemma exc_ready_either:
  "exc_ready env c x x' = either_ready env c (rx_group x) (rx_condition x) (rx_group x') (rx_condition x')"
  by (simp add: exc_ready_def either_ready_def)

definition rule_ready :: "'re go_env \<Rightarrow> 're caches \<Rightarrow> Rule \<Rightarrow> Rule \<Rightarrow> bool" where
  "rule_ready env c r r' \<longleftrightarrow>
     (\<exists>d g xs. r' = r\<lparr>ru_condition := d, ru_group := g, ru_exceptions := xs\<rparr>) \<and>
     either_ready env c (ru_group r) (ru_condition r) (ru_group r') (ru_condition r') \<and>
     list_all2 (exc_ready env c) (ru_exceptions r) (ru_exceptions r')"

lemma either_ready_mono:
  "either_ready env c g x g' x' \<Longrightarrow> cache_le c d \<Longrightarrow> either_ready env d g x g' x'"
  by (auto simp: either_ready_def intro: cond_ready_mono group_ready_mono split: option.splits)

lemma rule_ready_mono: "rule_ready env c r r' \<Longrightarrow> cache_le c d \<Longrightarrow> rule_ready env d r r'"
  unfolding rule_ready_def by (auto intro: either_ready_mono list_all2_mono [OF _ exc_ready_mono])

lemma compile_rule_ok:
  assumes "cache_inv env c" "rule_clean r" "compile_rule env r c = (r', c', [])"
  shows "cache_inv env c' \<and> cache_le c c' \<and> rule_ready env c' r r'"
proof -
  from assms(3) obtain d c1 g' c2 xs' where
    d: "compileCondPtr env (ru_condition r) c = (d, c1, None)" and
    g: "(case ru_group r of None \<Rightarrow> (None, c1, [])
         | Some g \<Rightarrow> (case compileGroupPatterns env g c1 of (g', c2, e2) \<Rightarrow> (Some g', c2, opt_list e2))) =
        (g', c2, [])" and
    x: "compile_exceptions env (ru_exceptions r) c2 = (xs', c', [])" and
    r': "r' = r\<lparr>ru_condition := d, ru_group := g', ru_exceptions := xs'\<rparr>"
    by (auto simp: compile_rule_def split: prod.splits)
  have a: "cache_inv env c1 \<and> cache_le c c1 \<and> cond_ready env c1 (ru_condition r) d"
    using compileCondPtr_ok [OF assms(1) _ d] assms(2) by (simp add: rule_clean_def)
  have b: "cache_inv env c2 \<and> cache_le c1 c2 \<and> either_ready env c2 (ru_group r) (ru_condition r) g' d"
  proof (cases "ru_group r")
    case None
    with g a show ?thesis by (simp add: either_ready_def)
  next
    case (Some g0)
    with g obtain g1 where "compileGroupPatterns env g0 c1 = (g1, c2, None)" "g' = Some g1"
      by (auto split: prod.splits)
    with compile_groups_ok(1) a assms(2) Some show ?thesis
      by (fastforce simp: rule_clean_def either_ready_def)
  qed
  have "cache_inv env c' \<and> cache_le c2 c' \<and> list_all2 (exc_ready env c') (ru_exceptions r) xs'"
    using compile_exceptions_ok [OF _ _ x] b assms(2) by (simp add: rule_clean_def)
  with a b r' show ?thesis
    by (auto simp: rule_ready_def intro: cache_le_trans either_ready_mono)
qed

lemma compilePatterns_ok:
  "cache_inv env c \<Longrightarrow> list_all rule_clean rs \<Longrightarrow> compilePatterns env rs c = (rs', c', []) \<Longrightarrow>
   cache_inv env c' \<and> cache_le c c' \<and> list_all2 (rule_ready env c') rs rs'"
proof (induction rs arbitrary: c rs')
  case (Cons r rs)
  from Cons.prems(3) obtain r1 c1 rs1 where x: "compile_rule env r c = (r1, c1, [])"
    "compilePatterns env rs c1 = (rs1, c', [])" "rs' = r1 # rs1"
    by (auto split: prod.splits)
  have a: "cache_inv env c1 \<and> cache_le c c1 \<and> rule_ready env c1 r r1"
    using compile_rule_ok [OF Cons.prems(1) _ x(1)] Cons.prems(2) by simp
  with Cons.IH [OF _ _ x(2)] Cons.prems(2)
  have "cache_inv env c' \<and> cache_le c1 c' \<and> list_all2 (rule_ready env c') rs rs1" by simp
  with a x(3) show ?case by (auto intro: cache_le_trans rule_ready_mono)
qed simp

section \<open>Evaluation agrees with the reference\<close>

lemma opCodeOf_iff:
  "opCodeOf op = condOpIn \<longleftrightarrow> op = ''in''" "opCodeOf op = condOpNotIn \<longleftrightarrow> op = ''not_in''"
  "opCodeOf op = condOpRegex \<longleftrightarrow> op = ''regex''" "opCodeOf op = condOpInCIDR \<longleftrightarrow> op = ''in_cidr''"
  "opCodeOf op = condOpNotInCIDR \<longleftrightarrow> op = ''not_in_cidr''"
  by (auto simp: opCodeOf_def)

lemma matchesRegex_ready:
  assumes "cache_inv env c" "set vs \<subseteq> dom (map_of (ch_regex c))"
  shows "matchesRegex env c vs value \<longleftrightarrow>
    (\<exists>p \<in> set vs. \<exists>r. env_regex_compile env p = Some r \<and> env_regex_match env r value)"
proof -
  have "map_of (ch_regex c) p = env_regex_compile env p" if "p \<in> set vs" for p
    using assms that unfolding cache_inv_def by (metis domIff in_mono not_None_eq)
  then show ?thesis
    by (auto simp: matchesRegex_def list_ex_iff split: option.splits)
qed

lemma matchesCIDR_ready:
  assumes "cache_inv env c" "set vs \<subseteq> dom (map_of (ch_cidr c))"
  shows "matchesCIDR env c value vs b \<longleftrightarrow>
    (\<exists>ip. ParseIP (env_parse_ip6 env) value = Some ip \<and>
      (\<exists>d \<in> set vs. \<exists>n. ParseCIDR (env_parse_ip6 env) d = Some n \<and> IPNet_Contains n ip) = b)"
proof -
  have "map_of (ch_cidr c) p = ParseCIDR (env_parse_ip6 env) p" if "p \<in> set vs" for p
    using assms that unfolding cache_inv_def by (metis domIff in_mono not_None_eq)
  then show ?thesis
    by (auto simp: matchesCIDR_def list_ex_iff split: option.splits)
qed

lemma evaluateCondition_ready:
  assumes "cache_inv env c" "cond_ready env c x x'"
  shows "evaluateCondition env c e an x' = cond_sat env e an x"
proof -
  have f: "rc_field x' = rc_field x" "rc_values x' = rc_values x" "rc_opcode x' = opCodeOf (rc_op x)"
    using assms(2) by (simp_all add: cond_ready_def)
  have m: "\<exists>s. rc_value_set x' = Some s \<and> set s = set (rc_values x)"
    if "rc_op x = ''in'' \<or> rc_op x = ''not_in''" "\<not> length (rc_values x) \<le> 8"
    using assms(2) that unfolding cond_ready_def by (meson not_le)
  show ?thesis
  proof (cases "opCodeOf (rc_op x)")
    case condOpIn
    then have op: "rc_op x = ''in'' \<or> rc_op x = ''not_in''" by (simp add: opCodeOf_iff)
    show ?thesis
    proof (cases "length (rc_values x) \<le> 8")
      case True
      then show ?thesis
        by (simp add: evaluateCondition_def cond_sat_def f Let_def condOpIn list_ex_iff)
    next
      case False
      from m [OF op this] obtain s
        where "rc_value_set x' = Some s" "set s = set (rc_values x)" by blast
      with False show ?thesis
        by (simp add: evaluateCondition_def cond_sat_def f Let_def condOpIn)
    qed
  next
    case condOpNotIn
    then have op: "rc_op x = ''in'' \<or> rc_op x = ''not_in''" by (simp add: opCodeOf_iff)
    show ?thesis
    proof (cases "length (rc_values x) \<le> 8")
      case True
      then show ?thesis
        by (simp add: evaluateCondition_def cond_sat_def f Let_def condOpNotIn list_ex_iff)
    next
      case False
      from m [OF op this] obtain s
        where "rc_value_set x' = Some s" "set s = set (rc_values x)" by blast
      with False show ?thesis
        by (simp add: evaluateCondition_def cond_sat_def f Let_def condOpNotIn)
    qed
  next
    case condOpRegex
    then have "set (rc_values x) \<subseteq> dom (map_of (ch_regex c))"
      using assms(2) by (simp add: cond_ready_def opCodeOf_iff)
    with condOpRegex show ?thesis
      by (simp add: evaluateCondition_def cond_sat_def Let_def f matchesRegex_ready [OF assms(1)])
  next
    case condOpInCIDR
    then have "set (rc_values x) \<subseteq> dom (map_of (ch_cidr c))"
      using assms(2) by (simp add: cond_ready_def opCodeOf_iff)
    with condOpInCIDR show ?thesis
      by (simp add: evaluateCondition_def cond_sat_def Let_def f matchesCIDR_ready [OF assms(1)])
  next
    case condOpNotInCIDR
    then have "set (rc_values x) \<subseteq> dom (map_of (ch_cidr c))"
      using assms(2) by (simp add: cond_ready_def opCodeOf_iff)
    with condOpNotInCIDR show ?thesis
      by (simp add: evaluateCondition_def cond_sat_def Let_def f matchesCIDR_ready [OF assms(1)])
  qed (simp_all add: evaluateCondition_def cond_sat_def Let_def f hasPrefix_def list_ex_iff)
qed

lemma list_all2_cong_ex:
  "list_all2 R xs ys \<Longrightarrow> (\<And>x y. R x y \<Longrightarrow> Q y = P x) \<Longrightarrow> list_ex Q ys = list_ex P xs"
  by (induction rule: list_all2_induct) simp_all

lemma list_all2_cong_all:
  "list_all2 R xs ys \<Longrightarrow> (\<And>x y. R x y \<Longrightarrow> Q y = P x) \<Longrightarrow> list_all Q ys = list_all P xs"
  by (induction rule: list_all2_induct) simp_all

lemma evaluateConditionGroup_ready:
  assumes "cache_inv env c"
  shows "group_ready env c g g' \<Longrightarrow> evaluateConditionGroup env c e an g' = group_sat env e an g"
proof (induction rule: group_ready.induct)
  case (1 cs cs' gs gs' op)
  have "list_ex (evaluateCondition env c e an) cs' = list_ex (cond_sat env e an) cs"
    "list_all (evaluateCondition env c e an) cs' = list_all (cond_sat env e an) cs"
    by (rule list_all2_cong_ex [OF 1(1)] list_all2_cong_all [OF 1(1)],
        rule evaluateCondition_ready [OF assms], assumption)+
  moreover have "list_ex (evaluateConditionGroup env c e an) gs' = list_ex (group_sat env e an) gs"
    "list_all (evaluateConditionGroup env c e an) gs' = list_all (group_sat env e an) gs"
    by (rule list_all2_cong_ex [OF 1(2)] list_all2_cong_all [OF 1(2)], blast)+
  moreover have "cs' = [] \<longleftrightarrow> cs = []" "gs' = [] \<longleftrightarrow> gs = []"
    using 1(1,2) by (auto simp: list_all2_Nil list_all2_Nil2)
  ultimately show ?case by simp
qed

lemma either_ready_sat:
  assumes "cache_inv env c" "either_ready env c g x g' x'"
  shows "(case g' of Some h \<Rightarrow> evaluateConditionGroup env c e (event_analysis env e) h
          | None \<Rightarrow> evaluateCondition env c e (event_analysis env e) x') = either_sat env e g x"
  using assms(2) evaluateConditionGroup_ready [OF assms(1)] evaluateCondition_ready [OF assms(1)]
  by (auto simp: either_ready_def either_sat_def split: option.splits)

text \<open>The sampling gate's fast path does not change the decision.\<close>

lemma matchesTyped_fst:
  assumes "sampler_ok (re_sampler re)"
  shows "fst (matchesTyped env re draw e r) \<longleftrightarrow>
    \<not> sampled_out env (re_sampler re) e r draw \<and>
    (case ru_group r of Some g \<Rightarrow> evaluateConditionGroup env (re_caches re) e (event_analysis env e) g
     | None \<Rightarrow> evaluateCondition env (re_caches re) e (event_analysis env e) (ru_condition r)) \<and>
    \<not> list_ex (exception_matches env (re_caches re) e (event_analysis env e)) (ru_exceptions r)"
proof -
  let ?g = "CheckSampling env (re_sampler re) (ru_id r) (ev_pid e) (ev_timestamp e) draw"
  obtain a k m s where g: "?g = (a, k, m, s)" by (cases ?g) auto
  then have ak: "\<not> a \<Longrightarrow> \<not> k" using rule_gate.inactive_no_skip by (metis (full_types))
  have f: "find P xs = None \<longleftrightarrow> \<not> list_ex P xs" for P and xs :: "RuleException list"
    by (auto simp: find_None_iff list_ex_iff)
  show ?thesis
  proof (cases k)
    case True
    with ak g show ?thesis
      unfolding matchesTyped_def rule_gate.fast_path [OF assms] sampled_out_def by auto
  next
    case False
    show ?thesis
      unfolding matchesTyped_def rule_gate.fast_path [OF assms] sampled_out_def g f [symmetric]
        event_analysis_def [symmetric] Let_def
      by (cases "find (exception_matches env (re_caches re) e (event_analysis env e)) (ru_exceptions r)")
        (simp_all add: False)
  qed
qed

lemma rule_ready_matches:
  assumes "cache_inv env (re_caches re)" "sampler_ok (re_sampler re)"
    and "rule_ready env (re_caches re) r r'"
  shows "fst (matchesTyped env re draw e r') \<longleftrightarrow>
    \<not> sampled_out env (re_sampler re) e r draw \<and> rule_sat env e r"
proof -
  have id: "ru_id r' = ru_id r" using assms(3) by (auto simp: rule_ready_def)
  have base: "either_ready env (re_caches re) (ru_group r) (ru_condition r) (ru_group r') (ru_condition r')"
    and exc: "list_all2 (exc_ready env (re_caches re)) (ru_exceptions r) (ru_exceptions r')"
    using assms(3) by (simp_all add: rule_ready_def)
  have "list_ex (exception_matches env (re_caches re) e (event_analysis env e)) (ru_exceptions r') =
        list_ex (\<lambda>x. either_sat env e (rx_group x) (rx_condition x)) (ru_exceptions r)"
    using exc by (rule list_all2_cong_ex)
      (simp add: exc_ready_either exception_matches_def either_ready_sat [OF assms(1)])
  then show ?thesis
    by (simp add: matchesTyped_fst [OF assms(2)] either_ready_sat [OF assms(1) base] rule_sat_def
        sampled_out_def id list_ex_iff)
qed

section \<open>The index\<close>

lemma length_index: "length (fold index_rule rs idx) = length idx"
  by (induction rs arbitrary: idx) (simp_all add: index_rule_def Let_def)

lemma fold_index_rule:
  "length idx = byTypeSize \<Longrightarrow> t < byTypeSize \<Longrightarrow>
   fold index_rule rs idx ! t =
     idx ! t @ (if 0 < t then filter (\<lambda>r. unat (ru_event_type r) = t) rs else [])"
  by (induction rs arbitrary: idx) (auto simp: index_rule_def Let_def nth_list_update)

section \<open>Engines obtained by reloading\<close>

text \<open>
  Every pattern cache an engine can have is correct: those built from nothing, those inherited on a
  reload, and those left behind by a compilation that failed.
\<close>

lemma cache_inv_regex_update:
  "cache_inv env c \<Longrightarrow> env_regex_compile env p = Some r \<Longrightarrow>
   cache_inv env (c\<lparr>ch_regex := AList.update p r (ch_regex c)\<rparr>)"
  by (simp add: cache_inv_def update_conv')

lemma cache_inv_cidr_update:
  "cache_inv env c \<Longrightarrow> ParseCIDR (env_parse_ip6 env) p = Some n \<Longrightarrow>
   cache_inv env (c\<lparr>ch_cidr := AList.update p n (ch_cidr c)\<rparr>)"
  by (simp add: cache_inv_def update_conv')

lemma compile_regexes_inv: "cache_inv env c \<Longrightarrow> cache_inv env (fst (compile_regexes env ps c))"
  by (induction ps arbitrary: c) (simp_all add: cache_inv_regex_update split: option.splits)

lemma compile_cidrs_inv: "cache_inv env c \<Longrightarrow> cache_inv env (fst (compile_cidrs env ps c))"
  by (induction ps arbitrary: c) (simp_all add: cache_inv_cidr_update split: option.splits)

lemma compileCondPtr_inv:
  assumes "cache_inv env c" "cond_clean x"
  shows "cache_inv env (fst (snd (compileCondPtr env x c)))"
proof (cases "snd (snd (compileCondPtr env x c))")
  case None
  then show ?thesis using compileCondPtr_ok [OF assms] by (metis prod.collapse)
next
  case (Some e)
  then show ?thesis
    using compile_regexes_inv [OF assms(1), of "rc_values x"] compile_cidrs_inv [OF assms(1), of "rc_values x"]
    by (auto simp: compileCondPtr_def Let_def split: if_splits prod.splits option.splits)
qed

lemma compile_conds_inv:
  "cache_inv env c \<Longrightarrow> list_all cond_clean xs \<Longrightarrow> cache_inv env (fst (snd (compile_conds env xs c)))"
proof (induction xs arbitrary: c)
  case (Cons x xs)
  obtain x1 c1 e where x1: "compileCondPtr env x c = (x1, c1, e)" by (cases "compileCondPtr env x c") auto
  have "cache_inv env c1" using compileCondPtr_inv [of env c x] Cons.prems x1 by simp
  with Cons.IH [of c1] Cons.prems(2) x1 show ?case by (auto split: option.splits prod.splits)
qed simp

lemma compile_groups_inv:
  "cache_inv env c \<Longrightarrow> group_clean g \<Longrightarrow> cache_inv env (fst (snd (compileGroupPatterns env g c)))"
  "cache_inv env c \<Longrightarrow> list_all group_clean gs \<Longrightarrow> cache_inv env (fst (snd (compile_groups env gs c)))"
proof (induction env g c and env gs c rule: compileGroupPatterns_compile_groups.induct)
  case (1 env op conds subs c)
  obtain x1 c1 e where x1: "compile_conds env conds c = (x1, c1, e)" by (cases "compile_conds env conds c") auto
  have "cache_inv env c1" using compile_conds_inv [OF 1(2)] 1(3) x1 by fastforce
  with 1(1) [OF x1 [symmetric] refl] 1(3) x1 show ?case by (auto split: option.splits prod.splits)
next
  case (3 env g gs c)
  obtain x1 c1 e where x1: "compileGroupPatterns env g c = (x1, c1, e)"
    by (cases "compileGroupPatterns env g c") auto
  have "cache_inv env c1" using 3(1) [OF 3(3)] 3(4) x1 by simp
  with 3(2) [OF x1 [symmetric] refl] 3(4) x1 show ?case by (auto split: option.splits prod.splits)
qed simp

lemma compile_exceptions_inv:
  "cache_inv env c \<Longrightarrow> list_all exc_clean xs \<Longrightarrow> cache_inv env (fst (snd (compile_exceptions env xs c)))"
proof (induction xs arbitrary: c)
  case (Cons x xs)
  show ?case
  proof (cases "rx_group x")
    case None
    obtain x1 c1 e where x1: "compileCondPtr env (rx_condition x) c = (x1, c1, e)"
      by (cases "compileCondPtr env (rx_condition x) c") auto
    have "cache_inv env c1"
      using compileCondPtr_inv [of env c "rx_condition x"] Cons.prems x1 None by (simp add: exc_clean_def)
    with Cons.IH [of c1] Cons.prems(2) x1 None show ?thesis by (auto split: prod.splits)
  next
    case (Some g)
    obtain x1 c1 e where x1: "compileGroupPatterns env g c = (x1, c1, e)"
      by (cases "compileGroupPatterns env g c") auto
    have "cache_inv env c1"
      using compile_groups_inv(1) [OF Cons.prems(1), of g] Cons.prems(2) x1 Some by (simp add: exc_clean_def)
    with Cons.IH [of c1] Cons.prems(2) x1 Some show ?thesis by (auto split: prod.splits)
  qed
qed simp

lemma compile_rule_inv:
  assumes "cache_inv env c" "rule_clean r"
  shows "cache_inv env (fst (snd (compile_rule env r c)))"
proof -
  obtain d c1 e where d: "compileCondPtr env (ru_condition r) c = (d, c1, e)"
    by (cases "compileCondPtr env (ru_condition r) c") auto
  have c1: "cache_inv env c1"
    using compileCondPtr_inv [of env c "ru_condition r"] assms d by (simp add: rule_clean_def)
  define gr where "gr = (case ru_group r of None \<Rightarrow> (None, c1, [])
    | Some g \<Rightarrow> (case compileGroupPatterns env g c1 of (g', c2, e2) \<Rightarrow> (Some g', c2, opt_list e2)))"
  have c2: "cache_inv env (fst (snd gr))"
  proof (cases "ru_group r")
    case None
    with c1 show ?thesis by (simp add: gr_def)
  next
    case (Some g)
    with compile_groups_inv(1) [OF c1, of g] assms(2) show ?thesis
      by (simp add: gr_def rule_clean_def case_prod_beta)
  qed
  have "cache_inv env (fst (snd (compile_exceptions env (ru_exceptions r) (fst (snd gr)))))"
    using compile_exceptions_inv [OF c2] assms(2) by (simp add: rule_clean_def)
  then show ?thesis
    unfolding compile_rule_def d prod.case gr_def [symmetric] by (simp add: case_prod_beta)
qed

lemma compilePatterns_inv:
  "cache_inv env c \<Longrightarrow> list_all rule_clean rs \<Longrightarrow> cache_inv env (fst (snd (compilePatterns env rs c)))"
proof (induction rs arbitrary: c)
  case (Cons r rs)
  from Cons.IH [OF compile_rule_inv [OF Cons.prems(1), of r]] Cons.prems(2)
  show ?case by (simp add: case_prod_beta)
qed simp

lemma map_of_filter_keys: "map_of (filter (\<lambda>(k, _). k \<in> S) al) k = (if k \<in> S then map_of al k else None)"
  by (induction al) auto

lemma inheritCache_inv: "cache_inv env c \<Longrightarrow> cache_inv env (inheritCache c rules)"
  by (cases "collectRequiredPatterns rules") (simp add: cache_inv_def inheritCache_def map_of_filter_keys)

text \<open>
  The engines of a running agent: the first one, one built on a hot reload from the caches of the
  engine before, and one whose sampling rates the adaptive sampler changed.  Compilation errors along
  the way are allowed.
\<close>

inductive engine_reach :: "'re go_env \<Rightarrow> Rule list \<Rightarrow> 're RuleEngine \<Rightarrow> bool" for env where
  first: "list_all rule_clean rules \<Longrightarrow> engine_reach env rules (NewRuleEngine env rules)"
| reload: "engine_reach env old re \<Longrightarrow> list_all rule_clean rules \<Longrightarrow>
    engine_reach env rules (NewRuleEngineWithCache env rules (Some re))"
| engage: "engine_reach env rules re \<Longrightarrow>
    engine_reach env rules (re\<lparr>re_sampler := setAdaptiveRate i rate (re_sampler re)\<rparr>)"
| release: "engine_reach env rules re \<Longrightarrow>
    engine_reach env rules (re\<lparr>re_sampler := clearAdaptiveRate i (re_sampler re)\<rparr>)"

definition engine_ok :: "'re go_env \<Rightarrow> Rule list \<Rightarrow> 're RuleEngine \<Rightarrow> bool" where
  "engine_ok env rules re \<longleftrightarrow>
     cache_inv env (re_caches re) \<and> sampler_ok (re_sampler re) \<and>
     (re_compile_errors re = [] \<longrightarrow>
       (\<exists>rs. list_all2 (rule_ready env (re_caches re)) rules rs \<and>
         re_by_type re = snd (buildTypeIndex rs)))"

lemma new_engine_ok:
  assumes "list_all rule_clean rules" "\<And>p. prior = Some p \<Longrightarrow> cache_inv env (re_caches p)"
  shows "engine_ok env rules (NewRuleEngineWithCache env rules prior)"
proof -
  define c0 where "c0 = (case prior of
      None \<Rightarrow> \<lparr>ch_regex = [], ch_cidr = [], ch_sets = []\<rparr>
    | Some p \<Rightarrow> inheritCache (re_caches p) rules)"
  have c0: "cache_inv env c0"
    using assms(2) by (auto simp: c0_def inheritCache_inv split: option.splits) (simp add: cache_inv_def)
  obtain rs c errs where cp: "compilePatterns env rules c0 = (rs, c, errs)"
    by (cases "compilePatterns env rules c0") auto
  have "cache_inv env c" using compilePatterns_inv [OF c0 assms(1)] cp by simp
  moreover have "list_all2 (rule_ready env c) rules rs" if "errs = []"
    using compilePatterns_ok [OF c0 assms(1)] cp that by simp
  moreover have "NewRuleEngineWithCache env rules prior =
      \<lparr>re_rules = fst (buildTypeIndex rs), re_by_type = snd (buildTypeIndex rs), re_caches = c,
       re_sampler = NewRuleSampler rules, re_compile_errors = errs\<rparr>"
    by (simp add: NewRuleEngineWithCache_def c0_def [symmetric] cp case_prod_beta)
  ultimately show ?thesis by (auto simp: engine_ok_def sampler_ok_new)
qed

lemma engine_reach_ok: "engine_reach env rules re \<Longrightarrow> engine_ok env rules re"
proof (induction rule: engine_reach.induct)
  case (first rules)
  then show ?case unfolding NewRuleEngine_def by (rule new_engine_ok) simp
next
  case (reload old re rules)
  then show ?case by (intro new_engine_ok) (simp_all add: engine_ok_def)
qed (simp_all add: engine_ok_def sampler_ok_set sampler_ok_clear)

section \<open>Evaluating an event\<close>

lemma evaluate_rules_spec:
  "fst (evaluate_rules env re e rs (alerts, mlog)) =
   alerts @ map (\<lambda>(r, _). rule_alert e r)
     (filter (\<lambda>(r, d). fst (matchesTyped env re d e r) \<and> ru_action r \<noteq> ActionDrop) rs)"
proof (induction rs arbitrary: alerts mlog)
  case (Cons p rs)
  obtain r d where p: "p = (r, d)" by (cases p)
  obtain m out where m: "matchesTyped env re d e r = (m, out)" by (cases "matchesTyped env re d e r")
  show ?case by (simp add: p m Cons.IH)
qed simp

lemma filter_zip_cong:
  assumes "list_all2 R xs ys" "\<And>x y d. R x y \<Longrightarrow> P x d = Q y d" "\<And>x y. R x y \<Longrightarrow> f x = g y"
  shows "length ds = length xs \<Longrightarrow>
    map (\<lambda>(y, _). g y) (filter (\<lambda>(y, d). Q y d) (zip ys ds)) =
    map (\<lambda>(x, _). f x) (filter (\<lambda>(x, d). P x d) (zip xs ds))"
  using assms(1)
proof (induction arbitrary: ds rule: list_all2_induct)
  case (Cons x xs y ys)
  then obtain d es where "ds = d # es" "length es = length xs" by (cases ds) auto
  with Cons assms(2,3) [OF Cons(1)] show ?case by simp
qed simp

lemma list_all2_filter:
  "list_all2 R xs ys \<Longrightarrow> (\<And>x y. R x y \<Longrightarrow> P x = Q y) \<Longrightarrow> list_all2 R (filter P xs) (filter Q ys)"
  by (induction rule: list_all2_induct) auto

definition rule_installed :: "'re go_env \<Rightarrow> 're caches \<Rightarrow> Rule \<Rightarrow> Rule \<Rightarrow> bool" where
  "rule_installed env c r r' \<longleftrightarrow> (\<exists>r1. rule_ready env c r r1 \<and> r' = set_skip_sampler r1)"

lemma rule_installed_props:
  assumes "rule_installed env (re_caches re) r r'"
  shows "ru_event_type r' = ru_event_type r" "ru_action r' = ru_action r" "rule_alert e r' = rule_alert e r"
    and "cache_inv env (re_caches re) \<Longrightarrow> sampler_ok (re_sampler re) \<Longrightarrow>
      fst (matchesTyped env re d e r') \<longleftrightarrow> \<not> sampled_out env (re_sampler re) e r d \<and> rule_sat env e r"
proof -
  obtain r1 where r1: "rule_ready env (re_caches re) r r1" "r' = set_skip_sampler r1"
    using assms by (auto simp: rule_installed_def)
  show "ru_event_type r' = ru_event_type r" "ru_action r' = ru_action r" "rule_alert e r' = rule_alert e r"
    using r1 by (auto simp: rule_ready_def set_skip_sampler_def rule_alert_def)
  assume inv: "cache_inv env (re_caches re)" "sampler_ok (re_sampler re)"
  have "fst (matchesTyped env re d e r') = fst (matchesTyped env re d e r1)"
    unfolding matchesTyped_fst [OF inv(2)] r1(2)
    by (cases "ru_group r1") (simp_all add: set_skip_sampler_def sampled_out_def)
  with rule_ready_matches [OF inv r1(1)]
  show "fst (matchesTyped env re d e r') \<longleftrightarrow> \<not> sampled_out env (re_sampler re) e r d \<and> rule_sat env e r"
    by simp
qed

lemma installed_index:
  assumes "engine_ok env rules re" "re_compile_errors re = []" "t < byTypeSize"
  shows "list_all2 (rule_installed env (re_caches re))
    (if 0 < t then filter (\<lambda>r. unat (ru_event_type r) = t) rules else []) (re_by_type re ! t)"
proof -
  obtain rs where rs: "list_all2 (rule_ready env (re_caches re)) rules rs"
    "re_by_type re = snd (buildTypeIndex rs)"
    using assms(1,2) by (auto simp: engine_ok_def)
  have "list_all2 (rule_installed env (re_caches re)) rules (map set_skip_sampler rs)"
    unfolding list_all2_map2 using rs(1) by (rule list_all2_mono) (auto simp: rule_installed_def)
  then have "list_all2 (rule_installed env (re_caches re)) (filter (\<lambda>r. unat (ru_event_type r) = t) rules)
      (filter (\<lambda>r. unat (ru_event_type r) = t) (map set_skip_sampler rs))"
    by (rule list_all2_filter) (simp add: rule_installed_props(1))
  moreover have "re_by_type re ! t =
      (if 0 < t then filter (\<lambda>r. unat (ru_event_type r) = t) (map set_skip_sampler rs) else [])"
    using fold_index_rule [of "replicate byTypeSize []" t "map set_skip_sampler rs"] assms(3)
    by (simp add: rs(2) buildTypeIndex_def Let_def)
  ultimately show ?thesis by simp
qed

lemma Evaluate_reach:
  assumes "engine_reach env rules re" "re_compile_errors re = []"
  shows "fst (Evaluate env re draws e) = spec_alerts env rules (re_sampler re) draws e"
proof -
  let ?t = "unat (ev_type e)"
  have ok: "engine_ok env rules re" using assms(1) by (rule engine_reach_ok)
  show ?thesis
  proof (cases "?t < byTypeSize")
    case True
    define rs where "rs = (if 0 < ?t then filter (\<lambda>r. unat (ru_event_type r) = ?t) rules else [])"
    have inst: "list_all2 (rule_installed env (re_caches re)) rs (re_by_type re ! ?t)"
      unfolding rs_def using installed_index [OF ok assms(2) True] .
    have len: "length (re_by_type re ! ?t) = length rs" using list_all2_lengthD [OF inst] by simp
    have inv: "cache_inv env (re_caches re)" "sampler_ok (re_sampler re)"
      using ok by (simp_all add: engine_ok_def)
    have "fst (Evaluate env re draws e) = map (\<lambda>(r, _). rule_alert e r)
        (filter (\<lambda>(r, d). fst (matchesTyped env re d e r) \<and> ru_action r \<noteq> ActionDrop)
          (zip (re_by_type re ! ?t) (map draws [0..<length rs])))"
      using True by (simp add: Evaluate_def Let_def evaluate_rules_spec len)
    also have "\<dots> = map (\<lambda>(r, _). rule_alert e r)
        (filter (\<lambda>(r, d). (\<not> sampled_out env (re_sampler re) e r d \<and> rule_sat env e r) \<and> ru_action r \<noteq> ActionDrop)
          (zip rs (map draws [0..<length rs])))"
      by (rule filter_zip_cong [OF inst]) (simp_all add: rule_installed_props inv)
    also have "\<dots> = spec_alerts env rules (re_sampler re) draws e"
      using True by (simp add: spec_alerts_def rs_def Let_def word_unat_eq_iff)
    finally show ?thesis .
  qed (simp add: Evaluate_def spec_alerts_def Let_def)
qed

text \<open>
  C5 (equivalence).  The engine an agent has after any sequence of hot reloads and changes of the
  sampling rates, provided its own rules compiled without errors, raises for every event exactly the
  alerts of the reference semantics, in rule order: one per rule of the event's category that is not
  sampled out, whose condition holds, none of whose exceptions holds, and whose action is not to drop.
  Opcodes, pattern caches inherited from earlier engines, value sets and the index by category do not
  show.  (Values of set conditions must be free of NUL, the separator of the set cache's keys.)
\<close>

theorem Evaluate_implements_semantics:
  assumes "engine_reach env rules re" "re_compile_errors re = []"
  shows "fst (Evaluate env re draws e) = spec_alerts env rules (re_sampler re) draws e"
  using assms by (rule Evaluate_reach)

lemma example_rule_clean: "rule_clean example_rule"
  by (simp add: rule_clean_def cond_clean_def example_rule_def zero_condition_def)

lemma example_compiles:
  "re_compile_errors (NewRuleEngineWithCache example_env [example_rule] prior) = []"
  by (simp add: NewRuleEngineWithCache_def compile_rule_def compileCondPtr_def example_rule_def
      zero_condition_def opt_list_def case_prod_beta Let_def)

definition example_event :: event where
  "example_event = zero_event\<lparr>ev_type := EventSyscall, ev_pid := 7,
     ev_syscall := Some \<lparr>sc_nr = 59, sc_ret = 0, sc_args = []\<rparr>\<rparr>"

theorem Evaluate_implements_semantics_witness:
  "fst (Evaluate example_env
     (NewRuleEngineWithCache example_env [example_rule] (Some (NewRuleEngine example_env [])))
     (\<lambda>_. Fin 0) example_event) =
   spec_alerts example_env [example_rule]
     (re_sampler (NewRuleEngineWithCache example_env [example_rule] (Some (NewRuleEngine example_env []))))
     (\<lambda>_. Fin 0) example_event"
  by (rule Evaluate_implements_semantics)
    (auto intro!: engine_reach.reload engine_reach.first [where rules = "[]"]
      simp: example_rule_clean example_compiles)

lemma evaluate_rules_log:
  "snd (evaluate_rules env re e rs (a, mlog)) = snd (evaluate_rules env re e rs (b, mlog))"
proof (induction rs arbitrary: a b mlog)
  case (Cons p rs)
  then show ?case by (cases p) (auto simp: case_prod_beta)
qed simp

lemma evaluate_rules_into_spec:
  "evaluate_rules_into env re e fn rs (s, mlog) =
   (fold fn (map (\<lambda>(r, _). rule_alert e r)
      (filter (\<lambda>(r, d). fst (matchesTyped env re d e r) \<and> ru_action r \<noteq> ActionDrop) rs)) s,
    snd (evaluate_rules env re e rs (alerts, mlog)))"
proof (induction rs arbitrary: s alerts mlog)
  case (Cons p rs)
  obtain r d where p: "p = (r, d)" by (cases p)
  obtain m out where m: "matchesTyped env re d e r = (m, out)" by (cases "matchesTyped env re d e r")
  show ?case
    using evaluate_rules_log [of env re e rs alerts "mlog @ out" "alerts @ [rule_alert e r]"]
    by (simp add: p m Cons.IH [of _ _ alerts])
qed simp

text \<open>
  The allocation-free evaluation with a callback hands the callback exactly the
  alerts the allocating one returns, in the same order, and counts the same metrics, on every engine.
\<close>

theorem EvaluateInto_is_Evaluate:
  "EvaluateInto env re draws e fn s =
   (fold fn (fst (Evaluate env re draws e)) s, snd (Evaluate env re draws e))"
  by (simp add: EvaluateInto_def Evaluate_def Let_def evaluate_rules_into_spec [where alerts = "[]"]
      evaluate_rules_spec)

end
