(* ===== verification/Rule_Loader.thy ===== *)
theory Rule_Loader
  imports Rule_Semantics
begin

text \<open>
  Loading and validating rule sets: \<open>src/internal/correlator/rule_loader.go\<close> and
  \<open>tuning_overlay.go\<close>, and the list of system calls the loaded rules name
  (\<open>ReferencedSyscalls\<close> of \<open>rules.go\<close>).

  Files are given by their names and contents; the YAML decoder is an argument \<open>unmarshal\<close>.  Error
  texts are constructors.
\<close>

section \<open>Field tables\<close>

definition validNetworkFields :: "string list" where
  "validNetworkFields =
     [''dport'', ''sport'', ''daddr'', ''saddr'', ''proto'', ''family'', ''proc.args'', ''proc.args_truncated'',
      ''network.dport'', ''network.sport'', ''network.daddr'', ''network.saddr'', ''network.proto'',
      ''proc.comm'', ''uid'']"

definition validFileFields :: "string list" where
  "validFileFields =
     [''filename'', ''flags'', ''mode'', ''op'', ''directory'', ''extension'', ''fd.name'', ''fd.name_truncated'',
      ''proc.args'', ''proc.args_truncated'', ''file.path'', ''file.op'', ''file.flags'', ''file.mode'',
      ''file.directory'', ''file.extension'', ''proc.comm'', ''uid'']"

definition validSyscallFields :: "string list" where
  "validSyscallFields =
     [''nr'', ''ret'', ''uid'', ''comm'', ''arg0'', ''arg1'', ''arg2'', ''arg3'', ''arg4'', ''arg5'', ''fd.name'',
      ''proc.args'', ''proc.args_truncated'', ''syscall.nr'', ''syscall.ret'', ''syscall.arg0'', ''syscall.arg1'',
      ''syscall.arg2'', ''syscall.arg3'', ''syscall.arg4'', ''syscall.arg5'', ''proc.comm'']"

definition validDNSFields :: "string list" where
  "validDNSFields =
     [''qname'', ''qtype'', ''rcode'', ''direction'', ''qname_length'', ''qname_entropy'', ''qname_dga_score'',
      ''qname_digit_ratio'', ''qname_subdomain_count'', ''qname_is_dga'', ''dns.qname'', ''proc.comm'', ''comm'']"

definition validTLSFields :: "string list" where
  "validTLSFields =
     [''tls_data'', ''direction'', ''data_len'', ''data'', ''ja3'', ''ja4'', ''ja3s'', ''proc.comm'', ''comm'']"

definition validHTTPPlaintextFields :: "string list" where
  "validHTTPPlaintextFields = [''http_data'', ''direction'', ''data_len'', ''data'', ''proc.comm'', ''comm'']"

definition validPrivescFields :: "string list" where
  "validPrivescFields = [''caps'', ''uid'', ''comm'']"

definition validNetCloseFields :: "string list" where
  "validNetCloseFields = [''dport'', ''sport'', ''daddr'', ''saddr'', ''family'', ''duration_sec'', ''duration_ms'']"

definition validGPUFields :: "string list" where
  "validGPUFields = [''gpu_op'', ''gpu_size'', ''gpu_dev_ptr'', ''gpu_host_ptr'', ''comm'', ''uid'']"

definition validCgroupEscFields :: "string list" where
  "validCgroupEscFields = [''new_cgroup_id'', ''old_cgroup_id'', ''cgroup_path'', ''comm'', ''uid'']"

definition validKmodFields :: "string list" where
  "validKmodFields = [''name'', ''filename'', ''comm'', ''uid'', ''fingerprint'', ''from_tmpfs'', ''parent_comm'']"

definition validLSMAuditFields :: "string list" where
  "validLSMAuditFields = [''hook'', ''comm'', ''uid'', ''decision'']"

definition validSequenceFields :: "string list" where
  "validSequenceFields = [''pattern'', ''comm'', ''uid'']"

definition validIOUringFields :: "string list" where
  "validIOUringFields = [''op'', ''flags'', ''fd'', ''to_submit'', ''comm'', ''uid'']"

definition validCloudAuditFields :: "string list" where
  "validCloudAuditFields =
     [''cloud.provider'', ''cloud.service'', ''cloud.action'', ''cloud.principal'', ''cloud.resource'',
      ''cloud.source_ip'', ''cloud.user_agent'', ''cloud.error_code'', ''cloud.region'', ''cloud.event_id'']"

definition validBpfProgramFields :: "string list" where
  "validBpfProgramFields = [''cmd'', ''cmd_nr'', ''prog_type'', ''prog_type_nr'', ''ret'', ''uid'', ''comm'']"

definition validFieldsOf :: "event_type \<Rightarrow> string list option" where
  "validFieldsOf t =
     (if t = EventTCPConnect then Some validNetworkFields
      else if t = EventFileAccess then Some validFileFields
      else if t = EventSyscall then Some validSyscallFields
      else if t = EventDNS then Some validDNSFields
      else if t = EventTLS then Some validTLSFields
      else if t = EventPrivesc then Some validPrivescFields
      else if t = EventNetClose then Some validNetCloseFields
      else if t = EventGPU then Some validGPUFields
      else if t = EventCgroupEsc then Some validCgroupEscFields
      else if t = EventKmodLoad then Some validKmodFields
      else if t = EventLSMAudit then Some validLSMAuditFields
      else if t = EventSequence then Some validSequenceFields
      else if t = EventIOUring then Some validIOUringFields
      else if t = EventCloudAudit then Some validCloudAuditFields
      else if t = EventBPFProgram then Some validBpfProgramFields
      else if t = EventHTTPPlaintext then Some validHTTPPlaintextFields
      else None)"

section \<open>Conditions\<close>

datatype cond_error =
    FieldRequired
  | UnknownEventType event_type
  | InvalidField string event_type
  | NoPatterns
  | PatternTooLong string
  | InvalidPattern string
  | CIDRFieldOnly string
  | UnknownOperator string

definition validateFieldName :: "string \<Rightarrow> event_type \<Rightarrow> cond_error option" where
  "validateFieldName field t =
     (if field = '''' then Some FieldRequired
      else
        case validFieldsOf t of
          None \<Rightarrow> Some (UnknownEventType t)
        | Some fs \<Rightarrow> if field \<in> set fs then None else Some (InvalidField field t))"

definition maxRegexPatternLen :: nat where
  "maxRegexPatternLen = 1024"

definition first_error :: "('a \<Rightarrow> 'e option) \<Rightarrow> 'a list \<Rightarrow> 'e option" where
  "first_error f xs = (case dropWhile (\<lambda>x. f x = None) xs of [] \<Rightarrow> None | x # _ \<Rightarrow> f x)"

definition validateRegexPatterns :: "'re go_env \<Rightarrow> string list \<Rightarrow> cond_error option" where
  "validateRegexPatterns env ps =
     (if ps = [] then Some NoPatterns
      else first_error (\<lambda>p.
          if maxRegexPatternLen < length p then Some (PatternTooLong p)
          else if env_regex_compile env p = None then Some (InvalidPattern p) else None) ps)"

definition validateCIDRPatterns :: "'re go_env \<Rightarrow> string list \<Rightarrow> cond_error option" where
  "validateCIDRPatterns env cs =
     (if cs = [] then Some NoPatterns
      else first_error (\<lambda>c.
          if ParseCIDR (env_parse_ip6 env) c = None then Some (InvalidPattern c) else None) cs)"

definition validateCondition :: "'re go_env \<Rightarrow> RuleCondition \<Rightarrow> event_type \<Rightarrow> cond_error option" where
  "validateCondition env c t =
     (case validateFieldName (rc_field c) t of
        Some e \<Rightarrow> Some e
      | None \<Rightarrow>
          if rc_op c = ''regex'' then validateRegexPatterns env (rc_values c)
          else if rc_op c = ''in_cidr'' \<or> rc_op c = ''not_in_cidr'' then
            (case validateCIDRPatterns env (rc_values c) of
               Some e \<Rightarrow> Some e
             | None \<Rightarrow>
                 if rc_field c \<in> {''daddr'', ''saddr'', ''cloud.source_ip''} then None
                 else Some (CIDRFieldOnly (rc_field c)))
          else if rc_op c \<in> {''in'', ''not_in'', ''equals'', ''not_equals'', ''eq'', ''neq'', ''prefix'', ''not_prefix'',
            ''suffix'', ''not_suffix'', ''contains'', ''gt'', ''lt'', ''gte'', ''lte'', ''caps_gained'', ''caps_dropped''}
          then None
          else Some (UnknownOperator (rc_op c)))"

section \<open>Rules\<close>

definition getAllConditions :: "Rule \<Rightarrow> RuleCondition list" where
  "getAllConditions rule =
     (case ru_group rule of Some g \<Rightarrow> extractGroupConditions g | None \<Rightarrow> [ru_condition rule]) @
     concat (map (\<lambda>x. case rx_group x of Some g \<Rightarrow> extractGroupConditions g | None \<Rightarrow> [rx_condition x])
       (ru_exceptions rule))"

datatype rule_error =
    RuleIDRequired
  | RuleNameRequired
  | EventTypeRequired
  | UnknownAction string
  | UnknownClass string
  | EmptyConditionGroup
  | InvalidSamplingMode string
  | SampleRateOutOfRange f64
  | ConditionInvalid cond_error
  | ExceptionNameMissing nat
  | ExceptionGroupEmpty string

definition group_empty :: "RuleConditionGroup option \<Rightarrow> bool" where
  "group_empty g = (case g of Some (Group op cs gs) \<Rightarrow> cs = [] \<and> gs = [] | None \<Rightarrow> False)"

text \<open>The sampling block, and the flat settings without it.\<close>

definition resolve_sampling :: "Rule \<Rightarrow> rule_error + Rule" where
  "resolve_sampling rule =
     (case ru_sampling rule of
        Some s \<Rightarrow>
          let rule = (if rsm_rate s \<noteq> Fin 0 then rule\<lparr>ru_sample_rate := rsm_rate s\<rparr> else rule) in
          if rsm_mode s = SamplingModeHashPID then Inr (rule\<lparr>ru_sample_deterministic := True\<rparr>)
          else if rsm_mode s = SamplingModeRandom then Inr rule
          else if rsm_mode s = '''' then Inr (rule\<lparr>ru_sample_deterministic := True\<rparr>)
          else Inl (InvalidSamplingMode (rsm_mode s))
      | None \<Rightarrow>
          if f64_greater (ru_sample_rate rule) (Fin 0) \<and> f64_less (ru_sample_rate rule) (Fin 1)
          then Inr (rule\<lparr>ru_sample_deterministic := True\<rparr>) else Inr rule)"

fun validate_exceptions :: "nat \<Rightarrow> RuleException list \<Rightarrow> rule_error option" where
  "validate_exceptions i [] = None"
| "validate_exceptions i (x # xs) =
     (if rx_name x = '''' then Some (ExceptionNameMissing i)
      else if group_empty (rx_group x) then Some (ExceptionGroupEmpty (rx_name x))
      else validate_exceptions (Suc i) xs)"

text \<open>\<open>validateRule\<close> also fills in defaults; the result is the completed rule.  (When it fails, the
  rule set is discarded.)\<close>

definition validateRule :: "'re go_env \<Rightarrow> Rule \<Rightarrow> rule_error + Rule" where
  "validateRule env rule =
     (if ru_id rule = '''' then Inl RuleIDRequired
      else if ru_name rule = '''' then Inl RuleNameRequired
      else if ru_event_type rule = 0 then Inl EventTypeRequired
      else
        let rule = (if ru_action rule = '''' then rule\<lparr>ru_action := ActionAlert\<rparr> else rule) in
        if ru_action rule \<notin> {ActionAlert, ActionDrop, ActionBlock, ActionKill, ActionThrottle}
        then Inl (UnknownAction (ru_action rule))
        else
          let rule = (if ru_severity rule = '''' then rule\<lparr>ru_severity := SeverityWarning\<rparr> else rule) in
          if ru_class rule \<notin> {'''', ''threat'', ''drift''} then Inl (UnknownClass (ru_class rule))
          else if group_empty (ru_group rule) then Inl EmptyConditionGroup
          else
            sbind (resolve_sampling rule) (\<lambda>rule.
              let rule = (if ru_sample_rate rule = Fin 0 then rule\<lparr>ru_sample_rate := Fin 1\<rparr> else rule) in
              if f64_less (ru_sample_rate rule) (Fin 0) \<or> f64_greater (ru_sample_rate rule) (Fin 1)
              then Inl (SampleRateOutOfRange (ru_sample_rate rule))
              else
                (case first_error (\<lambda>c. validateCondition env c (ru_event_type rule)) (getAllConditions rule) of
                   Some e \<Rightarrow> Inl (ConditionInvalid e)
                 | None \<Rightarrow>
                     (case validate_exceptions 0 (ru_exceptions rule) of
                        Some e \<Rightarrow> Inl e
                      | None \<Rightarrow> Inr rule))))"

datatype set_error = RuleInvalid nat rule_error | DuplicateID string nat nat

text \<open>The loop of \<open>ValidateFull\<close>: index, IDs seen with their index, the errors and the completed rules.\<close>

fun validate_loop ::
    "'re go_env \<Rightarrow> nat \<Rightarrow> (string \<times> nat) list \<Rightarrow> Rule list \<Rightarrow> set_error list \<times> Rule list" where
  "validate_loop env i seen [] = ([], [])"
| "validate_loop env i seen (r # rs) =
     (let (errs, r') = (case validateRule env r of Inl e \<Rightarrow> ([RuleInvalid i e], r) | Inr r' \<Rightarrow> ([], r'));
          (dup, seen') =
            (if ru_id r = '''' then ([], seen)
             else case map_of seen (ru_id r) of
                    Some prev \<Rightarrow> ([DuplicateID (ru_id r) prev i], seen)
                  | None \<Rightarrow> ([], AList.update (ru_id r) i seen));
          (errs', rs') = validate_loop env (Suc i) seen' rs in
      (errs @ dup @ errs', r' # rs'))"

definition ValidateFull :: "'re go_env \<Rightarrow> Rule list \<Rightarrow> set_error list + Rule list" where
  "ValidateFull env rules =
     (case validate_loop env 0 [] rules of (errs, rs) \<Rightarrow> if errs \<noteq> [] then Inl errs else Inr rs)"

section \<open>Files\<close>

datatype load_error =
    ReadFailed string
  | UnmarshalFailed string
  | SetInvalid "set_error list"
  | ReadDirFailed
  | ChecksumFailed
  | LoadFailed string load_error

text \<open>\<open>filepath.Ext\<close>: from the last dot, if no slash follows it.\<close>

definition file_ext :: "string \<Rightarrow> string" where
  "file_ext name =
     (case last_index (CHR ''.'') name of
        None \<Rightarrow> ''''
      | Some i \<Rightarrow> let e = drop i name in if CHR ''/'' \<in> set e then '''' else e)"

definition is_yaml_name :: "string \<Rightarrow> bool" where
  "is_yaml_name name \<longleftrightarrow> to_lower (file_ext name) \<in> {''.yaml'', ''.yml''}"

definition LoadRulesFromFile ::
    "'re go_env \<Rightarrow> (string \<Rightarrow> Rule list option) \<Rightarrow> string \<Rightarrow> string option \<Rightarrow> load_error + Rule list" where
  "LoadRulesFromFile env unmarshal path data =
     (case data of
        None \<Rightarrow> Inl (ReadFailed path)
      | Some text \<Rightarrow>
          (case unmarshal text of
             None \<Rightarrow> Inl (UnmarshalFailed path)
           | Some rules \<Rightarrow>
               (case ValidateFull env rules of Inl es \<Rightarrow> Inl (SetInvalid es) | Inr rs \<Rightarrow> Inr rs)))"

text \<open>A directory entry: name, whether it is a directory, and the content if it can be read.\<close>

type_synonym dir_entry = "string \<times> bool \<times> string option"

fun load_entries ::
    "'re go_env \<Rightarrow> (string \<Rightarrow> Rule list option) \<Rightarrow> dir_entry list \<Rightarrow> Rule list \<Rightarrow> load_error + Rule list" where
  "load_entries env unmarshal [] allRules = Inr allRules"
| "load_entries env unmarshal ((name, isDir, data) # es) allRules =
     (if isDir then load_entries env unmarshal es allRules
      else if \<not> is_yaml_name name then load_entries env unmarshal es allRules
      else
        case LoadRulesFromFile env unmarshal name data of
          Inl e \<Rightarrow> Inl (LoadFailed name e)
        | Inr rules \<Rightarrow> load_entries env unmarshal es (allRules @ rules))"

text \<open>\<open>verified\<close> is the outcome of \<open>VerifyRuleChecksums\<close> on the directory.\<close>

definition LoadRulesFromDirWithChecksums ::
    "'re go_env \<Rightarrow> (string \<Rightarrow> Rule list option) \<Rightarrow> bool \<Rightarrow> bool \<Rightarrow> dir_entry list option \<Rightarrow>
     load_error + Rule list" where
  "LoadRulesFromDirWithChecksums env unmarshal verifyChecksums verified entries =
     (if verifyChecksums \<and> \<not> verified then Inl ChecksumFailed
      else case entries of None \<Rightarrow> Inl ReadDirFailed | Some es \<Rightarrow> load_entries env unmarshal es [])"

definition LoadRulesFromDir ::
    "'re go_env \<Rightarrow> (string \<Rightarrow> Rule list option) \<Rightarrow> dir_entry list option \<Rightarrow> load_error + Rule list" where
  "LoadRulesFromDir env unmarshal entries = LoadRulesFromDirWithChecksums env unmarshal False True entries"

fun embedded_rules ::
    "(string \<Rightarrow> Rule list option) \<Rightarrow> (string \<times> string) list \<Rightarrow> Rule list \<Rightarrow> load_error + Rule list" where
  "embedded_rules unmarshal [] allRules = Inr allRules"
| "embedded_rules unmarshal ((name, data) # fs) allRules =
     (if \<not> is_yaml_name name then embedded_rules unmarshal fs allRules
      else
        case unmarshal data of
          None \<Rightarrow> Inl (UnmarshalFailed name)
        | Some rules \<Rightarrow> embedded_rules unmarshal fs (allRules @ rules))"

definition LoadRulesFromEmbedded ::
    "'re go_env \<Rightarrow> (string \<Rightarrow> Rule list option) \<Rightarrow> (string \<times> string) list \<Rightarrow> load_error + Rule list" where
  "LoadRulesFromEmbedded env unmarshal files =
     sbind (embedded_rules unmarshal files []) (\<lambda>allRules.
       case ValidateFull env allRules of Inl es \<Rightarrow> Inl (SetInvalid es) | Inr rs \<Rightarrow> Inr rs)"

section \<open>The tuning overlay\<close>

record RuleTuningOverlay =
  to_rule_id :: string
  to_exceptions :: "RuleException list"

datatype overlay_error =
    OverlayReadFailed
  | OverlayUnmarshalFailed
  | OverlayRuleIDMissing nat
  | OverlayNoExceptions string
  | OverlayExceptionInvalid string rule_error
  | OverlayConditionInvalid string string cond_error

fun validate_overlays :: "nat \<Rightarrow> RuleTuningOverlay list \<Rightarrow> overlay_error option" where
  "validate_overlays i [] = None"
| "validate_overlays i (ov # os) =
     (if to_rule_id ov = '''' then Some (OverlayRuleIDMissing i)
      else if to_exceptions ov = [] then Some (OverlayNoExceptions (to_rule_id ov))
      else
        case validate_exceptions 0 (to_exceptions ov) of
          Some e \<Rightarrow> Some (OverlayExceptionInvalid (to_rule_id ov) e)
        | None \<Rightarrow> validate_overlays (Suc i) os)"

text \<open>The file may be absent, unreadable, or hold some text.\<close>

datatype file_state = Absent | Unreadable | Holds string

definition LoadTuningOverlay ::
    "(string \<Rightarrow> RuleTuningOverlay list option) \<Rightarrow> string \<Rightarrow> file_state \<Rightarrow>
     overlay_error + RuleTuningOverlay list option" where
  "LoadTuningOverlay unmarshal path file =
     (if path = '''' then Inr None
      else
        case file of
          Absent \<Rightarrow> Inr None
        | Unreadable \<Rightarrow> Inl OverlayReadFailed
        | Holds text \<Rightarrow>
            (case unmarshal text of
               None \<Rightarrow> Inl OverlayUnmarshalFailed
             | Some os \<Rightarrow>
                 (case validate_overlays 0 os of Some e \<Rightarrow> Inl e | None \<Rightarrow> Inr (Some os))))"

definition validate_overlay_exception ::
    "'re go_env \<Rightarrow> Rule \<Rightarrow> RuleException \<Rightarrow> (string \<times> cond_error) option" where
  "validate_overlay_exception env rule x =
     map_option (\<lambda>e. (rx_name x, e))
       (first_error (\<lambda>c. validateCondition env c (ru_event_type rule))
         (case rx_group x of Some g \<Rightarrow> extractGroupConditions g | None \<Rightarrow> [rx_condition x]))"

text \<open>\<open>byID\<close> maps an ID to the index of the last rule that has it.\<close>

definition rule_index :: "Rule list \<Rightarrow> string \<Rightarrow> nat option" where
  "rule_index rules i = map_of (rev (zip (map ru_id rules) [0..<length rules])) i"

fun apply_overlays ::
    "'re go_env \<Rightarrow> (string \<Rightarrow> nat option) \<Rightarrow> RuleTuningOverlay list \<Rightarrow> Rule list \<Rightarrow> string list \<Rightarrow>
     overlay_error + (Rule list \<times> string list)" where
  "apply_overlays env byID [] rules unknown = Inr (rules, unknown)"
| "apply_overlays env byID (ov # os) rules unknown =
     (case byID (to_rule_id ov) of
        None \<Rightarrow> apply_overlays env byID os rules (unknown @ [to_rule_id ov])
      | Some idx \<Rightarrow>
          let rule = rules ! idx in
          (case first_error (validate_overlay_exception env rule) (to_exceptions ov) of
             Some (nm, e) \<Rightarrow> Inl (OverlayConditionInvalid (to_rule_id ov) nm e)
           | None \<Rightarrow>
               apply_overlays env byID os
                 (rules[idx := rule\<lparr>ru_exceptions := ru_exceptions rule @ to_exceptions ov\<rparr>]) unknown))"

definition ApplyTuningOverlay ::
    "'re go_env \<Rightarrow> RuleTuningOverlay list option \<Rightarrow> Rule list \<Rightarrow> overlay_error + (Rule list \<times> string list)" where
  "ApplyTuningOverlay env overlay rules =
     (case overlay of
        None \<Rightarrow> Inr (rules, [])
      | Some os \<Rightarrow> if os = [] then Inr (rules, []) else apply_overlays env (rule_index rules) os rules [])"

section \<open>System calls the rules name\<close>

definition unicode_IsSpace :: "nat \<Rightarrow> bool" where
  "unicode_IsSpace r \<longleftrightarrow>
     9 \<le> r \<and> r \<le> 13 \<or> r = 32 \<or> r = 0x85 \<or> r = 0xA0 \<or> r = 0x1680 \<or> 0x2000 \<le> r \<and> r \<le> 0x200A \<or>
     r = 0x2028 \<or> r = 0x2029 \<or> r = 0x202F \<or> r = 0x205F \<or> r = 0x3000"

text \<open>\<open>strconv.ParseInt\<close> in base 10, on the runes of the trimmed text.\<close>

definition trim_runes :: "nat list \<Rightarrow> nat list" where
  "trim_runes rs = rev (dropWhile unicode_IsSpace (rev (dropWhile unicode_IsSpace rs)))"

definition digits_val :: "nat list \<Rightarrow> int option" where
  "digits_val ds =
     (if ds \<noteq> [] \<and> list_all (\<lambda>d. 48 \<le> d \<and> d \<le> 57) ds
      then Some (foldl (\<lambda>a d. a * 10 + int (d - 48)) 0 ds) else None)"

definition parse_int64 :: "nat list \<Rightarrow> int option" where
  "parse_int64 rs =
     (let (neg, ds) = (case rs of [] \<Rightarrow> (False, []) | r # t \<Rightarrow> if r = 45 then (True, t) else if r = 43 then (False, t) else (False, rs)) in
      case digits_val ds of
        None \<Rightarrow> None
      | Some v \<Rightarrow>
          if \<not> neg \<and> 2 ^ 63 \<le> v then None
          else if neg \<and> 2 ^ 63 < v then None
          else Some (if neg then - v else v))"

definition engine_getAllConditions :: "Rule \<Rightarrow> RuleCondition list" where
  "engine_getAllConditions rule =
     (case ru_group rule of Some g \<Rightarrow> extractGroupConditions g | None \<Rightarrow> [ru_condition rule])"

definition defaultMonitoredSyscallsU32 :: "nat list" where
  "defaultMonitoredSyscallsU32 = [59, 322, 101, 126, 308, 272, 319, 165, 166, 155, 161, 311, 310, 241, 321]"

definition value_syscall :: "string \<Rightarrow> nat list" where
  "value_syscall v =
     (case parse_int64 (trim_runes (runes v)) of
        Some n \<Rightarrow> if n < 0 \<or> 512 \<le> n then [] else [nat n]
      | None \<Rightarrow> [])"

definition cond_syscalls :: "RuleCondition \<Rightarrow> nat list" where
  "cond_syscalls c =
     (if rc_field c \<noteq> ''nr'' then []
      else if rc_op c \<noteq> ''equals'' \<and> rc_op c \<noteq> ''in'' then []
      else concat (map value_syscall (rc_values c)))"

definition ReferencedSyscalls :: "Rule list \<Rightarrow> nat list" where
  "ReferencedSyscalls rules =
     sort (remdups
       (concat (map (\<lambda>r. if ru_event_type r \<noteq> EventSyscall then []
                         else concat (map cond_syscalls (engine_getAllConditions r))) rules) @
        defaultMonitoredSyscallsU32))"

section \<open>Validated rules compile\<close>

lemma first_error_None: "first_error f xs = None \<longleftrightarrow> (\<forall>x \<in> set xs. f x = None)"
  by (induction xs) (auto simp: first_error_def)













lemma resolve_sampling_keeps:
  "resolve_sampling r = Inr r' \<Longrightarrow> ru_id r' = ru_id r \<and> ru_group r' = ru_group r \<and>
   ru_condition r' = ru_condition r \<and> ru_exceptions r' = ru_exceptions r"
  by (auto simp: resolve_sampling_def Let_def split: option.splits if_splits)

lemma validateRule_ok:
  assumes "validateRule env r = Inr r'"
  shows "ru_id r' = ru_id r" "ru_id r \<noteq> ''''" "ru_group r' = ru_group r" "ru_condition r' = ru_condition r"
    "ru_exceptions r' = ru_exceptions r"
    "\<forall>c \<in> set (getAllConditions r'). validateCondition env c (ru_event_type r') = None"
    "\<not> f64_less (ru_sample_rate r') (Fin 0)" "\<not> f64_greater (ru_sample_rate r') (Fin 1)"
    "ru_sample_rate r' \<noteq> Fin 0"
proof -
  define r1 where "r1 = (if ru_action r = '''' then r\<lparr>ru_action := ActionAlert\<rparr> else r)"
  define r2 where "r2 = (if ru_severity r1 = '''' then r1\<lparr>ru_severity := SeverityWarning\<rparr> else r1)"
  have r2: "ru_id r2 = ru_id r" "ru_group r2 = ru_group r" "ru_condition r2 = ru_condition r"
    "ru_exceptions r2 = ru_exceptions r"
    by (simp_all add: r1_def r2_def)
  from assms obtain r3 where r3: "resolve_sampling r2 = Inr r3" "ru_id r \<noteq> ''''"
    and last: "(let rule = (if ru_sample_rate r3 = Fin 0 then r3\<lparr>ru_sample_rate := Fin 1\<rparr> else r3) in
              if f64_less (ru_sample_rate rule) (Fin 0) \<or> f64_greater (ru_sample_rate rule) (Fin 1)
              then Inl (SampleRateOutOfRange (ru_sample_rate rule))
              else
                (case first_error (\<lambda>c. validateCondition env c (ru_event_type rule)) (getAllConditions rule) of
                   Some e \<Rightarrow> Inl (ConditionInvalid e)
                 | None \<Rightarrow> (case validate_exceptions 0 (ru_exceptions rule) of Some e \<Rightarrow> Inl e | None \<Rightarrow> Inr rule))) =
      Inr r'"
    unfolding validateRule_def Let_def r1_def [symmetric] r2_def [symmetric]
    by (auto simp: sbind_eq_Inr split: if_splits)
  define r4 where "r4 = (if ru_sample_rate r3 = Fin 0 then r3\<lparr>ru_sample_rate := Fin 1\<rparr> else r3)"
  have r4: "r' = r4" "\<not> f64_less (ru_sample_rate r4) (Fin 0)" "\<not> f64_greater (ru_sample_rate r4) (Fin 1)"
    "first_error (\<lambda>c. validateCondition env c (ru_event_type r4)) (getAllConditions r4) = None"
    using last unfolding Let_def r4_def [symmetric] by (auto split: if_splits option.splits)
  have "ru_id r4 = ru_id r2" "ru_group r4 = ru_group r2" "ru_condition r4 = ru_condition r2"
    "ru_exceptions r4 = ru_exceptions r2"
    using resolve_sampling_keeps [OF r3(1)] by (simp_all add: r4_def)
  moreover have "ru_sample_rate r4 \<noteq> Fin 0" by (simp add: r4_def)
  ultimately show "ru_id r' = ru_id r" "ru_id r \<noteq> ''''" "ru_group r' = ru_group r"
    "ru_condition r' = ru_condition r" "ru_exceptions r' = ru_exceptions r"
    "\<forall>c \<in> set (getAllConditions r'). validateCondition env c (ru_event_type r') = None"
    "\<not> f64_less (ru_sample_rate r') (Fin 0)" "\<not> f64_greater (ru_sample_rate r') (Fin 1)"
    "ru_sample_rate r' \<noteq> Fin 0"
    using r2 r3(2) r4 by (simp_all add: first_error_None)
qed

lemma validate_loop_ok:
  "validate_loop env i seen rs = ([], rs') \<Longrightarrow>
   list_all2 (\<lambda>r r'. validateRule env r = Inr r') rs rs' \<and> distinct (map ru_id rs) \<and>
   (\<forall>r \<in> set rs. map_of seen (ru_id r) = None)"
proof (induction rs arbitrary: i seen rs')
  case (Cons r rs)
  from Cons.prems obtain r1 where r1: "validateRule env r = Inr r1"
    by (auto simp: Let_def split: sum.splits prod.splits)
  then have id: "ru_id r \<noteq> ''''" using validateRule_ok(2) by blast
  with Cons.prems have new: "map_of seen (ru_id r) = None"
    by (auto simp: Let_def split: option.splits prod.splits)
  obtain rs1 where rest: "validate_loop env (Suc i) (AList.update (ru_id r) i seen) rs = ([], rs1)"
    "rs' = r1 # rs1"
    using Cons.prems r1 id new by (auto simp: Let_def split: prod.splits)
  from Cons.IH [OF rest(1)] new rest(2) r1 show ?case
    by (auto simp: update_conv' split: if_splits)
qed simp

lemma ValidateFull_ok:
  assumes "ValidateFull env rules = Inr rs"
  shows "list_all2 (\<lambda>r r'. validateRule env r = Inr r') rules rs" "distinct (map ru_id rs)"
proof -
  obtain rs' where l: "validate_loop env 0 [] rules = ([], rs)"
    using assms by (auto simp: ValidateFull_def split: prod.splits if_splits)
  show a: "list_all2 (\<lambda>r r'. validateRule env r = Inr r') rules rs"
    using validate_loop_ok [OF l] by simp
  have "map ru_id rs = map ru_id rules"
    using a by (induction rule: list_all2_induct) (auto dest: validateRule_ok(1))
  with validate_loop_ok [OF l] show "distinct (map ru_id rs)" by simp
qed






text \<open>
  The condition on grouped rules is needed: the condition of a rule with a group is never evaluated and not
  validated, but it is compiled, and a pattern in it that does not compile is a compile error of a set that passed
  validation.
\<close>

definition unused_condition_rule :: Rule where
  "unused_condition_rule = example_rule\<lparr>ru_group := Some (Group ''and'' [ru_condition example_rule] []),
     ru_condition := zero_condition\<lparr>rc_op := ''regex'', rc_values := [''('']\<rparr>\<rparr>"

theorem validated_rule_fails_to_compile:
  "ValidateFull example_env [unused_condition_rule] = Inr [unused_condition_rule] \<and>
   re_compile_errors (NewRuleEngine example_env [unused_condition_rule]) \<noteq> []"
proof
  show "ValidateFull example_env [unused_condition_rule] = Inr [unused_condition_rule]"
    by (simp add: ValidateFull_def validateRule_def unused_condition_rule_def example_rule_def zero_condition_def group_empty_def
        resolve_sampling_def getAllConditions_def first_error_def validateCondition_def validateFieldName_def
        validFieldsOf_def validSyscallFields_def Let_def)
  show "re_compile_errors (NewRuleEngine example_env [unused_condition_rule]) \<noteq> []"
    by (simp add: NewRuleEngine_def NewRuleEngineWithCache_def compile_rule_def compileCondPtr_def unused_condition_rule_def zero_condition_def
        example_env_def Let_def case_prod_beta)
qed

section \<open>Accepted rules that cannot fire\<close>

lemma sampler_entry:
  "distinct (map ru_id rules) \<Longrightarrow> r \<in> set rules \<Longrightarrow> \<not> rate_is_full (ru_sample_rate r) \<Longrightarrow>
   map_of (fold sampler_add_rule rules es) (ru_id r) =
     Some \<lparr>se_base = ru_sample_rate r, se_adaptive = Fin 0,
       se_mode = (if ru_sample_deterministic r then SamplingModeHashPID else SamplingModeRandom)\<rparr>"
proof (induction rules arbitrary: es)
  case (Cons x rules)
  show ?case
  proof (cases "r = x")
    case True
    have other: "ru_id x \<notin> set (map ru_id rs) \<Longrightarrow>
      map_of (fold sampler_add_rule rs es') (ru_id x) = map_of es' (ru_id x)" for rs es'
      by (induction rs arbitrary: es') (auto simp: sampler_add_rule_def update_conv')
    from True Cons.prems show ?thesis
      using other [of rules "sampler_add_rule x es"] by (simp add: sampler_add_rule_def [of x])
  next
    case False
    with Cons show ?thesis by simp
  qed
qed simp

lemma NaN_never_samples: "\<not> shouldSample pid ts NaN det draw"
  by (cases draw) (simp_all add: shouldSample_def Let_def)

text \<open>
  A rule whose sample rate is not a number passes validation and never raises an alert:
  the range check rejects what is below 0 or above 1, and every comparison with NaN is false.
\<close>

theorem NaN_rate_silences_rule:
  assumes "ValidateFull env rules = Inr rs" "r \<in> set rs" "ru_sample_rate r = NaN"
  shows "sampled_out env (NewRuleSampler rs) e r draw"
proof -
  have "map_of (sm_entries (NewRuleSampler rs)) (ru_id r) =
      Some \<lparr>se_base = NaN, se_adaptive = Fin 0,
        se_mode = (if ru_sample_deterministic r then SamplingModeHashPID else SamplingModeRandom)\<rparr>"
    using sampler_entry [OF ValidateFull_ok(2) [OF assms(1)] assms(2)] assms(3)
    by (simp add: NewRuleSampler_def rate_is_full_def Let_def)
  then show ?thesis
    by (simp add: sampled_out_def CheckSampling_def entry_effective_def rate_is_full_def
        NaN_never_samples Let_def)
qed

definition NaN_rule :: Rule where
  "NaN_rule = example_rule\<lparr>ru_sample_rate := NaN\<rparr>"

theorem NaN_rate_silences_rule_witness:
  "sampled_out example_env (NewRuleSampler [NaN_rule]) example_event NaN_rule (Fin 0)"
proof (rule NaN_rate_silences_rule)
  show "ValidateFull example_env [NaN_rule] = Inr [NaN_rule]"
    by (simp add: ValidateFull_def validateRule_def NaN_rule_def example_rule_def zero_condition_def
        group_empty_def resolve_sampling_def getAllConditions_def first_error_def validateCondition_def
        validateFieldName_def validFieldsOf_def validSyscallFields_def Let_def)
qed (simp_all add: NaN_rule_def)

text \<open>Fields the validator accepts and the field reader does not know.\<close>

definition dead_fields :: "(event_type \<times> string) list" where
  "dead_fields =
     [(EventDNS, ''comm''), (EventDNS, ''proc.comm''), (EventTLS, ''comm''), (EventTLS, ''proc.comm'')] @
     map (Pair EventCgroupEsc) validCgroupEscFields @ map (Pair EventLSMAudit) validLSMAuditFields @
     map (Pair EventSequence) validSequenceFields"

lemma dead_fields_valid: "list_all (\<lambda>(t, f). validateFieldName f t = None) dead_fields"
  by code_simp

lemma normalise_comm: "normaliseFieldName ''comm'' = ''comm''" "normaliseFieldName ''proc.comm'' = ''comm''"
  by (simp_all add: normaliseFieldName_def field_aliases_def)

lemma unread_categories:
  "ev_type e \<in> {EventCgroupEsc, EventLSMAudit, EventSequence} \<Longrightarrow> getFieldValue env e f an = fieldNotFound"
  by (elim insertE) (simp_all add: getFieldValue_def)

lemma unread_comm:
  assumes "ev_type e \<in> {EventDNS, EventTLS}" "f \<in> {''comm'', ''proc.comm''}"
  shows "getFieldValue env e f an \<in> {fieldNotFound, ''''}"
proof -
  have n: "normaliseFieldName f = ''comm''" using assms(2) normalise_comm by auto
  have "field_dns env d an ''comm'' = fieldNotFound" "field_tls t ''comm'' = fieldNotFound" for d t
    by (simp_all add: field_dns_def field_tls_def)
  with assms(1) n show ?thesis
    by (cases "ev_dns e"; cases "ev_tls e") (auto simp: getFieldValue_def payload_field_def)
qed

lemma dead_fields_unread:
  assumes "(t, f) \<in> set dead_fields" "ev_type e = t"
  shows "getFieldValue env e f an \<in> {fieldNotFound, ''''}"
proof (cases "t \<in> {EventCgroupEsc, EventLSMAudit, EventSequence}")
  case True
  with assms(2) unread_categories show ?thesis by blast
next
  case False
  with assms(1) have "t \<in> {EventDNS, EventTLS}" "f \<in> {''comm'', ''proc.comm''}"
    by (auto simp: dead_fields_def)
  with assms(2) show ?thesis by (intro unread_comm) simp_all
qed

text \<open>
  The validator accepts fields no event can match: a process name on DNS and TLS events,
  and every field of cgroup-escape, LSM-audit and sequence events.  A condition on such a field that
  compares with values (any operator but \<open>equals\<close>, \<open>not_equals\<close> and \<open>not_in\<close> and the capability ones)
  is false on every event.
\<close>

theorem accepted_fields_never_match:
  assumes "(t, f) \<in> set dead_fields" "ev_type e = t" "rc_field c = f"
    and "opCodeOf (rc_op c) \<notin> {condOpEquals, condOpNotEquals, condOpNotIn, condOpCapsGained, condOpCapsDropped}"
  shows "validateFieldName f t = None \<and> \<not> cond_sat env e an c"
proof
  show "validateFieldName f t = None"
    using dead_fields_valid assms(1) by (auto simp: list_all_iff)
  have "getFieldValue env e (rc_field c) an = fieldNotFound \<or> getFieldValue env e (rc_field c) an = ''''"
    using dead_fields_unread [OF assms(1,2), of env an] assms(3) by blast
  then show "\<not> cond_sat env e an c"
    using assms(4) by (elim disjE) (simp_all add: cond_sat_def fieldNotFound_def)
qed

theorem accepted_fields_never_match_witness:
  "validateFieldName ''comm'' EventDNS = None \<and>
   \<not> cond_sat example_env (zero_event\<lparr>ev_type := EventDNS, ev_comm := bytes_of_string ''curl''\<rparr>) None
      (zero_condition\<lparr>rc_field := ''comm'', rc_op := ''in'', rc_values := [''curl'']\<rparr>)"
  by (rule accepted_fields_never_match)
    (simp_all add: dead_fields_def opCodeOf_def)

definition open_rule :: Rule where
  "open_rule = example_rule\<lparr>ru_group := Some (Group ''or'' [] [Group ''and'' [] []])\<rparr>"

text \<open>
  An empty condition group is rejected only at the top: a rule whose group holds an empty
  subgroup is accepted, and under \<open>or\<close> it fires on every event of its category.
\<close>

theorem nested_empty_group_matches_everything:
  "ValidateFull env [open_rule] = Inr [open_rule] \<and> rule_sat env e open_rule"
  by (simp add: ValidateFull_def validateRule_def open_rule_def example_rule_def zero_condition_def
      group_empty_def resolve_sampling_def getAllConditions_def first_error_def rule_sat_def
      either_sat_def to_lower_def lower_char_def Let_def)

section \<open>System call filter\<close>

lemma runes_ascii: "is_ascii s \<Longrightarrow> runes s = map of_char s"
  by (induction s) (simp_all add: is_ascii_def runes_def rune_at_def)

lemma foldl_digits:
  "list_all is_digit s \<Longrightarrow>
   foldl (\<lambda>a d. a * 10 + int (d - 48)) (int a) (map of_char s) = int (text_val 10 a s)"
proof (induction s arbitrary: a)
  case (Cons c s)
  have d: "digit_val c = of_char c - 48"
    using Cons.prems by (simp add: is_digit_def digit_val_def Let_def)
  have "int a * 10 + int (of_char c - 48) = int (10 * a + digit_val c)"
    by (simp only: d of_nat_add of_nat_mult of_nat_numeral mult.commute)
  with Cons show ?case by (simp del: of_nat_add of_nat_mult)
qed simp

lemma parse_digits:
  assumes "list_all is_digit s" "s \<noteq> []" "text_val 10 0 s < 2 ^ 63"
  shows "parse_int64 (trim_runes (runes s)) = Some (int (text_val 10 0 s))"
proof -
  have d: "48 \<le> (of_char c :: nat) \<and> of_char c \<le> (57 :: nat)" if "c \<in> set s" for c
    using assms(1) that by (auto simp: list_all_iff is_digit_def Let_def)
  have "is_ascii s" using d by (fastforce simp: is_ascii_def list_all_iff)
  then have r: "runes s = map of_char s" by (rule runes_ascii)
  have sp: "\<not> unicode_IsSpace (of_char c)" if "c \<in> set s" for c
    using d [OF that] by (auto simp: unicode_IsSpace_def)
  have "dropWhile unicode_IsSpace (map of_char s) = map of_char s"
    using assms(2) sp by (cases s) auto
  moreover have "dropWhile unicode_IsSpace (rev (map of_char s)) = rev (map of_char s)"
    using assms(2) sp by (cases s rule: rev_cases) auto
  ultimately have t: "trim_runes (runes s) = map of_char s" by (simp add: trim_runes_def r)
  have v: "digits_val (map of_char s) = Some (int (text_val 10 0 s))"
    using foldl_digits [OF assms(1), of 0] assms(2) d by (simp add: digits_val_def list_all_iff)
  obtain c cs where s: "s = c # cs" using assms(2) by (cases s) auto
  have "(of_char c :: nat) \<noteq> 45" "(of_char c :: nat) \<noteq> 43" using d [of c] s by auto
  then show ?thesis using t v assms(3) by (simp add: parse_int64_def s)
qed

lemma parse_syscall_text:
  assumes "n < 512"
  shows "parse_int64 (trim_runes (runes (dec_nat n))) = Some (int n)"
proof -
  have "text_val 10 0 (dec_nat n) = n" by (simp add: dec_nat_def text_val_nat_text)
  with parse_digits [of "dec_nat n"] assms show ?thesis
    using nat_text_digits [of 10 n] by (simp add: dec_nat_def)
qed

lemma nth_syscallNrStrings: "n < 512 \<Longrightarrow> syscallNrStrings ! n = dec_nat n"
  unfolding syscallNrStrings_def by (simp only: nth_map length_upt nth_upt diff_zero add_0)

lemma normalise_nr: "normaliseFieldName ''nr'' = ''nr''" "normaliseFieldName ''syscall.nr'' = ''nr''"
  by (simp_all add: normaliseFieldName_def field_aliases_def)

lemma nr_field:
  assumes "ev_type e = EventSyscall" "ev_syscall e = Some s" "sint (sc_nr s) = int n" "n < 512"
    and "f = ''nr'' \<or> f = ''syscall.nr''"
  shows "getFieldValue env e f an = dec_nat n"
proof -
  have f: "normaliseFieldName f = ''nr''" using assms(5) normalise_nr by metis
  have "getFieldValue env e f an = field_syscall e s ''nr''"
    unfolding getFieldValue_def f by (simp add: assms(1,2) payload_field_def)
  also have "\<dots> = syscallNrStrings ! n" using assms(3,4) by (simp add: field_syscall_def)
  finally show ?thesis by (simp only: nth_syscallNrStrings [OF assms(4)])
qed

lemma dec_nat_not_sentinel: "dec_nat n \<noteq> fieldNotFound"
  using dec_nat_digits [of "CHR 0x00" n] minus_not_digit(3) by (auto simp: fieldNotFound_def)

lemma dec_nat_texts: "dec_nat 59 = ''59''" "dec_nat 87 = ''87''"
  by (simp_all add: dec_nat_def nat_text.simps [of 10 59] nat_text.simps [of 10 5] nat_text.simps [of 10 87]
      nat_text.simps [of 10 8] digit_char_def char_of_def bit_0)

lemma nr_cond_sat:
  assumes "ev_type e = EventSyscall" "ev_syscall e = Some s" "sint (sc_nr s) = int n" "n < 512"
    and "rc_field c = ''nr'' \<or> rc_field c = ''syscall.nr''" "rc_op c \<in> {''equals'', ''in''}"
  shows "cond_sat env e an c \<Longrightarrow> dec_nat n \<in> set (rc_values c)"
proof -
  have "getFieldValue env e (rc_field c) an = dec_nat n" using assms by (intro nr_field)
  moreover have "opCodeOf (rc_op c) = condOpEquals \<or> opCodeOf (rc_op c) = condOpIn"
    using assms(6) by (auto simp: opCodeOf_def)
  ultimately show "cond_sat env e an c \<Longrightarrow> dec_nat n \<in> set (rc_values c)"
    by (elim disjE) (auto simp: cond_sat_def Let_def split: if_splits)
qed

text \<open>
  C25 (safety).  The kernel-side filter lets through what a condition on the field \<open>nr\<close> waits for: if
  such a condition of a system-call rule, with operator \<open>equals\<close> or \<open>in\<close>, is satisfied by an event,
  the event's system call number is in the list handed to the filter.
\<close>

theorem ReferencedSyscalls_covers_nr:
  assumes "r \<in> set rules" "ru_event_type r = EventSyscall" "c \<in> set (engine_getAllConditions r)"
    and "rc_field c = ''nr''" "rc_op c \<in> {''equals'', ''in''}"
    and "ev_type e = EventSyscall" "ev_syscall e = Some s" "sint (sc_nr s) = int n" "n < 512"
    and "cond_sat env e an c"
  shows "n \<in> set (ReferencedSyscalls rules)"
proof -
  have "dec_nat n \<in> set (rc_values c)"
    using assms by (intro nr_cond_sat [of e s n c env an]) auto
  then have "n \<in> set (cond_syscalls c)"
    using assms(4,5,9)
    by (auto simp: cond_syscalls_def value_syscall_def [of "dec_nat n"] parse_syscall_text
        intro!: bexI [of _ "dec_nat n"])
  then have "n \<in> set (concat (map cond_syscalls (engine_getAllConditions r)))"
    using assms(3) by auto
  with assms(1,2) show ?thesis
    by (auto simp: ReferencedSyscalls_def intro!: bexI [of _ r])
qed

theorem ReferencedSyscalls_covers_nr_witness: "59 \<in> set (ReferencedSyscalls [example_rule])"
proof (rule ReferencedSyscalls_covers_nr [of example_rule _ "ru_condition example_rule" example_event
      "\<lparr>sc_nr = 59, sc_ret = 0, sc_args = []\<rparr>" _ example_env None])
  show "cond_sat example_env example_event None (ru_condition example_rule)"
    using nr_field [of example_event "\<lparr>sc_nr = 59, sc_ret = 0, sc_args = []\<rparr>" 59 "''nr''" example_env None]
    by (simp add: cond_sat_def example_event_def example_rule_def zero_condition_def opCodeOf_def
        dec_nat_not_sentinel dec_nat_texts) (simp add: fieldNotFound_def)
qed (simp_all add: example_rule_def example_event_def engine_getAllConditions_def zero_condition_def)

definition alias_rule :: Rule where
  "alias_rule = example_rule\<lparr>ru_condition := zero_condition
     \<lparr>rc_field := ''syscall.nr'', rc_op := ''in'', rc_values := [''87'']\<rparr>\<rparr>"

definition alias_event :: event where
  "alias_event = zero_event\<lparr>ev_type := EventSyscall,
     ev_syscall := Some \<lparr>sc_nr = 87, sc_ret = 0, sc_args = []\<rparr>\<rparr>"

text \<open>
  Conditions under the documented alias \<open>syscall.nr\<close>, which the validator accepts and the
  rule engine reads, are not seen by that list: here is a validated rule that an \<open>unlink\<close> event
  satisfies while its number is missing from the filter, so that the kernel side never sends it.
\<close>

theorem ReferencedSyscalls_misses_alias:
  "ValidateFull env [alias_rule] = Inr [alias_rule] \<and> rule_sat env alias_event alias_rule \<and>
   87 \<notin> set (ReferencedSyscalls [alias_rule])"
proof (intro conjI)
  show "ValidateFull env [alias_rule] = Inr [alias_rule]"
    by (simp add: ValidateFull_def validateRule_def alias_rule_def example_rule_def zero_condition_def
        group_empty_def resolve_sampling_def getAllConditions_def first_error_def validateCondition_def
        validateFieldName_def validFieldsOf_def validSyscallFields_def Let_def)
  have v: "getFieldValue env alias_event ''syscall.nr'' an = dec_nat 87" for an
    by (rule nr_field [of _ "\<lparr>sc_nr = 87, sc_ret = 0, sc_args = []\<rparr>"]) (simp_all add: alias_event_def)
  show "rule_sat env alias_event alias_rule"
    using v dec_nat_not_sentinel [of 87]
    by (simp add: dec_nat_texts rule_sat_def either_sat_def alias_rule_def example_rule_def zero_condition_def
        cond_sat_def opCodeOf_def)
  show "87 \<notin> set (ReferencedSyscalls [alias_rule])"
    by (simp add: ReferencedSyscalls_def alias_rule_def example_rule_def engine_getAllConditions_def
        zero_condition_def cond_syscalls_def defaultMonitoredSyscallsU32_def)
qed

section \<open>Overlays and directories\<close>

definition tuned :: "Rule \<Rightarrow> Rule \<Rightarrow> bool" where
  "tuned r r' \<longleftrightarrow> (\<exists>xs. r' = r\<lparr>ru_exceptions := ru_exceptions r @ xs\<rparr>)"

lemma tuned_refl: "tuned r r"
  by (auto simp: tuned_def intro!: exI [of _ "[]"])

lemma tuned_add: "tuned r r' \<Longrightarrow> tuned r (r'\<lparr>ru_exceptions := ru_exceptions r' @ ys\<rparr>)"
  unfolding tuned_def by (elim exE, rule_tac x = "xs @ ys" in exI) simp

lemma tuned_sat: "tuned r r' \<Longrightarrow> rule_sat env e r' \<Longrightarrow> rule_sat env e r"
  by (auto simp: tuned_def rule_sat_def)

lemma apply_overlays_tuned:
  "apply_overlays env byID os rules unk = Inr (rules', unk') \<Longrightarrow>
   list_all2 tuned base rules \<Longrightarrow> (\<And>i n. byID i = Some n \<Longrightarrow> n < length base) \<Longrightarrow>
   list_all2 tuned base rules' \<and> unk' = unk @ filter (\<lambda>i. byID i = None) (map to_rule_id os)"
proof (induction os arbitrary: rules unk)
  case (Cons ov os)
  show ?case
  proof (cases "byID (to_rule_id ov)")
    case None
    with Cons.prems(1) have "apply_overlays env byID os rules (unk @ [to_rule_id ov]) = Inr (rules', unk')"
      by simp
    from Cons.IH [OF this Cons.prems(2,3)] None show ?thesis by simp
  next
    case (Some n)
    let ?r = "rules ! n"
    have n: "n < length rules" "n < length base"
      using Cons.prems(2,3) Some by (auto dest: list_all2_lengthD)
    from Some Cons.prems(1) have step: "apply_overlays env byID os
        (rules[n := ?r\<lparr>ru_exceptions := ru_exceptions ?r @ to_exceptions ov\<rparr>]) unk = Inr (rules', unk')"
      by (auto simp: Let_def split: option.splits)
    have "list_all2 tuned base (rules[n := ?r\<lparr>ru_exceptions := ru_exceptions ?r @ to_exceptions ov\<rparr>])"
      using Cons.prems(2) n by (auto simp: list_all2_conv_all_nth nth_list_update intro: tuned_add)
    from Cons.IH [OF step this Cons.prems(3)] Some show ?thesis by simp
  qed
qed simp

lemma rule_index_less: "rule_index rules i = Some n \<Longrightarrow> n < length rules"
  by (auto simp: rule_index_def dest!: map_of_SomeD simp: set_zip)

lemma rule_index_None: "rule_index rules i = None \<longleftrightarrow> i \<notin> ru_id ` set rules"
  by (simp add: rule_index_def map_of_eq_None_iff) (simp flip: set_map)

text \<open>
  C26 (safety).  A tuning overlay can only silence: it adds exceptions and touches nothing else of any
  rule, so a rule that fires with the overlay fires without it; and the IDs it reports as unknown are
  exactly those no rule has, in order.
\<close>

theorem ApplyTuningOverlay_only_silences:
  assumes "ApplyTuningOverlay env overlay rules = Inr (rules', unknown)"
  shows "list_all2 (\<lambda>r r'. (\<exists>xs. r' = r\<lparr>ru_exceptions := ru_exceptions r @ xs\<rparr>) \<and>
      (rule_sat env e r' \<longrightarrow> rule_sat env e r)) rules rules' \<and>
    unknown = filter (\<lambda>i. i \<notin> ru_id ` set rules)
      (map to_rule_id (case overlay of None \<Rightarrow> [] | Some os \<Rightarrow> os))"
proof -
  have refl: "list_all2 tuned rules rules" by (simp add: list_all2_conv_all_nth tuned_refl)
  have "list_all2 tuned rules rules' \<and> unknown = filter (\<lambda>i. i \<notin> ru_id ` set rules)
      (map to_rule_id (case overlay of None \<Rightarrow> [] | Some os \<Rightarrow> os))"
  proof (cases "overlay = None \<or> overlay = Some []")
    case True
    with assms refl show ?thesis by (auto simp: ApplyTuningOverlay_def)
  next
    case False
    then obtain os where os: "overlay = Some os" "os \<noteq> []" by auto
    with assms have "apply_overlays env (rule_index rules) os rules [] = Inr (rules', unknown)"
      by (simp add: ApplyTuningOverlay_def)
    from apply_overlays_tuned [OF this refl rule_index_less] os show ?thesis
      by (simp add: rule_index_None)
  qed
  moreover have "(\<exists>xs. r' = r\<lparr>ru_exceptions := ru_exceptions r @ xs\<rparr>) \<and>
      (rule_sat env e r' \<longrightarrow> rule_sat env e r)" if "tuned r r'" for r r'
    using tuned_sat [OF that, of env e] that by (simp add: tuned_def)
  ultimately show ?thesis by (elim conjE, intro conjI) (erule list_all2_mono, assumption+)
qed

theorem ApplyTuningOverlay_only_silences_witness:
  "ApplyTuningOverlay example_env (Some [\<lparr>to_rule_id = ''nope'', to_exceptions = []\<rparr>]) [example_rule] =
     Inr ([example_rule], [''nope'']) \<and>
   [''nope''] = filter (\<lambda>i. i \<notin> ru_id ` set [example_rule]) (map to_rule_id [\<lparr>to_rule_id = ''nope'', to_exceptions = []\<rparr>])"
proof
  show run: "ApplyTuningOverlay example_env (Some [\<lparr>to_rule_id = ''nope'', to_exceptions = []\<rparr>]) [example_rule] =
     Inr ([example_rule], [''nope''])"
    by (simp add: ApplyTuningOverlay_def rule_index_def example_rule_def)
  show "[''nope''] = filter (\<lambda>i. i \<notin> ru_id ` set [example_rule])
      (map to_rule_id [\<lparr>to_rule_id = ''nope'', to_exceptions = []\<rparr>])"
    using ApplyTuningOverlay_only_silences [OF run, THEN conjunct2] by (simp only: option.case)
qed

text \<open>
  Duplicate IDs are found within a file but not between the files of a directory: two
  files with the same rule are rejected as an embedded rule set and accepted as a directory.
\<close>

theorem LoadRulesFromDir_misses_duplicates:
  assumes "unmarshal text = Some [example_rule]"
  shows "LoadRulesFromDir env unmarshal (Some [(''a.yaml'', False, Some text), (''b.yaml'', False, Some text)]) =
      Inr [example_rule, example_rule] \<and>
    LoadRulesFromEmbedded env unmarshal [(''a.yaml'', text), (''b.yaml'', text)] =
      Inl (SetInvalid [DuplicateID ''r1'' 0 1])"
proof -
  have y: "is_yaml_name ''a.yaml''" "is_yaml_name ''b.yaml''"
    by (simp_all add: is_yaml_name_def file_ext_def to_lower_def lower_char_def)
  have v: "validateRule env example_rule = Inr example_rule"
    by (simp add: validateRule_def example_rule_def zero_condition_def group_empty_def
        resolve_sampling_def getAllConditions_def first_error_def validateCondition_def
        validateFieldName_def validFieldsOf_def validSyscallFields_def Let_def)
  have "ru_id example_rule = ''r1''" by (simp add: example_rule_def)
  with y v assms show ?thesis
    by (simp add: LoadRulesFromDir_def LoadRulesFromDirWithChecksums_def LoadRulesFromFile_def
        LoadRulesFromEmbedded_def ValidateFull_def Let_def)
qed

theorem LoadRulesFromDir_misses_duplicates_witness:
  "LoadRulesFromDir example_env (\<lambda>_. Some [example_rule])
     (Some [(''a.yaml'', False, Some ''x''), (''b.yaml'', False, Some ''x'')]) =
   Inr [example_rule, example_rule]"
  using LoadRulesFromDir_misses_duplicates [of "\<lambda>_. Some [example_rule]" "''x''" example_env] by simp

end
