(* ===== verification/Rate_Limiter.thy ===== *)
theory Rate_Limiter
  imports Ring_Buffer
begin

text \<open>
  The alert rate limiter (\<open>correlator/ratelimiter.go\<close>): per rule, a ring of the instants of admitted
  alerts, evicted from its head as they leave the window.  The clock is an argument; a negative ring
  size makes \<open>make\<close> panic, which is \<open>None\<close>.  The ring is proved to be a sliding window log, and the
  limiter to count exactly the admitted alerts of the last window.
\<close>

section \<open>State of one rule\<close>

record ruleState =
  rs_ring :: "time list"
  rs_head :: nat
  rs_size :: nat
  rs_window :: duration
  rs_maxCount :: nat

definition newRuleState :: "duration \<Rightarrow> int \<Rightarrow> ruleState option" where
  "newRuleState window maxCount =
     (if maxCount < 0 then None
      else Some \<lparr>rs_ring = replicate (nat maxCount) 0, rs_head = 0, rs_size = 0,
        rs_window = window, rs_maxCount = nat maxCount\<rparr>)"

function evict_expired :: "time \<Rightarrow> ruleState \<Rightarrow> ruleState" where
  "evict_expired cutoff rs =
     (if 0 < rs_size rs \<and> rs_ring rs ! rs_head rs < cutoff
      then evict_expired cutoff (rs\<lparr>rs_head := (rs_head rs + 1) mod rs_maxCount rs, rs_size := rs_size rs - 1\<rparr>)
      else rs)"
  by auto
termination by (relation "measure (rs_size \<circ> snd)") auto

declare evict_expired.simps [simp del]

definition state_allow :: "time \<Rightarrow> ruleState \<Rightarrow> bool \<times> ruleState" where
  "state_allow now rs =
     (let cutoff = now - rs_window rs;
          rs = evict_expired cutoff rs
      in if rs_maxCount rs \<le> rs_size rs then (False, rs)
         else let tail = (rs_head rs + rs_size rs) mod rs_maxCount rs
           in (True, rs\<lparr>rs_ring := (rs_ring rs)[tail := now], rs_size := rs_size rs + 1\<rparr>))"

fun count_from :: "time \<Rightarrow> ruleState \<Rightarrow> nat list \<Rightarrow> nat" where
  "count_from cutoff rs [] = 0"
| "count_from cutoff rs (i # is) =
     (if \<not> rs_ring rs ! ((rs_head rs + i) mod rs_maxCount rs) < cutoff then rs_size rs - i
      else count_from cutoff rs is)"

definition state_count :: "time \<Rightarrow> ruleState \<Rightarrow> nat" where
  "state_count now rs = (if rs_size rs = 0 then 0
     else count_from (now - rs_window rs) rs [0..<rs_size rs])"

definition has_recent :: "time \<Rightarrow> ruleState \<Rightarrow> bool" where
  "has_recent cutoff rs \<longleftrightarrow> 0 < rs_size rs \<and>
     \<not> rs_ring rs ! ((rs_head rs + rs_size rs - 1) mod rs_maxCount rs) < cutoff"

definition resize_state :: "duration \<Rightarrow> int \<Rightarrow> ruleState \<Rightarrow> ruleState option" where
  "resize_state window maxAlerts rs =
     (let rs = rs\<lparr>rs_window := window\<rparr>
      in if int (rs_maxCount rs) = maxAlerts then Some rs
         else if maxAlerts < 0 then None
         else let m = nat maxAlerts;
                  keep = min (rs_size rs) m;
                  skip = rs_size rs - keep;
                  kept = map (\<lambda>i. rs_ring rs ! ((rs_head rs + skip + i) mod rs_maxCount rs)) [0..<keep]
           in Some (rs\<lparr>rs_ring := kept @ replicate (m - keep) 0, rs_head := 0, rs_size := keep,
                rs_maxCount := m\<rparr>))"

section \<open>The limiter\<close>

record RateLimiter =
  rl_states :: "(string \<times> ruleState) list"
  rl_window :: duration
  rl_maxAlerts :: int
  rl_enabled :: bool

definition NewRateLimiter :: "duration \<Rightarrow> int \<Rightarrow> bool \<Rightarrow> RateLimiter" where
  "NewRateLimiter window maxAlerts enabled =
     \<lparr>rl_states = [], rl_window = window, rl_maxAlerts = int32 maxAlerts, rl_enabled = enabled\<rparr>"

definition Allow :: "time \<Rightarrow> string \<Rightarrow> RateLimiter \<Rightarrow> (bool \<times> RateLimiter) option" where
  "Allow now ruleID rl =
     (if \<not> rl_enabled rl then Some (True, rl)
      else case (case map_of (rl_states rl) ruleID of
                   Some rs \<Rightarrow> Some rs
                 | None \<Rightarrow> newRuleState (rl_window rl) (rl_maxAlerts rl)) of
             None \<Rightarrow> None
           | Some rs \<Rightarrow> (case state_allow now rs of (ok, rs') \<Rightarrow>
               Some (ok, rl\<lparr>rl_states := AList.update ruleID rs' (rl_states rl)\<rparr>)))"

definition GetCount :: "time \<Rightarrow> string \<Rightarrow> RateLimiter \<Rightarrow> nat" where
  "GetCount now ruleID rl =
     (case map_of (rl_states rl) ruleID of None \<Rightarrow> 0 | Some rs \<Rightarrow> state_count now rs)"

definition Reset :: "RateLimiter \<Rightarrow> RateLimiter" where
  "Reset rl = rl\<lparr>rl_states := []\<rparr>"

definition GetRuleIDs :: "RateLimiter \<Rightarrow> string list" where
  "GetRuleIDs rl = map fst (rl_states rl)"

definition StateCount :: "RateLimiter \<Rightarrow> nat" where
  "StateCount rl = length (rl_states rl)"

definition Cleanup :: "time \<Rightarrow> duration \<Rightarrow> RateLimiter \<Rightarrow> nat \<times> RateLimiter" where
  "Cleanup now maxAge rl =
     (let cutoff = now - maxAge;
          stale = map fst (filter (\<lambda>(k, rs). \<not> has_recent cutoff rs) (rl_states rl))
      in (length stale, rl\<lparr>rl_states := fold AList.delete stale (rl_states rl)\<rparr>))"

definition cleanup_age :: duration where
  "cleanup_age = 10 * 60 * 1000000000"

record RateLimiterStats =
  rst_TotalRules :: nat
  rst_TotalAlerts :: nat
  rst_LimitedAlerts :: nat

definition GetStats :: "RateLimiter \<Rightarrow> RateLimiterStats" where
  "GetStats rl = \<lparr>rst_TotalRules = length (rl_states rl),
     rst_TotalAlerts = sum_list (map (rs_size \<circ> snd) (rl_states rl)), rst_LimitedAlerts = 0\<rparr>"

definition SetEnabled :: "bool \<Rightarrow> RateLimiter \<Rightarrow> RateLimiter" where
  "SetEnabled enabled rl = rl\<lparr>rl_enabled := enabled\<rparr>"

fun resize_all :: "duration \<Rightarrow> int \<Rightarrow> (string \<times> ruleState) list \<Rightarrow> (string \<times> ruleState) list option" where
  "resize_all window maxAlerts [] = Some []"
| "resize_all window maxAlerts ((k, rs) # sts) =
     (case resize_state window maxAlerts rs of
        None \<Rightarrow> None
      | Some rs' \<Rightarrow> map_option ((#) (k, rs')) (resize_all window maxAlerts sts))"

definition UpdateConfig :: "duration \<Rightarrow> int \<Rightarrow> RateLimiter \<Rightarrow> RateLimiter option" where
  "UpdateConfig window maxAlerts rl =
     map_option (\<lambda>sts. rl\<lparr>rl_window := window, rl_maxAlerts := int32 maxAlerts, rl_states := sts\<rparr>)
       (resize_all window maxAlerts (rl_states rl))"

section \<open>A ring is a log of the window\<close>

definition rs_ok :: "ruleState \<Rightarrow> bool" where
  "rs_ok rs \<longleftrightarrow> length (rs_ring rs) = rs_maxCount rs \<and> rs_size rs \<le> rs_maxCount rs \<and>
     (rs_head rs < rs_maxCount rs \<or> rs_maxCount rs = 0)"

definition rs_log :: "ruleState \<Rightarrow> time list" where
  "rs_log rs = ring_list (rs_ring rs) (rs_head rs) (rs_size rs)"

definition log_admit :: "duration \<Rightarrow> nat \<Rightarrow> time \<Rightarrow> time list \<Rightarrow> bool \<times> time list" where
  "log_admit w m now xs =
     (let live = dropWhile (\<lambda>x. x < now - w) xs
      in if m \<le> length live then (False, live) else (True, live @ [now]))"

lemma evict_expired_keeps [simp]:
  "rs_window (evict_expired c rs) = rs_window rs"
  "rs_maxCount (evict_expired c rs) = rs_maxCount rs"
  "rs_ring (evict_expired c rs) = rs_ring rs"
  by (induction c rs rule: evict_expired.induct) (subst evict_expired.simps, simp)+

lemma evict_expired_log:
  "rs_ok rs \<Longrightarrow> rs_ok (evict_expired c rs) \<and> rs_log (evict_expired c rs) = dropWhile (\<lambda>x. x < c) (rs_log rs)"
proof (induction c rs rule: evict_expired.induct)
  case (1 c rs)
  let ?rs = "rs\<lparr>rs_head := (rs_head rs + 1) mod rs_maxCount rs, rs_size := rs_size rs - 1\<rparr>"
  show ?case
  proof (cases "0 < rs_size rs")
    case True
    then have log: "rs_log rs = rs_ring rs ! rs_head rs # rs_log ?rs"
      using "1.prems" ring_pop [of "rs_size rs" "rs_ring rs" "rs_head rs"]
      by (auto simp: rs_ok_def rs_log_def)
    have ok: "rs_ok ?rs" using "1.prems" True by (auto simp: rs_ok_def)
    show ?thesis
    proof (cases "rs_ring rs ! rs_head rs < c")
      case expired: True
      with True have "evict_expired c rs = evict_expired c ?rs"
        by (subst evict_expired.simps) simp
      with "1.IH" ok log True expired show ?thesis by simp
    next
      case False
      then have "evict_expired c rs = rs" by (subst evict_expired.simps) simp
      with False log "1.prems" show ?thesis by simp
    qed
  next
    case False
    then have "evict_expired c rs = rs" by (subst evict_expired.simps) simp
    with False "1.prems" show ?thesis by (simp add: rs_log_def)
  qed
qed

lemma length_rs_log: "length (rs_log rs) = rs_size rs"
  by (simp add: rs_log_def)

lemma state_allow_log:
  assumes "rs_ok rs"
  shows "(case state_allow now rs of (b, rs') \<Rightarrow> rs_ok rs' \<and> rs_window rs' = rs_window rs \<and>
      rs_maxCount rs' = rs_maxCount rs \<and>
      (b, rs_log rs') = log_admit (rs_window rs) (rs_maxCount rs) now (rs_log rs))"
proof -
  define es where "es = evict_expired (now - rs_window rs) rs"
  have es: "rs_ok es" "rs_log es = dropWhile (\<lambda>x. x < now - rs_window rs) (rs_log rs)"
    "rs_window es = rs_window rs" "rs_maxCount es = rs_maxCount rs"
    using evict_expired_log [OF assms] by (simp_all add: es_def)
  have len: "length (dropWhile (\<lambda>x. x < now - rs_window rs) (rs_log rs)) = rs_size es"
    using es(2) by (metis length_rs_log)
  show ?thesis
  proof (cases "rs_maxCount es \<le> rs_size es")
    case True
    then show ?thesis using es len by (simp add: state_allow_def log_admit_def Let_def flip: es_def)
  next
    case False
    let ?rs = "es\<lparr>rs_ring := (rs_ring es)[(rs_head es + rs_size es) mod rs_maxCount es := now], rs_size := rs_size es + 1\<rparr>"
    have "rs_log ?rs = rs_log es @ [now]"
      using ring_push [of "rs_size es" "rs_ring es" "rs_head es" now] False es(1)
      by (simp add: rs_log_def rs_ok_def)
    moreover have "rs_ok ?rs" using es(1) False by (simp add: rs_ok_def)
    ultimately show ?thesis using es len False
      by (simp add: state_allow_def log_admit_def Let_def flip: es_def)
  qed
qed

section \<open>Sliding window logs\<close>

text \<open>
  The contract the limiter relies on: a per-rule state stands for the list of the instants it still
  remembers, and an admission request acts on it as on a log that drops what left the window.
\<close>

locale window_log =
  fixes ok :: "'s \<Rightarrow> bool" and remembered :: "'s \<Rightarrow> time list"
    and window :: "'s \<Rightarrow> duration" and cap :: "'s \<Rightarrow> nat"
    and admit :: "time \<Rightarrow> 's \<Rightarrow> bool \<times> 's"
  assumes admit_log: "ok s \<Longrightarrow> (case admit now s of (b, s') \<Rightarrow> ok s' \<and> window s' = window s \<and>
      cap s' = cap s \<and> (b, remembered s') = log_admit (window s) (cap s) now (remembered s))"
begin

text \<open>The remembered instants are the end of the admitted ones, and what is forgotten left the window.\<close>

definition tracks :: "time \<Rightarrow> time list \<Rightarrow> 's \<Rightarrow> bool" where
  "tracks t hist s \<longleftrightarrow> ok s \<and> (\<exists>old. hist = old @ remembered s \<and> (\<forall>x\<in>set old. x < t - window s))"

lemma sorted_dropWhile_less: "sorted xs \<Longrightarrow> dropWhile (\<lambda>x. x < (c :: time)) xs = filter (\<lambda>x. c \<le> x) xs"
  by (induction xs) (auto intro!: filter_True [symmetric])

lemma tracks_live:
  assumes "tracks t hist s" "sorted hist" "t \<le> now"
  shows "dropWhile (\<lambda>x. x < now - window s) (remembered s) = filter (\<lambda>x. now - window s \<le> x) hist"
proof -
  obtain old where old: "hist = old @ remembered s" "\<forall>x\<in>set old. x < t - window s"
    using assms(1) by (auto simp: tracks_def)
  have "filter (\<lambda>x. now - window s \<le> x) old = []"
    using old(2) assms(3) by (fastforce simp: filter_empty_conv)
  moreover have "sorted (remembered s)" using old(1) assms(2) by (simp add: sorted_append)
  ultimately show ?thesis using old(1) sorted_dropWhile_less by simp
qed

lemma tracks_later: "tracks t hist s \<Longrightarrow> t \<le> now \<Longrightarrow> tracks now hist s"
  by (fastforce simp: tracks_def)

lemma tracks_admit:
  assumes "tracks t hist s" "sorted hist" "t \<le> now" "admit now s = (b, s')"
  shows "b \<longleftrightarrow> length (filter (\<lambda>x. now - window s \<le> x) hist) < cap s"
    and "tracks now (if b then hist @ [now] else hist) s'"
    and "window s' = window s" and "cap s' = cap s"
proof -
  let ?c = "now - window s"
  obtain old where old: "hist = old @ remembered s" "\<forall>x\<in>set old. x < t - window s" and ok: "ok s"
    using assms(1) by (auto simp: tracks_def)
  have adm: "ok s'" "window s' = window s" "cap s' = cap s"
    "(b, remembered s') = log_admit (window s) (cap s) now (remembered s)"
    using admit_log [OF ok, of now] assms(4) by auto
  show "window s' = window s" "cap s' = cap s" by (fact adm)+
  have live: "dropWhile (\<lambda>x. x < ?c) (remembered s) = filter (\<lambda>x. ?c \<le> x) hist"
    by (rule tracks_live [OF assms(1-3)])
  show "b \<longleftrightarrow> length (filter (\<lambda>x. ?c \<le> x) hist) < cap s"
    using adm(4) by (auto simp: log_admit_def live Let_def split: if_splits)
  have rem: "remembered s' = dropWhile (\<lambda>x. x < ?c) (remembered s) @ (if b then [now] else [])"
    using adm(4) by (auto simp: log_admit_def Let_def split: if_splits)
  have "\<forall>x\<in>set (old @ takeWhile (\<lambda>x. x < ?c) (remembered s)). x < now - window s'"
    using old(2) assms(3) adm(2) by (fastforce dest: set_takeWhileD)
  moreover have "(if b then hist @ [now] else hist) =
      (old @ takeWhile (\<lambda>x. x < ?c) (remembered s)) @ remembered s'"
    by (simp add: rem old(1))
  ultimately show "tracks now (if b then hist @ [now] else hist) s'"
    using adm(1) unfolding tracks_def by blast
qed

end

interpretation ring_log: window_log rs_ok rs_log rs_window rs_maxCount state_allow
  by unfold_locales (rule state_allow_log)

section \<open>The limiter counts the last window\<close>

text \<open>
  The runs of a limiter: requests for any rules and periodic cleanups, at instants that do not go back,
  with the list of the admitted alerts.  A cleanup may only forget what is older than the window.
\<close>

inductive limiter_run :: "duration \<Rightarrow> int \<Rightarrow> RateLimiter \<Rightarrow> time \<Rightarrow> (string \<times> time) list \<Rightarrow> bool" for w m where
  start: "limiter_run w m (NewRateLimiter w m True) t []"
| request: "limiter_run w m rl t hist \<Longrightarrow> t \<le> now \<Longrightarrow> Allow now ruleID rl = Some (b, rl') \<Longrightarrow>
    limiter_run w m rl' now (if b then hist @ [(ruleID, now)] else hist)"
| cleanup: "limiter_run w m rl t hist \<Longrightarrow> t \<le> now \<Longrightarrow> w \<le> age \<Longrightarrow>
    limiter_run w m (snd (Cleanup now age rl)) now hist"

definition instants :: "string \<Rightarrow> (string \<times> time) list \<Rightarrow> time list" where
  "instants ruleID hist = map snd (filter (\<lambda>(k, x). k = ruleID) hist)"

lemma instants_simps [simp]:
  "instants k [] = []"
  "instants k (hist @ [(k', x)]) = instants k hist @ (if k' = k then [x] else [])"
  by (simp_all add: instants_def)

text \<open>A rule without a state is as good as one with an empty ring.\<close>

definition state_of :: "RateLimiter \<Rightarrow> string \<Rightarrow> ruleState option" where
  "state_of rl k = (case map_of (rl_states rl) k of
     Some rs \<Rightarrow> Some rs | None \<Rightarrow> newRuleState (rl_window rl) (rl_maxAlerts rl))"

lemma state_of_update:
  "state_of (rl\<lparr>rl_states := AList.update k rs (rl_states rl)\<rparr>) k' =
     (if k' = k then Some rs else state_of rl k')"
  by (simp add: state_of_def split: option.split)

definition limiter_inv :: "duration \<Rightarrow> int \<Rightarrow> RateLimiter \<Rightarrow> time \<Rightarrow> (string \<times> time) list \<Rightarrow> bool" where
  "limiter_inv w m rl t hist \<longleftrightarrow> rl_enabled rl \<and> rl_window rl = w \<and> rl_maxAlerts rl = m \<and>
     distinct_keys (rl_states rl) \<and>
     (\<forall>k. sorted (instants k hist @ [t])) \<and>
     (\<forall>k. \<exists>rs. state_of rl k = Some rs \<and> rs_window rs = w \<and> rs_maxCount rs = nat m \<and>
        ring_log.tracks t (instants k hist) rs)"

lemma newRuleState_ok: "0 \<le> m \<Longrightarrow> \<exists>rs. newRuleState w m = Some rs \<and> rs_window rs = w \<and>
    rs_maxCount rs = nat m \<and> rs_ok rs \<and> rs_log rs = []"
  by (auto simp: newRuleState_def rs_ok_def rs_log_def)

lemma limiter_sorted:
  assumes "limiter_inv w m rl t hist" "t \<le> now"
  shows "sorted (instants k hist @ [now])"
proof -
  have "sorted (instants k hist @ [t])" using assms(1) by (simp add: limiter_inv_def)
  with assms(2) show ?thesis by (fastforce simp: sorted_append)
qed

lemma sorted_le_last: "sorted xs \<Longrightarrow> x \<in> set xs \<Longrightarrow> x \<le> last xs"
  by (induction xs) auto

lemma Allow_step:
  assumes inv: "limiter_inv w m rl t hist" and now: "t \<le> now"
  shows "\<exists>b rl'. Allow now k rl = Some (b, rl') \<and>
    (b \<longleftrightarrow> length (filter (\<lambda>x. now - w \<le> x) (instants k hist)) < nat m) \<and>
    limiter_inv w m rl' now (if b then hist @ [(k, now)] else hist)"
proof -
  obtain rs where rs: "state_of rl k = Some rs" "rs_window rs = w" "rs_maxCount rs = nat m"
      "ring_log.tracks t (instants k hist) rs"
    using inv by (auto simp: limiter_inv_def)
  note sorted = limiter_sorted [OF inv now]
  then have sk: "sorted (instants k hist)" by (simp add: sorted_append)
  obtain b rs' where step: "state_allow now rs = (b, rs')" by (cases "state_allow now rs")
  note new = ring_log.tracks_admit [OF rs(4) sk now step]
  let ?rl = "rl\<lparr>rl_states := AList.update k rs' (rl_states rl)\<rparr>"
  have "Allow now k rl = Some (b, ?rl)"
    using inv rs(1) step by (simp add: Allow_def limiter_inv_def state_of_def)
  moreover have "limiter_inv w m ?rl now (if b then hist @ [(k, now)] else hist)"
    unfolding limiter_inv_def
  proof (intro conjI allI)
    fix k'
    show "\<exists>rs. state_of ?rl k' = Some rs \<and> rs_window rs = w \<and> rs_maxCount rs = nat m \<and>
        ring_log.tracks now (instants k' (if b then hist @ [(k, now)] else hist)) rs"
    proof (cases "k' = k")
      case True
      with new(2-4) rs(2,3) show ?thesis by (cases b) (simp_all add: state_of_update)
    next
      case False
      have "\<exists>rs. state_of rl k' = Some rs \<and> rs_window rs = w \<and> rs_maxCount rs = nat m \<and>
          ring_log.tracks now (instants k' hist) rs"
        using inv now unfolding limiter_inv_def by (metis ring_log.tracks_later)
      with False show ?thesis by (simp add: state_of_update)
    qed
    show "sorted (instants k' (if b then hist @ [(k, now)] else hist) @ [now])"
      using sorted [of k'] by (auto simp: sorted_append)
  qed (use inv in \<open>simp_all add: limiter_inv_def\<close>)
  ultimately show ?thesis using new(1) rs(2,3) by auto
qed

lemma not_recent_log:
  assumes "rs_ok rs" "sorted (rs_log rs)" "\<not> has_recent c rs" "x \<in> set (rs_log rs)"
  shows "x < c"
proof -
  from assms(4) have "rs_log rs \<noteq> []" by auto
  then have "0 < rs_size rs" by (simp add: rs_log_def)
  then have "last (rs_log rs) < c"
    using assms(1,3) by (simp add: rs_log_def ring_last has_recent_def rs_ok_def)
  moreover have "x \<le> last (rs_log rs)"
    by (rule sorted_le_last) (fact assms)+
  ultimately show ?thesis by simp
qed

lemma Cleanup_step:
  assumes inv: "limiter_inv w m rl t hist" and now: "t \<le> now" and age: "w \<le> age" and m: "0 \<le> m"
  shows "limiter_inv w m (snd (Cleanup now age rl)) now hist"
proof -
  let ?stale = "map fst (filter (\<lambda>(k, rs). \<not> has_recent (now - age) rs) (rl_states rl))"
  let ?rl = "snd (Cleanup now age rl)"
  have st: "state_of ?rl k = (if k \<in> set ?stale then newRuleState (rl_window rl) (rl_maxAlerts rl)
      else state_of rl k)" for k
    by (simp add: Cleanup_def Let_def state_of_def map_of_fold_delete split: option.split)
  show ?thesis unfolding limiter_inv_def
  proof (intro conjI allI)
    fix k
    show sorted: "sorted (instants k hist @ [now])" by (rule limiter_sorted [OF inv now])
    show "\<exists>rs. state_of ?rl k = Some rs \<and> rs_window rs = w \<and> rs_maxCount rs = nat m \<and>
        ring_log.tracks now (instants k hist) rs"
    proof (cases "k \<in> set ?stale")
      case False
      then show ?thesis using inv now st unfolding limiter_inv_def by (metis ring_log.tracks_later)
    next
      case True
      with inv obtain rs where rs: "map_of (rl_states rl) k = Some rs" "\<not> has_recent (now - age) rs"
        by (auto simp: limiter_inv_def)
      then have "state_of rl k = Some rs" by (simp add: state_of_def)
      with inv have "rs_window rs = w" "ring_log.tracks t (instants k hist) rs"
        by (metis limiter_inv_def option.inject)+
      then obtain old where old: "rs_ok rs" "rs_window rs = w"
          "instants k hist = old @ rs_log rs" "\<forall>x\<in>set old. x < t - w"
        by (auto simp: ring_log.tracks_def)
      have "x < now - w" if "x \<in> set (instants k hist)" for x
        using that old not_recent_log [OF old(1) _ rs(2)] sorted now age
        by (fastforce simp: sorted_append)
      with True inv newRuleState_ok [OF m, of w] show ?thesis
        by (auto simp: st limiter_inv_def ring_log.tracks_def)
    qed
  qed (use inv in \<open>simp_all add: limiter_inv_def Cleanup_def Let_def distinct_keys_fold_delete\<close>)
qed

lemma limiter_run_inv:
  assumes "limiter_run w m rl t hist" "0 \<le> m" "m < 2 ^ 31"
  shows "limiter_inv w m rl t hist"
  using assms(1)
proof (induction rule: limiter_run.induct)
  case (start t)
  show ?case
    using newRuleState_ok [OF assms(2), of w] int32_id [OF assms(2,3)]
    by (auto simp: limiter_inv_def NewRateLimiter_def state_of_def ring_log.tracks_def)
next
  case (request rl t hist now k b rl')
  then show ?case using Allow_step [of w m rl t hist now k] by auto
next
  case (cleanup rl t hist now age)
  then show ?case using Cleanup_step assms(2) by blast
qed

lemma limiter_run_bound:
  assumes "limiter_run w m rl t hist" "0 \<le> m" "m < 2 ^ 31"
  shows "length (filter (\<lambda>x. s \<le> x \<and> x \<le> s + w) (instants k hist)) \<le> nat m"
  using assms(1)
proof (induction arbitrary: s rule: limiter_run.induct)
  case (request rl t hist now k' b rl')
  show ?case
  proof (cases "b \<and> k' = k \<and> s \<le> now \<and> now \<le> s + w")
    case True
    then have "length (filter (\<lambda>x. now - w \<le> x) (instants k hist)) < nat m"
      using Allow_step [OF limiter_run_inv [OF request.hyps(1) assms(2,3)] request.hyps(2), of k] request.hyps(3)
      by auto
    moreover have "length (filter (\<lambda>x. s \<le> x \<and> x \<le> s + w) (instants k hist))
        \<le> length (filter (\<lambda>x. now - w \<le> x) (instants k hist))"
      using True by (intro length_filter_mono) auto
    ultimately show ?thesis using True by simp
  qed (use request.IH [of s] in auto)
qed simp_all

lemma count_from_log:
  "rs_ok rs \<Longrightarrow> sorted (rs_log rs) \<Longrightarrow> j \<le> rs_size rs \<Longrightarrow>
   count_from c rs [j..<rs_size rs] = length (filter (\<lambda>x. c \<le> x) (drop j (rs_log rs)))"
proof (induction "rs_size rs - j" arbitrary: j)
  case (Suc n)
  then have j: "j < rs_size rs" by simp
  have nth: "rs_log rs ! j = rs_ring rs ! ((rs_head rs + j) mod rs_maxCount rs)"
    using j Suc.prems(1) by (simp add: rs_log_def nth_ring_list rs_ok_def)
  have split: "drop j (rs_log rs) = rs_log rs ! j # drop (Suc j) (rs_log rs)"
    using j by (simp add: Cons_nth_drop_Suc length_rs_log)
  have upt: "[j..<rs_size rs] = j # [Suc j..<rs_size rs]" using j by (rule upt_conv_Cons)
  show ?case
  proof (cases "rs_log rs ! j < c")
    case True
    with Suc j nth split upt show ?thesis by simp
  next
    case False
    have "sorted (drop j (rs_log rs))" using Suc.prems(2) by (rule sorted_wrt_drop)
    then have "filter (\<lambda>x. c \<le> x) (drop j (rs_log rs)) = drop j (rs_log rs)"
      using False by (auto simp: split intro!: filter_True)
    with False nth upt show ?thesis by (simp add: length_rs_log)
  qed
qed (simp add: length_rs_log)

lemma state_count_log:
  assumes "rs_ok rs" "sorted (rs_log rs)"
  shows "state_count now rs = length (filter (\<lambda>x. now - rs_window rs \<le> x) (rs_log rs))"
  using count_from_log [OF assms, of 0 "now - rs_window rs"] length_rs_log [of rs]
  by (auto simp: state_count_def)

lemma GetCount_window:
  assumes inv: "limiter_inv w m rl t hist" and now: "t \<le> now" and m: "0 \<le> m"
  shows "GetCount now k rl = length (filter (\<lambda>x. now - w \<le> x) (instants k hist))"
proof -
  obtain rs where rs: "state_of rl k = Some rs" "rs_window rs = w" "ring_log.tracks t (instants k hist) rs"
    using inv by (auto simp: limiter_inv_def)
  have sorted: "sorted (instants k hist)"
    using limiter_sorted [OF inv now, of k] by (simp add: sorted_append)
  note live = ring_log.tracks_live [OF rs(3) sorted now]
  have ok: "rs_ok rs" "sorted (rs_log rs)"
    using rs(3) sorted by (auto simp: ring_log.tracks_def sorted_append)
  show ?thesis
  proof (cases "map_of (rl_states rl) k")
    case None
    with rs(1) newRuleState_ok [OF m, of w] inv have "rs_log rs = []"
      by (simp add: state_of_def limiter_inv_def)
    with None live rs(2) show ?thesis by (simp add: GetCount_def)
  next
    case (Some rs')
    with rs(1) have "rs' = rs" by (simp add: state_of_def)
    with Some live rs(2) state_count_log [OF ok, of now] ring_log.sorted_dropWhile_less [OF ok(2)]
    show ?thesis by (simp add: GetCount_def)
  qed
qed

text \<open>
  C6 (functional).  The limiter is an exact sliding window: after any run of requests and of cleanups that keep
  the states with an entry at most one window old, a request is admitted if and only if fewer than the maximum number of alerts of that rule were
  admitted in the last window (both ends included), it never panics, \<open>GetCount\<close> is that number, and no
  window of that length, wherever it starts, holds more admitted alerts than the maximum.  The maximum is a
  nonnegative 32-bit integer.  The cleanup loop of the code has a fixed age of ten minutes, so this covers windows
  up to ten minutes; \<open>Cleanup_forgets_window\<close> below shows what happens to a longer one.
\<close>

theorem Allow_is_sliding_window:
  assumes "limiter_run w m rl t hist" "t \<le> now" "0 \<le> m" "m < 2 ^ 31"
  shows "map_option fst (Allow now k rl) =
      Some (length (filter (\<lambda>x. now - w \<le> x) (instants k hist)) < nat m) \<and>
    GetCount now k rl = length (filter (\<lambda>x. now - w \<le> x) (instants k hist)) \<and>
    length (filter (\<lambda>x. s \<le> x \<and> x \<le> s + w) (instants k hist)) \<le> nat m"
  using Allow_step [OF limiter_run_inv [OF assms(1,3,4)] assms(2), of k]
    GetCount_window [OF limiter_run_inv [OF assms(1,3,4)] assms(2,3)] limiter_run_bound [OF assms(1,3,4)]
  by auto

definition example_limiter :: RateLimiter where
  "example_limiter = NewRateLimiter 60 1 True\<lparr>rl_states := [(''r'',
     \<lparr>rs_ring = [0], rs_head = 0, rs_size = 1, rs_window = 60, rs_maxCount = 1\<rparr>)]\<rparr>"

lemma example_limiter_run: "limiter_run 60 1 example_limiter 0 [(''r'', 0)]"
proof -
  have "Allow 0 ''r'' (NewRateLimiter 60 1 True) = Some (True, example_limiter)"
    by (simp add: Allow_def NewRateLimiter_def example_limiter_def newRuleState_def int32_def
        state_allow_def evict_expired.simps Let_def)
  from limiter_run.request [OF limiter_run.start [of 60 1 0] _ this] show ?thesis by simp
qed

theorem Allow_is_sliding_window_witness:
  "map_option fst (Allow 60 ''r'' example_limiter) = Some False \<and>
   map_option fst (Allow 61 ''r'' example_limiter) = Some True \<and>
   GetCount 60 ''r'' example_limiter = 1"
  using Allow_is_sliding_window [OF example_limiter_run, of 60 "''r''"]
    Allow_is_sliding_window [OF example_limiter_run, of 61 "''r''"]
  by (simp add: instants_def)

text \<open>
  The hypothesis on cleanups cannot be dropped, and the agent does not ensure it: its
  background loop forgets rules without an alert in the last ten minutes whatever the configured
  window is, so with a window of twenty minutes and a maximum of one alert, two are admitted eleven
  minutes apart.
\<close>

theorem Cleanup_forgets_window:
  "\<exists>rl1 rl2. Allow 0 ''r'' (NewRateLimiter (20 * 60 * 1000000000) 1 True) = Some (True, rl1) \<and>
     Allow (11 * 60 * 1000000000) ''r'' rl1 = Some (False, rl1) \<and>
     Allow (11 * 60 * 1000000000) ''r'' (snd (Cleanup (11 * 60 * 1000000000) cleanup_age rl1)) = Some (True, rl2)"
  by (simp add: Allow_def NewRateLimiter_def newRuleState_def int32_def state_allow_def Cleanup_def
      cleanup_age_def has_recent_def evict_expired.simps Let_def)

section \<open>Changing the configuration\<close>

lemma resize_state_log:
  assumes "rs_ok rs" "0 \<le> m"
  shows "\<exists>rs'. resize_state w m rs = Some rs' \<and> rs_ok rs' \<and> rs_window rs' = w \<and>
    rs_maxCount rs' = nat m \<and> rs_log rs' = last_n (nat m) (rs_log rs)"
proof (cases "int (rs_maxCount rs) = m")
  case True
  with assms show ?thesis
    by (auto simp: resize_state_def rs_ok_def rs_log_def last_n_all)
next
  case False
  let ?keep = "min (rs_size rs) (nat m)"
  let ?kept = "map (\<lambda>i. rs_ring rs ! ((rs_head rs + (rs_size rs - ?keep) + i) mod rs_maxCount rs)) [0..<?keep]"
  have kept: "?kept = last_n (nat m) (rs_log rs)"
    using assms(1) ring_drop [of "rs_size rs - ?keep" "rs_size rs" "rs_ring rs" "rs_head rs"]
    by (cases "rs_size rs \<le> nat m")
      (simp_all add: last_n_def rs_log_def rs_ok_def ring_list_def mod_add_left_eq)
  have "ring_list (?kept @ replicate (nat m - ?keep) 0) 0 ?keep = ?kept"
    by (rule nth_equalityI) (simp_all add: nth_ring_list nth_append)
  with False assms(2) kept show ?thesis
    by (auto simp: resize_state_def Let_def rs_ok_def rs_log_def)
qed

text \<open>
  A change of the configuration loses no more history than it must: it does not
  panic, every state takes the new window and maximum, and its ring keeps the most recent admitted
  instants, as many as the new maximum allows, in order.
\<close>

theorem UpdateConfig_keeps_recent:
  assumes "list_all (rs_ok \<circ> snd) (rl_states rl)" "0 \<le> m"
  shows "\<exists>rl'. UpdateConfig w m rl = Some rl' \<and>
    list_all2 (\<lambda>(k, rs) (k', rs'). k' = k \<and> rs_ok rs' \<and> rs_window rs' = w \<and> rs_maxCount rs' = nat m \<and>
      rs_log rs' = last_n (nat m) (rs_log rs)) (rl_states rl) (rl_states rl')"
proof -
  have "list_all (rs_ok \<circ> snd) sts \<Longrightarrow> \<exists>sts'. resize_all w m sts = Some sts' \<and>
    list_all2 (\<lambda>(k, rs) (k', rs'). k' = k \<and> rs_ok rs' \<and> rs_window rs' = w \<and> rs_maxCount rs' = nat m \<and>
      rs_log rs' = last_n (nat m) (rs_log rs)) sts sts'" for sts
  proof (induction sts)
    case (Cons s sts)
    obtain k rs where s: "s = (k, rs)" by (cases s)
    with Cons.prems resize_state_log [OF _ assms(2), of rs w] Cons.IH show ?case by auto
  qed simp
  with assms(1) show ?thesis by (fastforce simp: UpdateConfig_def)
qed

theorem UpdateConfig_keeps_recent_witness:
  "\<exists>rl'. UpdateConfig 30 2 example_limiter = Some rl' \<and>
    list_all2 (\<lambda>(k, rs) (k', rs'). k' = k \<and> rs_ok rs' \<and> rs_window rs' = 30 \<and> rs_maxCount rs' = nat 2 \<and>
      rs_log rs' = last_n (nat 2) (rs_log rs)) (rl_states example_limiter) (rl_states rl')"
  by (rule UpdateConfig_keeps_recent) (simp_all add: example_limiter_def rs_ok_def)

end
