(* ===== verification/Event_Buffer.thy ===== *)
theory Event_Buffer
  imports Ring_Buffer Event_Types
begin

text \<open>
  The per-process event history (\<open>correlator/sharded_buffer.go\<close>): shards chosen by masking the
  process ID, each with a map from process IDs to circular buffers that grow by doubling up to the
  maximal size.  Locks are not modelled: an operation on a shard is one step.  The number of
  processors is an argument, an index out of range is \<open>None\<close>.
\<close>

section \<open>Number of shards\<close>

function pow2_from :: "nat \<Rightarrow> nat \<Rightarrow> nat" where
  "pow2_from n p = (if 0 < p \<and> p < n then pow2_from n (2 * p) else p)"
  by auto
termination by (relation "measure (\<lambda>(n, p). n - p)") auto

declare pow2_from.simps [simp del]

definition compute_shards :: "nat \<Rightarrow> nat \<Rightarrow> nat \<Rightarrow> nat \<times> u32" where
  "compute_shards least numCPU gomaxprocs =
     (let n = (if gomaxprocs > numCPU then gomaxprocs else numCPU);
          n = n * 4;
          n = (if n < least then least else n);
          p = pow2_from n least;
          p = (if p > 256 then 256 else p)
      in (p, word_of_nat (p - 1)))"

definition computeBufferShards :: "nat \<Rightarrow> nat \<Rightarrow> nat \<times> u32" where
  "computeBufferShards = compute_shards 4"

definition computeLockShards :: "nat \<Rightarrow> nat \<Rightarrow> nat \<times> u32" where
  "computeLockShards = compute_shards 16"

definition shard_index :: "u32 \<Rightarrow> u32 \<Rightarrow> nat" where
  "shard_index msk pid = unat (pid AND msk)"

section \<open>One process\<close>

record ringBuffer =
  rb_events :: "event list"
  rb_head :: nat
  rb_size :: nat

definition initialRingCapacity :: nat where
  "initialRingCapacity = 8"

definition empty_ring :: ringBuffer where
  "empty_ring = \<lparr>rb_events = [], rb_head = 0, rb_size = 0\<rparr>"

definition grow_ring :: "int \<Rightarrow> event list \<Rightarrow> event list" where
  "grow_ring maxSize evs =
     (let newCap = length evs * 2;
          newCap = (if newCap < initialRingCapacity then initialRingCapacity else newCap);
          newCap = (if int newCap > maxSize then nat maxSize else newCap)
      in take newCap evs @ replicate (newCap - length evs) zero_event)"

definition ring_add :: "int \<Rightarrow> ringBuffer \<Rightarrow> event \<Rightarrow> ringBuffer option" where
  "ring_add maxSize rb e =
     (if int (rb_size rb) < maxSize then
        let evs = (if rb_size rb = length (rb_events rb) then grow_ring maxSize (rb_events rb) else rb_events rb)
        in if rb_size rb < length evs then
             Some (rb\<lparr>rb_events := evs[rb_size rb := e], rb_size := rb_size rb + 1,
               rb_head := (rb_size rb + 1) mod nat maxSize\<rparr>)
           else None
      else if rb_head rb < length (rb_events rb) \<and> maxSize \<noteq> 0 then
        Some (rb\<lparr>rb_events := (rb_events rb)[rb_head rb := e], rb_head := (rb_head rb + 1) mod nat \<bar>maxSize\<bar>\<rparr>)
      else None)"

definition ring_get :: "int \<Rightarrow> ringBuffer \<Rightarrow> event list" where
  "ring_get maxSize rb =
     (if rb_events rb = [] \<or> rb_size rb = 0 then []
      else if int (rb_size rb) < maxSize then take (rb_size rb) (rb_events rb)
      else take (rb_size rb) (drop (rb_head rb) (rb_events rb) @ take (rb_head rb) (rb_events rb)))"

definition ring_get_recent :: "int \<Rightarrow> ringBuffer \<Rightarrow> int \<Rightarrow> event list" where
  "ring_get_recent maxSize rb n =
     (if rb_events rb = [] \<or> rb_size rb = 0 then []
      else if int (rb_size rb) \<le> n then ring_get maxSize rb
      else if int (rb_size rb) < maxSize then take (nat n) (drop (rb_size rb - nat n) (rb_events rb))
      else let m = nat maxSize;
               start = (rb_head rb + m - nat n) mod m
           in if start + nat n \<le> m then take (nat n) (drop start (rb_events rb))
              else drop start (rb_events rb) @ take (nat n - (length (rb_events rb) - start)) (rb_events rb))"

section \<open>All processes\<close>

record eventBufferShard =
  bs_buffers :: "(u32 \<times> ringBuffer) list"
  bs_lastSeen :: "(u32 \<times> time) list"

record ShardedEventBuffer =
  sb_shards :: "eventBufferShard list"
  sb_numShards :: nat
  sb_mask :: u32
  sb_maxSize :: int

definition bufferShardIdx :: "ShardedEventBuffer \<Rightarrow> u32 \<Rightarrow> nat" where
  "bufferShardIdx sb pid = shard_index (sb_mask sb) pid"

definition empty_shard :: eventBufferShard where
  "empty_shard = \<lparr>bs_buffers = [], bs_lastSeen = []\<rparr>"

definition NewShardedEventBuffer :: "nat \<Rightarrow> nat \<Rightarrow> int \<Rightarrow> ShardedEventBuffer" where
  "NewShardedEventBuffer numCPU gomaxprocs maxSize =
     (case computeBufferShards numCPU gomaxprocs of (numShards, msk) \<Rightarrow>
        \<lparr>sb_shards = replicate numShards empty_shard, sb_numShards = numShards, sb_mask = msk,
          sb_maxSize = maxSize\<rparr>)"

definition ring_of :: "eventBufferShard \<Rightarrow> u32 \<Rightarrow> ringBuffer" where
  "ring_of shard pid = (case map_of (bs_buffers shard) pid of Some rb \<Rightarrow> rb | None \<Rightarrow> empty_ring)"

definition buffer_Add :: "time \<Rightarrow> u32 \<Rightarrow> event \<Rightarrow> ShardedEventBuffer \<Rightarrow> ShardedEventBuffer option" where
  "buffer_Add now pid e sb =
     (let i = bufferShardIdx sb pid
      in if i < length (sb_shards sb) then
           let shard = sb_shards sb ! i
           in case ring_add (sb_maxSize sb) (ring_of shard pid) e of
                None \<Rightarrow> None
              | Some rb \<Rightarrow> Some (sb\<lparr>sb_shards := (sb_shards sb)[i :=
                  shard\<lparr>bs_lastSeen := AList.update pid now (bs_lastSeen shard),
                    bs_buffers := AList.update pid rb (bs_buffers shard)\<rparr>]\<rparr>)
         else None)"

definition buffer_Get :: "u32 \<Rightarrow> ShardedEventBuffer \<Rightarrow> event list option" where
  "buffer_Get pid sb =
     (let i = bufferShardIdx sb pid
      in if i < length (sb_shards sb) then Some (ring_get (sb_maxSize sb) (ring_of (sb_shards sb ! i) pid)) else None)"

definition buffer_GetRecent :: "u32 \<Rightarrow> int \<Rightarrow> ShardedEventBuffer \<Rightarrow> event list option" where
  "buffer_GetRecent pid n sb =
     (if n \<le> 0 then Some []
      else let i = bufferShardIdx sb pid
        in if i < length (sb_shards sb)
           then Some (ring_get_recent (sb_maxSize sb) (ring_of (sb_shards sb ! i) pid) n) else None)"

definition buffer_Remove :: "u32 \<Rightarrow> ShardedEventBuffer \<Rightarrow> ShardedEventBuffer option" where
  "buffer_Remove pid sb =
     (let i = bufferShardIdx sb pid
      in if i < length (sb_shards sb) then
           let shard = sb_shards sb ! i
           in Some (sb\<lparr>sb_shards := (sb_shards sb)[i :=
                shard\<lparr>bs_buffers := AList.delete pid (bs_buffers shard),
                  bs_lastSeen := AList.delete pid (bs_lastSeen shard)\<rparr>]\<rparr>)
         else None)"

definition buffer_Clear :: "ShardedEventBuffer \<Rightarrow> ShardedEventBuffer" where
  "buffer_Clear sb = sb\<lparr>sb_shards := map (\<lambda>_. empty_shard) (sb_shards sb)\<rparr>"

definition expire_shard :: "time \<Rightarrow> eventBufferShard \<Rightarrow> nat \<times> eventBufferShard" where
  "expire_shard cutoff shard =
     (let expired = map fst (filter (\<lambda>(pid, ts). ts < cutoff) (bs_lastSeen shard))
      in (length expired, shard\<lparr>bs_buffers := fold AList.delete expired (bs_buffers shard),
            bs_lastSeen := fold AList.delete expired (bs_lastSeen shard)\<rparr>))"

definition buffer_CleanupExpired :: "time \<Rightarrow> duration \<Rightarrow> ShardedEventBuffer \<Rightarrow> nat \<times> ShardedEventBuffer" where
  "buffer_CleanupExpired now ttl sb =
     (let rs = map (expire_shard (now - ttl)) (sb_shards sb)
      in (sum_list (map fst rs), sb\<lparr>sb_shards := map snd rs\<rparr>))"

definition buffer_ForEachPID :: "(u32 \<Rightarrow> 's \<Rightarrow> 's) \<Rightarrow> ShardedEventBuffer \<Rightarrow> 's \<Rightarrow> 's" where
  "buffer_ForEachPID fn sb = fold (\<lambda>shard. fold (fn \<circ> fst) (bs_buffers shard)) (sb_shards sb)"

definition buffer_PIDs :: "ShardedEventBuffer \<Rightarrow> u32 list" where
  "buffer_PIDs sb = concat (map (\<lambda>shard. map fst (bs_buffers shard)) (sb_shards sb))"

definition buffer_Count :: "ShardedEventBuffer \<Rightarrow> nat" where
  "buffer_Count sb = sum_list (map (length \<circ> bs_buffers) (sb_shards sb))"

section \<open>Shard indices\<close>

lemma pow2_from_power: "\<exists>k. pow2_from n (2 ^ j) = 2 ^ (j + k)"
proof (induction n "2 ^ j :: nat" arbitrary: j rule: pow2_from.induct)
  case (1 n)
  show ?case
  proof (cases "(2 :: nat) ^ j < n")
    case True
    then have "pow2_from n (2 ^ j) = pow2_from n (2 ^ Suc j)" by (subst pow2_from.simps) simp
    with "1.hyps" [of "Suc j"] True obtain k where "pow2_from n (2 ^ j) = 2 ^ (Suc j + k)" by auto
    then show ?thesis by (intro exI [of _ "Suc k"]) simp
  next
    case False
    then show ?thesis by (intro exI [of _ 0], subst pow2_from.simps) simp
  qed
qed

lemma compute_shards_ok:
  assumes "compute_shards (2 ^ j) cpu gmp = (cnt, msk)" "j \<le> 8"
  shows "\<exists>k. j \<le> k \<and> k \<le> 8 \<and> cnt = 2 ^ k \<and> msk = Bit_Operations.mask k"
proof -
  define n where "n = max (2 ^ j) (max cpu gmp * 4)"
  obtain i where i: "pow2_from n (2 ^ j) = 2 ^ (j + i)" using pow2_from_power by blast
  define k where "k = min (j + i) 8"
  have "cnt = (if 2 ^ (j + i) > (256 :: nat) then 256 else 2 ^ (j + i))" "msk = word_of_nat (cnt - 1)"
    using assms(1) i by (auto simp: compute_shards_def n_def max_def Let_def split: if_splits)
  moreover have "(2 ^ (j + i) > (256 :: nat)) \<longleftrightarrow> 8 < j + i"
    using power_strict_increasing_iff [of "2 :: nat" 8 "j + i"] by simp
  ultimately have "cnt = 2 ^ k" by (auto simp: k_def min_def)
  then have "msk = Bit_Operations.mask k"
    using \<open>msk = _\<close> by (simp add: of_nat_diff mask_eq_exp_minus_1)
  with \<open>cnt = 2 ^ k\<close> assms(2) show ?thesis by (intro exI [of _ k]) (simp add: k_def)
qed

lemma shard_index_mask:
  "k < 32 \<Longrightarrow> shard_index (Bit_Operations.mask k) pid = unat pid mod 2 ^ k"
  by (simp add: shard_index_def unsigned_take_bit_eq flip: take_bit_eq_mask)
    (simp only: take_bit_eq_mod)

section \<open>A ring holds the last events\<close>

definition rb_ok :: "nat \<Rightarrow> ringBuffer \<Rightarrow> bool" where
  "rb_ok m rb \<longleftrightarrow> rb_size rb \<le> length (rb_events rb) \<and> length (rb_events rb) \<le> m \<and>
     (rb_size rb = m \<longrightarrow> rb_head rb < m)"

lemma grow_ring_ok:
  assumes "length evs < m"
  shows "length evs < length (grow_ring (int m) evs)" "length (grow_ring (int m) evs) \<le> m"
    "take (length evs) (grow_ring (int m) evs) = evs"
  using assms by (auto simp: grow_ring_def initialRingCapacity_def Let_def)

lemma ring_get_contents:
  "rb_ok m rb \<Longrightarrow> ring_get (int m) rb =
     (if rb_size rb < m then take (rb_size rb) (rb_events rb)
      else ring_list (rb_events rb) (rb_head rb) m)"
proof (cases "rb_size rb < m")
  case False
  assume "rb_ok m rb"
  with False have full: "rb_size rb = m" "length (rb_events rb) = m" "m = 0 \<or> rb_head rb < m"
    by (auto simp: rb_ok_def)
  then show ?thesis
    using ring_full [of "rb_head rb" "rb_events rb"] by (cases "m = 0") (auto simp: ring_get_def)
qed (auto simp: ring_get_def)

lemma ring_add_ok:
  assumes "0 < m" "rb_ok m rb"
  shows "\<exists>rb'. ring_add (int m) rb e = Some rb' \<and> rb_ok m rb' \<and>
    ring_get (int m) rb' = last_n m (ring_get (int m) rb @ [e])"
proof (cases "rb_size rb < m")
  case True
  define evs where "evs = (if rb_size rb = length (rb_events rb) then grow_ring (int m) (rb_events rb) else rb_events rb)"
  have evs: "rb_size rb < length evs" "length evs \<le> m" "take (rb_size rb) evs = take (rb_size rb) (rb_events rb)"
    using assms(2) True grow_ring_ok [of "rb_events rb" m] by (auto simp: evs_def rb_ok_def)
  let ?rb = "rb\<lparr>rb_events := evs[rb_size rb := e], rb_size := rb_size rb + 1, rb_head := (rb_size rb + 1) mod m\<rparr>"
  have add: "ring_add (int m) rb e = Some ?rb"
    using True evs(1) by (simp add: ring_add_def Let_def flip: evs_def)
  have ok: "rb_ok m ?rb" using evs(1,2) True by (simp add: rb_ok_def)
  have taken: "take (Suc (rb_size rb)) (evs[rb_size rb := e]) = take (rb_size rb) (rb_events rb) @ [e]"
    using evs by (simp add: take_Suc_conv_app_nth)
  have old: "ring_get (int m) rb = take (rb_size rb) (rb_events rb)"
    using ring_get_contents [OF assms(2)] True by simp
  have "ring_get (int m) ?rb = take (Suc (rb_size rb)) (evs[rb_size rb := e])"
  proof (cases "Suc (rb_size rb) < m")
    case False
    with True evs(1,2) have "Suc (rb_size rb) = m" "length evs = m" by simp_all
    then show ?thesis using ring_get_contents [OF ok] assms(1) ring_full [of 0 "evs[rb_size rb := e]"] by simp
  qed (use ring_get_contents [OF ok] in simp)
  moreover have "length (ring_get (int m) rb) < m" using old True by simp
  ultimately show ?thesis using add ok taken old by (simp add: last_n_all)
next
  case False
  with assms(2) have full: "rb_size rb = m" "length (rb_events rb) = m" "rb_head rb < m"
    by (simp_all add: rb_ok_def)
  let ?rb = "rb\<lparr>rb_events := (rb_events rb)[rb_head rb := e], rb_head := (rb_head rb + 1) mod m\<rparr>"
  have add: "ring_add (int m) rb e = Some ?rb" using full assms(1) by (simp add: ring_add_def)
  have ok: "rb_ok m ?rb" using full assms(1) by (simp add: rb_ok_def)
  have "ring_get (int m) ?rb = tl (ring_list (rb_events rb) (rb_head rb) m) @ [e]"
    using ring_get_contents [OF ok] full ring_overwrite [of "rb_head rb" "rb_events rb" e] by simp
  also have "\<dots> = last_n m (ring_get (int m) rb @ [e])"
    using ring_get_contents [OF assms(2)] full assms(1) by (simp add: last_n_def drop_Suc)
  finally show ?thesis using add ok by simp
qed

interpretation event_ring: bounded_log rb_ok "\<lambda>m. ring_get (int m)" "\<lambda>m. ring_add (int m)" empty_ring
proof
  show "rb_ok m empty_ring \<and> ring_get (int m) empty_ring = []" if "0 < m" for m
    using that by (simp add: rb_ok_def empty_ring_def ring_get_def)
qed (rule ring_add_ok)

lemma ring_get_recent_last:
  assumes "rb_ok m rb" "0 < n"
  shows "ring_get_recent (int m) rb n = last_n (nat n) (ring_get (int m) rb)"
proof -
  let ?h = "rb_head rb" and ?evs = "rb_events rb" and ?n = "nat n"
  consider (empty) "?evs = [] \<or> rb_size rb = 0" | (all) "rb_size rb \<noteq> 0" "?evs \<noteq> []" "int (rb_size rb) \<le> n"
    | (filling) "?evs \<noteq> []" "n < int (rb_size rb)" "rb_size rb < m"
    | (full) "?evs \<noteq> []" "n < int (rb_size rb)" "rb_size rb = m"
    using assms(1) by (force simp: rb_ok_def)
  then show ?thesis
  proof cases
    case empty
    then show ?thesis by (auto simp: ring_get_recent_def ring_get_def last_n_def)
  next
    case all
    have "length (ring_get (int m) rb) = rb_size rb"
      using assms(1) by (auto simp: ring_get_contents rb_ok_def)
    with all show ?thesis by (simp add: ring_get_recent_def last_n_all)
  next
    case filling
    with assms show ?thesis
      by (simp add: ring_get_recent_def ring_get_contents last_n_def rb_ok_def drop_take)
  next
    case full
    then have len: "length ?evs = m" and h: "?h < m" and n: "?n < m"
      using assms by (auto simp: rb_ok_def)
    have get: "ring_get (int m) rb = drop ?h ?evs @ take ?h ?evs"
      using full assms(1) len h ring_full [of ?h ?evs] by (simp add: ring_get_contents)
    have run: "ring_get_recent (int m) rb n = (let start = (?h + m - ?n) mod m
        in if start + ?n \<le> m then take ?n (drop start ?evs)
           else drop start ?evs @ take (?n - (m - start)) ?evs)"
      using full len n by (simp add: ring_get_recent_def Let_def)
    show ?thesis
    proof (cases "?n \<le> ?h")
      case True
      then have "?h + m - ?n = (?h - ?n) + m" by simp
      then have start: "(?h + m - ?n) mod m = ?h - ?n"
        using h by (metis mod_add_self2 mod_less less_imp_diff_less)
      have "last_n ?n (drop ?h ?evs @ take ?h ?evs) = drop (?h - ?n) (take ?h ?evs)"
        using True len h by (simp add: last_n_def)
      with True len h show ?thesis by (simp add: run get start drop_take)
    next
      case False
      then have start: "(?h + m - ?n) mod m = ?h + m - ?n" using n by simp
      have "last_n ?n (drop ?h ?evs @ take ?h ?evs) = drop (?h + m - ?n) ?evs @ take ?h ?evs"
        using False len h n by (simp add: last_n_def add.commute)
      moreover have "?n - (m - (?h + m - ?n)) = ?h" using False n by simp
      ultimately show ?thesis using False len n by (cases "?h = 0") (simp_all add: run get start)
    qed
  qed
qed

section \<open>The buffer is a bounded history per process\<close>

text \<open>
  The specification keeps, for each process that is not forgotten, everything it did and when it was
  last seen.
\<close>

datatype buffer_action =
  AddEvent time u32 event
| RemovePID u32
| ClearAll
| Expire time duration

fun spec_op :: "buffer_action \<Rightarrow> (u32 \<rightharpoonup> event list \<times> time) \<Rightarrow> (u32 \<rightharpoonup> event list \<times> time)" where
  "spec_op (AddEvent now pid e) h =
     h(pid \<mapsto> ((case h pid of None \<Rightarrow> [] | Some (es, _) \<Rightarrow> es) @ [e], now))"
| "spec_op (RemovePID pid) h = h(pid := None)"
| "spec_op ClearAll h = Map.empty"
| "spec_op (Expire now ttl) h = (\<lambda>pid. case h pid of None \<Rightarrow> None
     | Some (es, seen) \<Rightarrow> if seen < now - ttl then None else Some (es, seen))"

fun buffer_op :: "buffer_action \<Rightarrow> ShardedEventBuffer \<Rightarrow> ShardedEventBuffer option" where
  "buffer_op (AddEvent now pid e) sb = buffer_Add now pid e sb"
| "buffer_op (RemovePID pid) sb = buffer_Remove pid sb"
| "buffer_op ClearAll sb = Some (buffer_Clear sb)"
| "buffer_op (Expire now ttl) sb = Some (snd (buffer_CleanupExpired now ttl sb))"

fun buffer_ops :: "buffer_action list \<Rightarrow> ShardedEventBuffer \<Rightarrow> ShardedEventBuffer option" where
  "buffer_ops [] sb = Some sb"
| "buffer_ops (op # ops) sb = Option.bind (buffer_op op sb) (buffer_ops ops)"

definition shard_holds :: "nat \<Rightarrow> (u32 \<rightharpoonup> event list \<times> time) \<Rightarrow> u32 \<Rightarrow> eventBufferShard \<Rightarrow> bool" where
  "shard_holds m h pid sh \<longleftrightarrow>
     (case h pid of
        None \<Rightarrow> map_of (bs_buffers sh) pid = None \<and> map_of (bs_lastSeen sh) pid = None
      | Some (es, seen) \<Rightarrow> map_of (bs_lastSeen sh) pid = Some seen \<and>
          (\<exists>rb. map_of (bs_buffers sh) pid = Some rb \<and> event_ring.holds m es rb))"

definition shard_ok :: "nat \<Rightarrow> (u32 \<rightharpoonup> event list \<times> time) \<Rightarrow> (u32 \<Rightarrow> bool) \<Rightarrow> eventBufferShard \<Rightarrow> bool" where
  "shard_ok m h mine sh \<longleftrightarrow> distinct_keys (bs_buffers sh) \<and> distinct_keys (bs_lastSeen sh) \<and>
     (\<forall>pid. if mine pid then shard_holds m h pid sh else shard_holds m Map.empty pid sh)"

definition buffer_inv :: "nat \<Rightarrow> (u32 \<rightharpoonup> event list \<times> time) \<Rightarrow> ShardedEventBuffer \<Rightarrow> bool" where
  "buffer_inv m h sb \<longleftrightarrow> 0 < m \<and> sb_maxSize sb = int m \<and>
     (\<forall>pid. shard_index (sb_mask sb) pid < length (sb_shards sb)) \<and>
     (\<forall>i<length (sb_shards sb). shard_ok m h (\<lambda>pid. shard_index (sb_mask sb) pid = i) (sb_shards sb ! i))"

lemma shard_holds_cong:
  "h' pid = h pid \<Longrightarrow> map_of (bs_buffers sh') pid = map_of (bs_buffers sh) pid \<Longrightarrow>
   map_of (bs_lastSeen sh') pid = map_of (bs_lastSeen sh) pid \<Longrightarrow>
   shard_holds m h' pid sh' = shard_holds m h pid sh"
  by (cases "h pid") (auto simp: shard_holds_def)

lemma shard_ok_cong:
  "shard_ok m h mine sh \<Longrightarrow> (\<And>pid. mine pid \<Longrightarrow> h' pid = h pid) \<Longrightarrow> shard_ok m h' mine sh"
  using shard_holds_cong [of h' _ h sh sh m] by (simp add: shard_ok_def)

lemma new_buffer_inv:
  assumes "0 < maxSize"
  shows "buffer_inv (nat maxSize) Map.empty (NewShardedEventBuffer cpu gmp maxSize)"
proof -
  obtain cnt msk where c: "computeBufferShards cpu gmp = (cnt, msk)" by (cases "computeBufferShards cpu gmp")
  with compute_shards_ok [of 2 cpu gmp cnt msk] obtain k where "k \<le> 8" "cnt = 2 ^ k" "msk = mask k"
    by (auto simp: computeBufferShards_def)
  with c assms show ?thesis
    by (simp add: buffer_inv_def NewShardedEventBuffer_def shard_index_mask shard_ok_def shard_holds_def
        empty_shard_def)
qed

text \<open>An operation on one process touches its own shard only.\<close>

lemma buffer_inv_update:
  assumes inv: "buffer_inv m h sb" and i: "i = shard_index (sb_mask sb) pid"
    and same: "\<And>p. p \<noteq> pid \<Longrightarrow> h' p = h p"
    and sh: "distinct_keys (bs_buffers sh')" "distinct_keys (bs_lastSeen sh')"
    and other: "\<And>p. p \<noteq> pid \<Longrightarrow> map_of (bs_buffers sh') p = map_of (bs_buffers (sb_shards sb ! i)) p"
      "\<And>p. p \<noteq> pid \<Longrightarrow> map_of (bs_lastSeen sh') p = map_of (bs_lastSeen (sb_shards sb ! i)) p"
    and new: "shard_holds m h' pid sh'"
  shows "buffer_inv m h' (sb\<lparr>sb_shards := (sb_shards sb)[i := sh']\<rparr>)"
  unfolding buffer_inv_def
proof (intro conjI allI impI)
  have li: "i < length (sb_shards sb)" using inv i by (simp add: buffer_inv_def)
  then have oki: "shard_ok m h (\<lambda>p. shard_index (sb_mask sb) p = i) (sb_shards sb ! i)"
    using inv by (simp add: buffer_inv_def)
  fix j assume "j < length (sb_shards (sb\<lparr>sb_shards := (sb_shards sb)[i := sh']\<rparr>))"
  then have j: "j < length (sb_shards sb)" by simp
  then have okj: "shard_ok m h (\<lambda>p. shard_index (sb_mask sb) p = j) (sb_shards sb ! j)"
    using inv by (simp add: buffer_inv_def)
  have "shard_ok m h' (\<lambda>p. shard_index (sb_mask sb) p = j) ((sb_shards sb)[i := sh'] ! j)"
  proof (cases "j = i")
    case True
    have "if shard_index (sb_mask sb) p = i then shard_holds m h' p sh' else shard_holds m Map.empty p sh'" for p
    proof (cases "p = pid")
      case False
      then have "shard_holds m h' p sh' = shard_holds m h p (sb_shards sb ! i)"
        "shard_holds m Map.empty p sh' = shard_holds m Map.empty p (sb_shards sb ! i)"
        by (intro shard_holds_cong; simp add: same other)+
      with oki show ?thesis by (simp add: shard_ok_def)
    qed (use new i in simp)
    with True li sh show ?thesis by (simp add: shard_ok_def)
  next
    case False
    have "h' p = h p" if "shard_index (sb_mask sb) p = j" for p
      using that False i same by metis
    from shard_ok_cong [OF okj this] False show ?thesis by simp
  qed
  then show "shard_ok m h' (\<lambda>p. shard_index (sb_mask (sb\<lparr>sb_shards := (sb_shards sb)[i := sh']\<rparr>)) p = j)
      (sb_shards (sb\<lparr>sb_shards := (sb_shards sb)[i := sh']\<rparr>) ! j)" by simp
qed (use inv in \<open>simp_all add: buffer_inv_def\<close>)

lemma buffer_inv_shard:
  assumes "buffer_inv m h sb"
  shows "shard_index (sb_mask sb) pid < length (sb_shards sb)"
    and "shard_holds m h pid (sb_shards sb ! shard_index (sb_mask sb) pid)"
    and "distinct_keys (bs_buffers (sb_shards sb ! shard_index (sb_mask sb) pid))"
    and "distinct_keys (bs_lastSeen (sb_shards sb ! shard_index (sb_mask sb) pid))"
  using assms by (auto simp: buffer_inv_def shard_ok_def)

lemma ring_of_holds:
  assumes "0 < m" "shard_holds m h pid sh"
  shows "event_ring.holds m (case h pid of None \<Rightarrow> [] | Some (es, _) \<Rightarrow> es) (ring_of sh pid)"
  using assms event_ring.holds_empty [of m]
  by (auto simp: shard_holds_def ring_of_def split: option.splits prod.splits)

lemma Add_inv:
  assumes "buffer_inv m h sb"
  shows "\<exists>sb'. buffer_Add now pid e sb = Some sb' \<and> buffer_inv m (spec_op (AddEvent now pid e) h) sb'"
proof -
  let ?i = "shard_index (sb_mask sb) pid"
  let ?sh = "sb_shards sb ! ?i"
  note s = buffer_inv_shard [OF assms, of pid]
  have m: "0 < m" "sb_maxSize sb = int m" using assms by (simp_all add: buffer_inv_def)
  obtain rb where rb: "ring_add (int m) (ring_of ?sh pid) e = Some rb"
      "event_ring.holds m ((case h pid of None \<Rightarrow> [] | Some (es, _) \<Rightarrow> es) @ [e]) rb"
    using event_ring.holds_append [OF m(1) ring_of_holds [OF m(1) s(2)]] by blast
  let ?sh' = "?sh\<lparr>bs_lastSeen := AList.update pid now (bs_lastSeen ?sh),
      bs_buffers := AList.update pid rb (bs_buffers ?sh)\<rparr>"
  have "buffer_Add now pid e sb = Some (sb\<lparr>sb_shards := (sb_shards sb)[?i := ?sh']\<rparr>)"
    using s(1) m(2) rb(1) by (simp add: buffer_Add_def bufferShardIdx_def Let_def)
  moreover have "buffer_inv m (spec_op (AddEvent now pid e) h) (sb\<lparr>sb_shards := (sb_shards sb)[?i := ?sh']\<rparr>)"
    by (rule buffer_inv_update [OF assms refl]) (use s rb(2) in \<open>simp_all add: shard_holds_def\<close>)
  ultimately show ?thesis by blast
qed

lemma Remove_inv:
  assumes "buffer_inv m h sb"
  shows "\<exists>sb'. buffer_Remove pid sb = Some sb' \<and> buffer_inv m (spec_op (RemovePID pid) h) sb'"
proof -
  let ?i = "shard_index (sb_mask sb) pid"
  let ?sh = "sb_shards sb ! ?i"
  let ?sh' = "?sh\<lparr>bs_buffers := AList.delete pid (bs_buffers ?sh),
      bs_lastSeen := AList.delete pid (bs_lastSeen ?sh)\<rparr>"
  note s = buffer_inv_shard [OF assms, of pid]
  have "buffer_Remove pid sb = Some (sb\<lparr>sb_shards := (sb_shards sb)[?i := ?sh']\<rparr>)"
    using s(1) by (simp add: buffer_Remove_def bufferShardIdx_def Let_def)
  moreover have "buffer_inv m (spec_op (RemovePID pid) h) (sb\<lparr>sb_shards := (sb_shards sb)[?i := ?sh']\<rparr>)"
    by (rule buffer_inv_update [OF assms refl]) (use s in \<open>simp_all add: shard_holds_def\<close>)
  ultimately show ?thesis by blast
qed

lemma Clear_inv: "buffer_inv m h sb \<Longrightarrow> buffer_inv m Map.empty (buffer_Clear sb)"
  by (simp add: buffer_inv_def buffer_Clear_def shard_ok_def shard_holds_def empty_shard_def)

lemma expire_shard_holds:
  assumes "distinct_keys (bs_lastSeen sh)" "shard_holds m h pid sh"
  shows "shard_holds m (spec_op (Expire now ttl) h) pid (snd (expire_shard (now - ttl) sh))"
proof -
  have "pid \<in> set (map fst (filter (\<lambda>(pid, ts). ts < now - ttl) (bs_lastSeen sh))) \<longleftrightarrow>
      (\<exists>ts. map_of (bs_lastSeen sh) pid = Some ts \<and> ts < now - ttl)"
    using assms(1) by (force simp: map_of_eq_Some_iff)
  with assms(2) show ?thesis
    by (auto simp: expire_shard_def Let_def shard_holds_def map_of_fold_delete split: option.splits)
qed

lemma Expire_inv:
  assumes "buffer_inv m h sb"
  shows "buffer_inv m (spec_op (Expire now ttl) h) (snd (buffer_CleanupExpired now ttl sb))"
proof -
  have "shard_ok m (spec_op (Expire now ttl) h) mine (snd (expire_shard (now - ttl) sh))"
    if "shard_ok m h mine sh" for mine sh
  proof -
    have "spec_op (Expire now ttl) Map.empty = Map.empty" by (simp add: fun_eq_iff)
    with that expire_shard_holds [of sh m h _ now ttl] expire_shard_holds [of sh m Map.empty _ now ttl]
    show ?thesis
      unfolding shard_ok_def
      by (auto simp: expire_shard_def Let_def intro!: distinct_keys_fold_delete simp del: spec_op.simps)
  qed
  with assms show ?thesis
    by (simp add: buffer_inv_def buffer_CleanupExpired_def Let_def del: spec_op.simps)
qed

lemma buffer_op_inv:
  assumes "buffer_inv m h sb"
  shows "\<exists>sb'. buffer_op act sb = Some sb' \<and> buffer_inv m (spec_op act h) sb'"
proof (cases act)
  case (AddEvent now pid e)
  then show ?thesis using Add_inv [OF assms] by (simp only: buffer_op.simps)
next
  case (RemovePID pid)
  then show ?thesis using Remove_inv [OF assms] by (simp only: buffer_op.simps)
next
  case ClearAll
  then show ?thesis using Clear_inv [OF assms] by simp
next
  case (Expire now ttl)
  then show ?thesis using Expire_inv [OF assms] by (simp only: buffer_op.simps option.inject ex_simps) blast
qed

lemma buffer_ops_inv:
  "buffer_inv m h sb \<Longrightarrow> \<exists>sb'. buffer_ops acts sb = Some sb' \<and> buffer_inv m (fold spec_op acts h) sb'"
proof (induction acts arbitrary: h sb)
  case (Cons act acts)
  from buffer_op_inv [OF Cons.prems, of act] obtain sb' where
    "buffer_op act sb = Some sb'" "buffer_inv m (spec_op act h) sb'" by blast
  with Cons.IH show ?case by simp
qed simp

lemma buffer_inv_Get:
  assumes "buffer_inv m h sb"
  shows "buffer_Get pid sb = Some (last_n m (case h pid of None \<Rightarrow> [] | Some (es, _) \<Rightarrow> es))"
    and "buffer_GetRecent pid n sb =
      Some (last_n (nat n) (last_n m (case h pid of None \<Rightarrow> [] | Some (es, _) \<Rightarrow> es)))"
proof -
  let ?rb = "ring_of (sb_shards sb ! shard_index (sb_mask sb) pid) pid"
  note s = buffer_inv_shard [OF assms, of pid]
  have m: "0 < m" "sb_maxSize sb = int m" using assms by (simp_all add: buffer_inv_def)
  have holds: "rb_ok m ?rb" "ring_get (int m) ?rb = last_n m (case h pid of None \<Rightarrow> [] | Some (es, _) \<Rightarrow> es)"
    using ring_of_holds [OF m(1) s(2)] by (simp_all add: event_ring.holds_def)
  show "buffer_Get pid sb = Some (last_n m (case h pid of None \<Rightarrow> [] | Some (es, _) \<Rightarrow> es))"
    using s(1) m holds by (simp add: buffer_Get_def bufferShardIdx_def)
  show "buffer_GetRecent pid n sb =
      Some (last_n (nat n) (last_n m (case h pid of None \<Rightarrow> [] | Some (es, _) \<Rightarrow> es)))"
    using s(1) m holds ring_get_recent_last [OF holds(1), of n]
    by (simp add: buffer_GetRecent_def bufferShardIdx_def last_n_def)
qed

lemma buffer_inv_keys:
  assumes "buffer_inv m h sb" "i < length (sb_shards sb)"
  shows "pid \<in> fst ` set (bs_buffers (sb_shards sb ! i)) \<longleftrightarrow> h pid \<noteq> None \<and> shard_index (sb_mask sb) pid = i"
proof -
  have "if shard_index (sb_mask sb) pid = i then shard_holds m h pid (sb_shards sb ! i)
      else shard_holds m Map.empty pid (sb_shards sb ! i)"
    using assms by (simp add: buffer_inv_def shard_ok_def)
  moreover have "pid \<in> fst ` set (bs_buffers (sb_shards sb ! i)) \<longleftrightarrow>
      map_of (bs_buffers (sb_shards sb ! i)) pid \<noteq> None"
    by (simp add: map_of_eq_None_iff)
  ultimately show ?thesis
    by (cases "h pid") (auto simp: shard_holds_def split: if_splits)
qed

lemma distinct_concat_nth:
  "(\<And>i. i < length xss \<Longrightarrow> distinct (xss ! i)) \<Longrightarrow>
   (\<And>i j x. i < length xss \<Longrightarrow> j < length xss \<Longrightarrow> x \<in> set (xss ! i) \<Longrightarrow> x \<in> set (xss ! j) \<Longrightarrow> i = j) \<Longrightarrow>
   distinct (concat xss)"
proof (induction xss)
  case (Cons xs xss)
  have "distinct xs" using Cons.prems(1) [of 0] by simp
  moreover have "distinct (concat xss)"
  proof (rule Cons.IH)
    show "distinct (xss ! i)" if "i < length xss" for i using Cons.prems(1) [of "Suc i"] that by simp
    show "i = j" if "i < length xss" "j < length xss" "x \<in> set (xss ! i)" "x \<in> set (xss ! j)" for i j x
      using Cons.prems(2) [of "Suc i" "Suc j" x] that by simp
  qed
  moreover have "set xs \<inter> set (concat xss) = {}"
  proof -
    have False if "x \<in> set xs" "j < length xss" "x \<in> set (xss ! j)" for x j
      using Cons.prems(2) [of 0 "Suc j" x] that by simp
    then show ?thesis by (auto simp: in_set_conv_nth [of _ xss])
  qed
  ultimately show ?case by simp
qed simp

lemma buffer_inv_PIDs:
  assumes "buffer_inv m h sb"
  shows "set (buffer_PIDs sb) = dom h" "distinct (buffer_PIDs sb)" "buffer_Count sb = card (dom h)"
proof -
  show set: "set (buffer_PIDs sb) = dom h"
  proof (intro set_eqI iffI)
    fix pid assume "pid \<in> set (buffer_PIDs sb)"
    then obtain sh where sh: "sh \<in> set (sb_shards sb)" "pid \<in> fst ` set (bs_buffers sh)"
      by (auto simp: buffer_PIDs_def)
    then obtain i where "i < length (sb_shards sb)" "pid \<in> fst ` set (bs_buffers (sb_shards sb ! i))"
      by (auto simp: in_set_conv_nth [of sh])
    with buffer_inv_keys [OF assms] show "pid \<in> dom h" by auto
  next
    fix pid assume "pid \<in> dom h"
    with buffer_inv_keys [OF assms buffer_inv_shard(1) [OF assms], of pid pid] buffer_inv_shard(1) [OF assms, of pid]
    show "pid \<in> set (buffer_PIDs sb)"
      by (auto simp: buffer_PIDs_def intro!: bexI [of _ "sb_shards sb ! shard_index (sb_mask sb) pid"])
  qed
  have "distinct (concat (map (\<lambda>shard. map fst (bs_buffers shard)) (sb_shards sb)))"
  proof (rule distinct_concat_nth)
    fix i assume "i < length (map (\<lambda>shard. map fst (bs_buffers shard)) (sb_shards sb))"
    then show "distinct (map (\<lambda>shard. map fst (bs_buffers shard)) (sb_shards sb) ! i)"
      using assms by (simp add: buffer_inv_def shard_ok_def)
  qed (use buffer_inv_keys [OF assms] in \<open>simp; metis\<close>)
  then show d: "distinct (buffer_PIDs sb)" by (simp add: buffer_PIDs_def)
  have "buffer_Count sb = length (buffer_PIDs sb)"
    by (simp add: buffer_Count_def buffer_PIDs_def length_concat comp_def)
  with set d show "buffer_Count sb = card (dom h)" by (metis distinct_card)
qed

text \<open>
  C7 (refinement).  The sharded buffer implements a bounded history per process: after any sequence of
  additions, removals, clears and expiries it has not panicked, whatever the number of processors;
  \<open>Get\<close> returns the last \<open>maxSize\<close> events added since the process was last forgotten, oldest first,
  \<open>GetRecent\<close> the last \<open>n\<close> of these; \<open>PIDs\<close> lists exactly the remembered processes, each once, and \<open>Count\<close>
  is their number.
\<close>

theorem event_buffer_refines_history:
  assumes "0 < maxSize"
  shows "\<exists>sb. buffer_ops acts (NewShardedEventBuffer cpu gmp maxSize) = Some sb \<and>
    (\<forall>pid n. let es = (case fold spec_op acts Map.empty pid of None \<Rightarrow> [] | Some (es, _) \<Rightarrow> es)
       in buffer_Get pid sb = Some (last_n (nat maxSize) es) \<and>
          buffer_GetRecent pid n sb = Some (last_n (nat n) (last_n (nat maxSize) es))) \<and>
    set (buffer_PIDs sb) = dom (fold spec_op acts Map.empty) \<and> distinct (buffer_PIDs sb) \<and>
    buffer_Count sb = card (dom (fold spec_op acts Map.empty))"
proof -
  from buffer_ops_inv [OF new_buffer_inv [OF assms], of acts cpu gmp] obtain sb where
    sb: "buffer_ops acts (NewShardedEventBuffer cpu gmp maxSize) = Some sb"
      "buffer_inv (nat maxSize) (fold spec_op acts Map.empty) sb" by blast
  with buffer_inv_Get [OF sb(2)] buffer_inv_PIDs [OF sb(2)] show ?thesis by (simp add: Let_def)
qed

theorem event_buffer_refines_history_witness:
  "\<exists>sb. buffer_ops [AddEvent 0 7 zero_event, AddEvent 1 7 zero_event] (NewShardedEventBuffer 8 8 1) = Some sb \<and>
     buffer_Get 7 sb = Some [zero_event] \<and> buffer_Count sb = 1"
  using event_buffer_refines_history [of 1 "[AddEvent 0 7 zero_event, AddEvent 1 7 zero_event]" 8 8]
  by (auto simp: Let_def last_n_def)

text \<open>
  On every machine the number of shards is a power of two between 4 (for the locks 16)
  and 256, and masking a process ID is its residue, so that an index is in range and no shard is idle.
\<close>

theorem shard_counts:
  assumes "computeBufferShards cpu gmp = (cnt, msk)" "computeLockShards cpu gmp = (lcnt, lmsk)"
  shows "4 \<le> cnt \<and> cnt \<le> 256 \<and> (\<exists>k. cnt = 2 ^ k) \<and> shard_index msk pid = unat pid mod cnt \<and>
    16 \<le> lcnt \<and> lcnt \<le> 256 \<and> (\<exists>k. lcnt = 2 ^ k) \<and> shard_index lmsk pid = unat pid mod lcnt"
proof -
  obtain k where k: "2 \<le> k" "k \<le> 8" "cnt = 2 ^ k" "msk = mask k"
    using compute_shards_ok [of 2 cpu gmp cnt msk] assms(1) by (auto simp: computeBufferShards_def)
  obtain l where l: "4 \<le> l" "l \<le> 8" "lcnt = 2 ^ l" "lmsk = mask l"
    using compute_shards_ok [of 4 cpu gmp lcnt lmsk] assms(2) by (auto simp: computeLockShards_def)
  have "(2 :: nat) ^ 2 \<le> 2 ^ k" "(2 :: nat) ^ k \<le> 2 ^ 8" "(2 :: nat) ^ 4 \<le> 2 ^ l" "(2 :: nat) ^ l \<le> 2 ^ 8"
    using k l by (simp_all only: power_increasing_iff)
  with k l show ?thesis by (auto simp: shard_index_mask)
qed

theorem shard_counts_witness:
  "shard_index 31 100 = 4 \<and> computeBufferShards 8 2 = (32, 31) \<and> computeLockShards 8 2 = (32, 31)"
proof -
  have "pow2_from 32 4 = 32" "pow2_from 32 16 = 32"
    by (simp_all add: pow2_from.simps [of 32 4] pow2_from.simps [of 32 8] pow2_from.simps [of 32 16]
        pow2_from.simps [of 32 32])
  then have c: "computeBufferShards 8 2 = (32, 31)" "computeLockShards 8 2 = (32, 31)"
    by (simp_all add: computeBufferShards_def computeLockShards_def compute_shards_def)
  with shard_counts [OF c, of 100] show ?thesis by simp
qed

end
