(* ===== verification/Sharded_Maps.thy ===== *)
theory Sharded_Maps
  imports Event_Buffer
begin

text \<open>
  The sharded time-stamp maps (\<open>correlator/sharded_maps.go\<close>): enforcement cooldowns per rule and
  process, and the deduplication window per rule, process and command.  Both keep a running total and
  evict the oldest entry of the target shard once the total reaches a cap.  The order of a shard's list
  is the iteration order of its map; an operation on a shard is one step.
\<close>

section \<open>Shards of time stamps\<close>

record 'k stamp_shards =
  ss_shards :: "('k \<times> time) list list"
  ss_mask :: u32
  ss_total :: int

definition new_shards :: "nat \<Rightarrow> nat \<Rightarrow> 'k stamp_shards" where
  "new_shards numCPU gomaxprocs =
     (case computeLockShards numCPU gomaxprocs of (cnt, msk) \<Rightarrow>
        \<lparr>ss_shards = replicate cnt [], ss_mask = msk, ss_total = 0\<rparr>)"

fun oldest_from :: "'k \<times> time \<Rightarrow> ('k \<times> time) list \<Rightarrow> 'k \<times> time" where
  "oldest_from best [] = best"
| "oldest_from best ((k, t) # m) = oldest_from (if t < snd best then (k, t) else best) m"

definition oldest_key :: "('k \<times> time) list \<Rightarrow> 'k option" where
  "oldest_key m = (case m of [] \<Rightarrow> None | kt # m' \<Rightarrow> Some (fst (oldest_from kt m')))"

definition stamp :: "int \<Rightarrow> nat \<Rightarrow> 'k \<Rightarrow> time \<Rightarrow> 'k stamp_shards \<Rightarrow> 'k stamp_shards" where
  "stamp cap i key now ss =
     (let m = ss_shards ss ! i;
          isNew = (map_of m key = None);
          (m, total) = (if isNew \<and> cap \<le> ss_total ss
             then case oldest_key m of
                 None \<Rightarrow> (m, ss_total ss)
               | Some oldest \<Rightarrow> (AList.delete oldest m, ss_total ss - 1)
             else (m, ss_total ss));
          total = (if isNew then total + 1 else total)
      in ss\<lparr>ss_shards := (ss_shards ss)[i := AList.update key now m], ss_total := total\<rparr>)"

definition drop_before :: "time \<Rightarrow> 'k stamp_shards \<Rightarrow> 'k stamp_shards" where
  "drop_before cutoff ss =
     (let kept = map (filter (\<lambda>(k, t). \<not> t < cutoff)) (ss_shards ss);
          removed = sum_list (map (\<lambda>m. length (filter (\<lambda>(k, t). t < cutoff) m)) (ss_shards ss))
      in ss\<lparr>ss_shards := kept, ss_total := ss_total ss - int removed\<rparr>)"

section \<open>Cooldowns\<close>

type_synonym cooldownKey = "string \<times> u32"

type_synonym shardedCooldowns = "cooldownKey stamp_shards"

definition MaxCooldownEntries :: int where
  "MaxCooldownEntries = 1000000"

definition newShardedCooldowns :: "nat \<Rightarrow> nat \<Rightarrow> shardedCooldowns" where
  "newShardedCooldowns = new_shards"

definition cooldowns_Size :: "shardedCooldowns \<Rightarrow> int" where
  "cooldowns_Size sc = ss_total sc"

definition tryAcquire :: "string \<Rightarrow> u32 \<Rightarrow> duration \<Rightarrow> time \<Rightarrow> shardedCooldowns \<Rightarrow> (bool \<times> shardedCooldowns) option" where
  "tryAcquire ruleID pid cooldown now sc =
     (let key = (ruleID, pid);
          i = shard_index (ss_mask sc) pid
      in if i < length (ss_shards sc) then
           case map_of (ss_shards sc ! i) key of
             Some prev \<Rightarrow> if time_sub now prev < cooldown then Some (False, sc)
               else Some (True, stamp MaxCooldownEntries i key now sc)
           | None \<Rightarrow> Some (True, stamp MaxCooldownEntries i key now sc)
         else None)"

definition cooldowns_cleanup :: "time \<Rightarrow> shardedCooldowns \<Rightarrow> shardedCooldowns" where
  "cooldowns_cleanup = drop_before"

section \<open>Deduplication\<close>

type_synonym dedupKey = "string \<times> u32 \<times> string"

record shardedDedup =
  sd_map :: "dedupKey stamp_shards"
  sd_window :: duration

definition MaxDedupEntries :: int where
  "MaxDedupEntries = 1000000"

definition newShardedDedup :: "nat \<Rightarrow> nat \<Rightarrow> duration \<Rightarrow> shardedDedup" where
  "newShardedDedup numCPU gomaxprocs window = \<lparr>sd_map = new_shards numCPU gomaxprocs, sd_window = window\<rparr>"

definition dedup_Size :: "shardedDedup \<Rightarrow> int" where
  "dedup_Size sd = ss_total (sd_map sd)"

definition dedup_check :: "time \<Rightarrow> string \<Rightarrow> u32 \<Rightarrow> string \<Rightarrow> shardedDedup \<Rightarrow> bool option" where
  "dedup_check now ruleID pid comm sd =
     (let cutoff = now - sd_window sd;
          i = shard_index (ss_mask (sd_map sd)) pid
      in if i < length (ss_shards (sd_map sd)) then
           Some (case map_of (ss_shards (sd_map sd) ! i) (ruleID, pid, comm) of
             Some prev \<Rightarrow> prev > cutoff | None \<Rightarrow> False)
         else None)"

definition dedup_mark :: "string \<Rightarrow> u32 \<Rightarrow> string \<Rightarrow> time \<Rightarrow> shardedDedup \<Rightarrow> shardedDedup option" where
  "dedup_mark ruleID pid comm now sd =
     (let i = shard_index (ss_mask (sd_map sd)) pid
      in if i < length (ss_shards (sd_map sd)) then
           Some (sd\<lparr>sd_map := stamp MaxDedupEntries i (ruleID, pid, comm) now (sd_map sd)\<rparr>)
         else None)"

definition dedup_cleanup :: "time \<Rightarrow> shardedDedup \<Rightarrow> shardedDedup" where
  "dedup_cleanup cutoff sd = sd\<lparr>sd_map := drop_before cutoff (sd_map sd)\<rparr>"

section \<open>The running total\<close>

definition occupied :: "'k stamp_shards \<Rightarrow> nat" where
  "occupied ss = length (filter (\<lambda>m. m \<noteq> []) (ss_shards ss))"

definition entries :: "'k stamp_shards \<Rightarrow> nat" where
  "entries ss = sum_list (map length (ss_shards ss))"

definition stamps_ok :: "int \<Rightarrow> 'k stamp_shards \<Rightarrow> bool" where
  "stamps_ok cap ss \<longleftrightarrow> list_all distinct_keys (ss_shards ss) \<and> ss_total ss = int (entries ss) \<and>
     ss_total ss \<le> cap + int (occupied ss) \<and> length (ss_shards ss) \<le> 256 \<and>
     (\<forall>pid. shard_index (ss_mask ss) pid < length (ss_shards ss))"

lemma oldest_from_in: "oldest_from b m \<in> set (b # m)"
  by (induction b m rule: oldest_from.induct) (auto split: if_splits)

lemma oldest_from_least: "snd (oldest_from b m) \<le> snd b \<and> (\<forall>kt\<in>set m. snd (oldest_from b m) \<le> snd kt)"
  by (induction b m rule: oldest_from.induct) (auto split: if_splits)

lemma oldest_key_in: "oldest_key m = Some k \<Longrightarrow> k \<in> fst ` set m"
  using oldest_from_in [of "hd m" "tl m"]
  by (auto simp: oldest_key_def simp del: set_simps split: list.splits intro!: imageI)

lemma oldest_key_None [simp]: "oldest_key m = None \<longleftrightarrow> m = []"
  by (auto simp: oldest_key_def split: list.splits)

lemma length_delete_alist:
  "distinct_keys al \<Longrightarrow> length (AList.delete k al) = (if k \<in> fst ` set al then length al - 1 else length al)"
proof (induction al)
  case (Cons kv al)
  then show ?case by (cases kv) (auto simp: AList.delete_eq filter_id_conv split: if_splits; cases al; auto)
qed simp

lemma sum_list_length_update:
  "i < length mss \<Longrightarrow> int (sum_list (map length (mss[i := m]))) =
     int (sum_list (map length mss)) - int (length (mss ! i)) + int (length m)"
  by (induction mss arbitrary: i) (auto split: nat.splits)

lemma length_filter_update:
  "i < length xs \<Longrightarrow> int (length (filter P (xs[i := x]))) =
     int (length (filter P xs)) - (if P (xs ! i) then 1 else 0) + (if P x then 1 else 0)"
  by (subst (2) id_take_nth_drop [of i xs]) (simp_all add: upd_conv_take_nth_drop)

lemma stamp_simps [simp]:
  "ss_mask (stamp cap i k now ss) = ss_mask ss"
  "length (ss_shards (stamp cap i k now ss)) = length (ss_shards ss)"
  by (simp_all add: stamp_def Let_def split: prod.split)

definition evicted :: "int \<Rightarrow> nat \<Rightarrow> 'k \<Rightarrow> 'k stamp_shards \<Rightarrow> 'k option" where
  "evicted cap i key ss = (if map_of (ss_shards ss ! i) key = None \<and> cap \<le> ss_total ss
     then oldest_key (ss_shards ss ! i) else None)"

lemma stamp_cases:
  "stamp cap i key now ss =
     (let m = ss_shards ss ! i;
          m' = (case evicted cap i key ss of None \<Rightarrow> m | Some k \<Rightarrow> AList.delete k m)
      in ss\<lparr>ss_shards := (ss_shards ss)[i := AList.update key now m'],
           ss_total := ss_total ss + (if map_of m key = None then 1 else 0)
             - (if evicted cap i key ss = None then 0 else 1)\<rparr>)"
  by (auto simp: stamp_def evicted_def Let_def split: option.split)

lemma evicted_in: "evicted cap i key ss = Some k \<Longrightarrow> k \<in> fst ` set (ss_shards ss ! i) \<and> k \<noteq> key"
  by (auto simp: evicted_def map_of_eq_None_iff split: if_splits dest: oldest_key_in)

lemma stamp_ok:
  assumes ok: "stamps_ok cap ss" and i: "i < length (ss_shards ss)"
  shows "stamps_ok cap (stamp cap i key now ss)"
proof -
  define m where "m = ss_shards ss ! i"
  define m' where "m' = (case evicted cap i key ss of None \<Rightarrow> m | Some k \<Rightarrow> AList.delete k m)"
  define ss' where "ss' = stamp cap i key now ss"
  have d: "distinct_keys m" using ok i by (simp add: stamps_ok_def m_def list_all_length)
  have d': "distinct_keys m'" using d by (simp add: m'_def split: option.split)
  have key': "key \<in> fst ` set m' \<longleftrightarrow> map_of m key \<noteq> None"
    using evicted_in [of cap i key ss] map_of_eq_None_iff [of m' key]
    by (cases "evicted cap i key ss") (auto simp: m'_def m_def)
  have len': "int (length m') = int (length m) - (if evicted cap i key ss = None then 0 else 1)"
  proof (cases "evicted cap i key ss")
    case (Some k)
    then have k: "k \<in> fst ` set m" using evicted_in [of cap i key ss k] by (simp add: m_def)
    then have "1 \<le> length m" by (cases m) auto
    with Some k length_delete_alist [OF d, of k] show ?thesis by (simp add: m'_def of_nat_diff)
  qed (simp add: m'_def)
  have sh: "ss_shards ss' = (ss_shards ss)[i := AList.update key now m']"
    and tot: "ss_total ss' = ss_total ss + (if map_of m key = None then 1 else 0)
        - (if evicted cap i key ss = None then 0 else 1)"
    unfolding ss'_def m'_def m_def by (simp_all add: stamp_cases Let_def)
  have "ss_total ss' = int (entries ss')"
    using ok i len' key' sum_list_length_update [OF i, of "AList.update key now m'"]
    by (simp add: stamps_ok_def entries_def sh tot m_def length_update_alist split: if_splits)
  moreover have "ss_total ss' \<le> cap + int (occupied ss')"
  proof -
    have occ: "int (occupied ss') = int (occupied ss) + (if m = [] then 1 else 0)"
      using length_filter_update [OF i, of "\<lambda>m. m \<noteq> []" "AList.update key now m'"]
      by (auto simp: occupied_def sh m_def AList.update_nonempty)
    have "m \<noteq> []" if "map_of m key \<noteq> None" using that by auto
    moreover have "evicted cap i key ss \<noteq> None" if "map_of m key = None" "cap \<le> ss_total ss" "m \<noteq> []"
      using that by (simp add: evicted_def m_def)
    ultimately show ?thesis
      using ok occ unfolding stamps_ok_def tot by (cases "cap \<le> ss_total ss") (auto split: if_splits)
  qed
  moreover have "list_all distinct_keys (ss_shards ss')"
    using ok d' distinct_update [of m' key now]
      set_update_subset_insert [of "ss_shards ss" i "AList.update key now m'"]
    by (auto simp: stamps_ok_def sh list_all_iff)
  ultimately show ?thesis using ok unfolding ss'_def by (simp add: stamps_ok_def)
qed

lemma filter_length_split: "int (length xs) = int (length (filter P xs)) + int (length (filter (\<lambda>x. \<not> P x) xs))"
  by (induction xs) auto

lemma drop_before_ok:
  assumes "stamps_ok cap ss"
  shows "stamps_ok cap (drop_before c ss)"
proof -
  let ?old = "\<lambda>(k :: 'a, t). t < c" and ?new = "\<lambda>(k :: 'a, t). \<not> t < c"
  let ?gone = "\<lambda>mss. sum_list (map (\<lambda>m. length (filter ?old m)) mss)"
  have e: "int (sum_list (map length mss)) - int (?gone mss) = int (sum_list (map (\<lambda>m. length (filter ?new m)) mss))" for mss
  proof (induction mss)
    case (Cons m mss)
    with filter_length_split [of m ?old] show ?case by (simp add: case_prod_beta')
  qed simp
  have o: "int (length (filter (\<lambda>m. m \<noteq> []) mss)) \<le>
      int (length (filter (\<lambda>m. m \<noteq> []) (map (filter ?new) mss))) + int (?gone mss)" for mss
  proof (induction mss)
    case (Cons m mss)
    have "1 \<le> int (length (filter ?old m))" if "m \<noteq> []" "filter ?new m = []"
      using that filter_length_split [of m ?old] by (cases m) (simp_all add: case_prod_beta')
    with Cons show ?case by (cases "m = []"; cases "filter ?new m = []") simp_all
  qed simp
  from assms e [of "ss_shards ss"] o [of "ss_shards ss"] show ?thesis
    by (auto simp: stamps_ok_def drop_before_def Let_def entries_def occupied_def list_all_iff comp_def
        distinct_map_filter)
qed

lemma new_shards_ok: "0 \<le> cap \<Longrightarrow> stamps_ok cap (new_shards cpu gmp)"
proof -
  assume cap: "0 \<le> cap"
  obtain cnt msk where c: "computeLockShards cpu gmp = (cnt, msk)" by (cases "computeLockShards cpu gmp")
  with compute_shards_ok [of 4 cpu gmp cnt msk] obtain k where k: "k \<le> 8" "cnt = 2 ^ k" "msk = mask k"
    by (auto simp: computeLockShards_def)
  have "(2 :: nat) ^ k \<le> 2 ^ 8" using k(1) by (simp only: power_increasing_iff)
  with cap c k show ?thesis
    by (simp add: stamps_ok_def new_shards_def entries_def occupied_def shard_index_mask list_all_length)
qed

section \<open>Runs\<close>

datatype cooldown_op = Acquire string u32 duration time | CleanCooldowns time

fun cooldown_step :: "cooldown_op \<Rightarrow> shardedCooldowns \<Rightarrow> shardedCooldowns option" where
  "cooldown_step (Acquire ruleID pid cooldown now) sc = map_option snd (tryAcquire ruleID pid cooldown now sc)"
| "cooldown_step (CleanCooldowns cutoff) sc = Some (cooldowns_cleanup cutoff sc)"

datatype dedup_op = Mark string u32 string time | CleanDedup time

fun dedup_step :: "dedup_op \<Rightarrow> shardedDedup \<Rightarrow> shardedDedup option" where
  "dedup_step (Mark ruleID pid comm now) sd = dedup_mark ruleID pid comm now sd"
| "dedup_step (CleanDedup cutoff) sd = Some (dedup_cleanup cutoff sd)"

fun steps :: "('op \<Rightarrow> 's \<Rightarrow> 's option) \<Rightarrow> 'op list \<Rightarrow> 's \<Rightarrow> 's option" where
  "steps step [] s = Some s"
| "steps step (op # ops) s = Option.bind (step op s) (steps step ops)"

lemma steps_invariant:
  assumes "I s" "\<And>op s. I s \<Longrightarrow> \<exists>s'. step op s = Some s' \<and> I s'"
  shows "\<exists>s'. steps step ops s = Some s' \<and> I s'"
  using assms(1)
proof (induction ops arbitrary: s)
  case (Cons op ops)
  from assms(2) [OF Cons.prems, of op] Cons.IH show ?case by auto
qed simp

lemma steps_append: "steps step (xs @ ys) s = Option.bind (steps step xs s) (steps step ys)"
proof (induction xs arbitrary: s)
  case (Cons op xs)
  then show ?case by (cases "step op s") simp_all
qed simp

lemma stamps_ok_index: "stamps_ok cap ss \<Longrightarrow> shard_index (ss_mask ss) pid < length (ss_shards ss)"
  by (simp add: stamps_ok_def)

lemma tryAcquire_ok:
  assumes "stamps_ok MaxCooldownEntries sc"
  shows "\<exists>b sc'. tryAcquire r pid cd now sc = Some (b, sc') \<and> stamps_ok MaxCooldownEntries sc'"
  using assms stamp_ok [OF assms stamps_ok_index [OF assms]] stamps_ok_index [OF assms]
  by (auto simp: tryAcquire_def Let_def split: option.split)

lemma cooldown_step_ok:
  assumes "stamps_ok MaxCooldownEntries sc"
  shows "\<exists>sc'. cooldown_step op sc = Some sc' \<and> stamps_ok MaxCooldownEntries sc'"
proof (cases op)
  case (Acquire r pid cd now)
  with tryAcquire_ok [OF assms, of r pid cd now] show ?thesis by auto
next
  case (CleanCooldowns c)
  with drop_before_ok [OF assms] show ?thesis by (simp add: cooldowns_cleanup_def)
qed

lemma dedup_step_ok:
  assumes "stamps_ok MaxDedupEntries (sd_map sd)"
  shows "\<exists>sd'. dedup_step op sd = Some sd' \<and> stamps_ok MaxDedupEntries (sd_map sd')"
proof (cases op)
  case (Mark r pid comm now)
  with stamp_ok [OF assms stamps_ok_index [OF assms]] stamps_ok_index [OF assms] show ?thesis
    by (simp add: dedup_mark_def)
next
  case (CleanDedup c)
  with drop_before_ok [OF assms] show ?thesis by (simp add: dedup_cleanup_def)
qed

lemma stamps_ok_bound:
  assumes "stamps_ok cap ss"
  shows "ss_total ss = int (entries ss)" "ss_total ss \<le> cap + 256"
proof -
  have "occupied ss \<le> length (ss_shards ss)" by (simp add: occupied_def)
  with assms show "ss_total ss = int (entries ss)" "ss_total ss \<le> cap + 256"
    by (auto simp: stamps_ok_def)
qed

text \<open>
  C20 (invariant).  After any sequence of operations, on any machine, both maps have not panicked, the
  size they report is the number of their entries, and it exceeds the cap by at most the number of
  shards, hence by at most 256.
\<close>

theorem stamp_map_sizes:
  "\<exists>sc sd. steps cooldown_step cops (newShardedCooldowns cpu gmp) = Some sc \<and>
     steps dedup_step dops (newShardedDedup cpu gmp window) = Some sd \<and>
     cooldowns_Size sc = int (sum_list (map length (ss_shards sc))) \<and>
     cooldowns_Size sc \<le> MaxCooldownEntries + 256 \<and>
     dedup_Size sd = int (sum_list (map length (ss_shards (sd_map sd)))) \<and>
     dedup_Size sd \<le> MaxDedupEntries + 256"
proof -
  obtain sc where "steps cooldown_step cops (newShardedCooldowns cpu gmp) = Some sc" "stamps_ok MaxCooldownEntries sc"
    using steps_invariant [of "stamps_ok MaxCooldownEntries" "newShardedCooldowns cpu gmp" cooldown_step, OF _ cooldown_step_ok]
      new_shards_ok [of MaxCooldownEntries cpu gmp]
    by (auto simp: newShardedCooldowns_def MaxCooldownEntries_def)
  moreover obtain sd where "steps dedup_step dops (newShardedDedup cpu gmp window) = Some sd"
      "stamps_ok MaxDedupEntries (sd_map sd)"
    using steps_invariant [of "\<lambda>sd. stamps_ok MaxDedupEntries (sd_map sd)" "newShardedDedup cpu gmp window"
        dedup_step, OF _ dedup_step_ok]
      new_shards_ok [of MaxDedupEntries cpu gmp]
    by (auto simp: newShardedDedup_def MaxDedupEntries_def)
  ultimately show ?thesis
    using stamps_ok_bound [of MaxCooldownEntries sc] stamps_ok_bound [of MaxDedupEntries "sd_map sd"]
    by (simp add: cooldowns_Size_def dedup_Size_def entries_def)
qed

section \<open>What the maps answer\<close>

lemma stamp_lookup:
  assumes "i < length (ss_shards ss)"
  shows "map_of (ss_shards (stamp cap i key now ss) ! i) key = Some now"
    and "k \<noteq> key \<Longrightarrow> evicted cap i key ss \<noteq> Some k \<Longrightarrow>
      map_of (ss_shards (stamp cap i key now ss) ! i) k = map_of (ss_shards ss ! i) k"
    and "j \<noteq> i \<Longrightarrow> ss_shards (stamp cap i key now ss) ! j = ss_shards ss ! j"
  using assms by (auto simp: stamp_cases Let_def split: option.split)

text \<open>
  C8 (functional).  An enforcement is granted exactly when the last one recorded for the same rule and
  process lies at least the cooldown back or none is recorded; a refusal changes nothing; a grant
  records the instant and leaves every other record as it was, except that with the map at its cap
  one record of the same shard, never the new one, may be evicted.
\<close>

theorem tryAcquire_spec:
  assumes "stamps_ok MaxCooldownEntries sc"
  shows "\<exists>b sc'. tryAcquire r pid cooldown now sc = Some (b, sc') \<and>
    (let i = shard_index (ss_mask sc) pid; last_of = (\<lambda>sc k. map_of (ss_shards sc ! i) k)
     in (b \<longleftrightarrow> (\<forall>prev. last_of sc (r, pid) = Some prev \<longrightarrow> cooldown \<le> time_sub now prev)) \<and>
        (\<not> b \<longrightarrow> sc' = sc) \<and>
        (b \<longrightarrow> last_of sc' (r, pid) = Some now \<and>
           (\<exists>gone. (ss_total sc < MaxCooldownEntries \<longrightarrow> gone = None) \<and>
              (\<forall>k. k \<noteq> (r, pid) \<longrightarrow> gone \<noteq> Some k \<longrightarrow> last_of sc' k = last_of sc k)) \<and>
           (\<forall>j. j \<noteq> i \<longrightarrow> ss_shards sc' ! j = ss_shards sc ! j)))"
proof -
  let ?i = "shard_index (ss_mask sc) pid"
  have i: "?i < length (ss_shards sc)" by (rule stamps_ok_index [OF assms])
  define b where "b \<longleftrightarrow> (\<forall>prev. map_of (ss_shards sc ! ?i) (r, pid) = Some prev \<longrightarrow> cooldown \<le> time_sub now prev)"
  have run: "tryAcquire r pid cooldown now sc =
      Some (b, if b then stamp MaxCooldownEntries ?i (r, pid) now sc else sc)"
    using i by (auto simp: tryAcquire_def Let_def b_def split: option.split)
  have none: "ss_total sc < MaxCooldownEntries \<longrightarrow> evicted MaxCooldownEntries ?i (r, pid) sc = None"
    by (simp add: evicted_def)
  note look = stamp_lookup [OF i, where cap = MaxCooldownEntries and key = "(r, pid)" and now = now]
  show ?thesis
  proof (cases b)
    case True
    show ?thesis
      by (rule exI [of _ True], rule exI [of _ "stamp MaxCooldownEntries ?i (r, pid) now sc"],
          simp add: run True Let_def look flip: b_def)
        (use none look(2) in blast)
  next
    case False
    then show ?thesis
      by (intro exI [of _ False] exI [of _ sc]) (use False b_def in \<open>auto simp: run Let_def\<close>)
  qed
qed

theorem tryAcquire_spec_witness:
  "\<exists>sc'. tryAcquire ''r'' 7 10 0 (newShardedCooldowns 4 4) = Some (True, sc')"
proof -
  have "stamps_ok MaxCooldownEntries (newShardedCooldowns 4 4)"
    using new_shards_ok [of MaxCooldownEntries 4 4] by (simp add: newShardedCooldowns_def MaxCooldownEntries_def)
  note spec = tryAcquire_spec [OF this, of "''r''" 7 10 0]
  have "map_of (ss_shards (newShardedCooldowns 4 4) ! j) k = None" if "j < length (ss_shards (newShardedCooldowns 4 4))" for j k
    using that by (simp add: newShardedCooldowns_def new_shards_def split: prod.splits)
  with spec stamps_ok_index [OF \<open>stamps_ok _ _\<close>, of 7] show ?thesis by (auto simp: Let_def)
qed

text \<open>
  After an alert is marked, it is a duplicate until the window has passed and from
  then on not, whatever is asked about other alerts in between.
\<close>

theorem dedup_check_after_mark:
  assumes "dedup_mark r pid comm now sd = Some sd'"
  shows "dedup_check later r pid comm sd' = Some (later - now < sd_window sd)"
  using assms
  by (auto simp: dedup_mark_def dedup_check_def Let_def stamp_lookup(1) split: if_splits)

theorem dedup_check_after_mark_witness:
  "\<exists>sd'. dedup_mark ''r'' 7 ''sh'' 100 (newShardedDedup 4 4 5) = Some sd' \<and>
     dedup_check 104 ''r'' 7 ''sh'' sd' = Some True \<and> dedup_check 105 ''r'' 7 ''sh'' sd' = Some False"
proof -
  have ok: "stamps_ok MaxDedupEntries (sd_map (newShardedDedup 4 4 5))"
    using new_shards_ok [of MaxDedupEntries 4 4] by (simp add: newShardedDedup_def MaxDedupEntries_def)
  then obtain sd' where sd': "dedup_mark ''r'' 7 ''sh'' 100 (newShardedDedup 4 4 5) = Some sd'"
    using stamps_ok_index [OF ok] by (simp add: dedup_mark_def)
  with dedup_check_after_mark [OF sd', of 104] dedup_check_after_mark [OF sd', of 105] show ?thesis
    by (simp add: newShardedDedup_def)
qed

text \<open>One process can fill its shard with records of different rules while all other shards stay empty.\<close>

lemma fill_shard:
  assumes "stamps_ok MaxCooldownEntries sc" "ss_total sc = 0" "0 \<le> int n" "int n \<le> MaxCooldownEntries"
    "\<forall>m\<in>set (ss_shards sc). m = []"
  shows "\<exists>sc'. steps cooldown_step (map (\<lambda>i. Acquire (dec_nat i) 0 0 0) [0..<n]) sc = Some sc' \<and>
    stamps_ok MaxCooldownEntries sc' \<and> ss_total sc' = int n \<and> ss_mask sc' = ss_mask sc \<and>
    length (ss_shards sc') = length (ss_shards sc) \<and>
    (\<forall>j<length (ss_shards sc). j \<noteq> shard_index (ss_mask sc) 0 \<longrightarrow> ss_shards sc' ! j = []) \<and>
    (\<forall>k\<ge>n. map_of (ss_shards sc' ! shard_index (ss_mask sc) 0) (dec_nat k, 0) = None)"
  using assms(3,4)
proof (induction n)
  case 0
  have e: "ss_shards sc ! j = []" if "j < length (ss_shards sc)" for j using assms(5) that by simp
  from assms(1,2) show ?case using e [OF stamps_ok_index [OF assms(1), of 0]] e by simp
next
  case (Suc n)
  then obtain sc' where sc': "steps cooldown_step (map (\<lambda>i. Acquire (dec_nat i) 0 0 0) [0..<n]) sc = Some sc'"
      "stamps_ok MaxCooldownEntries sc'" "ss_total sc' = int n" "ss_mask sc' = ss_mask sc"
      "length (ss_shards sc') = length (ss_shards sc)"
      "\<forall>j<length (ss_shards sc). j \<noteq> shard_index (ss_mask sc) 0 \<longrightarrow> ss_shards sc' ! j = []"
      "\<forall>k\<ge>n. map_of (ss_shards sc' ! shard_index (ss_mask sc) 0) (dec_nat k, 0) = None"
    by auto
  let ?i = "shard_index (ss_mask sc) 0"
  let ?s = "stamp MaxCooldownEntries ?i (dec_nat n, 0) 0 sc'"
  have i: "?i < length (ss_shards sc')" using stamps_ok_index [OF sc'(2), of 0] sc'(4) by simp
  have new: "map_of (ss_shards sc' ! ?i) (dec_nat n, 0) = None" using sc'(7) by simp
  have ev: "evicted MaxCooldownEntries ?i (dec_nat n, 0) sc' = None"
    using Suc.prems sc'(3) by (simp add: evicted_def)
  have run: "cooldown_step (Acquire (dec_nat n) 0 0 0) sc' = Some ?s"
    using i new sc'(4) by (simp add: tryAcquire_def Let_def)
  have "ss_total ?s = int (Suc n)" using new ev sc'(3) by (simp add: stamp_cases Let_def)
  moreover have "\<forall>k\<ge>Suc n. map_of (ss_shards ?s ! ?i) (dec_nat k, 0) = None"
    using stamp_lookup(2) [OF i, of "(dec_nat _, 0)"] ev sc'(7) by simp
  ultimately show ?case
    using run sc'(1,4-6) stamp_ok [OF sc'(2) i] stamp_lookup(3) [OF i]
    by (simp add: steps_append del: cooldown_step.simps)
qed

text \<open>
  The "hard cap" on the number of cooldown records is not one: nothing is evicted when
  the target shard is empty, so a million enforcements on one process followed by one on another
  leave more records than \<open>MaxCooldownEntries\<close>, on every machine.
\<close>

theorem MaxCooldownEntries_exceeded:
  "\<exists>ops sc. steps cooldown_step ops (newShardedCooldowns cpu gmp) = Some sc \<and>
     MaxCooldownEntries < int (sum_list (map length (ss_shards sc)))"
proof -
  let ?new = "newShardedCooldowns cpu gmp"
  let ?n = "nat MaxCooldownEntries"
  obtain cnt msk where c: "computeLockShards cpu gmp = (cnt, msk)" by (cases "computeLockShards cpu gmp")
  with compute_shards_ok [of 4 cpu gmp cnt msk] obtain k where k: "4 \<le> k" "k \<le> 8" "msk = mask k"
    by (auto simp: computeLockShards_def)
  have m: "ss_mask ?new = mask k" using c k by (simp add: newShardedCooldowns_def new_shards_def)
  have n: "int ?n = MaxCooldownEntries" "0 \<le> MaxCooldownEntries" by (simp_all add: MaxCooldownEntries_def)
  have ok: "stamps_ok MaxCooldownEntries ?new"
    using new_shards_ok [OF n(2)] by (simp add: newShardedCooldowns_def)
  have "ss_total ?new = 0" "\<forall>m\<in>set (ss_shards ?new). m = []"
    by (auto simp: newShardedCooldowns_def new_shards_def split: prod.splits)
  from fill_shard [OF ok this(1) _ _ this(2), of ?n] n obtain sc where
    sc: "steps cooldown_step (map (\<lambda>i. Acquire (dec_nat i) 0 0 0) [0..<?n]) ?new = Some sc"
      "stamps_ok MaxCooldownEntries sc" "ss_total sc = MaxCooldownEntries" "ss_mask sc = mask k"
      "length (ss_shards sc) = length (ss_shards ?new)"
      "\<forall>j<length (ss_shards ?new). j \<noteq> shard_index (mask k) 0 \<longrightarrow> ss_shards sc ! j = []"
    using m by auto
  have "(2 :: nat) ^ 1 < 2 ^ k" using k(1) by (intro power_strict_increasing) simp_all
  then have idx: "shard_index (mask k) 0 = 0" "shard_index (mask k) 1 = 1"
    using k(1,2) by (simp_all add: shard_index_mask)
  have i: "1 < length (ss_shards sc)" using stamps_ok_index [OF sc(2), of 1] sc(4) idx by simp
  then have empty: "ss_shards sc ! 1 = []" using sc(5,6) idx by simp
  let ?s = "stamp MaxCooldownEntries 1 ('''', 1) 0 sc"
  have "cooldown_step (Acquire '''' 1 0 0) sc = Some ?s"
    using i empty sc(4) idx by (simp add: tryAcquire_def Let_def)
  moreover have "ss_total ?s = MaxCooldownEntries + 1"
    using empty sc(3) by (simp add: stamp_cases evicted_def Let_def)
  moreover have "ss_total ?s = int (entries ?s)"
    by (rule stamps_ok_bound(1) [OF stamp_ok [OF sc(2) i]])
  ultimately show ?thesis
    using sc(1) by (intro exI [of _ "map (\<lambda>i. Acquire (dec_nat i) 0 0 0) [0..<?n] @ [Acquire '''' 1 0 0]"]
        exI [of _ ?s]) (simp add: steps_append entries_def del: cooldown_step.simps)
qed

end
