(* ===== verification/Alert_Aggregator.thy ===== *)
theory Alert_Aggregator
  imports Event_Types
begin

text \<open>
  Alert aggregation (\<open>correlator/aggregator.go\<close>): repeats of an alert within a window are folded into
  a running count.  The list of entries stands for the map in its iteration order; the clock is an
  argument.  Counts are unbounded integers: a count stays below the number of alerts seen.
\<close>

section \<open>Aggregation keys\<close>

definition pathPrefixMaxDepth :: nat where
  "pathPrefixMaxDepth = 2"

definition isNumeric :: "string \<Rightarrow> bool" where
  "isNumeric s \<longleftrightarrow> s \<noteq> [] \<and> list_all is_digit s"

fun keep_segments :: "string list \<Rightarrow> string list \<Rightarrow> string list" where
  "keep_segments kept [] = kept"
| "keep_segments kept (s # segs) =
     (if s = [] then keep_segments kept segs
      else let s = (if isNumeric s then ''*'' else s);
               kept = kept @ [s]
           in if pathPrefixMaxDepth \<le> length kept then kept else keep_segments kept segs)"

definition normalizePathPrefix :: "string \<Rightarrow> string" where
  "normalizePathPrefix path =
     (if path = [] then []
      else CHR ''/'' # join_with CHR ''/'' (keep_segments [] (split_on CHR ''/'' path)))"

definition alertPath :: "alert \<Rightarrow> string" where
  "alertPath alert =
     (case ev_file (al_event alert) of
        Some f \<Rightarrow> if fl_fdpath f \<noteq> [] then fl_fdpath f else BytesToString (fl_filename f)
      | None \<Rightarrow> [])"

definition aggregationKey :: "alert \<Rightarrow> string" where
  "aggregationKey alert =
     al_rule_id alert @ CHR ''|'' # al_comm alert @ CHR ''|'' # normalizePathPrefix (alertPath alert) @
     CHR ''|'' # en_namespace (al_enrichment alert) @ CHR ''|'' # en_pod_name (al_enrichment alert)"

section \<open>The aggregator\<close>

record AlertAggregationConfig =
  ag_enabled :: bool
  ag_window :: duration

definition DefaultAlertAggregationConfig :: AlertAggregationConfig where
  "DefaultAlertAggregationConfig = \<lparr>ag_enabled = False, ag_window = 60 * 1000000000\<rparr>"

record aggregateEntry =
  ae_alert :: alert
  ae_windowEnd :: time

record AlertAggregator =
  aa_cfg :: AlertAggregationConfig
  aa_entries :: "(string \<times> aggregateEntry) list"

definition NewAlertAggregator :: "AlertAggregationConfig \<Rightarrow> AlertAggregator" where
  "NewAlertAggregator cfg =
     \<lparr>aa_cfg = (if ag_window cfg \<le> 0 then cfg\<lparr>ag_window := 60 * 1000000000\<rparr> else cfg), aa_entries = []\<rparr>"

definition open_window :: "duration \<Rightarrow> time \<Rightarrow> alert \<Rightarrow> aggregateEntry" where
  "open_window window now alert =
     \<lparr>ae_alert = alert\<lparr>al_count := 1, al_first_seen := now, al_last_seen := now\<rparr>, ae_windowEnd = now + window\<rparr>"

definition ingest_one :: "duration \<Rightarrow> time \<Rightarrow> alert \<Rightarrow> (string \<times> aggregateEntry) list \<times> alert list \<Rightarrow>
    (string \<times> aggregateEntry) list \<times> alert list" where
  "ingest_one window now alert = (\<lambda>(entries, out).
     let key = aggregationKey alert; fresh = open_window window now alert
     in case map_of entries key of
          None \<Rightarrow> (AList.update key fresh entries, out @ [ae_alert fresh])
        | Some entry \<Rightarrow>
            if now > ae_windowEnd entry then
              (AList.update key fresh entries,
               (if al_count (ae_alert entry) > 1 then out @ [ae_alert entry] else out) @ [ae_alert fresh])
            else
              (AList.update key (entry\<lparr>ae_alert := (ae_alert entry)
                 \<lparr>al_count := al_count (ae_alert entry) + 1, al_last_seen := now\<rparr>\<rparr>) entries, out))"

definition aggregator_Ingest :: "alert list \<Rightarrow> time \<Rightarrow> AlertAggregator \<Rightarrow> alert list \<times> AlertAggregator" where
  "aggregator_Ingest alerts now a =
     (if \<not> ag_enabled (aa_cfg a) \<or> alerts = [] then (alerts, a)
      else case fold (ingest_one (ag_window (aa_cfg a)) now) alerts (aa_entries a, []) of
        (entries, out) \<Rightarrow> (out, a\<lparr>aa_entries := entries\<rparr>))"

definition Reap :: "time \<Rightarrow> AlertAggregator \<Rightarrow> alert list \<times> AlertAggregator" where
  "Reap now a =
     (if \<not> ag_enabled (aa_cfg a) then ([], a)
      else let due = filter (\<lambda>(key, entry). \<not> now < ae_windowEnd entry) (aa_entries a)
        in (map (ae_alert \<circ> snd) (filter (\<lambda>(key, entry). al_count (ae_alert entry) > 1) due),
            a\<lparr>aa_entries := filter (\<lambda>(key, entry). now < ae_windowEnd entry) (aa_entries a)\<rparr>))"

section \<open>No alert is lost\<close>

text \<open>
  What an emitted alert stands for: the head of a window for itself, a closing aggregate for the
  repeats it counts beyond the head.
\<close>

definition stands_for :: "alert \<Rightarrow> int" where
  "stands_for alert = (if al_count alert = 1 then 1 else al_count alert - 1)"

definition emitted_for :: "string \<Rightarrow> alert list \<Rightarrow> int" where
  "emitted_for key out = sum_list (map stands_for (filter (\<lambda>x. aggregationKey x = key) out))"

definition pending_for :: "string \<Rightarrow> (string \<times> aggregateEntry) list \<Rightarrow> int" where
  "pending_for key entries =
     (case map_of entries key of None \<Rightarrow> 0 | Some e \<Rightarrow> al_count (ae_alert e) - 1)"

definition seen_for :: "string \<Rightarrow> alert list \<Rightarrow> int" where
  "seen_for key alerts = int (length (filter (\<lambda>x. aggregationKey x = key) alerts))"

definition entries_ok :: "duration \<Rightarrow> (string \<times> aggregateEntry) list \<Rightarrow> bool" where
  "entries_ok window entries \<longleftrightarrow> distinct_keys entries \<and>
     (\<forall>(key, e) \<in> set entries. aggregationKey (ae_alert e) = key \<and> 1 \<le> al_count (ae_alert e) \<and>
        ae_windowEnd e = al_first_seen (ae_alert e) + window \<and>
        al_last_seen (ae_alert e) \<le> al_first_seen (ae_alert e) + window)"

lemma aggregationKey_update [simp]:
  "aggregationKey (al\<lparr>al_count := c, al_first_seen := f, al_last_seen := l\<rparr>) = aggregationKey al"
  "aggregationKey (al\<lparr>al_count := c, al_last_seen := l\<rparr>) = aggregationKey al"
  by (simp_all add: aggregationKey_def alertPath_def)

lemma emitted_for_simps [simp]:
  "emitted_for key [] = 0"
  "emitted_for key (xs @ ys) = emitted_for key xs + emitted_for key ys"
  "emitted_for key (x # xs) = (if aggregationKey x = key then stands_for x else 0) + emitted_for key xs"
  by (simp_all add: emitted_for_def)

lemma entries_okD:
  assumes "entries_ok w entries" "map_of entries key = Some e"
  shows "aggregationKey (ae_alert e) = key" "1 \<le> al_count (ae_alert e)"
    "ae_windowEnd e = al_first_seen (ae_alert e) + w" "al_last_seen (ae_alert e) \<le> al_first_seen (ae_alert e) + w"
  using assms map_of_SomeD [OF assms(2)] by (auto simp: entries_ok_def)

lemma entries_ok_update:
  assumes "entries_ok w entries" "aggregationKey (ae_alert e) = key" "1 \<le> al_count (ae_alert e)"
    "ae_windowEnd e = al_first_seen (ae_alert e) + w" "al_last_seen (ae_alert e) \<le> al_first_seen (ae_alert e) + w"
  shows "entries_ok w (AList.update key e entries)"
  using assms set_update_alist [of key e entries]
  by (fastforce simp: entries_ok_def)

lemma ingest_one_counts:
  assumes ok: "entries_ok w entries" and w: "0 < w" and step: "ingest_one w now alert (entries, out) = (entries', out')"
  shows "entries_ok w entries'"
    and "emitted_for key out' + pending_for key entries' =
      emitted_for key out + pending_for key entries + (if aggregationKey alert = key then 1 else 0)"
    and "\<exists>xs. out' = out @ xs \<and> (\<forall>x\<in>set xs. 1 \<le> al_count x \<and> al_last_seen x \<le> al_first_seen x + w)"
proof -
  let ?k = "aggregationKey alert" and ?new = "open_window w now alert"
  have new: "aggregationKey (ae_alert ?new) = ?k" "al_count (ae_alert ?new) = 1"
      "ae_windowEnd ?new = al_first_seen (ae_alert ?new) + w"
      "al_last_seen (ae_alert ?new) \<le> al_first_seen (ae_alert ?new) + w" "stands_for (ae_alert ?new) = 1"
    using w by (simp_all add: open_window_def stands_for_def)
  consider (none) "map_of entries ?k = None" "entries' = AList.update ?k ?new entries" "out' = out @ [ae_alert ?new]"
    | (expired) e where "map_of entries ?k = Some e" "entries' = AList.update ?k ?new entries"
        "out' = out @ (if al_count (ae_alert e) > 1 then [ae_alert e] else []) @ [ae_alert ?new]"
    | (fold) e where "map_of entries ?k = Some e" "now \<le> ae_windowEnd e" "out' = out"
        "entries' = AList.update ?k (e\<lparr>ae_alert := (ae_alert e)\<lparr>al_count := al_count (ae_alert e) + 1, al_last_seen := now\<rparr>\<rparr>) entries"
    using step by (auto simp: ingest_one_def Let_def split: option.splits if_splits)
  then have "entries_ok w entries' \<and>
      emitted_for key out' + pending_for key entries' =
        emitted_for key out + pending_for key entries + (if aggregationKey alert = key then 1 else 0) \<and>
      (\<exists>xs. out' = out @ xs \<and> (\<forall>x\<in>set xs. 1 \<le> al_count x \<and> al_last_seen x \<le> al_first_seen x + w))"
  proof cases
    case none
    then show ?thesis
      using entries_ok_update [OF ok, of ?new] new by (cases "?k = key") (auto simp: pending_for_def)
  next
    case expired
    note e = entries_okD [OF ok expired(1)]
    from expired show ?thesis
      using entries_ok_update [OF ok, of ?new] new e
      by (cases "?k = key") (auto simp: pending_for_def stands_for_def)
  next
    case fold
    note e = entries_okD [OF ok fold(1)]
    have "entries_ok w entries'"
      unfolding fold(4) by (rule entries_ok_update [OF ok]) (use fold(2) e in simp_all)
    with fold show ?thesis by (cases "?k = key") (auto simp: pending_for_def)
  qed
  then show "entries_ok w entries'"
    and "emitted_for key out' + pending_for key entries' =
      emitted_for key out + pending_for key entries + (if aggregationKey alert = key then 1 else 0)"
    and "\<exists>xs. out' = out @ xs \<and> (\<forall>x\<in>set xs. 1 \<le> al_count x \<and> al_last_seen x \<le> al_first_seen x + w)"
    by blast+
qed

lemma fold_ingest_counts:
  assumes "entries_ok w entries" "0 < w" "fold (ingest_one w now) alerts (entries, out) = (entries', out')"
    "\<forall>x\<in>set out. 1 \<le> al_count x \<and> al_last_seen x \<le> al_first_seen x + w"
  shows "entries_ok w entries' \<and>
    emitted_for key out' + pending_for key entries' =
      emitted_for key out + pending_for key entries + seen_for key alerts \<and>
    (\<forall>x\<in>set out'. 1 \<le> al_count x \<and> al_last_seen x \<le> al_first_seen x + w)"
  using assms
proof (induction alerts arbitrary: entries out)
  case (Cons alert alerts)
  obtain entries1 out1 where step: "ingest_one w now alert (entries, out) = (entries1, out1)"
    by (cases "ingest_one w now alert (entries, out)")
  note one = ingest_one_counts [OF Cons.prems(1,2) step]
  from one(3) Cons.prems(4) have "\<forall>x\<in>set out1. 1 \<le> al_count x \<and> al_last_seen x \<le> al_first_seen x + w" by auto
  from Cons.IH [OF one(1) Cons.prems(2) _ this] Cons.prems(3) step one(2) [of key] show ?case
    by (simp add: seen_for_def)
qed (simp add: seen_for_def)

lemma ingest_ends:
  assumes "\<forall>(k, e)\<in>set entries. ae_windowEnd e \<le> T" "now + w \<le> T"
    "fold (ingest_one w now) alerts (entries, out) = (entries', out')"
  shows "\<forall>(k, e)\<in>set entries'. ae_windowEnd e \<le> T"
  using assms(1,3)
proof (induction alerts arbitrary: entries out)
  case (Cons alert alerts)
  obtain entries1 out1 where step: "ingest_one w now alert (entries, out) = (entries1, out1)"
    by (cases "ingest_one w now alert (entries, out)")
  have "\<exists>e. entries1 = AList.update (aggregationKey alert) e entries \<and> ae_windowEnd e \<le> T"
  proof (cases "map_of entries (aggregationKey alert)")
    case None
    with step assms(2) show ?thesis by (auto simp: ingest_one_def open_window_def Let_def)
  next
    case (Some e)
    let ?e = "e\<lparr>ae_alert := (ae_alert e)\<lparr>al_count := al_count (ae_alert e) + 1, al_last_seen := now\<rparr>\<rparr>"
    have "ae_windowEnd ?e \<le> T" using Cons.prems(1) map_of_SomeD [OF Some] by auto
    moreover have "entries1 = AList.update (aggregationKey alert)
        (if now > ae_windowEnd e then open_window w now alert else ?e) entries"
      using Some step by (auto simp: ingest_one_def Let_def split: if_splits)
    ultimately show ?thesis using assms(2) by (auto simp: open_window_def)
  qed
  then have "\<forall>(k, e)\<in>set entries1. ae_windowEnd e \<le> T"
    using Cons.prems(1) set_update_alist by fastforce
  from Cons.IH [OF this] Cons.prems(2) step show ?case by simp
qed simp

text \<open>Runs of an aggregator.\<close>

datatype agg_op = IngestAt "alert list" time | ReapAt time

fun agg_step :: "agg_op \<Rightarrow> AlertAggregator \<Rightarrow> alert list \<times> AlertAggregator" where
  "agg_step (IngestAt alerts now) a = aggregator_Ingest alerts now a"
| "agg_step (ReapAt now) a = Reap now a"

fun agg_run :: "agg_op list \<Rightarrow> AlertAggregator \<Rightarrow> alert list \<times> AlertAggregator" where
  "agg_run [] a = ([], a)"
| "agg_run (op # ops) a =
     (case agg_step op a of (out, a1) \<Rightarrow> (case agg_run ops a1 of (outs, a2) \<Rightarrow> (out @ outs, a2)))"

fun op_alerts :: "agg_op \<Rightarrow> alert list" where
  "op_alerts (IngestAt alerts now) = alerts"
| "op_alerts (ReapAt now) = []"

fun op_time :: "agg_op \<Rightarrow> time" where
  "op_time (IngestAt alerts now) = now"
| "op_time (ReapAt now) = now"

definition agg_ok :: "time \<Rightarrow> AlertAggregator \<Rightarrow> bool" where
  "agg_ok T a \<longleftrightarrow> ag_enabled (aa_cfg a) \<and> 0 < ag_window (aa_cfg a) \<and>
     entries_ok (ag_window (aa_cfg a)) (aa_entries a) \<and> (\<forall>(k, e)\<in>set (aa_entries a). ae_windowEnd e \<le> T)"

lemma Ingest_ok:
  assumes ok: "agg_ok T a" and T: "now + ag_window (aa_cfg a) \<le> T"
    and step: "aggregator_Ingest alerts now a = (out, a')"
  shows "agg_ok T a' \<and> aa_cfg a' = aa_cfg a \<and>
    emitted_for key out + pending_for key (aa_entries a') = pending_for key (aa_entries a) + seen_for key alerts \<and>
    (\<forall>x\<in>set out. al_last_seen x \<le> al_first_seen x + ag_window (aa_cfg a))"
proof (cases "alerts = []")
  case True
  with step ok show ?thesis by (simp add: aggregator_Ingest_def seen_for_def)
next
  case False
  let ?w = "ag_window (aa_cfg a)"
  obtain entries' where f: "fold (ingest_one ?w now) alerts (aa_entries a, []) = (entries', out)"
      and a': "a' = a\<lparr>aa_entries := entries'\<rparr>"
    using step ok False by (auto simp: aggregator_Ingest_def agg_ok_def split: prod.splits)
  have "\<forall>(k, e)\<in>set entries'. ae_windowEnd e \<le> T"
    by (rule ingest_ends [OF _ T f]) (use ok in \<open>simp add: agg_ok_def\<close>)
  with fold_ingest_counts [OF _ _ f, of key] ok a' show ?thesis
    by (simp add: agg_ok_def)
qed

lemma Reap_ok:
  assumes ok: "agg_ok T a" and step: "Reap now a = (out, a')"
  shows "agg_ok T a' \<and> aa_cfg a' = aa_cfg a \<and>
    emitted_for key out + pending_for key (aa_entries a') = pending_for key (aa_entries a) \<and>
    (\<forall>x\<in>set out. al_last_seen x \<le> al_first_seen x + ag_window (aa_cfg a))"
proof -
  let ?es = "aa_entries a" and ?w = "ag_window (aa_cfg a)"
  let ?due = "\<lambda>(k :: string, e). \<not> now < ae_windowEnd e \<and> al_count (ae_alert e) > 1"
  have es: "entries_ok ?w ?es" using ok by (simp add: agg_ok_def)
  have out: "out = map (ae_alert \<circ> snd) (filter ?due ?es)"
    and a': "a' = a\<lparr>aa_entries := filter (\<lambda>(k, e). now < ae_windowEnd e) ?es\<rparr>"
    using step ok by (auto simp: Reap_def agg_ok_def Let_def case_prod_beta' conj_commute)
  have "emitted_for key out + pending_for key (filter (\<lambda>(k, e). now < ae_windowEnd e) xs) = pending_for key xs"
    if "out = map (ae_alert \<circ> snd) (filter ?due xs)" "entries_ok ?w xs" for out xs
    using that
  proof (induction xs arbitrary: out)
    case (Cons x xs)
    obtain k e where x: "x = (k, e)" by (cases x)
    have tl: "entries_ok ?w xs" and k: "aggregationKey (ae_alert e) = k" "1 \<le> al_count (ae_alert e)"
      and fresh: "map_of xs k = None"
      using Cons.prems(2) x by (auto simp: entries_ok_def map_of_eq_None_iff)
    have "map_of (filter (\<lambda>(k, e). now < ae_windowEnd e) xs) k = None"
      using fresh by (auto simp: map_of_eq_None_iff)
    with Cons.IH [OF refl tl] Cons.prems(1) x k fresh show ?case
      by (cases "k = key") (auto simp: pending_for_def stands_for_def)
  qed (simp add: pending_for_def)
  from this [OF out es] a' ok out es show ?thesis
    by (auto simp: agg_ok_def entries_ok_def distinct_map_filter)
qed

lemma agg_run_ok:
  assumes "agg_ok T a" "\<forall>op\<in>set ops. op_alerts op \<noteq> [] \<longrightarrow> op_time op + ag_window (aa_cfg a) \<le> T"
    "agg_run ops a = (out, a')"
  shows "agg_ok T a' \<and> aa_cfg a' = aa_cfg a \<and>
    emitted_for key out + pending_for key (aa_entries a') =
      pending_for key (aa_entries a) + seen_for key (concat (map op_alerts ops)) \<and>
    (\<forall>x\<in>set out. al_last_seen x \<le> al_first_seen x + ag_window (aa_cfg a))"
  using assms
proof (induction ops arbitrary: a out)
  case (Cons op ops)
  obtain out1 a1 where step: "agg_step op a = (out1, a1)" by (cases "agg_step op a")
  obtain outs where run: "agg_run ops a1 = (outs, a')" and out: "out = out1 @ outs"
    using Cons.prems(3) step by (auto split: prod.splits)
  have one: "agg_ok T a1 \<and> aa_cfg a1 = aa_cfg a \<and>
      emitted_for key out1 + pending_for key (aa_entries a1) = pending_for key (aa_entries a) + seen_for key (op_alerts op) \<and>
      (\<forall>x\<in>set out1. al_last_seen x \<le> al_first_seen x + ag_window (aa_cfg a))"
  proof (cases op)
    case (IngestAt alerts now)
    show ?thesis
    proof (cases "alerts = []")
      case True
      with IngestAt step Cons.prems(1) show ?thesis by (simp add: aggregator_Ingest_def seen_for_def)
    next
      case False
      with IngestAt Cons.prems(2) have "now + ag_window (aa_cfg a) \<le> T" by simp
      from Ingest_ok [OF Cons.prems(1) this] IngestAt step show ?thesis by simp
    qed
  next
    case (ReapAt now)
    with Reap_ok [OF Cons.prems(1)] step show ?thesis by (simp add: seen_for_def)
  qed
  with Cons.IH [OF _ _ run] Cons.prems(2) out show ?case by (auto simp: seen_for_def)
qed (simp add: seen_for_def)

section \<open>Properties\<close>

text \<open>
  C12 (functional).  Aggregation loses no alert and invents none: after any sequence of batches and
  reaps, at whatever instants, the alerts of a key that were handed in are exactly those the forwarded
  alerts stand for (a head for itself, a closing aggregate for its repeats) plus the repeats of the
  window that is still open; and no forwarded aggregate spans more than the window.
\<close>

theorem aggregation_conserves_alerts:
  assumes "ag_enabled cfg" "agg_run ops (NewAlertAggregator cfg) = (out, a)"
  shows "emitted_for key out + pending_for key (aa_entries a) = seen_for key (concat (map op_alerts ops)) \<and>
    (\<forall>x\<in>set out. al_last_seen x \<le> al_first_seen x + ag_window (aa_cfg (NewAlertAggregator cfg)))"
proof -
  let ?w = "ag_window (aa_cfg (NewAlertAggregator cfg))"
  define T where "T = Max (insert 0 (set (map (\<lambda>op. op_time op + ?w) ops)))"
  have "agg_ok T (NewAlertAggregator cfg)"
    using assms(1) by (simp add: agg_ok_def NewAlertAggregator_def entries_ok_def)
  moreover have "\<forall>op\<in>set ops. op_alerts op \<noteq> [] \<longrightarrow> op_time op + ?w \<le> T"
    by (auto simp: T_def)
  ultimately show ?thesis
    using agg_run_ok [OF _ _ assms(2), of T key] by (simp add: NewAlertAggregator_def pending_for_def)
qed

lemma agg_run_append:
  "agg_run (xs @ ys) a = (case agg_run xs a of (out1, a1) \<Rightarrow> (case agg_run ys a1 of (out2, a2) \<Rightarrow> (out1 @ out2, a2)))"
  by (induction xs arbitrary: a) (simp_all split: prod.split)

text \<open>
  C21 (liveness).  Every repeat is eventually reported: a reap that runs when all windows have closed
  leaves nothing open, so the forwarded alerts then account for every alert of every key.
\<close>

theorem reap_reports_all:
  assumes "ag_enabled cfg"
    "\<forall>op\<in>set ops. op_time op + ag_window (aa_cfg (NewAlertAggregator cfg)) \<le> now"
    "agg_run (ops @ [ReapAt now]) (NewAlertAggregator cfg) = (out, a)"
  shows "aa_entries a = [] \<and> emitted_for key out = seen_for key (concat (map op_alerts ops))"
proof -
  obtain out1 a1 where run: "agg_run ops (NewAlertAggregator cfg) = (out1, a1)"
    by (cases "agg_run ops (NewAlertAggregator cfg)")
  have new: "agg_ok now (NewAlertAggregator cfg)"
    using assms(1) by (simp add: agg_ok_def NewAlertAggregator_def entries_ok_def)
  have ok: "agg_ok now a1" using agg_run_ok [OF new _ run] assms(2) by blast
  obtain out2 where reap: "Reap now a1 = (out2, a)" and out: "out = out1 @ out2"
    using assms(3) run by (auto simp: agg_run_append split: prod.splits)
  have "filter (\<lambda>(key, entry). now < ae_windowEnd entry) (aa_entries a1) = []"
    using ok by (fastforce simp: agg_ok_def filter_empty_conv)
  with reap ok have empty: "aa_entries a = []" by (auto simp: Reap_def agg_ok_def Let_def)
  with agg_run_ok [OF new _ run, of key] Reap_ok [OF ok reap, of key] assms(2) out show ?thesis
    by (simp add: NewAlertAggregator_def pending_for_def)
qed

definition example_aggregation :: AlertAggregationConfig where
  "example_aggregation = \<lparr>ag_enabled = True, ag_window = 60\<rparr>"

theorem aggregation_conserves_alerts_witness:
  "emitted_for ''||||'' (fst (agg_run [IngestAt [zero_alert, zero_alert] 5] (NewAlertAggregator example_aggregation))) = 1 \<and>
   pending_for ''||||'' (aa_entries (snd (agg_run [IngestAt [zero_alert, zero_alert] 5] (NewAlertAggregator example_aggregation)))) = 1"
proof -
  let ?r = "agg_run [IngestAt [zero_alert, zero_alert] 5] (NewAlertAggregator example_aggregation)"
  have key: "aggregationKey zero_alert = ''||||''"
    by (simp add: aggregationKey_def zero_alert_def alertPath_def zero_event_def zero_enrichment_def normalizePathPrefix_def)
  have "pending_for ''||||'' (aa_entries (snd ?r)) = 1"
    by (simp add: NewAlertAggregator_def example_aggregation_def aggregator_Ingest_def ingest_one_def
        open_window_def key pending_for_def Let_def)
  moreover have "seen_for ''||||'' (concat (map op_alerts [IngestAt [zero_alert, zero_alert] 5])) = 2"
    by (simp add: seen_for_def key)
  ultimately show ?thesis
    using aggregation_conserves_alerts [of example_aggregation "[IngestAt [zero_alert, zero_alert] 5]" "fst ?r" "snd ?r" "''||||''"]
    by (simp add: example_aggregation_def)
qed

theorem reap_reports_all_witness:
  "aa_entries (snd (agg_run [IngestAt [zero_alert] 5, ReapAt 65] (NewAlertAggregator example_aggregation))) = []"
  using reap_reports_all [of example_aggregation "[IngestAt [zero_alert] 5]" 65
      "fst (agg_run [IngestAt [zero_alert] 5, ReapAt 65] (NewAlertAggregator example_aggregation))"
      "snd (agg_run [IngestAt [zero_alert] 5, ReapAt 65] (NewAlertAggregator example_aggregation))"]
  by (simp add: example_aggregation_def NewAlertAggregator_def)

text \<open>
  When no part contains a vertical bar, alerts share a key exactly when rule, command,
  normalized path, namespace and pod agree.
\<close>

theorem aggregationKey_identifies:
  "(\<forall>x\<in>{a, b}. CHR ''|'' \<notin> set (al_rule_id x @ al_comm x @ normalizePathPrefix (alertPath x) @
       en_namespace (al_enrichment x) @ en_pod_name (al_enrichment x)) \<Longrightarrow>
     aggregationKey a = aggregationKey b \<longleftrightarrow>
       al_rule_id a = al_rule_id b \<and> al_comm a = al_comm b \<and>
       normalizePathPrefix (alertPath a) = normalizePathPrefix (alertPath b) \<and>
       en_namespace (al_enrichment a) = en_namespace (al_enrichment b) \<and>
       en_pod_name (al_enrichment a) = en_pod_name (al_enrichment b))"
proof -
  let ?parts = "\<lambda>x. [al_rule_id x, al_comm x, normalizePathPrefix (alertPath x),
    en_namespace (al_enrichment x), en_pod_name (al_enrichment x)]"
  assume clean: "\<forall>x\<in>{a, b}. CHR ''|'' \<notin> set (al_rule_id x @ al_comm x @ normalizePathPrefix (alertPath x) @
       en_namespace (al_enrichment x) @ en_pod_name (al_enrichment x))"
  have key: "aggregationKey x = join_with CHR ''|'' (?parts x)" for x by (simp add: aggregationKey_def)
  show ?thesis
    using join_with_inject [of "?parts a" "?parts b" "CHR ''|''"] clean unfolding key by auto
qed

definition file_alert :: "string \<Rightarrow> string \<Rightarrow> alert" where
  "file_alert comm path = zero_alert\<lparr>al_rule_id := ''r'', al_comm := comm, al_event := zero_event
     \<lparr>ev_file := Some \<lparr>fl_filename = [], fl_flags = 0, fl_mode = 0, fl_op = 0, fl_fdpath = path,
        fl_fdpath_truncated = False\<rparr>\<rparr>\<rparr>"

lemmas file_alert_simps = file_alert_def alertPath_def normalizePathPrefix_def isNumeric_def is_digit_def
  pathPrefixMaxDepth_def zero_alert_def zero_enrichment_def

theorem aggregationKey_identifies_witness:
  "aggregationKey (file_alert ''sh'' ''/etc/x'') \<noteq> aggregationKey (file_alert ''sh'' ''/tmp/x'')"
  using aggregationKey_identifies [of "file_alert ''sh'' ''/etc/x''" "file_alert ''sh'' ''/tmp/x''"]
  by (simp add: file_alert_simps)

text \<open>
  In general distinct keys do collapse, against the comment on \<open>aggregationKey\<close>: command
  names and file names may contain the separator, so two commands working on different files of
  different directories share a key and the second alert is swallowed.  And the prefix keeps two
  segments, so the two files the comment on \<open>pathPrefixMaxDepth\<close> names as collapsing do not.
\<close>

theorem aggregationKey_collisions:
  "aggregationKey (file_alert ''a|/x'' ''/y'') = aggregationKey (file_alert ''a'' ''/x|/y'') \<and>
   fst (aggregator_Ingest [file_alert ''a'' ''/x|/y''] 1
     (snd (aggregator_Ingest [file_alert ''a|/x'' ''/y''] 0 (NewAlertAggregator example_aggregation)))) = [] \<and>
   normalizePathPrefix ''/etc/passwd'' \<noteq> normalizePathPrefix ''/etc/shadow''"
proof (intro conjI)
  show key: "aggregationKey (file_alert ''a|/x'' ''/y'') = aggregationKey (file_alert ''a'' ''/x|/y'')"
    by (simp add: aggregationKey_def file_alert_simps)
  then show "fst (aggregator_Ingest [file_alert ''a'' ''/x|/y''] 1
     (snd (aggregator_Ingest [file_alert ''a|/x'' ''/y''] 0 (NewAlertAggregator example_aggregation)))) = []"
    by (simp add: NewAlertAggregator_def example_aggregation_def aggregator_Ingest_def ingest_one_def
        open_window_def Let_def)
  show "normalizePathPrefix ''/etc/passwd'' \<noteq> normalizePathPrefix ''/etc/shadow''"
    by (simp add: file_alert_simps)
qed

end
