(* ===== verification/Incident_Tracker.thy ===== *)
theory Incident_Tracker
  imports Event_Types
begin

text \<open>
  Grouping of alerts to incidents (\<open>correlator/incident.go\<close>).  The tracker's two maps share their
  incidents by pointer, so incidents live in a store and the maps hold addresses; nothing is ever
  removed from the store, as Go frees only what no map holds.  The sequence number is a 64-bit word.
\<close>

section \<open>Operations\<close>

type_synonym incidentKey = "u32 \<times> string"

type_synonym address = nat

record IncidentTracker =
  it_window :: duration
  it_store :: "incident list"
  it_open :: "(incidentKey \<times> address) list"
  it_byID :: "(string \<times> address) list"
  it_seq :: u64

definition incidentRetentionMultiplier :: int where
  "incidentRetentionMultiplier = 5"

definition newIncidentTracker :: "duration \<Rightarrow> IncidentTracker" where
  "newIncidentTracker window =
     \<lparr>it_window = (if window \<le> 0 then 60 * 1000000000 else window), it_store = [], it_open = [],
      it_byID = [], it_seq = 0\<rparr>"

definition incidentSeverityRank :: "severity \<Rightarrow> nat" where
  "incidentSeverityRank s =
     (if s = SeverityCritical then 2 else if s = SeverityWarning then 1 else 0)"

definition maxIncidentSeverity :: "severity \<Rightarrow> severity \<Rightarrow> severity" where
  "maxIncidentSeverity a b = (if incidentSeverityRank b \<le> incidentSeverityRank a then a else b)"

definition unix_milli :: "time \<Rightarrow> int" where
  "unix_milli t = (t - unix_epoch) div 1000000"

definition nextID :: "time \<Rightarrow> u64 \<Rightarrow> string" where
  "nextID ts seq = ''inc-'' @ dec_int (unix_milli ts) @ CHR ''-'' # dec_nat (unat seq)"

definition incStatus :: "incident \<Rightarrow> time \<Rightarrow> duration \<Rightarrow> string" where
  "incStatus inc now window = (if time_sub now (in_last_seen inc) \<le> window then ''open'' else ''closed'')"

definition new_incident :: "string \<Rightarrow> time \<Rightarrow> alert \<Rightarrow> incident" where
  "new_incident ident ts alert =
     \<lparr>in_id = ident, in_first_seen = ts, in_last_seen = 0, in_pid = al_pid alert,
      in_namespace = en_namespace (al_enrichment alert), in_alert_ids = [], in_alert_count = 0,
      in_severity = [], in_status = [], in_rule_ids = []\<rparr>"

definition join_incident :: "time \<Rightarrow> alert \<Rightarrow> incident \<Rightarrow> incident" where
  "join_incident ts alert inc =
     inc\<lparr>in_last_seen := ts, in_alert_ids := in_alert_ids inc @ [al_id alert],
       in_alert_count := int (length (in_alert_ids inc @ [al_id alert])),
       in_severity := maxIncidentSeverity (in_severity inc) (al_severity alert),
       in_rule_ids := (if al_rule_id alert \<in> set (in_rule_ids inc) then in_rule_ids inc
         else in_rule_ids inc @ [al_rule_id alert])\<rparr>"

definition alert_key :: "alert \<Rightarrow> incidentKey" where
  "alert_key alert = (al_pid alert, en_namespace (al_enrichment alert))"

definition alert_time :: "time \<Rightarrow> alert \<Rightarrow> time" where
  "alert_time now alert = (if time_is_zero (al_timestamp alert) then now else al_timestamp alert)"

definition tracker_Add :: "time \<Rightarrow> alert \<Rightarrow> IncidentTracker \<Rightarrow> IncidentTracker" where
  "tracker_Add now alert t =
     (let key = alert_key alert; ts = alert_time now alert;
          fresh = (case map_of (it_open t) key of
             None \<Rightarrow> True
           | Some p \<Rightarrow> time_sub ts (in_last_seen (it_store t ! p)) > it_window t);
          t1 = (if fresh then
             let seq = it_seq t + 1; ident = nextID ts seq; p = length (it_store t)
             in t\<lparr>it_seq := seq, it_store := it_store t @ [new_incident ident ts alert],
                  it_open := AList.update key p (it_open t), it_byID := AList.update ident p (it_byID t)\<rparr>
             else t);
          p = the (map_of (it_open t1) key)
      in t1\<lparr>it_store := (it_store t1)[p := join_incident ts alert (it_store t1 ! p)]\<rparr>)"

definition with_status :: "time \<Rightarrow> duration \<Rightarrow> incident \<Rightarrow> incident" where
  "with_status now window inc = inc\<lparr>in_status := incStatus inc now window\<rparr>"

definition tracker_GetAll :: "time \<Rightarrow> string \<Rightarrow> string \<Rightarrow> int \<Rightarrow> IncidentTracker \<Rightarrow> incident list" where
  "tracker_GetAll now namespace status limit t =
     (let snaps = map (\<lambda>(_, p). with_status now (it_window t) (it_store t ! p)) (it_byID t);
          hits = filter (\<lambda>inc. \<not> (namespace \<noteq> [] \<and> in_namespace inc \<noteq> namespace) \<and>
            \<not> (status \<noteq> [] \<and> in_status inc \<noteq> status)) snaps
      in if limit > 0 then take (nat limit) hits else hits)"

definition tracker_GetByID :: "time \<Rightarrow> string \<Rightarrow> IncidentTracker \<Rightarrow> incident option" where
  "tracker_GetByID now ident t =
     map_option (\<lambda>p. with_status now (it_window t) (it_store t ! p)) (map_of (it_byID t) ident)"

definition tracker_Cleanup :: "time \<Rightarrow> IncidentTracker \<Rightarrow> IncidentTracker" where
  "tracker_Cleanup now t =
     (let retention = wrap64 (it_window t * incidentRetentionMultiplier)
      in t\<lparr>it_open := filter (\<lambda>(k, p). \<not> time_sub now (in_last_seen (it_store t ! p)) > it_window t) (it_open t),
           it_byID := filter (\<lambda>(i, p). \<not> time_sub now (in_last_seen (it_store t ! p)) > retention) (it_byID t)\<rparr>)"

definition tracker_Count :: "IncidentTracker \<Rightarrow> nat" where
  "tracker_Count t = length (it_byID t)"

section \<open>Identifiers\<close>

lemma nextID_inject: "nextID ts seq = nextID ts' seq' \<Longrightarrow> seq = seq'"
proof -
  assume "nextID ts seq = nextID ts' seq'"
  then have eq: "rev (dec_nat (unat seq)) @ CHR ''-'' # rev (dec_int (unix_milli ts)) =
      rev (dec_nat (unat seq')) @ CHR ''-'' # rev (dec_int (unix_milli ts'))"
    by (simp add: nextID_def) (metis append.assoc append_Cons append_Nil rev.simps(2) rev_append)
  have no: "CHR ''-'' \<notin> set (rev (dec_nat n))" for n
    using dec_nat_digits [of _ n] minus_not_digit(1) by auto
  from split_on_append_sep [OF no] eq have "rev (dec_nat (unat seq)) = rev (dec_nat (unat seq'))"
    by (metis list.inject)
  then show "seq = seq'" by (simp add: word_unat_eq_iff)
qed

section \<open>Invariant\<close>

text \<open>The runs of a tracker, with the alerts added so far.\<close>

inductive tracker_run :: "duration \<Rightarrow> IncidentTracker \<Rightarrow> alert list \<Rightarrow> bool" for window where
  fresh: "tracker_run window (newIncidentTracker window) []"
| add: "tracker_run window t alerts \<Longrightarrow> tracker_run window (tracker_Add now alert t) (alerts @ [alert])"
| clean: "tracker_run window t alerts \<Longrightarrow> tracker_run window (tracker_Cleanup now t) alerts"

definition incident_ok :: "incident \<Rightarrow> bool" where
  "incident_ok inc \<longleftrightarrow> in_alert_ids inc \<noteq> [] \<and> in_alert_count inc = int (length (in_alert_ids inc)) \<and>
     in_rule_ids inc \<noteq> [] \<and> distinct (in_rule_ids inc)"

definition tracker_ok :: "IncidentTracker \<Rightarrow> bool" where
  "tracker_ok t \<longleftrightarrow> 0 < it_window t \<and> it_window t * 5 \<le> max_duration \<and>
     it_seq t = word_of_nat (length (it_store t)) \<and>
     distinct_keys (it_open t) \<and> distinct_keys (it_byID t) \<and>
     (\<forall>p<length (it_store t). incident_ok (it_store t ! p) \<and>
        (\<exists>ts. in_id (it_store t ! p) = nextID ts (word_of_nat (Suc p)))) \<and>
     (\<forall>(k, p)\<in>set (it_open t). p < length (it_store t) \<and>
        (in_pid (it_store t ! p), in_namespace (it_store t ! p)) = k \<and>
        map_of (it_byID t) (in_id (it_store t ! p)) = Some p) \<and>
     (\<forall>(i, p)\<in>set (it_byID t). p < length (it_store t) \<and> in_id (it_store t ! p) = i)"

lemma join_incident_simps [simp]:
  "in_id (join_incident ts al inc) = in_id inc"
  "in_pid (join_incident ts al inc) = in_pid inc"
  "in_namespace (join_incident ts al inc) = in_namespace inc"
  "in_last_seen (join_incident ts al inc) = ts"
  "in_alert_ids (join_incident ts al inc) = in_alert_ids inc @ [al_id al]"
  by (simp_all add: join_incident_def)

lemma join_incident_ok:
  "distinct (in_rule_ids inc) \<Longrightarrow> incident_ok (join_incident ts al inc)"
  by (auto simp: incident_ok_def join_incident_def)

lemma join_ok:
  assumes ok: "tracker_ok t" and p: "map_of (it_open t) key = Some p"
  shows "tracker_ok (t\<lparr>it_store := (it_store t)[p := join_incident ts al (it_store t ! p)]\<rparr>)"
proof -
  have lp: "p < length (it_store t)" using ok map_of_SomeD [OF p] by (auto simp: tracker_ok_def)
  then have "distinct (in_rule_ids (it_store t ! p))" using ok by (auto simp: tracker_ok_def incident_ok_def)
  note new = join_incident_ok [OF this, of ts al]
  have st: "in_id ((it_store t)[p := join_incident ts al (it_store t ! p)] ! q) = in_id (it_store t ! q)"
    "in_pid ((it_store t)[p := join_incident ts al (it_store t ! p)] ! q) = in_pid (it_store t ! q)"
    "in_namespace ((it_store t)[p := join_incident ts al (it_store t ! p)] ! q) = in_namespace (it_store t ! q)" for q
    using lp by (cases "q = p"; simp)+
  have "incident_ok ((it_store t)[p := join_incident ts al (it_store t ! p)] ! q)" if "q < length (it_store t)" for q
    using that new ok by (cases "q = p") (auto simp: tracker_ok_def)
  with ok st show ?thesis unfolding tracker_ok_def by auto
qed

text \<open>The state between allocating an incident and joining it: its fields are not filled yet.\<close>

lemma open_ok:
  fixes t :: IncidentTracker and ts :: time
  assumes ok: "tracker_ok t" and len: "Suc (length (it_store t)) < 2 ^ 64"
  defines "p \<equiv> length (it_store t)"
  defines "ident \<equiv> nextID ts (it_seq t + 1)"
  shows "tracker_ok (t\<lparr>it_seq := it_seq t + 1,
      it_store := it_store t @ [join_incident ts al (new_incident ident ts al)],
      it_open := AList.update (alert_key al) p (it_open t), it_byID := AList.update ident p (it_byID t)\<rparr>)"
    (is "tracker_ok ?t")
proof -
  have seq: "it_seq t + 1 = word_of_nat (Suc p)" using ok by (simp add: tracker_ok_def p_def)
  have free: "in_id (it_store t ! q) \<noteq> ident" if "q < p" for q
  proof
    assume "in_id (it_store t ! q) = ident"
    moreover obtain ts' where "in_id (it_store t ! q) = nextID ts' (word_of_nat (Suc q))"
      using ok \<open>q < p\<close> by (auto simp: tracker_ok_def p_def)
    ultimately have "(word_of_nat (Suc q) :: u64) = word_of_nat (Suc p)"
      using nextID_inject [of ts' "word_of_nat (Suc q)" ts "it_seq t + 1"] seq by (simp add: ident_def)
    then have "unat (word_of_nat (Suc q) :: u64) = unat (word_of_nat (Suc p) :: u64)" by simp
    with len \<open>q < p\<close> show False by (simp add: unat_of_nat p_def del: of_nat_Suc)
  qed
  let ?inc = "join_incident ts al (new_incident ident ts al)"
  have store: "it_store ?t ! q = (if q < p then it_store t ! q else ?inc)" if "q < Suc p" for q
    using that by (simp add: nth_append p_def)
  have inc: "incident_ok ?inc" "in_id ?inc = ident" "(in_pid ?inc, in_namespace ?inc) = alert_key al"
    by (simp_all add: join_incident_ok new_incident_def alert_key_def)
  have "\<forall>q<Suc p. incident_ok (it_store ?t ! q) \<and> (\<exists>ts. in_id (it_store ?t ! q) = nextID ts (word_of_nat (Suc q)))"
  proof (intro allI impI)
    fix q assume q: "q < Suc p"
    show "incident_ok (it_store ?t ! q) \<and> (\<exists>ts. in_id (it_store ?t ! q) = nextID ts (word_of_nat (Suc q)))"
    proof (cases "q < p")
      case True
      then have "it_store ?t ! q = it_store t ! q" using store [OF q] by simp
      with ok True show ?thesis unfolding tracker_ok_def p_def by (simp only: conj_ac)
    next
      case False
      with q have "q = p" by simp
      moreover have "in_id ?inc = nextID ts (word_of_nat (Suc p))" by (simp only: inc(2)) (simp only: ident_def seq)
      ultimately show ?thesis using inc(1) store [of p] by auto
    qed
  qed
  moreover have "\<forall>(k, q)\<in>set (it_open ?t). q < Suc p \<and> (in_pid (it_store ?t ! q), in_namespace (it_store ?t ! q)) = k \<and>
      map_of (it_byID ?t) (in_id (it_store ?t ! q)) = Some q"
  proof (intro ballI, clarify)
    fix k q assume "(k, q) \<in> set (it_open ?t)"
    then consider "(k, q) = (alert_key al, p)" | "(k, q) \<in> set (it_open t)"
      using set_update_alist [of "alert_key al" p "it_open t"] by auto
    then show "q < Suc p \<and> (in_pid (it_store ?t ! q), in_namespace (it_store ?t ! q)) = k \<and>
      map_of (it_byID ?t) (in_id (it_store ?t ! q)) = Some q"
    proof cases
      case 1
      then show ?thesis using inc store [of p] by simp
    next
      case 2
      with ok have q: "q < p" "(in_pid (it_store t ! q), in_namespace (it_store t ! q)) = k"
        "map_of (it_byID t) (in_id (it_store t ! q)) = Some q" by (auto simp: tracker_ok_def p_def)
      with free [OF q(1)] store [of q] show ?thesis by simp
    qed
  qed
  moreover have "\<forall>(i, q)\<in>set (it_byID ?t). q < Suc p \<and> in_id (it_store ?t ! q) = i"
  proof (intro ballI, clarify)
    fix i q assume "(i, q) \<in> set (it_byID ?t)"
    then consider "(i, q) = (ident, p)" | "(i, q) \<in> set (it_byID t)"
      using set_update_alist [of ident p "it_byID t"] by auto
    then show "q < Suc p \<and> in_id (it_store ?t ! q) = i"
    proof cases
      case 1
      then show ?thesis using inc store [of p] by simp
    next
      case 2
      with ok have "q < p" "in_id (it_store t ! q) = i" by (auto simp: tracker_ok_def p_def)
      with store [of q] show ?thesis by simp
    qed
  qed
  ultimately show ?thesis using ok seq unfolding tracker_ok_def by (simp add: p_def)
qed

lemma Cleanup_ok:
  assumes "tracker_ok t"
  shows "tracker_ok (tracker_Cleanup now t)"
proof -
  let ?w = "it_window t"
  have ret: "wrap64 (?w * incidentRetentionMultiplier) = ?w * 5" "?w \<le> ?w * 5"
    using assms wrap64_id [of "?w * 5"] by (simp_all add: tracker_ok_def incidentRetentionMultiplier_def is_duration_def)
  have stay: "map_of (it_byID (tracker_Cleanup now t)) (in_id (it_store t ! p)) = Some p"
    if "(k, p) \<in> set (it_open t)" "\<not> time_sub now (in_last_seen (it_store t ! p)) > ?w" for k p
  proof -
    have "map_of (it_byID t) (in_id (it_store t ! p)) = Some p" "distinct_keys (it_byID t)"
      using that(1) assms by (auto simp: tracker_ok_def)
    with that(2) ret show ?thesis by (simp add: tracker_Cleanup_def Let_def filter_keys_map_of)
  qed
  have sub: "set (it_open (tracker_Cleanup now t)) \<subseteq> set (it_open t)"
      "set (it_byID (tracker_Cleanup now t)) \<subseteq> set (it_byID t)"
    by (auto simp: tracker_Cleanup_def Let_def)
  have same: "it_store (tracker_Cleanup now t) = it_store t" "it_seq (tracker_Cleanup now t) = it_seq t"
      "it_window (tracker_Cleanup now t) = it_window t"
      "distinct_keys (it_open (tracker_Cleanup now t))" "distinct_keys (it_byID (tracker_Cleanup now t))"
    using assms by (simp_all add: tracker_Cleanup_def Let_def tracker_ok_def)
  have "\<forall>(k, p)\<in>set (it_open (tracker_Cleanup now t)). p < length (it_store t) \<and>
      (in_pid (it_store t ! p), in_namespace (it_store t ! p)) = k \<and>
      map_of (it_byID (tracker_Cleanup now t)) (in_id (it_store t ! p)) = Some p"
  proof (intro ballI, clarify)
    fix k p assume kp: "(k, p) \<in> set (it_open (tracker_Cleanup now t))"
    then have "\<not> time_sub now (in_last_seen (it_store t ! p)) > ?w" by (simp add: tracker_Cleanup_def Let_def)
    with kp sub(1) assms stay [of k p] show "p < length (it_store t) \<and>
        (in_pid (it_store t ! p), in_namespace (it_store t ! p)) = k \<and>
        map_of (it_byID (tracker_Cleanup now t)) (in_id (it_store t ! p)) = Some p"
      by (fastforce simp: tracker_ok_def)
  qed
  with assms sub(2) same show ?thesis unfolding tracker_ok_def by (simp add: subset_iff) blast
qed

section \<open>What an alert does\<close>

text \<open>The incident an alert joins: the open one of its process if its last alert is recent enough.\<close>

definition joined :: "time \<Rightarrow> alert \<Rightarrow> IncidentTracker \<Rightarrow> address option" where
  "joined now alert t = (case map_of (it_open t) (alert_key alert) of
     None \<Rightarrow> None
   | Some p \<Rightarrow> if time_sub (alert_time now alert) (in_last_seen (it_store t ! p)) > it_window t then None else Some p)"

lemma Add_joined:
  "joined now alert t = Some p \<Longrightarrow> tracker_Add now alert t =
     t\<lparr>it_store := (it_store t)[p := join_incident (alert_time now alert) alert (it_store t ! p)]\<rparr>"
  by (auto simp: joined_def tracker_Add_def Let_def split: option.splits if_splits)

lemma Add_opened:
  assumes "joined now alert t = None"
  defines "ts \<equiv> alert_time now alert"
  shows "tracker_Add now alert t = t\<lparr>it_seq := it_seq t + 1,
     it_store := it_store t @ [join_incident ts alert (new_incident (nextID ts (it_seq t + 1)) ts alert)],
     it_open := AList.update (alert_key alert) (length (it_store t)) (it_open t),
     it_byID := AList.update (nextID ts (it_seq t + 1)) (length (it_store t)) (it_byID t)\<rparr>"
  using assms(1)
  by (auto simp: joined_def tracker_Add_def Let_def ts_def split: option.splits if_splits)

lemma Add_ok:
  assumes "tracker_ok t" "Suc (length (it_store t)) < 2 ^ 64"
  shows "tracker_ok (tracker_Add now alert t)"
proof (cases "joined now alert t")
  case None
  with open_ok [OF assms] show ?thesis by (simp add: Add_opened)
next
  case (Some p)
  then have "map_of (it_open t) (alert_key alert) = Some p"
    by (auto simp: joined_def split: option.splits if_splits)
  from join_ok [OF assms(1) this] show ?thesis by (simp add: Add_joined [OF Some])
qed

lemma length_store_Add:
  "length (it_store (tracker_Add now alert t)) \<le> Suc (length (it_store t))"
  by (cases "joined now alert t") (simp_all add: Add_opened Add_joined)

lemma tracker_run_size: "tracker_run w t alerts \<Longrightarrow> length (it_store t) \<le> length alerts"
proof (induction rule: tracker_run.induct)
  case (add t alerts now alert)
  with length_store_Add [of now alert t] show ?case by simp
qed (simp_all add: newIncidentTracker_def tracker_Cleanup_def Let_def)

lemma tracker_run_ok:
  "tracker_run w t alerts \<Longrightarrow> w * 5 \<le> max_duration \<Longrightarrow> length alerts < 2 ^ 64 \<Longrightarrow> tracker_ok t"
proof (induction rule: tracker_run.induct)
  case fresh
  then show ?case by (auto simp: tracker_ok_def newIncidentTracker_def max_duration_def)
next
  case (add t alerts now alert)
  then have "Suc (length (it_store t)) < 2 ^ 64" using tracker_run_size [OF add.hyps] by simp
  with add show ?case by (simp add: Add_ok)
qed (simp add: Cleanup_ok)

lemma store_alerts_Add:
  assumes "tracker_ok t"
  shows "mset (concat (map in_alert_ids (it_store (tracker_Add now alert t)))) =
    add_mset (al_id alert) (mset (concat (map in_alert_ids (it_store t))))"
proof (cases "joined now alert t")
  case None
  then show ?thesis by (simp add: Add_opened new_incident_def)
next
  case (Some p)
  then have "(alert_key alert, p) \<in> set (it_open t)"
    by (auto simp: joined_def split: option.splits if_splits dest: map_of_SomeD)
  with assms have p: "p < length (it_store t)" by (auto simp: tracker_ok_def)
  have "mset (concat (map in_alert_ids (xs[p := join_incident ts alert (xs ! p)]))) =
      add_mset (al_id alert) (mset (concat (map in_alert_ids xs)))" if "p < length xs" for xs ts
    using that
    by (subst (3) id_take_nth_drop [of p xs]) (simp_all add: upd_conv_take_nth_drop)
  with p show ?thesis by (simp add: Add_joined [OF Some])
qed

text \<open>
  C13 (invariant).  Incidents partition the alerts: after any sequence of additions and cleanups, the
  alerts of all incidents ever opened are together exactly the alerts added, each once; every incident
  has an alert, counts its alerts, and lists its rules without repetition; and an open incident belongs
  to its process and namespace and is found under its ID.
\<close>

theorem incidents_partition_alerts:
  assumes "tracker_run w t alerts" "w * 5 \<le> max_duration" "length alerts < 2 ^ 64"
  shows "mset (concat (map in_alert_ids (it_store t))) = mset (map al_id alerts) \<and>
    (\<forall>inc\<in>set (it_store t). in_alert_ids inc \<noteq> [] \<and> in_alert_count inc = int (length (in_alert_ids inc)) \<and>
       in_rule_ids inc \<noteq> [] \<and> distinct (in_rule_ids inc)) \<and>
    (\<forall>pid ns p. map_of (it_open t) (pid, ns) = Some p \<longrightarrow>
       (\<exists>inc. tracker_GetByID now (in_id (it_store t ! p)) t = Some inc \<and> in_pid inc = pid \<and> in_namespace inc = ns))"
proof (intro conjI)
  have ok: "tracker_ok t" by (rule tracker_run_ok [OF assms])
  show "mset (concat (map in_alert_ids (it_store t))) = mset (map al_id alerts)"
    using assms
  proof (induction rule: tracker_run.induct)
    case (add t alerts now alert)
    then have "tracker_ok t" by (simp add: tracker_run_ok)
    from store_alerts_Add [OF this] add show ?case by simp
  qed (simp_all add: newIncidentTracker_def tracker_Cleanup_def Let_def)
  show "\<forall>inc\<in>set (it_store t). in_alert_ids inc \<noteq> [] \<and> in_alert_count inc = int (length (in_alert_ids inc)) \<and>
       in_rule_ids inc \<noteq> [] \<and> distinct (in_rule_ids inc)"
    using ok by (auto simp: tracker_ok_def incident_ok_def in_set_conv_nth)
  have "\<exists>inc. tracker_GetByID now (in_id (it_store t ! p)) t = Some inc \<and> in_pid inc = pid \<and> in_namespace inc = ns"
    if "map_of (it_open t) (pid, ns) = Some p" for pid ns p
    using ok map_of_SomeD [OF that] by (fastforce simp: tracker_ok_def tracker_GetByID_def with_status_def)
  then show "\<forall>pid ns p. map_of (it_open t) (pid, ns) = Some p \<longrightarrow>
       (\<exists>inc. tracker_GetByID now (in_id (it_store t ! p)) t = Some inc \<and> in_pid inc = pid \<and> in_namespace inc = ns)"
    by blast
qed

theorem incidents_partition_alerts_witness:
  "mset (concat (map in_alert_ids (it_store (tracker_Add 1 zero_alert (newIncidentTracker 60))))) = {#[]#}"
  using incidents_partition_alerts [of 60 "tracker_Add 1 zero_alert (newIncidentTracker 60)" "[] @ [zero_alert]",
      OF tracker_run.add [OF tracker_run.fresh]]
  by (simp add: max_duration_def zero_alert_def)

text \<open>
  C22 (functional).  After an alert there is an open incident of its process and namespace, found under
  its ID, last seen at the alert's time, that lists the alert's rule and is at least as severe; its
  alerts are those of the previous incident of the process, if that one's last alert lies at most the
  window back, followed by the new one, and otherwise the new one alone.
\<close>

theorem Add_joins_or_opens:
  assumes "tracker_run w t alerts" "w * 5 \<le> max_duration" "Suc (length alerts) < 2 ^ 64"
  shows "\<exists>inc. tracker_GetByID (alert_time now alert) (in_id inc) (tracker_Add now alert t) = Some inc \<and>
    in_status inc = ''open'' \<and> in_last_seen inc = alert_time now alert \<and>
    in_pid inc = al_pid alert \<and> in_namespace inc = en_namespace (al_enrichment alert) \<and>
    al_rule_id alert \<in> set (in_rule_ids inc) \<and>
    incidentSeverityRank (al_severity alert) \<le> incidentSeverityRank (in_severity inc) \<and>
    in_alert_ids inc = (case joined now alert t of None \<Rightarrow> [] | Some p \<Rightarrow> in_alert_ids (it_store t ! p)) @ [al_id alert]"
proof -
  let ?ts = "alert_time now alert" and ?t = "tracker_Add now alert t"
  have ok: "tracker_ok t" "tracker_ok ?t"
    using tracker_run_ok [OF assms(1,2)] tracker_run_ok [OF tracker_run.add [OF assms(1)] assms(2)] assms(3) by auto
  have "\<exists>p old. map_of (it_open ?t) (alert_key alert) = Some p \<and> it_store ?t ! p = join_incident ?ts alert old \<and>
      in_alert_ids old = (case joined now alert t of None \<Rightarrow> [] | Some p \<Rightarrow> in_alert_ids (it_store t ! p))"
  proof (cases "joined now alert t")
    case None
    then show ?thesis by (auto simp: Add_opened new_incident_def)
  next
    case (Some p)
    then have p: "map_of (it_open t) (alert_key alert) = Some p"
      by (auto simp: joined_def split: option.splits if_splits)
    with ok(1) have "p < length (it_store t)" by (auto simp: tracker_ok_def dest!: map_of_SomeD)
    with p Some show ?thesis by (auto simp: Add_joined [OF Some])
  qed
  then obtain p old where p: "map_of (it_open ?t) (alert_key alert) = Some p"
    and inc: "it_store ?t ! p = join_incident ?ts alert old"
    and old: "in_alert_ids old = (case joined now alert t of None \<Rightarrow> [] | Some p \<Rightarrow> in_alert_ids (it_store t ! p))"
    by blast
  have key: "(in_pid (it_store ?t ! p), in_namespace (it_store ?t ! p)) = alert_key alert"
      "map_of (it_byID ?t) (in_id (it_store ?t ! p)) = Some p" "0 < it_window ?t"
    using ok(2) map_of_SomeD [OF p] unfolding tracker_ok_def by blast+
  let ?inc = "with_status ?ts (it_window ?t) (it_store ?t ! p)"
  have "tracker_GetByID ?ts (in_id ?inc) ?t = Some ?inc"
    using key(2) by (simp add: tracker_GetByID_def with_status_def)
  moreover have "in_status ?inc = ''open''"
    using key(3) inc by (simp add: with_status_def incStatus_def time_sub_def max_duration_def)
  ultimately show ?thesis
    using key(1) inc old
    by (intro exI [of _ ?inc]) (auto simp: with_status_def alert_key_def join_incident_def maxIncidentSeverity_def)
qed

theorem Add_joins_or_opens_witness:
  "\<exists>inc. tracker_GetByID 1 (in_id inc) (tracker_Add 1 zero_alert (newIncidentTracker 60)) = Some inc \<and>
     in_status inc = ''open'' \<and> in_alert_ids inc = [[]]"
proof -
  have "alert_time 1 zero_alert = 1" by (simp add: alert_time_def zero_alert_def time_is_zero_def)
  moreover have "joined 1 zero_alert (newIncidentTracker 60) = None" by (simp add: joined_def newIncidentTracker_def)
  ultimately show ?thesis
    using Add_joins_or_opens [OF tracker_run.fresh [of 60], of 1 zero_alert]
    by (auto simp: max_duration_def zero_alert_def)
qed

end
