(* ===== verification/Alertmanager_Client.thy ===== *)
theory Alertmanager_Client
  imports Event_Types
begin

text \<open>
  The Alertmanager exporter (\<open>exporter/alertmanager.go\<close>, \<open>exporter/alertmanager_circuit.go\<close>): a batching
  client with a circuit breaker and a bounded fallback queue.  Sends run concurrently, so the client is
  a transition system: batches in flight end, successfully or not, in any order and at any time,
  interleaved with the other operations, each of which runs under the client's lock.  The outcome of
  an HTTP request is a label of the transition; what was delivered, lost by a failed send or dropped
  from the full queue is recorded beside the state.
\<close>

section \<open>Circuit breaker\<close>

datatype cb_state = CbClosed | CbOpen | CbHalfOpen

record CircuitBreaker =
  cb_state :: cb_state
  cb_failCount :: int
  cb_threshold :: int
  cb_resetTimeout :: duration
  cb_openedAt :: int

definition newCircuitBreaker :: "int \<Rightarrow> duration \<Rightarrow> CircuitBreaker" where
  "newCircuitBreaker threshold resetTimeout =
     \<lparr>cb_state = CbClosed, cb_failCount = 0, cb_threshold = int32 (if threshold \<le> 0 then 5 else threshold),
      cb_resetTimeout = (if resetTimeout \<le> 0 then 30 * 1000000000 else resetTimeout), cb_openedAt = 0\<rparr>"

definition unix_nano :: "time \<Rightarrow> int" where
  "unix_nano t = wrap64 (t - unix_epoch)"

definition TryRecover :: "time \<Rightarrow> CircuitBreaker \<Rightarrow> CircuitBreaker" where
  "TryRecover now cb =
     (if cb_state cb \<noteq> CbOpen then cb
      else if time_sub now (unix_epoch + cb_openedAt cb) < cb_resetTimeout cb then cb
      else cb\<lparr>cb_state := CbHalfOpen\<rparr>)"

definition cb_Allow :: "CircuitBreaker \<Rightarrow> bool" where
  "cb_Allow cb \<longleftrightarrow> cb_state cb \<noteq> CbOpen"

definition RecordSuccess :: "CircuitBreaker \<Rightarrow> bool \<times> CircuitBreaker" where
  "RecordSuccess cb =
     (let cb = cb\<lparr>cb_failCount := 0\<rparr>
      in if cb_state cb = CbHalfOpen then (True, cb\<lparr>cb_state := CbClosed, cb_openedAt := 0\<rparr>)
         else (False, cb))"

definition RecordFailure :: "time \<Rightarrow> CircuitBreaker \<Rightarrow> CircuitBreaker" where
  "RecordFailure now cb =
     (let newCount = int32 (cb_failCount cb + 1)
      in if cb_state cb = CbHalfOpen then
           cb\<lparr>cb_state := CbOpen, cb_openedAt := unix_nano now, cb_failCount := 0\<rparr>
         else if cb_state cb = CbClosed \<and> cb_threshold cb \<le> newCount then
           cb\<lparr>cb_state := CbOpen, cb_openedAt := unix_nano now, cb_failCount := newCount\<rparr>
         else cb\<lparr>cb_failCount := newCount\<rparr>)"

section \<open>Fallback queue\<close>

record FallbackQueue =
  fq_items :: "alert_payload list"
  fq_maxSize :: nat
  fq_dropped :: "alert_payload list"

definition newFallbackQueue :: "int \<Rightarrow> FallbackQueue" where
  "newFallbackQueue maxSize =
     \<lparr>fq_items = [], fq_maxSize = nat (if maxSize \<le> 0 then 10000 else maxSize), fq_dropped = []\<rparr>"

definition Enqueue :: "alert_payload \<Rightarrow> FallbackQueue \<Rightarrow> FallbackQueue" where
  "Enqueue payload q =
     (let q = (if fq_maxSize q \<le> length (fq_items q)
        then q\<lparr>fq_items := tl (fq_items q), fq_dropped := fq_dropped q @ [hd (fq_items q)]\<rparr> else q)
      in q\<lparr>fq_items := fq_items q @ [payload]\<rparr>)"

definition DrainAll :: "FallbackQueue \<Rightarrow> alert_payload list \<times> FallbackQueue" where
  "DrainAll q = (fq_items q, q\<lparr>fq_items := []\<rparr>)"

section \<open>Client\<close>

record AlertmanagerClient =
  ac_generatorURL :: string
  ac_batchSize :: int
  ac_batch :: "alert_payload list"
  ac_timer :: bool
  ac_cb :: CircuitBreaker
  ac_fallback :: FallbackQueue
  ac_closed :: bool
  ac_inflight :: "alert_payload list list"

definition newAlertmanagerClientFull :: "string \<Rightarrow> int \<Rightarrow> int \<Rightarrow> duration \<Rightarrow> int \<Rightarrow> AlertmanagerClient option" where
  "newAlertmanagerClientFull generatorURL batchSize threshold resetTimeout bufferSize =
     (if batchSize < 0 then None
      else Some \<lparr>ac_generatorURL = generatorURL, ac_batchSize = batchSize, ac_batch = [], ac_timer = False,
        ac_cb = newCircuitBreaker threshold resetTimeout, ac_fallback = newFallbackQueue bufferSize,
        ac_closed = False, ac_inflight = []\<rparr>)"

definition alertToPayload :: "string \<Rightarrow> alert \<Rightarrow> alert_payload" where
  "alertToPayload generatorURL alert =
     (let en = al_enrichment alert;
          pods = (en_pod_name en \<noteq> [] \<or> en_namespace en \<noteq> [])
      in \<lparr>pl_labels = \<lparr>lb_alertname = ''EbpfGuardAlert'', lb_rule_id = al_rule_id alert,
            lb_severity = al_severity alert,
            lb_pod = (if pods then en_pod_name en else []),
            lb_namespace = (if pods then en_namespace en else []),
            lb_container_id = (if pods then en_container_id en else []),
            lb_pod_labels = (if pods \<and> en_labels en \<noteq> [] then en_labels en else [])\<rparr>,
          pl_annotations = \<lparr>an_summary = al_rule_name alert,
            an_description = (if al_trace_id alert \<noteq> []
              then al_message alert @ '' [trace_id: '' @ al_trace_id alert @ '']'' else al_message alert)\<rparr>,
          pl_generator_url = generatorURL\<rparr>)"

definition flushUnlocked :: "time \<Rightarrow> AlertmanagerClient \<Rightarrow> AlertmanagerClient" where
  "flushUnlocked now c =
     (if ac_batch c = [] \<and> fq_items (ac_fallback c) = [] then c
      else let c = c\<lparr>ac_timer := False, ac_cb := TryRecover now (ac_cb c)\<rparr>
        in if \<not> cb_Allow (ac_cb c) then
             c\<lparr>ac_fallback := fold Enqueue (ac_batch c) (ac_fallback c), ac_batch := []\<rparr>
           else case DrainAll (ac_fallback c) of (fallbackPayloads, q) \<Rightarrow>
             let batch = fallbackPayloads @ ac_batch c
             in if batch = [] then c\<lparr>ac_fallback := q, ac_batch := []\<rparr>
                else c\<lparr>ac_fallback := q, ac_batch := [], ac_inflight := ac_inflight c @ [batch]\<rparr>)"

definition SendAlert :: "time \<Rightarrow> alert \<Rightarrow> AlertmanagerClient \<Rightarrow> AlertmanagerClient" where
  "SendAlert now alert c =
     (if ac_closed c then c
      else let payload = alertToPayload (ac_generatorURL c) alert;
               c = c\<lparr>ac_cb := TryRecover now (ac_cb c)\<rparr>
        in if \<not> cb_Allow (ac_cb c) then c\<lparr>ac_fallback := Enqueue payload (ac_fallback c)\<rparr>
           else let c = c\<lparr>ac_batch := ac_batch c @ [payload]\<rparr>
             in if ac_batchSize c \<le> int (length (ac_batch c)) then flushUnlocked now c
                else c\<lparr>ac_timer := True\<rparr>)"

definition timer_fires :: "time \<Rightarrow> AlertmanagerClient \<Rightarrow> AlertmanagerClient" where
  "timer_fires now c = (if ac_closed c then c else flushUnlocked now (c\<lparr>ac_timer := False\<rparr>))"

definition client_Close :: "AlertmanagerClient \<Rightarrow> AlertmanagerClient" where
  "client_Close c = c\<lparr>ac_closed := True, ac_timer := False\<rparr>"

text \<open>
  The end of \<open>sendBatch\<close>, with the outcome of the request; the flag says that a flush is due.  \<open>recordSuccess\<close> does
  both without a step of another goroutine between them.
\<close>

definition batch_sent :: "AlertmanagerClient \<Rightarrow> bool \<times> AlertmanagerClient" where
  "batch_sent c = (case RecordSuccess (ac_cb c) of (recovered, cb) \<Rightarrow> (recovered, c\<lparr>ac_cb := cb\<rparr>))"

definition recordSuccess :: "time \<Rightarrow> AlertmanagerClient \<Rightarrow> AlertmanagerClient" where
  "recordSuccess now c = (case batch_sent c of (recovered, c) \<Rightarrow> if recovered then flushUnlocked now c else c)"

definition batch_failed :: "time \<Rightarrow> AlertmanagerClient \<Rightarrow> AlertmanagerClient" where
  "batch_failed now c = c\<lparr>ac_cb := RecordFailure now (ac_cb c)\<rparr>"

definition take_batch :: "nat \<Rightarrow> AlertmanagerClient \<Rightarrow> AlertmanagerClient" where
  "take_batch i c = c\<lparr>ac_inflight := take i (ac_inflight c) @ drop (Suc i) (ac_inflight c)\<rparr>"

section \<open>Every accepted alert is somewhere\<close>

text \<open>
  The runs of a client: with the multisets of the payloads it accepted, delivered and lost in failed
  sends.  A timer may fire at any time, and the flush that follows a recovery is a flush like any other.
\<close>

inductive am_run :: "AlertmanagerClient \<Rightarrow> alert_payload multiset \<Rightarrow> alert_payload multiset \<Rightarrow>
    alert_payload multiset \<Rightarrow> bool" where
  start: "newAlertmanagerClientFull url n threshold timeout buffer = Some c \<Longrightarrow> am_run c {#} {#} {#}"
| send: "am_run c accepted delivered lost \<Longrightarrow>
    am_run (SendAlert now alert c)
      (if ac_closed c then accepted else add_mset (alertToPayload (ac_generatorURL c) alert) accepted) delivered lost"
| timer: "am_run c accepted delivered lost \<Longrightarrow> am_run (timer_fires now c) accepted delivered lost"
| flush: "am_run c accepted delivered lost \<Longrightarrow> am_run (flushUnlocked now c) accepted delivered lost"
| close: "am_run c accepted delivered lost \<Longrightarrow> am_run (client_Close c) accepted delivered lost"
| sent: "am_run c accepted delivered lost \<Longrightarrow> i < length (ac_inflight c) \<Longrightarrow>
    am_run (snd (batch_sent (take_batch i c))) accepted (delivered + mset (ac_inflight c ! i)) lost"
| failed: "am_run c accepted delivered lost \<Longrightarrow> i < length (ac_inflight c) \<Longrightarrow>
    am_run (batch_failed now (take_batch i c)) accepted delivered (lost + mset (ac_inflight c ! i))"

definition held :: "AlertmanagerClient \<Rightarrow> alert_payload multiset" where
  "held c = mset (ac_batch c) + mset (fq_items (ac_fallback c)) + mset (fq_dropped (ac_fallback c)) +
     mset (concat (ac_inflight c))"

definition client_ok :: "AlertmanagerClient \<Rightarrow> bool" where
  "client_ok c \<longleftrightarrow> 0 < fq_maxSize (ac_fallback c) \<and> length (fq_items (ac_fallback c)) \<le> fq_maxSize (ac_fallback c) \<and>
     [] \<notin> set (ac_inflight c)"

lemma Enqueue_ok:
  assumes "0 < fq_maxSize q" "length (fq_items q) \<le> fq_maxSize q"
  shows "fq_maxSize (Enqueue p q) = fq_maxSize q" "length (fq_items (Enqueue p q)) \<le> fq_maxSize q"
    "mset (fq_items (Enqueue p q)) + mset (fq_dropped (Enqueue p q)) =
       add_mset p (mset (fq_items q) + mset (fq_dropped q))"
  using assms by (cases "fq_items q"; auto simp: Enqueue_def Let_def)+

lemma fold_Enqueue_ok:
  assumes "0 < fq_maxSize q" "length (fq_items q) \<le> fq_maxSize q"
  shows "fq_maxSize (fold Enqueue ps q) = fq_maxSize q \<and> length (fq_items (fold Enqueue ps q)) \<le> fq_maxSize q \<and>
    mset (fq_items (fold Enqueue ps q)) + mset (fq_dropped (fold Enqueue ps q)) =
      mset ps + mset (fq_items q) + mset (fq_dropped q)"
  using assms
proof (induction ps arbitrary: q)
  case (Cons p ps)
  note e = Enqueue_ok [OF Cons.prems, of p]
  from Cons.IH [of "Enqueue p q"] Cons.prems e show ?case by (simp add: union_assoc)
qed simp

lemma flush_ok:
  assumes "client_ok c"
  shows "client_ok (flushUnlocked now c) \<and> held (flushUnlocked now c) = held c"
proof (cases "ac_batch c = [] \<and> fq_items (ac_fallback c) = []")
  case False
  have q: "0 < fq_maxSize (ac_fallback c)" "length (fq_items (ac_fallback c)) \<le> fq_maxSize (ac_fallback c)"
    using assms by (simp_all add: client_ok_def)
  show ?thesis
  proof (cases "cb_Allow (TryRecover now (ac_cb c))")
    case True
    with False assms show ?thesis
      by (auto simp: flushUnlocked_def Let_def DrainAll_def client_ok_def held_def)
  next
    case blocked: False
    with False assms fold_Enqueue_ok [OF q, of "ac_batch c"] show ?thesis
      by (simp add: flushUnlocked_def Let_def client_ok_def held_def)
  qed
qed (use assms in \<open>simp add: flushUnlocked_def\<close>)

lemma client_ok_irrelevant [simp]:
  "client_ok (c\<lparr>ac_cb := cb\<rparr>) = client_ok c" "held (c\<lparr>ac_cb := cb\<rparr>) = held c"
  "client_ok (c\<lparr>ac_timer := b\<rparr>) = client_ok c" "held (c\<lparr>ac_timer := b\<rparr>) = held c"
  "client_ok (c\<lparr>ac_closed := b\<rparr>) = client_ok c" "held (c\<lparr>ac_closed := b\<rparr>) = held c"
  "client_ok (c\<lparr>ac_batch := ps\<rparr>) = client_ok c"
  "client_ok (c\<lparr>ac_cb := cb, ac_batch := ps\<rparr>) = client_ok c"
  by (simp_all add: client_ok_def held_def)

lemma SendAlert_ok:
  assumes "client_ok c"
  shows "client_ok (SendAlert now alert c) \<and>
    held (SendAlert now alert c) =
      (if ac_closed c then held c else add_mset (alertToPayload (ac_generatorURL c) alert) (held c))"
proof (cases "ac_closed c \<or> \<not> cb_Allow (TryRecover now (ac_cb c))")
  case True
  with assms Enqueue_ok [of "ac_fallback c" "alertToPayload (ac_generatorURL c) alert"] show ?thesis
    by (auto simp: SendAlert_def Let_def client_ok_def held_def)
next
  case False
  let ?c = "c\<lparr>ac_cb := TryRecover now (ac_cb c), ac_batch := ac_batch c @ [alertToPayload (ac_generatorURL c) alert]\<rparr>"
  have c: "client_ok ?c" "held ?c = add_mset (alertToPayload (ac_generatorURL c) alert) (held c)"
    using assms by (simp_all add: held_def)
  have "SendAlert now alert c = flushUnlocked now ?c \<or> SendAlert now alert c = ?c\<lparr>ac_timer := True\<rparr>"
    using False by (simp add: SendAlert_def Let_def)
  with flush_ok [OF c(1), of now] c False show ?thesis by auto
qed

lemma take_batch_held:
  assumes "i < length (ac_inflight c)" "client_ok c"
  shows "client_ok (take_batch i c)" "held c = held (take_batch i c) + mset (ac_inflight c ! i)"
proof -
  let ?f = "ac_inflight c"
  have "?f = take i ?f @ ?f ! i # drop (Suc i) ?f" using assms(1) by (rule id_take_nth_drop)
  then have "mset (concat ?f) = mset (concat (take i ?f @ drop (Suc i) ?f)) + mset (?f ! i)"
    by (metis (no_types, lifting) concat.simps(2) concat_append mset_append union_assoc union_commute)
  then show "held c = held (take_batch i c) + mset (?f ! i)" by (simp add: held_def take_batch_def)
  show "client_ok (take_batch i c)"
    using assms(2) by (auto simp: client_ok_def take_batch_def dest: in_set_takeD in_set_dropD)
qed

lemma am_run_held:
  "am_run c accepted delivered lost \<Longrightarrow> client_ok c \<and> accepted = delivered + lost + held c"
proof (induction rule: am_run.induct)
  case (start url n threshold timeout buffer c)
  then show ?case
    by (auto simp: newAlertmanagerClientFull_def newFallbackQueue_def client_ok_def held_def split: if_splits)
next
  case (send c accepted delivered lost now alert)
  with SendAlert_ok [of c now alert] show ?case by auto
next
  case (timer c accepted delivered lost now)
  with flush_ok [of "c\<lparr>ac_timer := False\<rparr>" now] show ?case by (simp add: timer_fires_def)
next
  case (flush c accepted delivered lost now)
  with flush_ok [of c now] show ?case by simp
next
  case (close c accepted delivered lost)
  then show ?case by (simp add: client_Close_def client_ok_def held_def)
next
  case (sent c accepted delivered lost i)
  with take_batch_held [of i c] show ?case
    by (simp add: batch_sent_def split: prod.split)
next
  case (failed c accepted delivered lost i now)
  with take_batch_held [of i c] show ?case by (simp add: batch_failed_def)
qed

text \<open>
  C14 (safety).  However sends, timers, flushes, a close and the ends of concurrent requests interleave,
  every accepted alert is in exactly one place: delivered, lost in a failed send, dropped from the full
  queue, waiting in the batch or the queue, or in flight.  The queue never exceeds its bound, and no
  empty batch is ever sent.
\<close>

theorem alertmanager_conserves_alerts:
  assumes "am_run c accepted delivered lost"
  shows "accepted = delivered + lost + mset (fq_dropped (ac_fallback c)) + mset (ac_batch c) +
      mset (fq_items (ac_fallback c)) + mset (concat (ac_inflight c)) \<and>
    length (fq_items (ac_fallback c)) \<le> fq_maxSize (ac_fallback c) \<and> [] \<notin> set (ac_inflight c)"
  using am_run_held [OF assms] by (auto simp: held_def client_ok_def)

definition example_client :: AlertmanagerClient where
  "example_client = \<lparr>ac_generatorURL = [], ac_batchSize = 2, ac_batch = [], ac_timer = False,
     ac_cb = newCircuitBreaker 2 10, ac_fallback = newFallbackQueue 4, ac_closed = False, ac_inflight = []\<rparr>"

lemma example_client_new: "newAlertmanagerClientFull [] 2 2 10 4 = Some example_client"
  by (simp add: newAlertmanagerClientFull_def example_client_def)

theorem alertmanager_conserves_alerts_witness:
  "{#alertToPayload [] zero_alert#} = mset (fq_dropped (ac_fallback (SendAlert 0 zero_alert example_client))) +
     mset (ac_batch (SendAlert 0 zero_alert example_client)) +
     mset (fq_items (ac_fallback (SendAlert 0 zero_alert example_client))) +
     mset (concat (ac_inflight (SendAlert 0 zero_alert example_client)))"
  using alertmanager_conserves_alerts [OF am_run.send [OF am_run.start [OF example_client_new],
      where now = 0 and alert = zero_alert], THEN conjunct1]
  by (simp add: example_client_def)

section \<open>The breaker\<close>

lemma RecordFailure_closed:
  assumes "cb_state cb = CbClosed" "cb_failCount cb = int k" "int (Suc k) < 2 ^ 31"
  shows "cb_state (RecordFailure now cb) = (if cb_threshold cb \<le> int (Suc k) then CbOpen else CbClosed)"
    "cb_failCount (RecordFailure now cb) = int (Suc k)" "cb_threshold (RecordFailure now cb) = cb_threshold cb"
  using assms int32_id [of "int (Suc k)"] by (simp_all add: RecordFailure_def Let_def add.commute)

text \<open>
  A new breaker opens at its threshold of consecutive failures and not before; a
  success in between starts the count again; once open, it lets nothing through until the reset
  timeout has passed and then turns half-open, from where a success closes it and a failure opens it.
\<close>

theorem breaker_transitions:
  assumes "0 < threshold" "threshold < 2 ^ 31" "int n < 2 ^ 31" "ts \<noteq> []" "length ts = n"
  shows "cb_state (fold RecordFailure ts (newCircuitBreaker threshold timeout)) =
      (if threshold \<le> int n then CbOpen else CbClosed) \<and>
    (cb_state cb = CbClosed \<longrightarrow> cb_state (snd (RecordSuccess cb)) = CbClosed \<and> cb_failCount (snd (RecordSuccess cb)) = 0) \<and>
    (cb_state cb = CbOpen \<longrightarrow> cb_state (TryRecover now cb) =
      (if time_sub now (unix_epoch + cb_openedAt cb) < cb_resetTimeout cb then CbOpen else CbHalfOpen)) \<and>
    (cb_state cb = CbHalfOpen \<longrightarrow> fst (RecordSuccess cb) \<and> cb_state (snd (RecordSuccess cb)) = CbClosed \<and>
      cb_state (RecordFailure now cb) = CbOpen)"
proof -
  have open_stays: "cb_state (fold RecordFailure ts cb) = CbOpen" if "cb_state cb = CbOpen" for ts cb
    using that by (induction ts arbitrary: cb) (auto simp: RecordFailure_def Let_def)
  have "cb_state (fold RecordFailure ts cb) = (if ts \<noteq> [] \<and> cb_threshold cb \<le> int (k + length ts) then CbOpen else CbClosed)"
    if "cb_state cb = CbClosed" "cb_failCount cb = int k" "int (k + length ts) < 2 ^ 31" for ts cb k
    using that
  proof (induction ts arbitrary: cb k)
    case (Cons t ts)
    note f = RecordFailure_closed [OF Cons.prems(1,2), of t]
    show ?case
    proof (cases "cb_threshold cb \<le> int (Suc k)")
      case True
      with f Cons.prems open_stays [of "RecordFailure t cb" ts] show ?thesis by simp
    next
      case False
      with f Cons.prems Cons.IH [of "RecordFailure t cb" "Suc k"] show ?thesis by auto
    qed
  qed simp
  from this [of "newCircuitBreaker threshold timeout" 0 ts] assms int32_id [of threshold]
  have "cb_state (fold RecordFailure ts (newCircuitBreaker threshold timeout)) =
      (if threshold \<le> int n then CbOpen else CbClosed)"
    by (simp add: newCircuitBreaker_def)
  then show ?thesis by (auto simp: RecordSuccess_def TryRecover_def RecordFailure_def Let_def)
qed

theorem breaker_transitions_witness:
  "cb_state (fold RecordFailure [0, 1] (newCircuitBreaker 2 10)) = CbOpen \<and>
   cb_state (fold RecordFailure [0, 1] (newCircuitBreaker 3 10)) = CbClosed"
  using breaker_transitions [of 2 2 "[0, 1]" 10, THEN conjunct1]
    breaker_transitions [of 3 2 "[0, 1]" 10, THEN conjunct1] by simp

text \<open>
  C31 (liveness).  The first flush after the reset timeout of a breaker that was opened at an instant takes the
  whole queue, oldest first, and after it the batch into one request, and leaves the breaker half-open.  When a
  request then succeeds, the breaker is closed and what was queued or batched in the meantime is put into a
  further request; when it fails, the breaker is open again, and the queue and the batch stay as they were: what
  the failed request had taken out of the queue is not put back.
\<close>

theorem flush_recovers:
  assumes "cb_state (ac_cb c) = CbOpen" "cb_openedAt (ac_cb c) = unix_nano opened"
    "is_duration (opened - unix_epoch)" "is_duration (now - opened)" "cb_resetTimeout (ac_cb c) \<le> now - opened"
    "fq_items (ac_fallback c) @ ac_batch c \<noteq> []"
  shows "ac_inflight (flushUnlocked now c) = ac_inflight c @ [fq_items (ac_fallback c) @ ac_batch c] \<and>
    ac_batch (flushUnlocked now c) = [] \<and> fq_items (ac_fallback (flushUnlocked now c)) = [] \<and>
    (cb_state (ac_cb d) = cb_state (ac_cb (flushUnlocked now c)) \<longrightarrow>
      cb_state (ac_cb (recordSuccess now' d)) = CbClosed \<and>
      ac_batch (recordSuccess now' d) = [] \<and> fq_items (ac_fallback (recordSuccess now' d)) = [] \<and>
      concat (ac_inflight (recordSuccess now' d)) = concat (ac_inflight d) @ fq_items (ac_fallback d) @ ac_batch d \<and>
      cb_state (ac_cb (batch_failed now' d)) = CbOpen \<and> (batch_failed now' d)\<lparr>ac_cb := ac_cb d\<rparr> = d)"
proof -
  have "TryRecover now (ac_cb c) = (ac_cb c)\<lparr>cb_state := CbHalfOpen\<rparr>"
    using assms(1-5) by (simp add: TryRecover_def unix_nano_def wrap64_id time_sub_def is_duration_def)
  with assms(6) have f: "ac_inflight (flushUnlocked now c) = ac_inflight c @ [fq_items (ac_fallback c) @ ac_batch c]"
    "ac_batch (flushUnlocked now c) = []" "fq_items (ac_fallback (flushUnlocked now c)) = []" "cb_state (ac_cb (flushUnlocked now c)) = CbHalfOpen"
    by (auto simp: flushUnlocked_def cb_Allow_def DrainAll_def Let_def)
  have "cb_state (ac_cb (recordSuccess now' d)) = CbClosed \<and> ac_batch (recordSuccess now' d) = [] \<and> fq_items (ac_fallback (recordSuccess now' d)) = [] \<and>
      concat (ac_inflight (recordSuccess now' d)) = concat (ac_inflight d) @ fq_items (ac_fallback d) @ ac_batch d" if "cb_state (ac_cb d) = CbHalfOpen"
    using that by (simp add: recordSuccess_def batch_sent_def RecordSuccess_def flushUnlocked_def TryRecover_def cb_Allow_def DrainAll_def Let_def)
  moreover have "cb_state (ac_cb (batch_failed now' d)) = CbOpen" if "cb_state (ac_cb d) = CbHalfOpen"
    using that by (simp add: batch_failed_def RecordFailure_def Let_def)
  ultimately show ?thesis using f by (simp add: batch_failed_def)
qed

definition blocked_client :: AlertmanagerClient where
  "blocked_client = example_client\<lparr>ac_cb := fold RecordFailure [unix_epoch, unix_epoch] (newCircuitBreaker 2 10),
     ac_fallback := newFallbackQueue 4\<lparr>fq_items := [alertToPayload [] zero_alert]\<rparr>\<rparr>"

lemma blocked_client_open:
  "ac_cb blocked_client = \<lparr>cb_state = CbOpen, cb_failCount = 2, cb_threshold = 2, cb_resetTimeout = 10, cb_openedAt = 0\<rparr>"
  by (simp add: blocked_client_def newCircuitBreaker_def RecordFailure_def unix_nano_def wrap64_def int32_def Let_def)

theorem flush_recovers_witness:
  "ac_inflight (flushUnlocked (unix_epoch + 10) blocked_client) = [[alertToPayload [] zero_alert]] \<and>
   cb_state (ac_cb (recordSuccess (unix_epoch + 11) (take_batch 0 (flushUnlocked (unix_epoch + 10) blocked_client)))) = CbClosed"
proof -
  have "fq_items (ac_fallback blocked_client) = [alertToPayload [] zero_alert]" "ac_batch blocked_client = []"
      "ac_inflight blocked_client = []"
    by (simp_all add: blocked_client_def example_client_def)
  then have f: "ac_inflight (flushUnlocked (unix_epoch + 10) blocked_client) = [[alertToPayload [] zero_alert]] \<and>
      (cb_state (ac_cb d) = cb_state (ac_cb (flushUnlocked (unix_epoch + 10) blocked_client)) \<longrightarrow> cb_state (ac_cb (recordSuccess now d)) = CbClosed)" for d now
    using flush_recovers [of blocked_client unix_epoch "unix_epoch + 10" d now]
    by (simp add: blocked_client_open unix_nano_def wrap64_def is_duration_def max_duration_def)
  have "ac_cb (take_batch 0 d) = ac_cb d" for d by (simp add: take_batch_def)
  with f [of "take_batch 0 (flushUnlocked (unix_epoch + 10) blocked_client)" "unix_epoch + 11"] show ?thesis by simp
qed

text \<open>
  Against its description the half-open state does not stop at one probe, and the queue
  does not survive a failed one: with the breaker half-open every further batch is sent as well, and
  the alerts buffered while it was open go out with the probe and are gone when it fails, with nothing
  left to replay.
\<close>

theorem half_open_probe:
  "let c1 = flushUnlocked (unix_epoch + 10) blocked_client;
       c2 = flushUnlocked (unix_epoch + 11) (SendAlert (unix_epoch + 11) alert c1);
       c3 = batch_failed (unix_epoch + 12) (take_batch 0 c1)
   in cb_state (ac_cb c1) = CbHalfOpen \<and> length (ac_inflight c1) = 1 \<and>
      cb_state (ac_cb c2) = CbHalfOpen \<and> length (ac_inflight c2) = 2 \<and>
      fq_items (ac_fallback blocked_client) \<noteq> [] \<and>
      cb_state (ac_cb c3) = CbOpen \<and> fq_items (ac_fallback c3) = [] \<and> ac_batch c3 = [] \<and> ac_inflight c3 = []"
proof -
  let ?c = "blocked_client\<lparr>ac_cb := (ac_cb blocked_client)\<lparr>cb_state := CbHalfOpen\<rparr>, ac_timer := False,
    ac_fallback := newFallbackQueue 4, ac_inflight := [[alertToPayload [] zero_alert]]\<rparr>"
  have c1: "flushUnlocked (unix_epoch + 10) blocked_client = ?c"
    by (simp add: flushUnlocked_def blocked_client_open TryRecover_def time_sub_def max_duration_def cb_Allow_def
        DrainAll_def Let_def)
      (simp add: blocked_client_def example_client_def newFallbackQueue_def)
  show ?thesis
    unfolding c1 Let_def
    by (simp add: SendAlert_def flushUnlocked_def blocked_client_open TryRecover_def cb_Allow_def DrainAll_def
        batch_failed_def take_batch_def RecordFailure_def Let_def newFallbackQueue_def)
      (simp add: blocked_client_def example_client_def newFallbackQueue_def)
qed

end
