(* ===== verification/Memory_Store.thy ===== *)
theory Memory_Store
  imports Event_Types Dns_Analysis "HOL-Library.Product_Lexorder"
begin

text \<open>
  The in-memory alert store (\<open>store/memory.go\<close>, \<open>store/summary.go\<close>): alerts by ID with an index
  sorted by time, newest first, and one such index per severity.  \<open>sort.Slice\<close> leaves the order of
  equal elements open, so the sort of a batch is an argument, of which only what the library promises
  is used.  The pool of result slices is not modelled: a result is a fresh list.  An hour of a
  timeline is its instant, not the text printed for it.
\<close>

section \<open>Data\<close>

record byTimeEntry =
  bt_id :: string
  bt_ts :: time
  bt_severity :: severity
  bt_namespace :: string

record MemoryStoreOptions =
  mo_MaxAlerts :: int
  mo_RetentionPeriod :: duration

record MemoryStore =
  ms_count :: int
  ms_alerts :: "(string \<times> alert) list"
  ms_byTime :: "byTimeEntry list"
  ms_bySev :: "(severity \<times> byTimeEntry list) list"
  ms_seq :: int
  ms_opts :: MemoryStoreOptions

record QueryFilters =
  qf_Since :: time
  qf_Until :: time
  qf_PIDs :: "u32 list"
  qf_Severity :: "severity list"
  qf_RuleIDs :: "string list"
  qf_Comm :: string
  qf_PodName :: string
  qf_Namespace :: string
  qf_Namespaces :: "string list"
  qf_Limit :: int
  qf_Offset :: int

definition newMemoryStore :: "MemoryStoreOptions \<Rightarrow> MemoryStore" where
  "newMemoryStore opts = \<lparr>ms_count = 0, ms_alerts = [], ms_byTime = [], ms_bySev = [], ms_seq = 0, ms_opts = opts\<rparr>"

definition entry_of :: "alert \<Rightarrow> byTimeEntry" where
  "entry_of a = \<lparr>bt_id = al_id a, bt_ts = al_timestamp a, bt_severity = al_severity a,
     bt_namespace = en_namespace (al_enrichment a)\<rparr>"

definition bucket :: "MemoryStore \<Rightarrow> severity \<Rightarrow> byTimeEntry list" where
  "bucket s sev = (case map_of (ms_bySev s) sev of Some es \<Rightarrow> es | None \<Rightarrow> [])"

section \<open>Writing\<close>

definition insert_at :: "byTimeEntry \<Rightarrow> byTimeEntry list \<Rightarrow> byTimeEntry list" where
  "insert_at e es =
     (let pos = sort_search (length es) (\<lambda>i. bt_ts (es ! i) < bt_ts e)
      in take pos es @ e # drop pos es)"

definition insertSorted :: "byTimeEntry \<Rightarrow> MemoryStore \<Rightarrow> MemoryStore" where
  "insertSorted e s =
     s\<lparr>ms_byTime := insert_at e (ms_byTime s),
       ms_bySev := AList.update (bt_severity e) (insert_at e (bucket s (bt_severity e))) (ms_bySev s)\<rparr>"

fun remove_entry :: "string \<Rightarrow> byTimeEntry list \<Rightarrow> byTimeEntry list" where
  "remove_entry i [] = []"
| "remove_entry i (e # es) = (if bt_id e = i then es else e # remove_entry i es)"

definition removeFromIndexes :: "string \<Rightarrow> severity \<Rightarrow> MemoryStore \<Rightarrow> MemoryStore" where
  "removeFromIndexes i sev s =
     s\<lparr>ms_byTime := remove_entry i (ms_byTime s),
       ms_bySev := (if i \<in> bt_id ` set (bucket s sev)
         then AList.update sev (remove_entry i (bucket s sev)) (ms_bySev s) else ms_bySev s)\<rparr>"

definition rebuild_bySev :: "MemoryStore \<Rightarrow> MemoryStore" where
  "rebuild_bySev s =
     s\<lparr>ms_bySev := fold (\<lambda>e m. AList.update (bt_severity e)
         ((case map_of m (bt_severity e) of Some es \<Rightarrow> es | None \<Rightarrow> []) @ [e]) m)
       (ms_byTime s) (map (\<lambda>(sev, es). (sev, [])) (ms_bySev s))\<rparr>"

definition drop_tail :: "nat \<Rightarrow> MemoryStore \<Rightarrow> MemoryStore" where
  "drop_tail n s =
     rebuild_bySev (s\<lparr>ms_alerts := fold AList.delete (map bt_id (drop n (ms_byTime s))) (ms_alerts s),
       ms_byTime := take n (ms_byTime s), ms_count := ms_count s - int (length (drop n (ms_byTime s)))\<rparr>)"

definition evictOldestLocked :: "MemoryStore \<Rightarrow> MemoryStore" where
  "evictOldestLocked s =
     (let m = mo_MaxAlerts (ms_opts s)
      in if m \<le> 0 \<or> int (length (ms_alerts s)) \<le> m then s
         else let excess = int (length (ms_alerts s)) - m
           in drop_tail (nat (int (length (ms_byTime s)) - excess)) s)"

text \<open>What \<open>Store\<close> and \<open>StoreBatch\<close> do first: fill in the ID and the time stamp, and make room in the indexes.\<close>

definition name_alert :: "time \<Rightarrow> alert \<Rightarrow> MemoryStore \<Rightarrow> alert \<times> MemoryStore" where
  "name_alert now a s =
     (let s1 = (if al_id a = [] then s\<lparr>ms_seq := ms_seq s + 1\<rparr> else s);
          a1 = (if al_id a = [] then a\<lparr>al_id := ''mem-'' @ dec_int (ms_seq s1)\<rparr> else a);
          a2 = (if time_is_zero (al_timestamp a1) then a1\<lparr>al_timestamp := now\<rparr> else a1)
      in (a2, s1))"

definition unindex_old :: "alert \<Rightarrow> MemoryStore \<Rightarrow> MemoryStore" where
  "unindex_old a s =
     (case map_of (ms_alerts s) (al_id a) of
        Some old \<Rightarrow> removeFromIndexes (al_id a) (al_severity old) s
      | None \<Rightarrow> s\<lparr>ms_count := ms_count s + 1\<rparr>)"

definition put_alert :: "alert \<Rightarrow> MemoryStore \<Rightarrow> MemoryStore" where
  "put_alert a s = s\<lparr>ms_alerts := AList.update (al_id a) a (ms_alerts s)\<rparr>"

definition store_Store :: "time \<Rightarrow> alert \<Rightarrow> MemoryStore \<Rightarrow> MemoryStore" where
  "store_Store now alert s =
     (case name_alert now alert s of (a, s) \<Rightarrow>
        evictOldestLocked (insertSorted (entry_of a) (put_alert a (unindex_old a s))))"

definition append_entry :: "byTimeEntry \<Rightarrow> MemoryStore \<Rightarrow> MemoryStore" where
  "append_entry e s =
     s\<lparr>ms_byTime := ms_byTime s @ [e],
       ms_bySev := AList.update (bt_severity e) (bucket s (bt_severity e) @ [e]) (ms_bySev s)\<rparr>"

definition batch_one :: "time \<Rightarrow> alert \<Rightarrow> MemoryStore \<Rightarrow> MemoryStore" where
  "batch_one now alert s =
     (case name_alert now alert s of (a, s) \<Rightarrow> append_entry (entry_of a) (put_alert a (unindex_old a s)))"

definition sort_indexes :: "(byTimeEntry list \<Rightarrow> byTimeEntry list) \<Rightarrow> MemoryStore \<Rightarrow> MemoryStore" where
  "sort_indexes srt s = s\<lparr>ms_byTime := srt (ms_byTime s), ms_bySev := map (\<lambda>(sev, es). (sev, srt es)) (ms_bySev s)\<rparr>"

definition StoreBatch :: "(byTimeEntry list \<Rightarrow> byTimeEntry list) \<Rightarrow> time \<Rightarrow> alert list \<Rightarrow> MemoryStore \<Rightarrow> MemoryStore" where
  "StoreBatch srt now alerts s =
     (if alerts = [] then s else evictOldestLocked (sort_indexes srt (fold (batch_one now) alerts s)))"

definition store_Delete :: "time \<Rightarrow> duration \<Rightarrow> MemoryStore \<Rightarrow> nat \<times> MemoryStore" where
  "store_Delete now olderThan s =
     (let cutoff = now - olderThan;
          idx = sort_search (length (ms_byTime s)) (\<lambda>i. bt_ts (ms_byTime s ! i) < cutoff)
      in (length (drop idx (ms_byTime s)), drop_tail idx s))"

section \<open>Reading\<close>

definition namespace_ok :: "QueryFilters \<Rightarrow> string \<Rightarrow> bool" where
  "namespace_ok f ns \<longleftrightarrow>
     (if qf_Namespaces f \<noteq> [] then ns \<in> set (qf_Namespaces f)
      else \<not> (qf_Namespace f \<noteq> [] \<and> ns \<noteq> qf_Namespace f))"

definition matchesFilters :: "dns_env \<Rightarrow> alert \<Rightarrow> QueryFilters \<Rightarrow> bool" where
  "matchesFilters env a f \<longleftrightarrow>
     \<not> (\<not> time_is_zero (qf_Since f) \<and> al_timestamp a < qf_Since f) \<and>
     \<not> (\<not> time_is_zero (qf_Until f) \<and> al_timestamp a > qf_Until f) \<and>
     \<not> (qf_PIDs f \<noteq> [] \<and> al_pid a \<notin> set (qf_PIDs f)) \<and>
     \<not> (qf_Severity f \<noteq> [] \<and> al_severity a \<notin> set (qf_Severity f)) \<and>
     \<not> (qf_RuleIDs f \<noteq> [] \<and> al_rule_id a \<notin> set (qf_RuleIDs f)) \<and>
     \<not> (qf_Comm f \<noteq> [] \<and> \<not> sublist (strings_ToLower env (qf_Comm f)) (strings_ToLower env (al_comm a))) \<and>
     \<not> (qf_PodName f \<noteq> [] \<and> en_pod_name (al_enrichment a) \<noteq> qf_PodName f) \<and>
     namespace_ok f (en_namespace (al_enrichment a))"

definition alert_of :: "MemoryStore \<Rightarrow> byTimeEntry \<Rightarrow> alert" where
  "alert_of s e = (case map_of (ms_alerts s) (bt_id e) of Some a \<Rightarrow> a | None \<Rightarrow> zero_alert)"

fun query_scan :: "dns_env \<Rightarrow> QueryFilters \<Rightarrow> (byTimeEntry \<Rightarrow> bool) \<Rightarrow> (byTimeEntry \<Rightarrow> alert) \<Rightarrow>
    int \<Rightarrow> alert list \<Rightarrow> byTimeEntry list \<Rightarrow> alert list" where
  "query_scan env f pre look skipped results [] = results"
| "query_scan env f pre look skipped results (e # es) =
     (if \<not> pre e then query_scan env f pre look skipped results es
      else if \<not> matchesFilters env (look e) f then query_scan env f pre look skipped results es
      else if skipped < qf_Offset f then query_scan env f pre look (skipped + 1) results es
      else let results = results @ [look e]
        in if qf_Limit f > 0 \<and> qf_Limit f \<le> int (length results) then results
           else query_scan env f pre look skipped results es)"

definition window :: "QueryFilters \<Rightarrow> byTimeEntry list \<Rightarrow> byTimeEntry list" where
  "window f es =
     (let start = (if time_is_zero (qf_Until f) then 0
            else sort_search (length es) (\<lambda>i. \<not> bt_ts (es ! i) > qf_Until f));
          stop = (if time_is_zero (qf_Since f) then length es
            else sort_search (length es) (\<lambda>i. bt_ts (es ! i) < qf_Since f))
      in take (stop - start) (drop start es))"

definition prefilter :: "QueryFilters \<Rightarrow> byTimeEntry \<Rightarrow> bool" where
  "prefilter f e \<longleftrightarrow> \<not> (qf_Severity f \<noteq> [] \<and> bt_severity e \<notin> set (qf_Severity f)) \<and> namespace_ok f (bt_namespace e)"

definition store_Query :: "dns_env \<Rightarrow> QueryFilters \<Rightarrow> MemoryStore \<Rightarrow> alert list" where
  "store_Query env f s =
     (if time_is_zero (qf_Since f) \<and> time_is_zero (qf_Until f) \<and> length (qf_Severity f) = 1
      then query_scan env f (\<lambda>e. namespace_ok f (bt_namespace e)) (alert_of s) 0 [] (bucket s (hd (qf_Severity f)))
      else query_scan env f (prefilter f) (alert_of s) 0 [] (window f (ms_byTime s)))"

definition QueryByID :: "string \<Rightarrow> MemoryStore \<Rightarrow> string + alert" where
  "QueryByID i s = (case map_of (ms_alerts s) i of None \<Rightarrow> Inl (''alert not found: '' @ i) | Some a \<Rightarrow> Inr a)"

definition store_Count :: "QueryFilters \<Rightarrow> MemoryStore \<Rightarrow> int" where
  "store_Count f s = ms_count s"

section \<open>Summaries\<close>

definition summaryTopRules :: nat where
  "summaryTopRules = 10"

definition summaryMaxBuckets :: nat where
  "summaryMaxBuckets = 500"

record AlertSummary =
  su_Total :: nat
  su_BySeverity :: "(string \<times> nat) list"
  su_TopRules :: "(string \<times> nat) list"
  su_Timeline :: "(time \<times> nat) list"

definition hour :: duration where
  "hour = 3600 * 1000000000"

definition truncate_hour :: "time \<Rightarrow> time" where
  "truncate_hour t = t - t mod hour"

definition incr :: "'k \<Rightarrow> ('k \<times> nat) list \<Rightarrow> ('k \<times> nat) list" where
  "incr k m = AList.update k ((case map_of m k of Some n \<Rightarrow> n | None \<Rightarrow> 0) + 1) m"

definition topRulesFromCounts :: "(string \<times> nat) list \<Rightarrow> (string \<times> nat) list" where
  "topRulesFromCounts counts = take summaryTopRules (sort_key (\<lambda>(rule, n). (- int n, rule)) counts)"

function timeline_from :: "(time \<times> nat) list \<Rightarrow> time \<Rightarrow> time \<Rightarrow> nat \<Rightarrow> (time \<times> nat) list" where
  "timeline_from counts h maxHour len =
     (if \<not> h > maxHour \<and> len < summaryMaxBuckets
      then (h, case map_of counts h of Some n \<Rightarrow> n | None \<Rightarrow> 0) # timeline_from counts (h + hour) maxHour (len + 1)
      else [])"
  by auto
termination by (relation "measure (\<lambda>(counts, h, maxHour, len). summaryMaxBuckets - len)") auto

declare timeline_from.simps [simp del]

definition timelineFromCounts :: "(time \<times> nat) list \<Rightarrow> time \<Rightarrow> time \<Rightarrow> (time \<times> nat) list" where
  "timelineFromCounts counts minHour maxHour =
     (if time_is_zero minHour then [] else timeline_from counts minHour maxHour 0)"

record tally =
  ta_total :: nat
  ta_sev :: "(string \<times> nat) list"
  ta_rule :: "(string \<times> nat) list"
  ta_hour :: "(time \<times> nat) list"
  ta_min :: time
  ta_max :: time

definition tally_alert :: "alert \<Rightarrow> tally \<Rightarrow> tally" where
  "tally_alert a t =
     (let h = truncate_hour (al_timestamp a)
      in \<lparr>ta_total = ta_total t + 1, ta_sev = incr (al_severity a) (ta_sev t), ta_rule = incr (al_rule_id a) (ta_rule t),
          ta_hour = incr h (ta_hour t),
          ta_min = (if time_is_zero (ta_min t) \<or> h < ta_min t then h else ta_min t),
          ta_max = (if time_is_zero (ta_max t) \<or> h > ta_max t then h else ta_max t)\<rparr>)"

definition summary_of :: "tally \<Rightarrow> AlertSummary" where
  "summary_of t = \<lparr>su_Total = ta_total t, su_BySeverity = ta_sev t, su_TopRules = topRulesFromCounts (ta_rule t),
     su_Timeline = timelineFromCounts (ta_hour t) (ta_min t) (ta_max t)\<rparr>"

definition empty_tally :: tally where
  "empty_tally = \<lparr>ta_total = 0, ta_sev = [], ta_rule = [], ta_hour = [], ta_min = 0, ta_max = 0\<rparr>"

definition SummarizeAlerts :: "alert list \<Rightarrow> AlertSummary" where
  "SummarizeAlerts alerts =
     (if alerts = [] then \<lparr>su_Total = 0, su_BySeverity = [], su_TopRules = [], su_Timeline = []\<rparr>
      else summary_of (fold tally_alert alerts empty_tally))"

fun summary_scan :: "dns_env \<Rightarrow> QueryFilters \<Rightarrow> (byTimeEntry \<Rightarrow> alert) \<Rightarrow> tally \<Rightarrow> byTimeEntry list \<Rightarrow> tally" where
  "summary_scan env f look t [] = t"
| "summary_scan env f look t (e # es) =
     (if \<not> prefilter f e then summary_scan env f look t es
      else if \<not> matchesFilters env (look e) f then summary_scan env f look t es
      else summary_scan env f look (tally_alert (look e) t) es)"

definition Summarize :: "dns_env \<Rightarrow> QueryFilters \<Rightarrow> MemoryStore \<Rightarrow> AlertSummary" where
  "Summarize env f s = summary_of (summary_scan env f (alert_of s) empty_tally (window f (ms_byTime s)))"

section \<open>Sorted indexes\<close>

definition desc :: "byTimeEntry list \<Rightarrow> bool" where
  "desc es \<longleftrightarrow> sorted_wrt (\<lambda>a b. bt_ts b \<le> bt_ts a) es"

lemma desc_simps [simp]:
  "desc []" "desc (e # es) \<longleftrightarrow> (\<forall>x\<in>set es. bt_ts x \<le> bt_ts e) \<and> desc es"
  "desc (xs @ ys) \<longleftrightarrow> desc xs \<and> desc ys \<and> (\<forall>x\<in>set xs. \<forall>y\<in>set ys. bt_ts y \<le> bt_ts x)"
  by (auto simp: desc_def sorted_wrt_append)

lemma desc_take [simp]: "desc es \<Longrightarrow> desc (take n es)"
  and desc_drop [simp]: "desc es \<Longrightarrow> desc (drop n es)"
  and desc_filter [simp]: "desc es \<Longrightarrow> desc (filter P es)"
  by (simp_all add: desc_def sorted_wrt_take sorted_wrt_drop sorted_wrt_filter)

text \<open>A search with a predicate that holds of old entries only cuts the index in two.\<close>

lemma desc_search:
  assumes "desc es" "\<forall>a b. P a \<and> b \<le> a \<longrightarrow> P b"
  defines "pos \<equiv> sort_search (length es) (\<lambda>i. P (bt_ts (es ! i)))"
  shows "pos \<le> length es" "\<forall>e\<in>set (take pos es). \<not> P (bt_ts e)" "\<forall>e\<in>set (drop pos es). P (bt_ts e)"
proof -
  have "\<forall>a b. a \<le> b \<and> b < length es \<and> P (bt_ts (es ! a)) \<longrightarrow> P (bt_ts (es ! b))"
    using assms(1,2) by (auto simp: desc_def sorted_wrt_iff_nth_less le_less)
  note b = sort_search_boundary [of "length es" "\<lambda>i. P (bt_ts (es ! i))", OF this, folded pos_def]
  show p: "pos \<le> length es" using b by blast
  have lo: "\<not> P (bt_ts (es ! i))" if "i < pos" for i using b that by blast
  have hi: "P (bt_ts (es ! i))" if "pos \<le> i" "i < length es" for i using b that by blast
  show "\<forall>e\<in>set (take pos es). \<not> P (bt_ts e)" using p lo by (fastforce simp: in_set_conv_nth)
  show "\<forall>e\<in>set (drop pos es). P (bt_ts e)" using hi by (fastforce simp: in_set_conv_nth)
qed

lemma desc_search_filter:
  assumes "desc es" "\<forall>a b. P a \<and> b \<le> a \<longrightarrow> P b"
  defines "pos \<equiv> sort_search (length es) (\<lambda>i. P (bt_ts (es ! i)))"
  shows "take pos es = filter (\<lambda>e. \<not> P (bt_ts e)) es" "drop pos es = filter (\<lambda>e. P (bt_ts e)) es"
proof -
  note s = desc_search [of es P, OF assms(1,2), folded pos_def]
  have "filter (\<lambda>e. \<not> P (bt_ts e)) (take pos es @ drop pos es) = take pos es"
      "filter (\<lambda>e. P (bt_ts e)) (take pos es @ drop pos es) = drop pos es"
    using s(2,3) by (auto simp: filter_empty_conv simp del: append_take_drop_id)
  then show "take pos es = filter (\<lambda>e. \<not> P (bt_ts e)) es" "drop pos es = filter (\<lambda>e. P (bt_ts e)) es"
    by simp_all
qed

lemma insert_at_ok:
  assumes "desc es"
  shows "desc (insert_at e es)" "mset (insert_at e es) = add_mset e (mset es)"
proof -
  let ?pos = "sort_search (length es) (\<lambda>i. bt_ts (es ! i) < bt_ts e)"
  have mono: "\<forall>a b. a < bt_ts e \<and> b \<le> a \<longrightarrow> b < bt_ts e" by auto
  note s = desc_search(2,3) [of es "\<lambda>t. t < bt_ts e", OF assms mono]
  obtain xs ys where xy: "xs = take ?pos es" "ys = drop ?pos es" by blast
  have es: "es = xs @ ys" by (simp add: xy)
  have i: "insert_at e es = xs @ e # ys" by (simp add: insert_at_def Let_def xy)
  have "\<forall>x\<in>set xs. bt_ts e \<le> bt_ts x" "\<forall>x\<in>set ys. bt_ts x \<le> bt_ts e"
    using s unfolding xy [symmetric] by (auto simp: not_less)
  with assms show "desc (insert_at e es)" unfolding i by (simp add: es)
  show "mset (insert_at e es) = add_mset e (mset es)" unfolding i by (simp add: es)
qed

lemma remove_entry_filter: "distinct (map bt_id es) \<Longrightarrow> remove_entry i es = filter (\<lambda>e. bt_id e \<noteq> i) es"
  by (induction es) (auto intro!: filter_True [symmetric] simp: image_iff)

section \<open>Invariant\<close>

text \<open>The indexes hold exactly the stored alerts; in a batch this is kept before they are sorted.\<close>

definition indexed :: "MemoryStore \<Rightarrow> bool" where
  "indexed s \<longleftrightarrow> distinct_keys (ms_alerts s) \<and> (\<forall>(i, a)\<in>set (ms_alerts s). al_id a = i) \<and>
     mset (ms_byTime s) = mset (map (entry_of \<circ> snd) (ms_alerts s)) \<and> distinct_keys (ms_bySev s) \<and>
     (\<forall>sev. mset (bucket s sev) = mset (filter (\<lambda>e. bt_severity e = sev) (ms_byTime s)))"

definition store_ok :: "MemoryStore \<Rightarrow> bool" where
  "store_ok s \<longleftrightarrow> indexed s \<and> desc (ms_byTime s) \<and> (\<forall>sev. desc (bucket s sev)) \<and>
     ms_count s = int (length (ms_alerts s))"

lemma indexedD:
  assumes "indexed s"
  shows "distinct_keys (ms_alerts s)" "(i, a) \<in> set (ms_alerts s) \<Longrightarrow> al_id a = i"
    "mset (ms_byTime s) = mset (map (entry_of \<circ> snd) (ms_alerts s))" "distinct_keys (ms_bySev s)"
    "mset (bucket s sev) = mset (filter (\<lambda>e. bt_severity e = sev) (ms_byTime s))"
  using assms unfolding indexed_def by blast+

lemma indexed_ids:
  assumes "indexed s"
  shows "mset (map bt_id (ms_byTime s)) = mset (map fst (ms_alerts s))"
proof -
  have "mset (map bt_id (ms_byTime s)) = image_mset bt_id (mset (map (entry_of \<circ> snd) (ms_alerts s)))"
    by (simp only: mset_map indexedD(3) [OF assms])
  also have "\<dots> = mset (map (\<lambda>p. al_id (snd p)) (ms_alerts s))"
    by (simp add: entry_of_def multiset.map_comp comp_def)
  also have "map (\<lambda>p. al_id (snd p)) (ms_alerts s) = map fst (ms_alerts s)"
    using indexedD(2) [OF assms] by (auto intro!: map_cong)
  finally show ?thesis .
qed

lemma indexed_distinct:
  assumes "indexed s"
  shows "distinct (map bt_id (ms_byTime s))" "distinct (map bt_id (bucket s sev))" "length (ms_byTime s) = length (ms_alerts s)"
proof -
  show d: "distinct (map bt_id (ms_byTime s))"
    using mset_eq_imp_distinct_iff [OF indexed_ids [OF assms]] indexedD(1) [OF assms] by simp
  have "mset (map bt_id (bucket s sev)) = mset (map bt_id (filter (\<lambda>e. bt_severity e = sev) (ms_byTime s)))"
    by (simp only: mset_map indexedD(5) [OF assms])
  from mset_eq_imp_distinct_iff [OF this] show "distinct (map bt_id (bucket s sev))"
    using distinct_map_filter [OF d] by blast
  show "length (ms_byTime s) = length (ms_alerts s)"
    using arg_cong [OF indexed_ids [OF assms], of size] by simp
qed

lemma entry_of_stored:
  assumes "indexed s" "e \<in> set (ms_byTime s)"
  shows "\<exists>a. map_of (ms_alerts s) (bt_id e) = Some a \<and> entry_of a = e"
proof -
  have "e \<in># mset (map (entry_of \<circ> snd) (ms_alerts s))"
    using assms(2) unfolding indexedD(3) [OF assms(1), symmetric] by simp
  then obtain i a where a: "(i, a) \<in> set (ms_alerts s)" "e = entry_of a" by auto
  then have "bt_id e = i" using indexedD(2) [OF assms(1) a(1)] by (simp add: entry_of_def)
  with a indexedD(1) [OF assms(1)] show ?thesis by auto
qed

section \<open>Writing keeps the indexes\<close>

lemma mset_update: "distinct_keys al \<Longrightarrow> mset (AList.update k v al) = add_mset (k, v) (mset (filter (\<lambda>p. fst p \<noteq> k) al))"
proof (induction al)
  case (Cons p al)
  then have "fst p = k \<Longrightarrow> filter (\<lambda>q. fst q \<noteq> k) al = al" by (auto simp: image_iff intro!: filter_True)
  with Cons show ?case by (cases p) auto
qed simp

lemma bucket_update [simp]:
  "bucket (s\<lparr>ms_bySev := AList.update sev es (ms_bySev s)\<rparr>) sev' = (if sev' = sev then es else bucket s sev')"
  "bucket (s\<lparr>ms_byTime := bt, ms_bySev := AList.update sev es (ms_bySev s)\<rparr>) sev' = (if sev' = sev then es else bucket s sev')"
  "bucket (s\<lparr>ms_count := n\<rparr>) sev' = bucket s sev'" "bucket (s\<lparr>ms_seq := n\<rparr>) sev' = bucket s sev'"
  "bucket (s\<lparr>ms_alerts := al\<rparr>) sev' = bucket s sev'" "bucket (s\<lparr>ms_byTime := bt\<rparr>) sev' = bucket s sev'"
  by (simp_all add: bucket_def update_conv')

lemma mset_filter_id:
  assumes "indexed s"
  shows "mset (filter (\<lambda>e. bt_id e \<in> I) (ms_byTime s)) = mset (map (entry_of \<circ> snd) (filter (\<lambda>p. fst p \<in> I) (ms_alerts s)))"
proof -
  have "mset (filter (\<lambda>e. bt_id e \<in> I) (ms_byTime s)) = mset (filter (\<lambda>e. bt_id e \<in> I) (map (entry_of \<circ> snd) (ms_alerts s)))"
    by (simp only: mset_filter indexedD(3) [OF assms])
  also have "filter (\<lambda>e. bt_id e \<in> I) (map (entry_of \<circ> snd) (ms_alerts s)) = map (entry_of \<circ> snd) (filter (\<lambda>p. fst p \<in> I) (ms_alerts s))"
    using indexedD(2) [OF assms] by (auto simp: filter_map entry_of_def intro!: arg_cong [where f = "map _"] filter_cong)
  finally show ?thesis .
qed

lemma indexed_put:
  assumes "indexed s" "ms_alerts u = AList.update (al_id a) a (ms_alerts s)" "distinct_keys (ms_bySev u)"
    "mset (ms_byTime u) = add_mset (entry_of a) (mset (filter (\<lambda>e. bt_id e \<noteq> al_id a) (ms_byTime s)))"
    "\<And>sev. mset (bucket u sev) = (if sev = al_severity a then {#entry_of a#} else {#}) +
       mset (filter (\<lambda>e. bt_id e \<noteq> al_id a) (bucket s sev))"
  shows "indexed u"
  unfolding indexed_def
proof (intro conjI allI)
  show "distinct_keys (ms_alerts u)" "distinct_keys (ms_bySev u)"
    using assms(3) indexedD(1) [OF assms(1)] by (simp_all add: assms(2))
  show "\<forall>(i, b)\<in>set (ms_alerts u). al_id b = i"
    using indexedD(2) [OF assms(1)] set_update_alist [of "al_id a" a "ms_alerts s"] by (auto simp: assms(2))
  show "mset (ms_byTime u) = mset (map (entry_of \<circ> snd) (ms_alerts u))"
    using mset_filter_id [OF assms(1), of "- {al_id a}"] indexedD(1) [OF assms(1)]
    by (simp add: assms(2,4) mset_update)
  show "mset (bucket u sev) = mset (filter (\<lambda>e. bt_severity e = sev) (ms_byTime u))" for sev
  proof -
    have "mset (filter (\<lambda>e. bt_id e \<noteq> al_id a) (bucket s sev)) =
        mset (filter (\<lambda>e. bt_severity e = sev) (filter (\<lambda>e. bt_id e \<noteq> al_id a) (ms_byTime s)))"
      using indexedD(5) [OF assms(1), of sev] by (simp add: filter_filter_mset conj_commute)
    then show ?thesis by (simp add: assms(4,5) entry_of_def filter_filter_mset conj_commute)
  qed
qed

lemma unindex_old_ok:
  assumes "indexed s"
  shows "ms_byTime (unindex_old a s) = filter (\<lambda>e. bt_id e \<noteq> al_id a) (ms_byTime s)"
    "bucket (unindex_old a s) sev = filter (\<lambda>e. bt_id e \<noteq> al_id a) (bucket s sev)"
    "ms_alerts (unindex_old a s) = ms_alerts s" "distinct_keys (ms_bySev (unindex_old a s))"
    "ms_count (unindex_old a s) = ms_count s + (if al_id a \<in> fst ` set (ms_alerts s) then 0 else 1)"
    "ms_opts (unindex_old a s) = ms_opts s" "ms_seq (unindex_old a s) = ms_seq s"
proof -
  have in_bucket: "e \<in> set (bucket s sev') \<longleftrightarrow> e \<in> set (ms_byTime s) \<and> bt_severity e = sev'" for e sev'
    using arg_cong [OF indexedD(5) [OF assms, of sev'], of set_mset] by auto
  note d = indexed_distinct(1,2) [OF assms]
  have *: "bt_severity e = al_severity old" if "map_of (ms_alerts s) (al_id a) = Some old" "e \<in> set (ms_byTime s)" "bt_id e = al_id a" for e old
    using entry_of_stored [OF assms that(2)] that by (auto simp: entry_of_def)
  have n: "\<forall>e\<in>set (ms_byTime s). bt_id e \<noteq> al_id a" if "map_of (ms_alerts s) (al_id a) = None"
    using entry_of_stored [OF assms] that by fastforce
  show "ms_byTime (unindex_old a s) = filter (\<lambda>e. bt_id e \<noteq> al_id a) (ms_byTime s)"
    using n by (auto simp: unindex_old_def removeFromIndexes_def remove_entry_filter d split: option.splits intro!: filter_True [symmetric])
  show "bucket (unindex_old a s) sev = filter (\<lambda>e. bt_id e \<noteq> al_id a) (bucket s sev)"
    using n * by (auto simp: unindex_old_def removeFromIndexes_def remove_entry_filter d in_bucket image_iff
        split: option.splits intro!: filter_True [symmetric])
  show "ms_alerts (unindex_old a s) = ms_alerts s" "distinct_keys (ms_bySev (unindex_old a s))"
    "ms_opts (unindex_old a s) = ms_opts s" "ms_seq (unindex_old a s) = ms_seq s"
    using indexedD(4) [OF assms] by (auto simp: unindex_old_def removeFromIndexes_def split: option.splits)
  show "ms_count (unindex_old a s) = ms_count s + (if al_id a \<in> fst ` set (ms_alerts s) then 0 else 1)"
    using map_of_eq_None_iff [of "ms_alerts s" "al_id a"]
    by (cases "map_of (ms_alerts s) (al_id a)") (auto simp: unindex_old_def removeFromIndexes_def)
qed

lemma length_update_fst: "length (AList.update k v al) = length al + (if k \<in> fst ` set al then 0 else 1)"
  by (induction al) auto

lemma add_alert_ok:
  fixes a :: alert
  assumes "indexed s"
  defines "u \<equiv> put_alert a (unindex_old a s)"
  shows "indexed (append_entry (entry_of a) u)"
    "desc (ms_byTime s) \<Longrightarrow> (\<And>sev. desc (bucket s sev)) \<Longrightarrow> indexed (insertSorted (entry_of a) u)"
    "desc (ms_byTime s) \<Longrightarrow> desc (ms_byTime (insertSorted (entry_of a) u))"
    "(\<And>sev. desc (bucket s sev)) \<Longrightarrow> desc (bucket (insertSorted (entry_of a) u) sev)"
    "ms_count u = ms_count s + int (length (ms_alerts u)) - int (length (ms_alerts s))"
proof -
  note o = unindex_old_ok [OF assms(1), of a]
  have u: "ms_alerts u = AList.update (al_id a) a (ms_alerts s)" "ms_byTime u = ms_byTime (unindex_old a s)"
      "distinct_keys (ms_bySev u)" "bucket u sev = bucket (unindex_old a s) sev"
      "ms_count u = ms_count (unindex_old a s)" for sev
    by (simp_all add: u_def put_alert_def o)
  have sv: "bt_severity (entry_of a) = al_severity a" by (simp add: entry_of_def)
  show "indexed (append_entry (entry_of a) u)"
    by (rule indexed_put [OF assms(1)]) (auto simp: append_entry_def u o sv)
  show "indexed (insertSorted (entry_of a) u)" if "desc (ms_byTime s)" "\<And>sev. desc (bucket s sev)"
    by (rule indexed_put [OF assms(1)]) (auto simp: insertSorted_def u o sv insert_at_ok that)
  show "desc (ms_byTime (insertSorted (entry_of a) u))" if "desc (ms_byTime s)"
    by (simp add: insertSorted_def u o insert_at_ok that)
  show "desc (bucket (insertSorted (entry_of a) u) sev)" if "\<And>sev. desc (bucket s sev)"
    by (simp add: insertSorted_def u o insert_at_ok that)
  show "ms_count u = ms_count s + int (length (ms_alerts u)) - int (length (ms_alerts s))"
    by (simp add: u o length_update_fst)
qed

section \<open>Dropping the oldest alerts\<close>

lemma rebuild_ok:
  assumes "distinct_keys (ms_bySev s)"
  shows "bucket (rebuild_bySev s) sev = filter (\<lambda>e. bt_severity e = sev) (ms_byTime s)"
    "distinct_keys (ms_bySev (rebuild_bySev s))"
proof -
  let ?F = "\<lambda>e m. AList.update (bt_severity e) ((case map_of m (bt_severity e) of Some es \<Rightarrow> es | None \<Rightarrow> []) @ [e]) m"
  have f: "(case map_of (fold ?F es m) sev of Some x \<Rightarrow> x | None \<Rightarrow> []) =
      (case map_of m sev of Some x \<Rightarrow> x | None \<Rightarrow> []) @ filter (\<lambda>e. bt_severity e = sev) es" for es m
    by (induction es arbitrary: m) (auto simp: update_conv' split: option.splits)
  have k: "distinct_keys m \<Longrightarrow> distinct_keys (fold ?F es m)" for es m
    by (induction es arbitrary: m) auto
  have "map fst (map (\<lambda>(sev, es). (sev, [] :: byTimeEntry list)) (ms_bySev s)) = map fst (ms_bySev s)" by auto
  with assms have "distinct_keys (map (\<lambda>(sev, es). (sev, [] :: byTimeEntry list)) (ms_bySev s))" by (simp only:)
  from k [OF this] show "distinct_keys (ms_bySev (rebuild_bySev s))"
    by (simp add: rebuild_bySev_def)
  have "(case map_of (map (\<lambda>(sev, es). (sev, [])) xs) sev of Some x \<Rightarrow> x | None \<Rightarrow> []) = []" for xs :: "(severity \<times> byTimeEntry list) list"
    by (induction xs) auto
  then show "bucket (rebuild_bySev s) sev = filter (\<lambda>e. bt_severity e = sev) (ms_byTime s)"
    by (simp add: bucket_def rebuild_bySev_def f)
qed

lemma fold_delete_filter: "fold AList.delete ks al = filter (\<lambda>p. fst p \<notin> set ks) al"
  by (induction ks arbitrary: al) (auto simp: AList.delete_eq intro!: filter_cong)

lemma take_filter_id:
  assumes "distinct (map bt_id es)"
  shows "filter (\<lambda>e. bt_id e \<notin> set (map bt_id (drop n es))) es = take n es"
proof -
  have d: "distinct (map bt_id (take n es @ drop n es))" using assms by simp
  have "filter (\<lambda>e. bt_id e \<notin> set (map bt_id (drop n es))) (take n es @ drop n es) = take n es"
    using d unfolding map_append distinct_append filter_append by (auto simp: filter_empty_conv intro!: filter_True)
  then show ?thesis by simp
qed

lemma drop_tail_ok:
  assumes "store_ok s"
  shows "store_ok (drop_tail n s)" "ms_byTime (drop_tail n s) = take n (ms_byTime s)"
    "ms_alerts (drop_tail n s) = filter (\<lambda>p. fst p \<notin> set (map bt_id (drop n (ms_byTime s)))) (ms_alerts s)"
    "ms_opts (drop_tail n s) = ms_opts s" "ms_seq (drop_tail n s) = ms_seq s"
proof -
  have ix: "indexed s" and d: "desc (ms_byTime s)" and c: "ms_count s = int (length (ms_alerts s))"
    using assms by (simp_all add: store_ok_def)
  let ?D = "set (map bt_id (drop n (ms_byTime s)))"
  show a: "ms_byTime (drop_tail n s) = take n (ms_byTime s)" "ms_opts (drop_tail n s) = ms_opts s" "ms_seq (drop_tail n s) = ms_seq s"
    by (simp_all add: drop_tail_def rebuild_bySev_def)
  show al: "ms_alerts (drop_tail n s) = filter (\<lambda>p. fst p \<notin> ?D) (ms_alerts s)"
    by (simp add: drop_tail_def rebuild_bySev_def fold_delete_filter)
  have b: "bucket (drop_tail n s) sev = filter (\<lambda>e. bt_severity e = sev) (take n (ms_byTime s))"
      "distinct_keys (ms_bySev (drop_tail n s))" for sev
    unfolding drop_tail_def by (subst rebuild_ok; use indexedD(4) [OF ix] in simp)+
  have m: "mset (take n (ms_byTime s)) = mset (map (entry_of \<circ> snd) (filter (\<lambda>p. fst p \<notin> ?D) (ms_alerts s)))"
    using mset_filter_id [OF ix, of "- ?D"] unfolding Compl_iff take_filter_id [OF indexed_distinct(1) [OF ix], of n] .
  have "indexed (drop_tail n s)"
    using indexedD(1,2) [OF ix] m unfolding indexed_def a al b by (auto simp: b(2))
  moreover have "ms_count (drop_tail n s) = int (length (ms_alerts (drop_tail n s)))"
  proof -
    have "length (filter (\<lambda>p. fst p \<notin> ?D) (ms_alerts s)) = length (take n (ms_byTime s))"
      using arg_cong [OF m, of size] unfolding size_mset by simp
    then show ?thesis
      using c indexed_distinct(3) [OF ix] unfolding al by (simp add: drop_tail_def rebuild_bySev_def)
  qed
  ultimately show "store_ok (drop_tail n s)"
    unfolding store_ok_def a b using d by simp
qed

section \<open>The invariant is kept\<close>

lemma evict_ok:
  assumes "store_ok s"
  shows "store_ok (evictOldestLocked s)"
  using assms by (auto simp: evictOldestLocked_def Let_def drop_tail_ok)

lemma name_alert_ok:
  obtains b n where "name_alert now a s = (b, s\<lparr>ms_seq := n\<rparr>)"
proof
  show "name_alert now a s = (fst (name_alert now a s), s\<lparr>ms_seq := ms_seq (snd (name_alert now a s))\<rparr>)"
    by (simp add: name_alert_def Let_def)
qed

lemma indexed_seq [simp]: "indexed (s\<lparr>ms_seq := n\<rparr>) = indexed s"
  and store_ok_seq [simp]: "store_ok (s\<lparr>ms_seq := n\<rparr>) = store_ok s"
  by (simp_all add: indexed_def store_ok_def)

lemma insertSorted_fields [simp]:
  "ms_alerts (insertSorted e s) = ms_alerts s" "ms_count (insertSorted e s) = ms_count s" "ms_opts (insertSorted e s) = ms_opts s"
  "ms_alerts (append_entry e s) = ms_alerts s" "ms_count (append_entry e s) = ms_count s" "ms_opts (append_entry e s) = ms_opts s"
  by (simp_all add: insertSorted_def append_entry_def)

lemma insert_ok: "store_ok s \<Longrightarrow> store_ok (insertSorted (entry_of a) (put_alert a (unindex_old a s)))"
  using add_alert_ok [of s a] by (simp add: store_ok_def)

lemma Store_ok: "store_ok s \<Longrightarrow> store_ok (store_Store now a s)"
  by (cases rule: name_alert_ok [of now a s]) (auto simp: store_Store_def intro!: evict_ok insert_ok)

text \<open>What \<open>sort.Slice\<close> with \<open>ts.After\<close> promises.\<close>

definition sorts :: "(byTimeEntry list \<Rightarrow> byTimeEntry list) \<Rightarrow> bool" where
  "sorts srt \<longleftrightarrow> (\<forall>es. mset (srt es) = mset es \<and> desc (srt es))"

lemma sort_indexes_ok:
  assumes "sorts srt" "indexed s" "ms_count s = int (length (ms_alerts s))"
  shows "store_ok (sort_indexes srt s)"
proof -
  have srt: "mset (srt es) = mset es" "desc (srt es)" for es using assms(1) by (simp_all add: sorts_def)
  have "srt [] = []" using srt(1) [of "[]"] by simp
  then have b: "bucket (sort_indexes srt s) sev = srt (bucket s sev)" for sev
    by (auto simp: bucket_def sort_indexes_def map_of_map split: option.splits)
  have k: "map fst (map (\<lambda>(sev, es). (sev, srt es)) (ms_bySev s)) = map fst (ms_bySev s)" by auto
  have "indexed (sort_indexes srt s)"
    using assms(2) unfolding indexed_def b srt(1) by (simp add: sort_indexes_def srt(1) k del: map_map)
  then show ?thesis using assms(3) unfolding store_ok_def b by (simp add: srt(2)) (simp add: sort_indexes_def srt(2))
qed

lemma batch_ok:
  "indexed s \<Longrightarrow> ms_count s = int (length (ms_alerts s)) \<Longrightarrow>
     indexed (fold (batch_one now) alerts s) \<and> ms_count (fold (batch_one now) alerts s) = int (length (ms_alerts (fold (batch_one now) alerts s)))"
proof (induction alerts arbitrary: s)
  case (Cons a alerts)
  obtain b n where n: "name_alert now a s = (b, s\<lparr>ms_seq := n\<rparr>)" by (rule name_alert_ok)
  have t: "indexed (s\<lparr>ms_seq := n\<rparr>)" using Cons.prems(1) by simp
  show ?case
    using Cons.IH [of "batch_one now a s"] add_alert_ok(1,5) [OF t, of b] Cons.prems(2) by (simp add: batch_one_def n)
qed simp

lemma StoreBatch_ok: "store_ok s \<Longrightarrow> sorts srt \<Longrightarrow> store_ok (StoreBatch srt now alerts s)"
  using batch_ok [of s now alerts] by (auto simp: StoreBatch_def intro!: evict_ok sort_indexes_ok) (simp_all add: store_ok_def)

lemma Delete_ok: "store_ok s \<Longrightarrow> store_ok (snd (store_Delete now olderThan s))"
  by (simp add: store_Delete_def Let_def drop_tail_ok)

lemma drop_tail_newer:
  assumes "store_ok s" "(i, a) \<in> set (ms_alerts (drop_tail n s))" "(j, b) \<in> set (ms_alerts s)" "(j, b) \<notin> set (ms_alerts (drop_tail n s))"
  shows "al_timestamp b \<le> al_timestamp a"
proof -
  have ix: "indexed s" and d: "desc (take n (ms_byTime s) @ drop n (ms_byTime s))" using assms(1) by (simp_all add: store_ok_def)
  have st: "entry_of x \<in> set (ms_byTime s)" "bt_id (entry_of x) = k" if "(k, x) \<in> set (ms_alerts s)" for k x
  proof -
    have "entry_of x \<in># mset (map (entry_of \<circ> snd) (ms_alerts s))" using that by force
    then show "entry_of x \<in> set (ms_byTime s)" unfolding indexedD(3) [OF ix, symmetric] by simp
    show "bt_id (entry_of x) = k" using indexedD(2) [OF ix that] by (simp add: entry_of_def)
  qed
  have a: "(i, a) \<in> set (ms_alerts s)" "i \<notin> bt_id ` set (drop n (ms_byTime s))"
    and b: "j \<in> bt_id ` set (drop n (ms_byTime s))"
    using assms(2-4) unfolding drop_tail_ok(3) [OF assms(1)] by auto
  have "entry_of a \<in> set (take n (ms_byTime s) @ drop n (ms_byTime s))" "entry_of a \<notin> set (drop n (ms_byTime s))"
    using st [OF a(1)] a(2) by auto
  then have ta: "entry_of a \<in> set (take n (ms_byTime s))" unfolding set_append by blast
  obtain e where e: "e \<in> set (drop n (ms_byTime s))" "bt_id e = j" using b by blast
  moreover have "e = entry_of b"
    using indexed_distinct(1) [OF ix] st [OF assms(3)] e in_set_dropD [OF e(1)] by (auto simp: distinct_map inj_on_def)
  ultimately have "entry_of b \<in> set (drop n (ms_byTime s))" by simp
  with ta d have "bt_ts (entry_of b) \<le> bt_ts (entry_of a)" unfolding desc_simps by blast
  then show ?thesis by (simp add: entry_of_def)
qed

lemma length_drop_tail:
  assumes "store_ok s"
  shows "length (ms_alerts (drop_tail n s)) = min n (length (ms_alerts s))"
  using indexed_distinct(3) [of s] indexed_distinct(3) [of "drop_tail n s"] drop_tail_ok(1,2) [OF assms, of n] assms
  by (simp add: store_ok_def)

lemma evict_alerts:
  assumes "store_ok s" "s' = evictOldestLocked s" "mo_MaxAlerts (ms_opts s) > 0"
  shows "length (ms_alerts s') = min (nat (mo_MaxAlerts (ms_opts s))) (length (ms_alerts s)) \<and>
    set (ms_alerts s') \<subseteq> set (ms_alerts s) \<and>
    (\<forall>kept\<in>set (ms_alerts s'). \<forall>gone\<in>set (ms_alerts s) - set (ms_alerts s'). al_timestamp (snd gone) \<le> al_timestamp (snd kept))"
proof (cases "int (length (ms_alerts s)) \<le> mo_MaxAlerts (ms_opts s)")
  case False
  have l: "length (ms_byTime s) = length (ms_alerts s)" using assms(1) by (simp add: store_ok_def indexed_distinct)
  define n where "n = nat (mo_MaxAlerts (ms_opts s))"
  have s': "s' = drop_tail n s"
    using False assms(2,3) by (simp add: evictOldestLocked_def Let_def l n_def)
  have "set (ms_alerts s') \<subseteq> set (ms_alerts s)" unfolding s' drop_tail_ok(3) [OF assms(1)] by auto
  moreover have "length (ms_alerts s') = min n (length (ms_alerts s))"
    unfolding s' by (rule length_drop_tail [OF assms(1)])
  ultimately show ?thesis
    using drop_tail_newer [OF assms(1)] unfolding s' n_def [symmetric] by auto
qed (use assms in \<open>auto simp: evictOldestLocked_def\<close>)

text \<open>
  C32 (invariant).  The indexes of the store never lose step with its alerts: after any of its writes
  the time index and the severity index hold one entry per stored alert, newest first, and the counter
  is the number of alerts.
\<close>

theorem store_invariant:
  "store_ok (newMemoryStore opts) \<and>
   (store_ok s \<longrightarrow> store_ok (store_Store now a s) \<and> store_ok (snd (store_Delete now olderThan s)) \<and>
     (sorts srt \<longrightarrow> store_ok (StoreBatch srt now alerts s)))"
  by (auto simp: Store_ok Delete_ok StoreBatch_ok)
     (simp add: store_ok_def indexed_def newMemoryStore_def bucket_def)

text \<open>
  C33 (bounds).  Storing an alert in a store with a cap leaves at most the cap's number of alerts, and
  only the oldest are given up: whatever is dropped is no newer than anything that is kept.
\<close>

theorem Store_keeps_newest:
  assumes "store_ok s" "mo_MaxAlerts (ms_opts s) = int cap" "0 < cap" "name_alert now a s = (b, s1)"
  defines "all \<equiv> AList.update (al_id b) b (ms_alerts s)" and "kept \<equiv> ms_alerts (store_Store now a s)"
  shows "length kept = min cap (length all) \<and> set kept \<subseteq> set all \<and>
    (\<forall>x\<in>set kept. \<forall>y\<in>set all - set kept. al_timestamp (snd y) \<le> al_timestamp (snd x))"
proof -
  obtain c n where "name_alert now a s = (c, s\<lparr>ms_seq := n\<rparr>)" by (rule name_alert_ok)
  with assms(4) have s1: "s1 = s\<lparr>ms_seq := n\<rparr>" by simp
  define t where "t = insertSorted (entry_of b) (put_alert b (unindex_old b s1))"
  have ok: "store_ok s1" "indexed s1" using assms(1) by (simp_all add: s1 store_ok_def)
  have t: "store_ok t" "ms_alerts t = all" "ms_opts t = ms_opts s"
    unfolding t_def using insert_ok [OF ok(1)] unindex_old_ok(3,6) [OF ok(2)]
    by (simp_all add: put_alert_def all_def) (simp_all add: s1)
  have "kept = ms_alerts (evictOldestLocked t)"
    by (simp add: kept_def store_Store_def assms(4) t_def)
  with evict_alerts [OF t(1) refl] assms(2,3) show ?thesis by (simp add: t(2,3))
qed

section \<open>Queries\<close>

definition page :: "QueryFilters \<Rightarrow> alert list \<Rightarrow> alert list" where
  "page f as = (let rest = drop (nat (qf_Offset f)) as in if qf_Limit f > 0 then take (nat (qf_Limit f)) rest else rest)"

definition newest_first :: "alert list \<Rightarrow> bool" where
  "newest_first as \<longleftrightarrow> sorted_wrt (\<lambda>a b. al_timestamp b \<le> al_timestamp a) as"

lemma query_scan_page:
  assumes "qf_Limit f > 0 \<Longrightarrow> int (length results) < qf_Limit f"
  shows "query_scan env f pre look skipped results es =
    (let rest = drop (nat (qf_Offset f - skipped)) (map look (filter (\<lambda>e. pre e \<and> matchesFilters env (look e) f) es))
     in results @ (if qf_Limit f > 0 then take (nat (qf_Limit f) - length results) rest else rest))"
  using assms
proof (induction env f pre look skipped results es rule: query_scan.induct)
  case (2 env f pre look skipped results e es)
  show ?case
  proof (cases "pre e \<and> matchesFilters env (look e) f")
    case True
    show ?thesis
    proof (cases "skipped < qf_Offset f")
      case s: True
      then have "nat (qf_Offset f - skipped) = Suc (nat (qf_Offset f - (skipped + 1)))" by simp
      then show ?thesis using "2.IH"(3) "2.prems" True s by (simp add: Let_def)
    next
      case s: False
      show ?thesis
      proof (cases "qf_Limit f > 0 \<and> qf_Limit f \<le> int (length (results @ [look e]))")
        case l: True
        with "2.prems" have "nat (qf_Limit f) - length results = 1" by simp
        with l True s show ?thesis by (simp add: Let_def)
      next
        case l: False
        have "nat (qf_Limit f) - length results = Suc (nat (qf_Limit f) - length (results @ [look e]))" if "qf_Limit f > 0"
          using l that by auto
        with "2.IH"(4) l True s show ?thesis by (auto simp: Let_def)
      qed
    qed
  qed (use "2" in \<open>auto simp: Let_def\<close>)
qed (simp add: Let_def)

lemma filter_window:
  assumes "desc es" "\<And>e. e \<in> set es \<Longrightarrow> Q e \<Longrightarrow> (time_is_zero (qf_Until f) \<or> bt_ts e \<le> qf_Until f) \<and> (time_is_zero (qf_Since f) \<or> qf_Since f \<le> bt_ts e)"
  shows "filter Q (window f es) = filter Q es"
proof -
  define start where "start = (if time_is_zero (qf_Until f) then 0 else sort_search (length es) (\<lambda>i. \<not> bt_ts (es ! i) > qf_Until f))"
  define stop where "stop = (if time_is_zero (qf_Since f) then length es else sort_search (length es) (\<lambda>i. bt_ts (es ! i) < qf_Since f))"
  have w: "window f es = take (stop - start) (drop start es)" by (simp add: window_def Let_def start_def stop_def)
  have "\<forall>a b. \<not> a > qf_Until f \<and> b \<le> a \<longrightarrow> \<not> b > qf_Until f" "\<forall>a b. a < qf_Since f \<and> b \<le> a \<longrightarrow> b < qf_Since f" by auto
  note m = this
  have u: "\<forall>e\<in>set (take start es). bt_ts e > qf_Until f" if "\<not> time_is_zero (qf_Until f)"
    using desc_search(2) [of es "\<lambda>t. \<not> t > qf_Until f", OF assms(1) m(1)] that
    by (simp only: start_def if_False not_not)
  have v: "\<forall>e\<in>set (drop stop es). bt_ts e < qf_Since f" if "\<not> time_is_zero (qf_Since f)"
    using desc_search(3) [of es "\<lambda>t. t < qf_Since f", OF assms(1) m(2)] that
    by (simp only: stop_def if_False)
  have start0: "start = 0" if "time_is_zero (qf_Until f)" using that by (simp add: start_def)
  have stop0: "stop = length es" if "time_is_zero (qf_Since f)" using that by (simp add: stop_def)
  have "\<not> Q e" if "e \<in> set (take start es)" for e
    using u start0 that assms(2) [OF in_set_takeD [OF that]] by fastforce
  then have 1: "filter Q (take start es) = []" by (simp add: filter_empty_conv)
  have "\<not> Q e" if "e \<in> set (drop stop es)" for e
    using v stop0 that assms(2) [OF in_set_dropD [OF that]] by fastforce
  moreover have "set (drop (stop - start) (drop start es)) \<subseteq> set (drop stop es)"
    by (simp add: set_drop_subset_set_drop)
  ultimately have 2: "filter Q (drop (stop - start) (drop start es)) = []" by (auto simp: filter_empty_conv)
  have "filter Q es = filter Q (take start es @ take (stop - start) (drop start es) @ drop (stop - start) (drop start es))"
    by (simp only: append_take_drop_id)
  also have "\<dots> = filter Q (window f es)" unfolding filter_append 1 2 w by simp
  finally show ?thesis by simp
qed

lemma alert_of_ok:
  assumes "indexed s"
  shows "e \<in> set (ms_byTime s) \<Longrightarrow> entry_of (alert_of s e) = e"
    "mset (map (alert_of s) (ms_byTime s)) = mset (map snd (ms_alerts s))"
proof -
  show "e \<in> set (ms_byTime s) \<Longrightarrow> entry_of (alert_of s e) = e"
    using entry_of_stored [OF assms, of e] by (auto simp: alert_of_def)
  have "mset (map (alert_of s) (ms_byTime s)) = image_mset (alert_of s) (mset (map (entry_of \<circ> snd) (ms_alerts s)))"
    by (simp only: mset_map indexedD(3) [OF assms])
  also have "\<dots> = mset (map (\<lambda>p. alert_of s (entry_of (snd p))) (ms_alerts s))"
    by (simp add: multiset.map_comp comp_def)
  also have "map (\<lambda>p. alert_of s (entry_of (snd p))) (ms_alerts s) = map snd (ms_alerts s)"
    using indexedD(1,2) [OF assms] by (auto simp: alert_of_def entry_of_def)
  finally show "mset (map (alert_of s) (ms_byTime s)) = mset (map snd (ms_alerts s))" .
qed

lemma entry_fields:
  assumes "indexed s" "e \<in> set (ms_byTime s)"
  shows "bt_ts e = al_timestamp (alert_of s e)" "bt_severity e = al_severity (alert_of s e)"
    "bt_namespace e = en_namespace (al_enrichment (alert_of s e))"
  using alert_of_ok(1) [OF assms] by (metis entry_of_def byTimeEntry.select_convs)+

lemma matches_entry:
  assumes "indexed s" "e \<in> set (ms_byTime s)" "matchesFilters env (alert_of s e) f"
  shows "prefilter f e" "namespace_ok f (bt_namespace e)" "qf_Severity f \<noteq> [] \<Longrightarrow> bt_severity e \<in> set (qf_Severity f)"
    "(time_is_zero (qf_Until f) \<or> bt_ts e \<le> qf_Until f) \<and> (time_is_zero (qf_Since f) \<or> qf_Since f \<le> bt_ts e)"
  using assms(3) unfolding matchesFilters_def prefilter_def entry_fields [OF assms(1,2)] by auto

text \<open>The matching alerts in the order the store keeps them.\<close>

definition matching :: "dns_env \<Rightarrow> QueryFilters \<Rightarrow> MemoryStore \<Rightarrow> byTimeEntry list \<Rightarrow> alert list" where
  "matching env f s es = filter (\<lambda>a. matchesFilters env a f) (map (alert_of s) es)"

lemma matching_newest_first:
  assumes "indexed s" "desc es" "set es \<subseteq> set (ms_byTime s)"
  shows "newest_first (matching env f s es)"
proof -
  have "sorted_wrt (\<lambda>x y. al_timestamp (alert_of s y) \<le> al_timestamp (alert_of s x)) es"
    using assms(2) unfolding desc_def
    by (rule sorted_wrt_mono_rel [rotated]) (use entry_fields(1) [OF assms(1)] assms(3) in \<open>simp add: subset_iff\<close>)
  then show ?thesis unfolding newest_first_def matching_def by (intro sorted_wrt_filter) (simp add: sorted_wrt_map)
qed

lemma matching_bucket:
  assumes "indexed s" "qf_Severity f = [sev]"
  shows "mset (matching env f s (bucket s sev)) = mset (matching env f s (ms_byTime s))"
proof -
  let ?Q = "\<lambda>e. matchesFilters env (alert_of s e) f"
  have q: "(bt_severity x = sev \<and> ?Q x) = ?Q x" if "x \<in> set (ms_byTime s)" for x
    using matches_entry(3) [OF assms(1) that, of env f] assms(2) by auto
  have "mset (filter ?Q (bucket s sev)) = mset (filter ?Q (filter (\<lambda>e. bt_severity e = sev) (ms_byTime s)))"
    by (simp only: mset_filter indexedD(5) [OF assms(1), of sev])
  also have "filter ?Q (filter (\<lambda>e. bt_severity e = sev) (ms_byTime s)) = filter ?Q (ms_byTime s)"
    unfolding filter_filter by (intro filter_cong refl q)
  finally show ?thesis unfolding matching_def filter_map comp_def mset_map by (simp only:)
qed

lemma scan_matching:
  assumes "indexed s" "set es \<subseteq> set (ms_byTime s)" "\<And>e. prefilter f e \<Longrightarrow> pre e"
  shows "query_scan env f pre (alert_of s) 0 [] es = page f (matching env f s es)"
proof -
  have "filter (\<lambda>e. pre e \<and> matchesFilters env (alert_of s e) f) es = filter (\<lambda>e. matchesFilters env (alert_of s e) f) es"
    using assms(2,3) matches_entry(1) [OF assms(1)] by (intro filter_cong refl) blast
  then show ?thesis by (simp add: query_scan_page page_def matching_def filter_map comp_def Let_def)
qed

lemma window_subset: "set (window f es) \<subseteq> set es"
  unfolding window_def Let_def by (meson order_trans set_drop_subset set_take_subset)

lemma matching_window:
  assumes "indexed s" "desc (ms_byTime s)"
  shows "matching env f s (window f (ms_byTime s)) = matching env f s (ms_byTime s)"
  unfolding matching_def filter_map comp_def
  using filter_window [OF assms(2), of "\<lambda>e. matchesFilters env (alert_of s e) f" f] matches_entry(4) [OF assms(1)] by simp

lemma Query_page:
  assumes "store_ok s"
  obtains es where "desc es" "set es \<subseteq> set (ms_byTime s)"
    "mset (matching env f s es) = mset (filter (\<lambda>a. matchesFilters env a f) (map snd (ms_alerts s)))"
    "store_Query env f s = page f (matching env f s es)"
proof -
  have ix: "indexed s" and d: "desc (ms_byTime s)" "desc (bucket s sev)" for sev
    using assms by (simp_all add: store_ok_def)
  have all: "mset (matching env f s (ms_byTime s)) = mset (filter (\<lambda>a. matchesFilters env a f) (map snd (ms_alerts s)))"
    by (simp only: matching_def mset_filter alert_of_ok(2) [OF ix])
  show thesis
  proof (cases "time_is_zero (qf_Since f) \<and> time_is_zero (qf_Until f) \<and> length (qf_Severity f) = 1")
    case True
    then obtain sev where sev: "qf_Severity f = [sev]" by (cases "qf_Severity f") auto
    have sub: "set (bucket s sev) \<subseteq> set (ms_byTime s)"
      using arg_cong [OF indexedD(5) [OF ix, of sev], of set_mset] by auto
    have "store_Query env f s = page f (matching env f s (bucket s sev))"
      using True scan_matching [OF ix sub, of f "\<lambda>e. namespace_ok f (bt_namespace e)" env]
      by (simp add: store_Query_def sev prefilter_def)
    then show thesis using that [OF d(2) sub] matching_bucket [OF ix sev] all by metis
  next
    case False
    have "store_Query env f s = page f (matching env f s (ms_byTime s))"
      using False scan_matching [OF ix window_subset, of f "prefilter f" env]
      by (simp only: store_Query_def if_False matching_window [OF ix d(1)])
    with all show thesis using that [OF d(1) subset_refl] by simp
  qed
qed

section \<open>What the store promises\<close>

definition store_alert :: "string \<Rightarrow> severity \<Rightarrow> time \<Rightarrow> alert" where
  "store_alert i sev t = zero_alert\<lparr>al_id := i, al_severity := sev, al_timestamp := t\<rparr>"

definition example_store :: MemoryStore where
  "example_store = fold (store_Store 9) [store_alert ''a'' ''critical'' 5, store_alert ''b'' ''warning'' 7]
     (newMemoryStore \<lparr>mo_MaxAlerts = 2, mo_RetentionPeriod = 0\<rparr>)"

definition example_filters :: QueryFilters where
  "example_filters = \<lparr>qf_Since = 0, qf_Until = 0, qf_PIDs = [], qf_Severity = [''critical''], qf_RuleIDs = [], qf_Comm = [],
     qf_PodName = [], qf_Namespace = [], qf_Namespaces = [], qf_Limit = 10, qf_Offset = 0\<rparr>"

lemma new_ok: "store_ok (newMemoryStore opts)"
  by (simp add: store_ok_def indexed_def newMemoryStore_def bucket_def)

lemma example_store_ok: "store_ok example_store"
  by (simp add: example_store_def Store_ok new_ok)

lemma example_store_eq:
  "ms_alerts example_store = [(''a'', store_alert ''a'' ''critical'' 5), (''b'', store_alert ''b'' ''warning'' 7)]"
  "ms_opts example_store = \<lparr>mo_MaxAlerts = 2, mo_RetentionPeriod = 0\<rparr>"
  by code_simp+

text \<open>
  C11 (equivalence).  A query returns a page of the stored alerts that match its filters, listed newest
  first: the time window found by binary search, the severity index and the pre-checks on index entries
  leave nothing out and let nothing else in.
\<close>

theorem Query_returns_matching_page:
  assumes "store_ok s"
  shows "\<exists>as. mset as = mset (filter (\<lambda>a. matchesFilters env a f) (map snd (ms_alerts s))) \<and> newest_first as \<and>
    store_Query env f s = page f as"
proof -
  obtain es where "desc es" "set es \<subseteq> set (ms_byTime s)"
    "mset (matching env f s es) = mset (filter (\<lambda>a. matchesFilters env a f) (map snd (ms_alerts s)))"
    "store_Query env f s = page f (matching env f s es)"
    by (rule Query_page [OF assms])
  then show ?thesis using matching_newest_first [of s es env f] assms unfolding store_ok_def by blast
qed

theorem Query_returns_matching_page_witness:
  "\<forall>env. store_Query env example_filters example_store = [store_alert ''a'' ''critical'' 5]"
proof
  fix env
  have m: "filter (\<lambda>a. matchesFilters env a example_filters) (map snd (ms_alerts example_store)) = [store_alert ''a'' ''critical'' 5]"
    by (simp add: example_store_eq matchesFilters_def example_filters_def store_alert_def namespace_ok_def time_is_zero_def)
  obtain as where "mset as = mset [store_alert ''a'' ''critical'' 5]" "store_Query env example_filters example_store = page example_filters as"
    using Query_returns_matching_page [OF example_store_ok, of env example_filters] unfolding m by blast
  then show "store_Query env example_filters example_store = [store_alert ''a'' ''critical'' 5]"
    by (simp add: page_def example_filters_def)
qed


text \<open>
  In a store without a cap, an alert just stored is found again under its ID, with the
  ID and the time stamp \<open>Store\<close> filled in, and every other alert is still what it was.
\<close>

theorem QueryByID_after_Store:
  assumes "mo_MaxAlerts (ms_opts s) \<le> 0" "name_alert now a s = (b, s1)"
  shows "QueryByID i (store_Store now a s) = (if i = al_id b then Inr b else QueryByID i s)"
proof -
  obtain c n where "name_alert now a s = (c, s\<lparr>ms_seq := n\<rparr>)" by (rule name_alert_ok)
  with assms(2) have s1: "s1 = s\<lparr>ms_seq := n\<rparr>" by simp
  have u: "ms_alerts (unindex_old b s1) = ms_alerts s" "ms_opts (unindex_old b s1) = ms_opts s"
    by (simp_all add: unindex_old_def removeFromIndexes_def s1 split: option.split)
  show ?thesis
    using assms(1) by (simp add: QueryByID_def store_Store_def assms(2) evictOldestLocked_def put_alert_def u update_conv')
qed

theorem QueryByID_after_Store_witness:
  "QueryByID ''a'' (store_Store 9 (store_alert ''a'' ''info'' 3) (newMemoryStore \<lparr>mo_MaxAlerts = 0, mo_RetentionPeriod = 0\<rparr>))
     = Inr (store_alert ''a'' ''info'' 3)"
  using QueryByID_after_Store [of "newMemoryStore \<lparr>mo_MaxAlerts = 0, mo_RetentionPeriod = 0\<rparr>" 9 "store_alert ''a'' ''info'' 3"
      "store_alert ''a'' ''info'' 3" "newMemoryStore \<lparr>mo_MaxAlerts = 0, mo_RetentionPeriod = 0\<rparr>" "''a''"]
  by (simp add: newMemoryStore_def name_alert_def store_alert_def time_is_zero_def)

text \<open>
  \<open>Delete\<close> removes exactly the alerts older than the cutoff and reports how many they
  were.
\<close>

theorem Delete_removes_older:
  assumes "store_ok s" "store_Delete now olderThan s = (n, s')"
  shows "mset (map snd (ms_alerts s')) = mset (filter (\<lambda>a. now - olderThan \<le> al_timestamp a) (map snd (ms_alerts s))) \<and>
    n = length (ms_alerts s) - length (ms_alerts s')"
proof -
  let ?idx = "sort_search (length (ms_byTime s)) (\<lambda>i. bt_ts (ms_byTime s ! i) < now - olderThan)"
  define D where "D = drop_tail ?idx s"
  have s': "s' = D" "n = length (drop ?idx (ms_byTime s))"
    using assms(2) by (simp_all add: store_Delete_def Let_def D_def)
  have ix: "indexed s" and d: "desc (ms_byTime s)" using assms(1) by (simp_all add: store_ok_def)
  have ixD: "indexed D" using drop_tail_ok(1) [OF assms(1)] by (simp add: D_def store_ok_def)
  have m: "\<forall>a b. a < now - olderThan \<and> b \<le> a \<longrightarrow> b < now - olderThan" by auto
  have t: "ms_byTime D = filter (\<lambda>e. now - olderThan \<le> bt_ts e) (ms_byTime s)"
    using desc_search_filter(1) [of "ms_byTime s" "\<lambda>t. t < now - olderThan", OF d m] drop_tail_ok(2) [OF assms(1), of ?idx]
    by (simp add: D_def not_less)
  have al: "alert_of D e = alert_of s e" if "e \<in> set (ms_byTime D)" for e
  proof -
    from entry_of_stored [OF ixD that] obtain a where a: "map_of (ms_alerts D) (bt_id e) = Some a" by blast
    from map_of_SomeD [OF this] have "(bt_id e, a) \<in> set (ms_alerts s)"
      unfolding D_def drop_tail_ok(3) [OF assms(1)] by simp
    then show ?thesis using a indexedD(1) [OF ix] by (simp add: alert_of_def)
  qed
  have "mset (map snd (ms_alerts D)) = mset (map (alert_of s) (ms_byTime D))"
    using alert_of_ok(2) [OF ixD] al by (metis (no_types, lifting) map_cong)
  also have "map (alert_of s) (ms_byTime D) = filter (\<lambda>a. now - olderThan \<le> al_timestamp a) (map (alert_of s) (ms_byTime s))"
    unfolding t filter_map comp_def using entry_fields(1) [OF ix] by (intro arg_cong [where f = "map _"] filter_cong refl) simp
  finally have "mset (map snd (ms_alerts D)) = mset (filter (\<lambda>a. now - olderThan \<le> al_timestamp a) (map snd (ms_alerts s)))"
    by (simp only: mset_filter alert_of_ok(2) [OF ix])
  moreover have "length (ms_byTime D) = min ?idx (length (ms_byTime s))" by (simp add: D_def drop_tail_ok(2) [OF assms(1)])
  then have "n = length (ms_alerts s) - length (ms_alerts D)"
    by (simp add: s'(2) indexed_distinct(3) [OF ix] indexed_distinct(3) [OF ixD])
  ultimately show "mset (map snd (ms_alerts s')) = mset (filter (\<lambda>a. now - olderThan \<le> al_timestamp a) (map snd (ms_alerts s))) \<and>
    n = length (ms_alerts s) - length (ms_alerts s')" by (simp only: s'(1) simp_thms)
qed

theorem Delete_removes_older_witness:
  "fst (store_Delete 9 3 example_store) = 1 \<and>
   mset (map snd (ms_alerts (snd (store_Delete 9 3 example_store)))) = {#store_alert ''b'' ''warning'' 7#}"
proof -
  have "fst (store_Delete 9 3 example_store) = 1" by code_simp
  with Delete_removes_older [of example_store 9 3, OF example_store_ok surjective_pairing] show ?thesis
    by (simp add: example_store_eq store_alert_def)
qed

text \<open>
  The streaming summary of the store is the summary of the alerts a query without a
  page would list, taken in the order of the time index.
\<close>

theorem Summarize_is_SummarizeAlerts:
  assumes "store_ok s"
  shows "\<exists>as. mset as = mset (filter (\<lambda>a. matchesFilters env a f) (map snd (ms_alerts s))) \<and> newest_first as \<and>
    Summarize env f s = SummarizeAlerts as \<and> su_Total (Summarize env f s) = length as"
proof -
  have ix: "indexed s" and d: "desc (ms_byTime s)" using assms by (simp_all add: store_ok_def)
  let ?as = "matching env f s (ms_byTime s)"
  have scan: "summary_scan env f (alert_of s) t es = fold tally_alert (matching env f s es) t"
    if "set es \<subseteq> set (ms_byTime s)" for t es
    using that matches_entry(1) [OF ix, of _ env f] by (induction es arbitrary: t) (auto simp: matching_def)
  have "Summarize env f s = summary_of (fold tally_alert ?as empty_tally)"
    unfolding Summarize_def scan [OF window_subset] matching_window [OF ix d] ..
  moreover have "ta_total (fold tally_alert as t) = ta_total t + length as" for as t
    by (induction as arbitrary: t) (simp_all add: tally_alert_def Let_def)
  ultimately have "Summarize env f s = SummarizeAlerts ?as \<and> su_Total (Summarize env f s) = length ?as"
    by (simp add: SummarizeAlerts_def summary_of_def empty_tally_def topRulesFromCounts_def timelineFromCounts_def time_is_zero_def)
  moreover have "mset ?as = mset (filter (\<lambda>a. matchesFilters env a f) (map snd (ms_alerts s)))"
    by (simp only: matching_def mset_filter alert_of_ok(2) [OF ix])
  ultimately show ?thesis using matching_newest_first [OF ix d subset_refl] by blast
qed

theorem Summarize_is_SummarizeAlerts_witness:
  "\<forall>env. su_Total (Summarize env example_filters example_store) = 1"
proof
  fix env
  have m: "filter (\<lambda>a. matchesFilters env a example_filters) (map snd (ms_alerts example_store)) = [store_alert ''a'' ''critical'' 5]"
    by (simp add: example_store_eq matchesFilters_def example_filters_def store_alert_def namespace_ok_def time_is_zero_def)
  show "su_Total (Summarize env example_filters example_store) = 1"
    using Summarize_is_SummarizeAlerts [OF example_store_ok, of env example_filters] unfolding m by auto
qed

text \<open>The number \<open>Count\<close> returns is that of all alerts, whatever its filters say.\<close>

theorem Count_ignores_filters:
  "\<exists>f s. store_ok s \<and> store_Count f s \<noteq> int (length (filter (\<lambda>a. matchesFilters env a f) (map snd (ms_alerts s))))"
proof (intro exI conjI)
  show "store_ok example_store" by (rule example_store_ok)
  have "store_Count example_filters example_store = 2"
    using example_store_ok by (simp add: store_Count_def store_ok_def example_store_eq)
  then show "store_Count example_filters example_store \<noteq>
      int (length (filter (\<lambda>a. matchesFilters env a example_filters) (map snd (ms_alerts example_store))))"
    by (simp add: example_store_eq matchesFilters_def example_filters_def store_alert_def namespace_ok_def time_is_zero_def)
qed

theorem store_invariant_witness:
  "store_ok (store_Store 9 (store_alert ''c'' ''info'' 8) example_store) \<and> store_ok (snd (store_Delete 9 3 example_store)) \<and>
   store_ok (StoreBatch (sort_key (\<lambda>e. - bt_ts e)) 9 [store_alert ''c'' ''info'' 6, store_alert ''a'' ''info'' 8] example_store)"
proof -
  have "sorts (sort_key (\<lambda>e. - bt_ts e))"
  proof -
    have "desc (sort_key (\<lambda>e. - bt_ts e) es)" for es :: "byTimeEntry list"
      using sorted_sort_key [of "\<lambda>e. - bt_ts e" es] by (simp add: desc_def sorted_map)
    then show ?thesis by (simp add: sorts_def)
  qed
  then show ?thesis
    using store_invariant [of _ example_store 9 "store_alert ''c'' ''info'' 8" 3 "sort_key (\<lambda>e. - bt_ts e)"
        "[store_alert ''c'' ''info'' 6, store_alert ''a'' ''info'' 8]"] store_invariant [of _ example_store 9] example_store_ok
    by blast
qed

theorem Store_keeps_newest_witness:
  "ms_alerts (store_Store 9 (store_alert ''c'' ''info'' 8) example_store) =
     [(''b'', store_alert ''b'' ''warning'' 7), (''c'', store_alert ''c'' ''info'' 8)] \<and>
   al_timestamp (store_alert ''a'' ''critical'' 5) \<le> al_timestamp (store_alert ''b'' ''warning'' 7)"
proof -
  let ?s = "store_Store 9 (store_alert ''c'' ''info'' 8) example_store"
  have e: "ms_alerts ?s = [(''b'', store_alert ''b'' ''warning'' 7), (''c'', store_alert ''c'' ''info'' 8)]" by code_simp
  have n: "name_alert 9 (store_alert ''c'' ''info'' 8) example_store = (store_alert ''c'' ''info'' 8, example_store)"
    by (simp add: name_alert_def store_alert_def time_is_zero_def)
  have "\<forall>x\<in>set (ms_alerts ?s). \<forall>y\<in>set (AList.update ''c'' (store_alert ''c'' ''info'' 8) (ms_alerts example_store)) - set (ms_alerts ?s).
      al_timestamp (snd y) \<le> al_timestamp (snd x)"
    using Store_keeps_newest [OF example_store_ok _ _ n, of 2] by (simp add: example_store_eq(2) store_alert_def)
  then show ?thesis unfolding e example_store_eq by (simp add: store_alert_def)
qed

end
