(* ===== verification/Go_Strings.thy ===== *)
theory Go_Strings
  imports Dns_Analysis
begin

text \<open>
  What the components use of Go's \<open>strings\<close> and \<open>strconv\<close> packages beyond the prelude: white space
  and fields of a string, decimal numbers of a bounded size, splitting into a bounded number of parts.
\<close>

section \<open>White space and fields\<close>

text \<open>The runes of a string, each with the bytes it was decoded from.\<close>

function rune_chunks :: "string \<Rightarrow> (nat \<times> string) list" where
  "rune_chunks [] = []"
| "rune_chunks (c # cs) =
     (case rune_at (of_char c) (map of_char cs) of (r, w) \<Rightarrow> (r, c # take w cs) # rune_chunks (drop w cs))"
  by pat_completeness auto
termination by (relation "measure length") auto

text \<open>The runes with the property \<open>White_Space\<close>.\<close>

definition unicode_IsSpace :: "nat \<Rightarrow> bool" where
  "unicode_IsSpace r \<longleftrightarrow> 9 \<le> r \<and> r \<le> 13 \<or> r = 32 \<or> r = 0x85 \<or> r = 0xA0 \<or> r = 0x1680 \<or> 0x2000 \<le> r \<and> r \<le> 0x200a \<or>
     r \<in> {0x2028, 0x2029, 0x202f, 0x205f, 0x3000}"

fun fields_from :: "string \<Rightarrow> (nat \<times> string) list \<Rightarrow> string list" where
  "fields_from acc [] = (if acc = [] then [] else [acc])"
| "fields_from acc ((r, bytes) # cs) =
     (if unicode_IsSpace r then (if acc = [] then fields_from [] cs else acc # fields_from [] cs)
      else fields_from (acc @ bytes) cs)"

definition strings_Fields :: "string \<Rightarrow> string list" where
  "strings_Fields s = fields_from [] (rune_chunks s)"

definition strings_TrimSpace :: "string \<Rightarrow> string" where
  "strings_TrimSpace s =
     concat (map snd (rev (dropWhile (\<lambda>(r, _). unicode_IsSpace r) (rev (dropWhile (\<lambda>(r, _). unicode_IsSpace r) (rune_chunks s))))))"

lemma concat_rune_chunks: "concat (map snd (rune_chunks s)) = s"
  by (induction s rule: rune_chunks.induct) (auto split: prod.split)

lemma fields_not_empty: "\<forall>(r, b)\<in>set cs. b \<noteq> [] \<Longrightarrow> [] \<notin> set (fields_from acc cs)"
  by (induction acc cs rule: fields_from.induct) auto

lemma rune_chunks_not_empty: "(r, b) \<in> set (rune_chunks s) \<Longrightarrow> b \<noteq> []"
  by (induction s rule: rune_chunks.induct) (auto split: prod.splits)

lemma strings_Fields_not_empty: "[] \<notin> set (strings_Fields s)"
  unfolding strings_Fields_def by (rule fields_not_empty) (auto dest: rune_chunks_not_empty)

section \<open>Numbers and parts\<close>

text \<open>\<open>strconv.ParseUint(s, 10, bits)\<close>; \<open>None\<close> is an error.\<close>

definition ParseUint :: "nat \<Rightarrow> string \<Rightarrow> nat option" where
  "ParseUint bits s =
     (if s \<noteq> [] \<and> list_all is_digit s \<and> text_val 10 0 s < 2 ^ bits then Some (text_val 10 0 s) else None)"

lemma ParseUint_dec_nat: "n < 2 ^ bits \<Longrightarrow> ParseUint bits (dec_nat n) = Some n"
  using nat_text_digits [of 10 n] text_val_nat_text [of 10 n] by (simp add: ParseUint_def dec_nat_def)

text \<open>\<open>strings.SplitN\<close> on a one-byte separator for a positive count.\<close>

fun split_n :: "nat \<Rightarrow> char \<Rightarrow> string \<Rightarrow> string list" where
  "split_n 0 c s = []"
| "split_n (Suc 0) c s = [s]"
| "split_n (Suc (Suc n)) c s =
     (if c \<in> set s then takeWhile (\<lambda>d. d \<noteq> c) s # split_n (Suc n) c (tl (dropWhile (\<lambda>d. d \<noteq> c) s)) else [s])"

end
