(* ===== verification/Lineage_Tracker.thy ===== *)
theory Lineage_Tracker
  imports Event_Types Go_Strings
begin

text \<open>
  Process lineage (\<open>profiler/lineage.go\<close>): for every process its parent and the chain of its ancestors,
  kept in sixteen shards chosen by the low bits of the process ID.  The file system is an argument, the
  text of \<open>/proc/<pid>/status\<close> of every process (\<open>None\<close> when it cannot be read), and so is the clock,
  read once per call.  The pool of \<open>parentInfo\<close> structures only saves allocations and the log lines have
  no effect on the state: neither is modelled.
\<close>

section \<open>Data\<close>

record LineageCondition =
  lc_Field :: string
  lc_Op :: string
  lc_Values :: "string list"

record LineagePattern =
  lp_Name :: string
  lp_Description :: string
  lp_ParentComms :: "string list"
  lp_ChildComms :: "string list"
  lp_Severity :: string
  lp_Condition :: "LineageCondition option"

record LineageConfig =
  lg_Enabled :: bool
  lg_TTL :: duration
  lg_Patterns :: "LineagePattern list"
  lg_MaxDepth :: int

definition minute :: duration where
  "minute = 60000000000"

definition DefaultLineageConfig :: LineageConfig where
  "DefaultLineageConfig =
    \<lparr>lg_Enabled = True, lg_TTL = 5 * minute,
     lg_Patterns =
      [\<lparr>lp_Name = ''web_shell_spawn'', lp_Description = ''Web server spawning shell - potential RCE or webshell'',
        lp_ParentComms = [''nginx'', ''apache2'', ''httpd'', ''node'', ''nodejs'', ''python'', ''python3'', ''gunicorn'', ''uwsgi''],
        lp_ChildComms = [''sh'', ''bash'', ''dash'', ''zsh'', ''fish''], lp_Severity = ''critical'', lp_Condition = None\<rparr>,
       \<lparr>lp_Name = ''shell_network_tool'',
        lp_Description = ''Shell spawning network tool - potential data exfil or lateral movement'',
        lp_ParentComms = [''sh'', ''bash'', ''dash'', ''zsh'', ''fish''],
        lp_ChildComms = [''curl'', ''wget'', ''nc'', ''netcat'', ''ncat'', ''python'', ''python3'', ''ruby'', ''perl''],
        lp_Severity = ''critical'', lp_Condition = None\<rparr>,
       \<lparr>lp_Name = ''shell_recon_tool'', lp_Description = ''Shell spawning reconnaissance tool'',
        lp_ParentComms = [''sh'', ''bash'', ''dash'', ''zsh'', ''fish''],
        lp_ChildComms = [''nmap'', ''masscan'', ''zmap'', ''dig'', ''nslookup''],
        lp_Severity = ''warning'', lp_Condition = None\<rparr>],
     lg_MaxDepth = 8\<rparr>"

record parentInfo =
  pi_PPID :: u32
  pi_ParentComm :: string
  pi_Timestamp :: time

record procEntry =
  pr_comm :: string
  pr_ppid :: u32
  pr_timestamp :: time

record LineageMatch =
  lm_Pattern :: LineagePattern
  lm_PID :: u32
  lm_Comm :: string
  lm_PPID :: u32
  lm_ParentComm :: string
  lm_Timestamp :: time

record lineageShard =
  ls_lineage :: "(u32 \<times> parentInfo) list"
  ls_ancestry :: "(u32 \<times> process_node list) list"
  ls_procCache :: "(u32 \<times> procEntry) list"

record LineageTracker =
  lt_config :: LineageConfig
  lt_shards :: "lineageShard list"
  lt_maxDepth :: int

definition lineageShardCount :: nat where
  "lineageShardCount = 16"

definition lineageShardMask :: u32 where
  "lineageShardMask = word_of_nat lineageShardCount - 1"

definition shard_no :: "u32 \<Rightarrow> nat" where
  "shard_no pid = unat (and pid lineageShardMask)"

definition shardFor :: "LineageTracker \<Rightarrow> u32 \<Rightarrow> lineageShard" where
  "shardFor lt pid = lt_shards lt ! shard_no pid"

definition on_shard :: "u32 \<Rightarrow> (lineageShard \<Rightarrow> lineageShard) \<Rightarrow> LineageTracker \<Rightarrow> LineageTracker" where
  "on_shard pid f lt = lt\<lparr>lt_shards := (lt_shards lt)[shard_no pid := f (shardFor lt pid)]\<rparr>"

definition NewLineageTracker :: "LineageConfig \<Rightarrow> LineageTracker" where
  "NewLineageTracker config =
     \<lparr>lt_config = (if lg_TTL config \<le> 0 then config\<lparr>lg_TTL := 5 * minute\<rparr> else config),
      lt_shards = replicate lineageShardCount \<lparr>ls_lineage = [], ls_ancestry = [], ls_procCache = []\<rparr>,
      lt_maxDepth = (if lg_MaxDepth config \<le> 0 then 16 else lg_MaxDepth config)\<rparr>"

section \<open>Reading /proc\<close>

definition cleanComm :: "byte list \<Rightarrow> string" where
  "cleanComm comm = string_of_bytes (takeWhile (\<lambda>b. b \<noteq> 0) comm)"

definition second_field :: "string \<Rightarrow> string option" where
  "second_field line = (case strings_Fields line of _ # f # _ \<Rightarrow> Some f | _ \<Rightarrow> None)"

fun status_lines :: "string \<times> u32 \<Rightarrow> string list \<Rightarrow> string \<times> u32" where
  "status_lines (comm, ppid) [] = (comm, ppid)"
| "status_lines (comm, ppid) (line # lines) =
     (let comm' = (if prefix ''Name:'' line then (case second_field line of Some f \<Rightarrow> f | None \<Rightarrow> comm) else comm);
          ppid' = (if \<not> prefix ''Name:'' line \<and> prefix ''PPid:'' line
            then (case second_field line of
                Some f \<Rightarrow> (case ParseUint 32 f of Some v \<Rightarrow> word_of_nat v | None \<Rightarrow> ppid) | None \<Rightarrow> ppid)
            else ppid)
      in if comm' \<noteq> [] \<and> ppid' > 0 then (comm', ppid') else status_lines (comm', ppid') lines)"

definition readProcStatus :: "(u32 \<Rightarrow> string option) \<Rightarrow> u32 \<Rightarrow> string \<times> u32" where
  "readProcStatus proc pid =
     (case proc pid of None \<Rightarrow> ([], 0) | Some data \<Rightarrow> status_lines ([], 0) (split_on (CHR 0x0A) data))"

definition cache_proc :: "time \<Rightarrow> u32 \<Rightarrow> string \<Rightarrow> u32 \<Rightarrow> lineageShard \<Rightarrow> lineageShard" where
  "cache_proc now pid comm ppid s =
     (if map_of (ls_procCache s) pid \<noteq> None \<or> comm \<noteq> [] \<or> ppid > 0
      then s\<lparr>ls_procCache := AList.update pid \<lparr>pr_comm = comm, pr_ppid = ppid, pr_timestamp = now\<rparr> (ls_procCache s)\<rparr>
      else s)"

definition put_proc :: "time \<Rightarrow> u32 \<Rightarrow> string \<Rightarrow> u32 \<Rightarrow> lineageShard \<Rightarrow> lineageShard" where
  "put_proc now pid comm ppid s =
     (if comm \<noteq> [] \<or> ppid > 0
      then s\<lparr>ls_procCache := AList.update pid \<lparr>pr_comm = comm, pr_ppid = ppid, pr_timestamp = now\<rparr> (ls_procCache s)\<rparr>
      else s)"

definition read_parent :: "(u32 \<Rightarrow> string option) \<Rightarrow> time \<Rightarrow> u32 \<Rightarrow> LineageTracker \<Rightarrow> (u32 \<times> string) \<times> LineageTracker" where
  "read_parent proc now ppid lt =
     (case readProcStatus proc ppid of (comm, grand) \<Rightarrow> ((ppid, comm), on_shard ppid (put_proc now ppid comm grand) lt))"

definition getParentInfo :: "(u32 \<Rightarrow> string option) \<Rightarrow> time \<Rightarrow> event \<Rightarrow> LineageTracker \<Rightarrow> (u32 \<times> string) \<times> LineageTracker" where
  "getParentInfo proc now e lt =
     (let ppid = ev_ppid e; ps = shardFor lt ppid
      in if ppid > 0 then
           (if cleanComm (ev_parent_comm e) \<noteq> [] then ((ppid, cleanComm (ev_parent_comm e)), lt)
            else case map_of (ls_lineage ps) ppid of
              Some info \<Rightarrow> ((ppid, pi_ParentComm info), lt)
            | None \<Rightarrow> (case map_of (ls_procCache ps) ppid of
                Some entry \<Rightarrow> if pr_comm entry \<noteq> [] then ((ppid, pr_comm entry), lt) else read_parent proc now ppid lt
              | None \<Rightarrow> read_parent proc now ppid lt))
         else ((0, []), lt))"

text \<open>One ancestor: from the cache when it is complete there, from \<open>/proc\<close> otherwise.\<close>

definition proc_of :: "(u32 \<Rightarrow> string option) \<Rightarrow> time \<Rightarrow> u32 \<Rightarrow> LineageTracker \<Rightarrow> (string \<times> u32) \<times> LineageTracker" where
  "proc_of proc now cur lt =
     (case map_of (ls_procCache (shardFor lt cur)) cur of
        Some entry \<Rightarrow>
          if pr_comm entry \<noteq> [] \<and> pr_ppid entry > 0 then ((pr_comm entry, pr_ppid entry), lt)
          else (case readProcStatus proc cur of (comm, ppid) \<Rightarrow> ((comm, ppid), on_shard cur (put_proc now cur comm ppid) lt))
      | None \<Rightarrow> (case readProcStatus proc cur of (comm, ppid) \<Rightarrow> ((comm, ppid), on_shard cur (put_proc now cur comm ppid) lt)))"

fun chain_loop :: "(u32 \<Rightarrow> string option) \<Rightarrow> time \<Rightarrow> nat \<Rightarrow> u32 \<Rightarrow> process_node list \<Rightarrow> LineageTracker \<Rightarrow>
    process_node list \<times> LineageTracker" where
  "chain_loop proc now 0 cur chain lt = (chain, lt)"
| "chain_loop proc now (Suc n) cur chain lt =
     (if \<not> cur > 1 then (chain, lt)
      else case proc_of proc now cur lt of ((comm, ppid), lt) \<Rightarrow>
        (let chain = \<lparr>pn_pid = cur, pn_ppid = ppid, pn_comm = comm\<rparr> # chain
         in if ppid = 0 \<or> ppid = cur then (chain, lt) else chain_loop proc now n ppid chain lt))"

definition buildChainFromProc :: "(u32 \<Rightarrow> string option) \<Rightarrow> time \<Rightarrow> u32 \<Rightarrow> int \<Rightarrow> LineageTracker \<Rightarrow>
    process_node list \<times> LineageTracker" where
  "buildChainFromProc proc now pid maxDepth lt = (if maxDepth \<le> 0 then ([], lt) else chain_loop proc now (nat maxDepth) pid [] lt)"

section \<open>Recording a process\<close>

definition ancestry_of :: "LineageTracker \<Rightarrow> u32 \<Rightarrow> process_node list" where
  "ancestry_of lt pid = (case map_of (ls_ancestry (shardFor lt pid)) pid of Some chain \<Rightarrow> chain | None \<Rightarrow> [])"

definition set_ancestry :: "u32 \<Rightarrow> process_node list \<Rightarrow> LineageTracker \<Rightarrow> LineageTracker" where
  "set_ancestry pid chain = on_shard pid (\<lambda>s. s\<lparr>ls_ancestry := AList.update pid chain (ls_ancestry s)\<rparr>)"

text \<open>The chain of the parent, built from \<open>/proc\<close> and kept when no event of the parent was seen.\<close>

definition parent_chain :: "(u32 \<Rightarrow> string option) \<Rightarrow> time \<Rightarrow> u32 \<Rightarrow> LineageTracker \<Rightarrow> process_node list \<times> LineageTracker" where
  "parent_chain proc now ppid lt =
     (if ancestry_of lt ppid \<noteq> [] then (ancestry_of lt ppid, lt)
      else case buildChainFromProc proc now ppid (lt_maxDepth lt - 1) lt of (chain, lt) \<Rightarrow>
        (if chain \<noteq> [] then (chain, set_ancestry ppid chain lt) else (chain, lt)))"

definition name_parent :: "u32 \<Rightarrow> string \<Rightarrow> process_node list \<Rightarrow> process_node list" where
  "name_parent ppid parentComm chain =
     (if chain \<noteq> [] \<and> pn_pid (last chain) = ppid \<and> pn_comm (last chain) = []
      then butlast chain @ [(last chain)\<lparr>pn_comm := parentComm\<rparr>] else chain)"

definition buildAncestry :: "(u32 \<Rightarrow> string option) \<Rightarrow> time \<Rightarrow> u32 \<Rightarrow> u32 \<Rightarrow> string \<Rightarrow> string \<Rightarrow> LineageTracker \<Rightarrow> LineageTracker" where
  "buildAncestry proc now pid ppid parentComm comm lt =
     (case parent_chain proc now ppid lt of (parentChain, lt) \<Rightarrow>
        (let newChain = name_parent ppid parentComm parentChain @ [\<lparr>pn_pid = pid, pn_ppid = ppid, pn_comm = comm\<rparr>]
         in set_ancestry pid
              (if int (length newChain) > lt_maxDepth lt then last_n (nat (lt_maxDepth lt)) newChain else newChain) lt))"

definition unchanged :: "LineageTracker \<Rightarrow> u32 \<Rightarrow> u32 \<Rightarrow> string \<Rightarrow> string \<Rightarrow> bool" where
  "unchanged lt pid ppid parentComm comm \<longleftrightarrow>
     (case map_of (ls_lineage (shardFor lt pid)) pid of
        Some info \<Rightarrow> pi_PPID info = ppid \<and> pi_ParentComm info = parentComm \<and> ancestry_of lt pid \<noteq> [] \<and>
          (let l = last (ancestry_of lt pid) in pn_pid l = pid \<and> pn_ppid l = ppid \<and> pn_comm l = comm)
      | None \<Rightarrow> False)"

definition set_lineage :: "time \<Rightarrow> u32 \<Rightarrow> u32 \<Rightarrow> string \<Rightarrow> string \<Rightarrow> LineageTracker \<Rightarrow> LineageTracker" where
  "set_lineage now pid ppid parentComm comm = on_shard pid (\<lambda>s. cache_proc now pid comm ppid
     (s\<lparr>ls_lineage := AList.update pid \<lparr>pi_PPID = ppid, pi_ParentComm = parentComm, pi_Timestamp = now\<rparr> (ls_lineage s)\<rparr>))"

definition lineage_store :: "(u32 \<Rightarrow> string option) \<Rightarrow> time \<Rightarrow> u32 \<Rightarrow> u32 \<Rightarrow> string \<Rightarrow> string \<Rightarrow> LineageTracker \<Rightarrow> LineageTracker" where
  "lineage_store proc now pid ppid parentComm comm lt =
     (if unchanged lt pid ppid parentComm comm then set_lineage now pid ppid parentComm comm lt
      else buildAncestry proc now pid ppid parentComm comm (set_lineage now pid ppid parentComm comm lt))"

definition Track :: "(u32 \<Rightarrow> string option) \<Rightarrow> time \<Rightarrow> event \<Rightarrow> LineageTracker \<Rightarrow> LineageTracker" where
  "Track proc now e lt =
     (if \<not> lg_Enabled (lt_config lt) then lt
      else case getParentInfo proc now e lt of ((ppid, parentComm), lt) \<Rightarrow>
        (if ppid = 0 then lt else lineage_store proc now (ev_pid e) ppid parentComm (cleanComm (ev_comm e)) lt))"

definition GetProcessTree :: "LineageTracker \<Rightarrow> u32 \<Rightarrow> process_node list" where
  "GetProcessTree lt pid = ancestry_of lt pid"

section \<open>Suspicious patterns\<close>

definition matches_one :: "string \<Rightarrow> string \<Rightarrow> bool" where
  "matches_one s p \<longleftrightarrow> s = p \<or> prefix p s \<and> length p < length s \<and>
     (s ! length p = CHR ''-'' \<or> is_digit (s ! length p))"

definition matchesAny :: "string \<Rightarrow> string list \<Rightarrow> bool" where
  "matchesAny s patterns \<longleftrightarrow> list_ex (matches_one s) patterns"

definition cond_value :: "event \<Rightarrow> string \<Rightarrow> string \<Rightarrow> string option" where
  "cond_value e parentComm field =
     (if field = ''comm'' then Some (cleanComm (ev_comm e))
      else if field = ''parent_comm'' then Some parentComm
      else if field = ''uid'' then Some (dec_nat (unat (ev_uid e)))
      else if field = ''pid'' then Some (dec_nat (unat (ev_pid e)))
      else if field = ''ppid'' then Some (dec_nat (unat (ev_ppid e)))
      else None)"

definition evaluateLineageCondition :: "dns_env \<Rightarrow> event \<Rightarrow> string \<Rightarrow> LineageCondition option \<Rightarrow> bool" where
  "evaluateLineageCondition env e parentComm cond =
     (case cond of None \<Rightarrow> True
      | Some c \<Rightarrow> (case cond_value e parentComm (lc_Field c) of None \<Rightarrow> False
          | Some v \<Rightarrow> (let op = strings_ToLower env (lc_Op c); vs = lc_Values c
              in if op = ''in'' then v \<in> set vs
                 else if op = ''not_in'' then v \<notin> set vs
                 else if op = ''eq'' \<or> op = ''equals'' then vs \<noteq> [] \<and> v = hd vs
                 else if op = ''neq'' \<or> op = ''not_equals'' then vs = [] \<or> v \<noteq> hd vs
                 else False)))"

definition checkPattern :: "dns_env \<Rightarrow> LineageTracker \<Rightarrow> event \<Rightarrow> string \<Rightarrow> string \<Rightarrow> LineagePattern option" where
  "checkPattern env lt e parentComm childComm =
     find (\<lambda>p. matchesAny parentComm (lp_ParentComms p) \<and> matchesAny childComm (lp_ChildComms p) \<and>
       evaluateLineageCondition env e parentComm (lp_Condition p)) (lg_Patterns (lt_config lt))"

definition lineage_Update :: "dns_env \<Rightarrow> (u32 \<Rightarrow> string option) \<Rightarrow> time \<Rightarrow> event \<Rightarrow> LineageTracker \<Rightarrow> LineageMatch option \<times> LineageTracker" where
  "lineage_Update env proc now e lt =
     (if \<not> lg_Enabled (lt_config lt) then (None, lt)
      else case getParentInfo proc now e lt of ((ppid, parentComm), lt) \<Rightarrow>
        (if ppid = 0 then (None, lt)
         else let comm = cleanComm (ev_comm e);
                  lt = lineage_store proc now (ev_pid e) ppid parentComm comm lt
           in (case checkPattern env lt e parentComm comm of None \<Rightarrow> None
               | Some p \<Rightarrow> Some \<lparr>lm_Pattern = p, lm_PID = ev_pid e, lm_Comm = comm, lm_PPID = ppid,
                   lm_ParentComm = parentComm, lm_Timestamp = now\<rparr>, lt)))"

section \<open>Cleaning up\<close>

definition clean_shard :: "duration \<Rightarrow> time \<Rightarrow> lineageShard \<Rightarrow> lineageShard" where
  "clean_shard ttl now s =
     (let stale = map fst (filter (\<lambda>(pid, info). time_sub now (pi_Timestamp info) > ttl) (ls_lineage s))
      in s\<lparr>ls_lineage := fold AList.delete stale (ls_lineage s), ls_ancestry := fold AList.delete stale (ls_ancestry s),
           ls_procCache := filter (\<lambda>(pid, entry). \<not> pr_timestamp entry < now - ttl) (ls_procCache s)\<rparr>)"

definition lineage_Cleanup :: "time \<Rightarrow> LineageTracker \<Rightarrow> LineageTracker" where
  "lineage_Cleanup now lt = lt\<lparr>lt_shards := map (clean_shard (lg_TTL (lt_config lt)) now) (lt_shards lt)\<rparr>"

definition GetLineage :: "LineageTracker \<Rightarrow> u32 \<Rightarrow> parentInfo option" where
  "GetLineage lt pid = map_of (ls_lineage (shardFor lt pid)) pid"

definition lineage_Size :: "LineageTracker \<Rightarrow> nat" where
  "lineage_Size lt = sum_list (map (\<lambda>s. length (ls_lineage s)) (lt_shards lt))"

section \<open>Shards\<close>

lemma shard_no_less [simp]: "shard_no pid < 16"
proof -
  have "and pid (15 :: u32) \<le> 15" by (rule word_and_le1)
  then show ?thesis by (simp add: shard_no_def lineageShardMask_def lineageShardCount_def word_le_nat_alt)
qed

definition shards_ok :: "LineageTracker \<Rightarrow> bool" where
  "shards_ok lt \<longleftrightarrow> length (lt_shards lt) = 16 \<and> (\<forall>s\<in>set (lt_shards lt). distinct_keys (ls_lineage s))"

lemma shardFor_on_shard:
  "shards_ok lt \<Longrightarrow> shardFor (on_shard p f lt) q = (if shard_no p = shard_no q then f (shardFor lt q) else shardFor lt q)"
  by (simp add: shardFor_def on_shard_def shards_ok_def)

lemma on_shard_fields [simp]:
  "lt_config (on_shard p f lt) = lt_config lt" "lt_maxDepth (on_shard p f lt) = lt_maxDepth lt"
  "length (lt_shards (on_shard p f lt)) = length (lt_shards lt)"
  by (simp_all add: on_shard_def)

lemma shardFor_in: "shards_ok lt \<Longrightarrow> shardFor lt p \<in> set (lt_shards lt)"
  by (simp add: shardFor_def shards_ok_def)

lemma shards_ok_on_shard:
  "shards_ok lt \<Longrightarrow> (\<And>s. distinct_keys (ls_lineage s) \<Longrightarrow> distinct_keys (ls_lineage (f s))) \<Longrightarrow> shards_ok (on_shard p f lt)"
  using shardFor_in [of lt p] set_update_subset_insert [of "lt_shards lt" "shard_no p" "f (shardFor lt p)"]
  by (auto simp: shards_ok_def on_shard_def)

text \<open>Two trackers that differ at most in their \<open>/proc\<close> caches.\<close>

definition same_trees :: "LineageTracker \<Rightarrow> LineageTracker \<Rightarrow> bool" where
  "same_trees lt lt' \<longleftrightarrow> shards_ok lt' \<and> lt_config lt' = lt_config lt \<and> lt_maxDepth lt' = lt_maxDepth lt \<and>
     (\<forall>pid. ancestry_of lt' pid = ancestry_of lt pid \<and> GetLineage lt' pid = GetLineage lt pid)"

lemma same_trees_refl: "shards_ok lt \<Longrightarrow> same_trees lt lt"
  and same_trees_trans: "same_trees a b \<Longrightarrow> same_trees b c \<Longrightarrow> same_trees a c"
  by (simp_all add: same_trees_def)

lemma put_proc_fields [simp]:
  "ls_lineage (put_proc now pid comm ppid s) = ls_lineage s" "ls_ancestry (put_proc now pid comm ppid s) = ls_ancestry s"
  "ls_lineage (cache_proc now pid comm ppid s) = ls_lineage s" "ls_ancestry (cache_proc now pid comm ppid s) = ls_ancestry s"
  by (simp_all add: put_proc_def cache_proc_def)

lemma same_trees_put_proc: "shards_ok lt \<Longrightarrow> same_trees lt (on_shard p (put_proc now q comm ppid) lt)"
  by (simp add: same_trees_def shards_ok_on_shard ancestry_of_def GetLineage_def shardFor_on_shard)

lemma proc_of_same: "shards_ok lt \<Longrightarrow> same_trees lt (snd (proc_of proc now cur lt))"
  by (auto simp: proc_of_def same_trees_refl same_trees_put_proc split: option.split prod.split)

lemma getParentInfo_same: "shards_ok lt \<Longrightarrow> same_trees lt (snd (getParentInfo proc now e lt))"
  by (auto simp: getParentInfo_def read_parent_def Let_def same_trees_refl same_trees_put_proc split: option.split prod.split)

lemma getParentInfo_ppid: "fst (fst (getParentInfo proc now e lt)) = ev_ppid e"
  by (auto simp: getParentInfo_def read_parent_def Let_def word_gt_0 split: option.split prod.split)

section \<open>Chains of ancestors\<close>

definition linked :: "process_node list \<Rightarrow> bool" where
  "linked chain \<longleftrightarrow> successively (\<lambda>a b. pn_ppid b = pn_pid a) chain"

lemma linked_simps [simp]:
  "linked []" "linked [a]" "linked (a # b # c) \<longleftrightarrow> pn_ppid b = pn_pid a \<and> linked (b # c)"
  by (simp_all add: linked_def)

lemma linked_Cons: "linked (a # c) \<longleftrightarrow> (c \<noteq> [] \<longrightarrow> pn_ppid (hd c) = pn_pid a) \<and> linked c"
  by (cases c) auto

lemma linked_append: "linked (xs @ ys) \<longleftrightarrow> linked xs \<and> linked ys \<and> (xs \<noteq> [] \<and> ys \<noteq> [] \<longrightarrow> pn_ppid (hd ys) = pn_pid (last xs))"
  by (auto simp: linked_def successively_append_iff)

lemma linked_last_n: "linked xs \<Longrightarrow> linked (last_n n xs)"
  unfolding last_n_def by (metis append_take_drop_id linked_append)

definition chain_ok :: "int \<Rightarrow> u32 \<Rightarrow> process_node list \<Rightarrow> bool" where
  "chain_ok depth pid chain \<longleftrightarrow> chain \<noteq> [] \<and> int (length chain) \<le> depth \<and> pn_pid (last chain) = pid \<and> linked chain"

lemma chain_loop_ok:
  assumes "shards_ok lt" "linked chain" "chain \<noteq> [] \<Longrightarrow> pn_ppid (hd chain) = cur"
    "chain_loop proc now n cur chain lt = (chain', lt')"
  shows "same_trees lt lt' \<and> linked chain' \<and> length chain' \<le> n + length chain \<and>
    (if chain = [] then chain' = [] \<or> pn_pid (last chain') = cur else chain' \<noteq> [] \<and> last chain' = last chain)"
  using assms
proof (induction n arbitrary: cur chain lt)
  case (Suc n)
  show ?case
  proof (cases "cur > 1")
    case True
    obtain comm ppid lt1 where p: "proc_of proc now cur lt = ((comm, ppid), lt1)" by (metis surj_pair)
    have same: "same_trees lt lt1" using proc_of_same [OF Suc.prems(1), of proc now cur] by (simp add: p)
    then have ok: "shards_ok lt1" by (simp add: same_trees_def)
    let ?c = "\<lparr>pn_pid = cur, pn_ppid = ppid, pn_comm = comm\<rparr> # chain"
    have l: "linked ?c" using Suc.prems(2,3) by (simp add: linked_Cons)
    show ?thesis
    proof (cases "ppid = 0 \<or> ppid = cur")
      case True
      then show ?thesis using Suc.prems(4) \<open>cur > 1\<close> same l by (auto simp: p Let_def)
    next
      case False
      then have "chain_loop proc now n ppid ?c lt1 = (chain', lt')" using Suc.prems(4) \<open>cur > 1\<close> by (simp add: p Let_def)
      from Suc.IH [OF ok l _ this] show ?thesis using same_trees_trans [OF same] by auto
    qed
  qed (use Suc.prems in \<open>auto simp: same_trees_refl\<close>)
qed (auto simp: same_trees_refl)

section \<open>Invariant\<close>

definition lineage_ok :: "LineageTracker \<Rightarrow> bool" where
  "lineage_ok lt \<longleftrightarrow> shards_ok lt \<and> lt_maxDepth lt \<ge> 1 \<and>
     (\<forall>pid. ancestry_of lt pid \<noteq> [] \<longrightarrow> chain_ok (lt_maxDepth lt) pid (ancestry_of lt pid))"

lemma lineage_ok_same: "lineage_ok lt \<Longrightarrow> same_trees lt lt' \<Longrightarrow> lineage_ok lt'"
  by (simp add: lineage_ok_def same_trees_def)

lemma set_ancestry_lookup:
  assumes "shards_ok lt"
  shows "ancestry_of (set_ancestry p c lt) q = (if q = p then c else ancestry_of lt q)"
    "GetLineage (set_ancestry p c lt) q = GetLineage lt q" "shards_ok (set_ancestry p c lt)"
    "lt_maxDepth (set_ancestry p c lt) = lt_maxDepth lt" "lt_config (set_ancestry p c lt) = lt_config lt"
  using assms by (auto simp: set_ancestry_def ancestry_of_def GetLineage_def shardFor_on_shard shards_ok_on_shard update_conv')

lemma set_lineage_lookup:
  assumes "shards_ok lt"
  shows "ancestry_of (set_lineage now p ppid parentComm comm lt) q = ancestry_of lt q"
    "GetLineage (set_lineage now p ppid parentComm comm lt) q =
      (if q = p then Some \<lparr>pi_PPID = ppid, pi_ParentComm = parentComm, pi_Timestamp = now\<rparr> else GetLineage lt q)"
    "shards_ok (set_lineage now p ppid parentComm comm lt)"
    "lt_maxDepth (set_lineage now p ppid parentComm comm lt) = lt_maxDepth lt"
    "lt_config (set_lineage now p ppid parentComm comm lt) = lt_config lt"
  using assms by (auto simp: set_lineage_def ancestry_of_def GetLineage_def shardFor_on_shard shards_ok_on_shard update_conv')

lemma lineage_ok_set_ancestry: "lineage_ok lt \<Longrightarrow> c = [] \<or> chain_ok (lt_maxDepth lt) p c \<Longrightarrow> lineage_ok (set_ancestry p c lt)"
  by (auto simp: lineage_ok_def set_ancestry_lookup)

lemma lineage_ok_set_lineage: "lineage_ok lt \<Longrightarrow> lineage_ok (set_lineage now p ppid parentComm comm lt)"
  by (auto simp: lineage_ok_def set_lineage_lookup)

lemma parent_chain_ok:
  assumes "lineage_ok lt" "parent_chain proc now ppid lt = (c, lt')"
  shows "lineage_ok lt' \<and> linked c \<and> (c = [] \<or> pn_pid (last c) = ppid) \<and> lt_maxDepth lt' = lt_maxDepth lt \<and>
    lt_config lt' = lt_config lt \<and> (\<forall>pid. GetLineage lt' pid = GetLineage lt pid)"
proof (cases "ancestry_of lt ppid \<noteq> []")
  case True
  then show ?thesis using assms by (auto simp: parent_chain_def lineage_ok_def chain_ok_def)
next
  case False
  obtain d lt1 where b: "buildChainFromProc proc now ppid (lt_maxDepth lt - 1) lt = (d, lt1)" by fastforce
  have ok: "shards_ok lt" "lt_maxDepth lt \<ge> 1" using assms(1) by (simp_all add: lineage_ok_def)
  have l: "same_trees lt lt1 \<and> linked d \<and> int (length d) \<le> lt_maxDepth lt - 1 \<and> (d = [] \<or> pn_pid (last d) = ppid)"
  proof (cases "lt_maxDepth lt - 1 \<le> 0")
    case True
    then show ?thesis using b ok by (auto simp: buildChainFromProc_def same_trees_refl)
  next
    case False
    then have "chain_loop proc now (nat (lt_maxDepth lt - 1)) ppid [] lt = (d, lt1)"
      using b by (simp add: buildChainFromProc_def)
    from chain_loop_ok [OF ok(1) _ _ this] False show ?thesis by auto
  qed
  then have ok1: "lineage_ok lt1" "shards_ok lt1" "lt_maxDepth lt1 = lt_maxDepth lt"
    using lineage_ok_same [OF assms(1)] by (auto simp: same_trees_def)
  have "lineage_ok (set_ancestry ppid d lt1)"
    using l ok1 by (auto intro!: lineage_ok_set_ancestry simp: chain_ok_def)
  then show ?thesis
    using assms(2) False l ok1 by (auto simp: parent_chain_def b set_ancestry_lookup same_trees_def split: if_splits)
qed

lemma name_parent_ok:
  "linked (name_parent ppid parentComm c) = linked c" "length (name_parent ppid parentComm c) = length c"
  "c \<noteq> [] \<Longrightarrow> pn_pid (last (name_parent ppid parentComm c)) = pn_pid (last c)" "name_parent ppid parentComm c = [] \<longleftrightarrow> c = []"
proof -
  have "linked (xs @ [x\<lparr>pn_comm := s\<rparr>]) = linked (xs @ [x])" for xs x s by (simp add: linked_append)
  then show "linked (name_parent ppid parentComm c) = linked c"
    by (cases c rule: rev_cases) (auto simp: name_parent_def)
qed (auto simp: name_parent_def)

lemma last_last_n: "xs \<noteq> [] \<Longrightarrow> 0 < n \<Longrightarrow> last (last_n n xs) = last xs" "xs \<noteq> [] \<Longrightarrow> 0 < n \<Longrightarrow> last_n n xs \<noteq> []"
  by (cases xs; simp add: last_n_def)+

lemma buildAncestry_ok:
  assumes "lineage_ok lt" "lt' = buildAncestry proc now pid ppid parentComm comm lt"
  shows "lineage_ok lt' \<and> ancestry_of lt' pid \<noteq> [] \<and> last (ancestry_of lt' pid) = \<lparr>pn_pid = pid, pn_ppid = ppid, pn_comm = comm\<rparr> \<and>
    lt_config lt' = lt_config lt \<and> (\<forall>q. GetLineage lt' q = GetLineage lt q)"
proof -
  obtain c lt1 where p: "parent_chain proc now ppid lt = (c, lt1)" by fastforce
  note k = parent_chain_ok [OF assms(1) p]
  define node where "node = \<lparr>pn_pid = pid, pn_ppid = ppid, pn_comm = comm\<rparr>"
  define full where "full = name_parent ppid parentComm c @ [node]"
  define new where "new = (if int (length full) > lt_maxDepth lt then last_n (nat (lt_maxDepth lt)) full else full)"
  have lt': "lt' = set_ancestry pid new lt1"
    using k by (simp add: assms(2) buildAncestry_def p full_def new_def node_def Let_def)
  have d: "lt_maxDepth lt \<ge> 1" using assms(1) by (simp add: lineage_ok_def)
  have "linked full" using k by (auto simp: full_def node_def linked_append name_parent_ok)
  then have "linked new" "new \<noteq> []" "last new = node" "int (length new) \<le> lt_maxDepth lt"
    using d by (auto simp: new_def linked_last_n last_last_n full_def)
  then have "lineage_ok lt'" using k unfolding lt' by (intro lineage_ok_set_ancestry) (auto simp: chain_ok_def node_def)
  then show ?thesis
    using k \<open>new \<noteq> []\<close> \<open>last new = node\<close> unfolding lt' lineage_ok_def by (auto simp: set_ancestry_lookup node_def)
qed

lemma lineage_store_ok:
  assumes "lineage_ok lt" "lt' = lineage_store proc now pid ppid parentComm comm lt"
  shows "lineage_ok lt' \<and> ancestry_of lt' pid \<noteq> [] \<and> last (ancestry_of lt' pid) = \<lparr>pn_pid = pid, pn_ppid = ppid, pn_comm = comm\<rparr> \<and>
    lt_config lt' = lt_config lt \<and> (\<forall>q. GetLineage lt' q =
      (if q = pid then Some \<lparr>pi_PPID = ppid, pi_ParentComm = parentComm, pi_Timestamp = now\<rparr> else GetLineage lt q))"
proof -
  let ?s = "set_lineage now pid ppid parentComm comm lt"
  have ok: "lineage_ok ?s" "shards_ok lt" using assms(1) lineage_ok_set_lineage by (auto simp: lineage_ok_def)
  show ?thesis
  proof (cases "unchanged lt pid ppid parentComm comm")
    case True
    then have "ancestry_of lt pid \<noteq> [] \<and> last (ancestry_of lt pid) = \<lparr>pn_pid = pid, pn_ppid = ppid, pn_comm = comm\<rparr>"
      by (auto simp: unchanged_def Let_def split: option.splits intro!: process_node.equality)
    then show ?thesis using ok True by (simp add: assms(2) lineage_store_def set_lineage_lookup)
  next
    case False
    then have "lt' = buildAncestry proc now pid ppid parentComm comm ?s" by (simp add: assms(2) lineage_store_def)
    from buildAncestry_ok [OF ok(1) this] show ?thesis by (simp add: set_lineage_lookup ok(2))
  qed
qed

lemma Track_ok:
  assumes "lineage_ok lt"
  shows "lineage_ok (Track proc now e lt)" "lineage_ok (snd (lineage_Update env proc now e lt))"
    "snd (lineage_Update env proc now e lt) = Track proc now e lt"
proof -
  have "lineage_ok (snd (getParentInfo proc now e lt))"
    using lineage_ok_same [OF assms getParentInfo_same] assms by (simp add: lineage_ok_def)
  then show t: "lineage_ok (Track proc now e lt)"
    using assms lineage_store_ok [OF _ refl] by (auto simp: Track_def split: prod.splits)
  show u: "snd (lineage_Update env proc now e lt) = Track proc now e lt"
    by (auto simp: lineage_Update_def Track_def Let_def split: prod.splits)
  show "lineage_ok (snd (lineage_Update env proc now e lt))" unfolding u by (rule t)
qed

lemma stale_keys:
  assumes "distinct_keys al"
  shows "k \<in> set (map fst (filter (\<lambda>(k, v). P v) al)) \<longleftrightarrow> (\<exists>v. map_of al k = Some v \<and> P v)"
  using assms by (force simp: image_iff)

lemma Cleanup_lookup:
  fixes now :: time
  assumes "shards_ok lt"
  defines "stale \<equiv> \<lambda>pid. \<exists>info. GetLineage lt pid = Some info \<and> time_sub now (pi_Timestamp info) > lg_TTL (lt_config lt)"
  shows "GetLineage (lineage_Cleanup now lt) pid = (if stale pid then None else GetLineage lt pid)"
    "ancestry_of (lineage_Cleanup now lt) pid = (if stale pid then [] else ancestry_of lt pid)"
    "shards_ok (lineage_Cleanup now lt)"
proof -
  let ?s = "shardFor lt pid"
  have s: "shardFor (lineage_Cleanup now lt) pid = clean_shard (lg_TTL (lt_config lt)) now ?s"
    using assms(1) by (simp add: shardFor_def lineage_Cleanup_def shards_ok_def)
  have d: "distinct_keys (ls_lineage ?s)" using shardFor_in [OF assms(1)] assms(1) by (auto simp: shards_ok_def)
  let ?stale = "map fst (filter (\<lambda>(pid, info). time_sub now (pi_Timestamp info) > lg_TTL (lt_config lt)) (ls_lineage ?s))"
  have st: "pid \<in> set ?stale \<longleftrightarrow> stale pid" unfolding stale_keys [OF d] stale_def GetLineage_def ..
  show "GetLineage (lineage_Cleanup now lt) pid = (if stale pid then None else GetLineage lt pid)"
    "ancestry_of (lineage_Cleanup now lt) pid = (if stale pid then [] else ancestry_of lt pid)"
    using st by (auto simp: GetLineage_def ancestry_of_def s clean_shard_def Let_def map_of_fold_delete simp del: set_map split: option.splits)
  show "shards_ok (lineage_Cleanup now lt)"
    using assms(1) by (auto simp: shards_ok_def lineage_Cleanup_def clean_shard_def Let_def distinct_keys_fold_delete)
qed

lemma lineage_Cleanup_ok:
  assumes "lineage_ok lt"
  shows "lineage_ok (lineage_Cleanup now lt)"
proof -
  have ok: "shards_ok lt" "lt_maxDepth (lineage_Cleanup now lt) = lt_maxDepth lt"
    using assms by (simp_all add: lineage_ok_def lineage_Cleanup_def)
  have "ancestry_of (lineage_Cleanup now lt) pid \<in> {[], ancestry_of lt pid}" for pid
    unfolding Cleanup_lookup(2) [OF ok(1)] by simp
  then show ?thesis
    using assms Cleanup_lookup(3) [OF ok(1)] unfolding lineage_ok_def ok(2) by (metis empty_iff insert_iff)
qed

lemma NewLineageTracker_ok: "lineage_ok (NewLineageTracker config)"
  by (simp add: lineage_ok_def shards_ok_def NewLineageTracker_def ancestry_of_def shardFor_def lineageShardCount_def)

section \<open>What the tracker promises\<close>

inductive tracker_reach :: "LineageConfig \<Rightarrow> LineageTracker \<Rightarrow> bool" for config where
  new: "tracker_reach config (NewLineageTracker config)"
| track: "tracker_reach config lt \<Longrightarrow> tracker_reach config (Track proc now e lt)"
| update: "tracker_reach config lt \<Longrightarrow> tracker_reach config (snd (lineage_Update env proc now e lt))"
| cleanup: "tracker_reach config lt \<Longrightarrow> tracker_reach config (lineage_Cleanup now lt)"

lemma Track_config: "shards_ok lt \<Longrightarrow> lt_config (Track proc now e lt) = lt_config lt \<and> lt_maxDepth (Track proc now e lt) = lt_maxDepth lt"
proof -
  assume ok: "shards_ok lt"
  obtain p c lt1 where g: "getParentInfo proc now e lt = ((p, c), lt1)" by (metis surj_pair)
  have s: "same_trees lt lt1" using getParentInfo_same [OF ok, of proc now e] by (simp add: g)
  have "lt_config (buildAncestry proc now pid ppid parentComm comm l) = lt_config l \<and>
      lt_maxDepth (buildAncestry proc now pid ppid parentComm comm l) = lt_maxDepth l" if "shards_ok l" for pid ppid parentComm comm l
  proof -
    have "same_trees l (snd (chain_loop proc now n ppid [] l))" for n
      using chain_loop_ok [OF that _ _ surjective_pairing, of "[]"] by simp
    then show ?thesis
      using that by (auto simp: buildAncestry_def parent_chain_def buildChainFromProc_def Let_def set_ancestry_def same_trees_def split: prod.splits) (metis snd_conv)+
  qed
  then show ?thesis
    using s set_lineage_lookup(3-5) [of lt1] by (simp add: Track_def g lineage_store_def same_trees_def)
qed

lemma lineage_ok_shards: "lineage_ok lt \<Longrightarrow> shards_ok lt"
  by (simp add: lineage_ok_def)

lemma reach_ok: "tracker_reach config lt \<Longrightarrow> lineage_ok lt \<and> lt_maxDepth lt = (if lg_MaxDepth config \<le> 0 then 16 else lg_MaxDepth config)"
proof (induction rule: tracker_reach.induct)
  case (cleanup lt now)
  then show ?case using lineage_Cleanup_ok by (simp add: lineage_Cleanup_def)
next
  case (update lt env proc now e)
  then show ?case using Track_config [OF lineage_ok_shards, of lt] Track_ok(1,3) [of lt] by simp
next
  case (track lt proc now e)
  then show ?case using Track_config [OF lineage_ok_shards, of lt] Track_ok(1) [of lt] by simp
qed (simp add: NewLineageTracker_ok, simp add: NewLineageTracker_def)

text \<open>
  C34 (type).  Every process tree the tracker hands out is well formed: it ends in the process asked for,
  each process is the child of the one before it, and it is no longer than the configured depth.
\<close>

theorem process_trees_wellformed:
  assumes "tracker_reach config lt" "GetProcessTree lt pid = tree" "tree \<noteq> []"
  shows "pn_pid (last tree) = pid \<and> int (length tree) \<le> (if lg_MaxDepth config \<le> 0 then 16 else lg_MaxDepth config) \<and>
    (\<forall>i. Suc i < length tree \<longrightarrow> pn_ppid (tree ! Suc i) = pn_pid (tree ! i))"
  using reach_ok [OF assms(1)] assms(2,3)
  by (auto simp: lineage_ok_def GetProcessTree_def chain_ok_def linked_def successively_conv_nth)

definition lineage_event :: "u32 \<Rightarrow> u32 \<Rightarrow> string \<Rightarrow> string \<Rightarrow> event" where
  "lineage_event pid ppid comm parent =
     zero_event\<lparr>ev_pid := pid, ev_ppid := ppid, ev_comm := bytes_of_string comm, ev_parent_comm := bytes_of_string parent\<rparr>"

text \<open>A web server was seen, then a shell it started; nothing can be read from \<open>/proc\<close>.\<close>

definition seen_nginx :: LineageTracker where
  "seen_nginx = Track (\<lambda>_. None) 5 (lineage_event 10 1 ''nginx'' ''systemd'') (NewLineageTracker DefaultLineageConfig)"

definition example_tracker :: LineageTracker where
  "example_tracker = Track (\<lambda>_. None) 6 (lineage_event 11 10 ''bash'' ''nginx'') seen_nginx"

lemma example_tree:
  "GetProcessTree example_tracker 11 =
     [\<lparr>pn_pid = 10, pn_ppid = 1, pn_comm = ''nginx''\<rparr>, \<lparr>pn_pid = 11, pn_ppid = 10, pn_comm = ''bash''\<rparr>]"
  by code_simp

lemma example_reach: "tracker_reach DefaultLineageConfig seen_nginx" "tracker_reach DefaultLineageConfig example_tracker"
  unfolding example_tracker_def seen_nginx_def by (intro track new)+

theorem process_trees_wellformed_witness:
  "pn_pid (last (GetProcessTree example_tracker 11)) = 11 \<and> length (GetProcessTree example_tracker 11) = 2 \<and>
   pn_ppid (GetProcessTree example_tracker 11 ! 1) = pn_pid (GetProcessTree example_tracker 11 ! 0)"
  using process_trees_wellformed [OF example_reach(2) refl, of 11] by (simp add: example_tree)

lemma parent_chain_trees:
  assumes "shards_ok lt" "parent_chain proc now ppid lt = (c, lt')"
  shows "ancestry_of lt' ppid = c" "q \<noteq> ppid \<or> ancestry_of lt ppid \<noteq> [] \<Longrightarrow> ancestry_of lt' q = ancestry_of lt q" "shards_ok lt'"
proof -
  obtain d lt1 where b: "buildChainFromProc proc now ppid (lt_maxDepth lt - 1) lt = (d, lt1)" by fastforce
  have "same_trees lt lt1"
  proof (cases "lt_maxDepth lt - 1 \<le> 0")
    case True
    then show ?thesis using b assms(1) by (auto simp: buildChainFromProc_def same_trees_refl)
  next
    case False
    then have "chain_loop proc now (nat (lt_maxDepth lt - 1)) ppid [] lt = (d, lt1)" using b by (simp add: buildChainFromProc_def)
    from chain_loop_ok [OF assms(1) _ _ this] show ?thesis by auto
  qed
  then have s: "shards_ok lt1" "ancestry_of lt1 x = ancestry_of lt x" for x by (auto simp: same_trees_def)
  show "ancestry_of lt' ppid = c" "shards_ok lt'" "q \<noteq> ppid \<or> ancestry_of lt ppid \<noteq> [] \<Longrightarrow> ancestry_of lt' q = ancestry_of lt q"
    using assms s by (auto simp: parent_chain_def b set_ancestry_lookup split: if_splits)
qed

lemma buildAncestry_trees:
  assumes "shards_ok lt" "ppid \<noteq> pid" "lt_maxDepth lt \<ge> 1" "lt' = buildAncestry proc now pid ppid parentComm comm lt" "lineage_ok lt"
  shows "ancestry_of lt' pid = last_n (nat (lt_maxDepth lt)) (name_parent ppid parentComm (ancestry_of lt' ppid) @ [\<lparr>pn_pid = pid, pn_ppid = ppid, pn_comm = comm\<rparr>])"
    "q \<noteq> pid \<Longrightarrow> q \<noteq> ppid \<or> ancestry_of lt q \<noteq> [] \<Longrightarrow> ancestry_of lt' q = ancestry_of lt q"
proof -
  obtain c lt1 where p: "parent_chain proc now ppid lt = (c, lt1)" by fastforce
  note t = parent_chain_trees [OF assms(1) p]
  have m: "lt_maxDepth lt1 = lt_maxDepth lt" using parent_chain_ok [OF assms(5) p] by simp
  define full where "full = name_parent ppid parentComm c @ [\<lparr>pn_pid = pid, pn_ppid = ppid, pn_comm = comm\<rparr>]"
  have "last_n (nat (lt_maxDepth lt)) full = full" if "\<not> int (length full) > lt_maxDepth lt" using that by (simp add: last_n_def)
  then have lt': "lt' = set_ancestry pid (last_n (nat (lt_maxDepth lt)) full) lt1"
    unfolding assms(4) buildAncestry_def p prod.case Let_def m full_def [symmetric] by (cases "int (length full) > lt_maxDepth lt") simp_all
  show "ancestry_of lt' pid = last_n (nat (lt_maxDepth lt)) (name_parent ppid parentComm (ancestry_of lt' ppid) @ [\<lparr>pn_pid = pid, pn_ppid = ppid, pn_comm = comm\<rparr>])"
    using assms(2) by (simp add: lt' set_ancestry_lookup [OF t(3)] t(1) full_def)
  show "ancestry_of lt' q = ancestry_of lt q" if "q \<noteq> pid" "q \<noteq> ppid \<or> ancestry_of lt q \<noteq> []"
    using that t(2) [of q] by (auto simp: lt' set_ancestry_lookup [OF t(3)])
qed

text \<open>
  C35 (functional).  After an event of a process with a known parent other than itself, the tree of the process
  is the tree of its parent, with the name of the parent filled in where it was missing, followed by the process
  with the name and the parent of the event, cut to the deepest \<open>maxDepth\<close> nodes; when the event repeats what is
  recorded of the process, its tree stays.  The record of its parent is the one just derived.  Trees and records of
  other processes stay, but for a tree of the parent that is first read from \<open>/proc\<close>.
\<close>

theorem Track_records_process:
  assumes "tracker_reach config lt" "lg_Enabled (lt_config lt)" "ev_ppid e > 0" "ev_ppid e \<noteq> ev_pid e"
    "lt' = Track proc now e lt" "parentComm = snd (fst (getParentInfo proc now e lt))"
  shows "GetProcessTree lt' (ev_pid e) =
      (if unchanged lt (ev_pid e) (ev_ppid e) parentComm (cleanComm (ev_comm e)) then GetProcessTree lt (ev_pid e)
       else last_n (nat (lt_maxDepth lt)) (name_parent (ev_ppid e) parentComm (GetProcessTree lt' (ev_ppid e)) @
         [\<lparr>pn_pid = ev_pid e, pn_ppid = ev_ppid e, pn_comm = cleanComm (ev_comm e)\<rparr>])) \<and>
    GetProcessTree lt' (ev_pid e) \<noteq> [] \<and>
    last (GetProcessTree lt' (ev_pid e)) = \<lparr>pn_pid = ev_pid e, pn_ppid = ev_ppid e, pn_comm = cleanComm (ev_comm e)\<rparr> \<and>
    GetLineage lt' (ev_pid e) = Some \<lparr>pi_PPID = ev_ppid e, pi_ParentComm = parentComm, pi_Timestamp = now\<rparr> \<and>
    (q \<noteq> ev_pid e \<longrightarrow> GetLineage lt' q = GetLineage lt q \<and>
      (q \<noteq> ev_ppid e \<or> GetProcessTree lt q \<noteq> [] \<longrightarrow> GetProcessTree lt' q = GetProcessTree lt q))"
proof -
  let ?pid = "ev_pid e" and ?ppid = "ev_ppid e" and ?comm = "cleanComm (ev_comm e)"
  obtain c lt1 where g: "getParentInfo proc now e lt = ((?ppid, c), lt1)" using getParentInfo_ppid [of proc now e lt] by (metis prod.collapse)
  have c: "c = parentComm" by (simp add: assms(6) g)
  have ok: "lineage_ok lt" using reach_ok [OF assms(1)] by blast
  have s: "same_trees lt lt1" using getParentInfo_same [OF lineage_ok_shards [OF ok], of proc now e] by (simp add: g)
  have ok1: "lineage_ok lt1" by (rule lineage_ok_same [OF ok s])
  have lt': "lt' = lineage_store proc now ?pid ?ppid parentComm ?comm lt1"
    using assms(2,3) by (simp add: assms(5) Track_def g c word_gt_0)
  have u: "unchanged lt1 ?pid ?ppid parentComm ?comm = unchanged lt ?pid ?ppid parentComm ?comm"
  proof -
    have "ancestry_of lt1 x = ancestry_of lt x" "map_of (ls_lineage (shardFor lt1 x)) x = map_of (ls_lineage (shardFor lt x)) x" for x
      using s by (simp_all add: same_trees_def GetLineage_def)
    then show ?thesis by (simp add: unchanged_def split: option.split)
  qed
  let ?s = "set_lineage now ?pid ?ppid parentComm ?comm lt1"
  have oks: "lineage_ok ?s" "shards_ok lt1" using ok1 lineage_ok_set_lineage by (auto simp: lineage_ok_def)
  have m: "lt_maxDepth ?s = lt_maxDepth lt" using s oks(2) by (simp add: set_lineage_lookup same_trees_def)
  have trees: "ancestry_of lt' ?pid = (if unchanged lt ?pid ?ppid parentComm ?comm then ancestry_of lt ?pid
      else last_n (nat (lt_maxDepth lt)) (name_parent ?ppid parentComm (ancestry_of lt' ?ppid) @ [\<lparr>pn_pid = ?pid, pn_ppid = ?ppid, pn_comm = ?comm\<rparr>])) \<and>
    (q \<noteq> ?pid \<longrightarrow> q \<noteq> ?ppid \<or> ancestry_of lt q \<noteq> [] \<longrightarrow> ancestry_of lt' q = ancestry_of lt q)"
  proof (cases "unchanged lt ?pid ?ppid parentComm ?comm")
    case True
    then show ?thesis using s oks(2) by (simp add: lt' lineage_store_def u set_lineage_lookup same_trees_def)
  next
    case False
    then have b: "lt' = buildAncestry proc now ?pid ?ppid parentComm ?comm ?s" by (simp add: lt' lineage_store_def u)
    have a: "ancestry_of ?s x = ancestry_of lt x" for x using s oks(2) by (simp add: set_lineage_lookup same_trees_def)
    show ?thesis using buildAncestry_trees [OF lineage_ok_shards [OF oks(1)] assms(4) _ b oks(1)] oks(1) False
      by (simp add: m a lineage_ok_def)
  qed
  then show ?thesis using lineage_store_ok [OF ok1 lt'] s by (auto simp: GetProcessTree_def same_trees_def)
qed

lemma seen_nginx_facts:
  "lg_Enabled (lt_config seen_nginx)" "snd (fst (getParentInfo (\<lambda>_. None) 6 (lineage_event 11 10 ''bash'' ''nginx'') seen_nginx)) = ''nginx''"
  "cleanComm (ev_comm (lineage_event 11 10 ''bash'' parent)) = ''bash''" "lt_config seen_nginx = DefaultLineageConfig"
  "GetLineage seen_nginx 10 = Some \<lparr>pi_PPID = 1, pi_ParentComm = ''systemd'', pi_Timestamp = 5\<rparr>"
  by code_simp+

theorem Track_records_process_witness:
  "GetProcessTree example_tracker 11 =
     GetProcessTree example_tracker 10 @ [\<lparr>pn_pid = 11, pn_ppid = 10, pn_comm = ''bash''\<rparr>] \<and>
   GetLineage example_tracker 11 = Some \<lparr>pi_PPID = 10, pi_ParentComm = ''nginx'', pi_Timestamp = 6\<rparr> \<and>
   GetProcessTree example_tracker 10 = GetProcessTree seen_nginx 10"
proof -
  let ?e = "lineage_event 11 10 ''bash'' ''nginx''"
  have e: "ev_pid ?e = 11" "ev_ppid ?e = 10" by (simp_all add: lineage_event_def)
  have f: "\<not> unchanged seen_nginx 11 10 ''nginx'' ''bash''" "GetProcessTree seen_nginx 10 = [\<lparr>pn_pid = 10, pn_ppid = 1, pn_comm = ''nginx''\<rparr>]"
    "lt_maxDepth seen_nginx = 8" by code_simp+
  show ?thesis
    using Track_records_process [OF example_reach(1) seen_nginx_facts(1) _ _ example_tracker_def [unfolded e] refl, of 10]
    unfolding e seen_nginx_facts f(2,3) using f(1) by (simp add: name_parent_def last_n_def)
qed

text \<open>
  The name of the parent is taken from the record of the parent's own parent when the event carries
  none: a shell started by a web server that was itself seen before is not reported, while the same
  event with the name filled in is.
\<close>

theorem grandparent_taken_for_parent:
  "fst (lineage_Update env proc 6 (lineage_event 11 10 ''bash'' '''') seen_nginx) = None \<and>
   map_option (\<lambda>m. lp_Name (lm_Pattern m)) (fst (lineage_Update env proc 6 (lineage_event 11 10 ''bash'' ''nginx'') seen_nginx)) =
     Some ''web_shell_spawn''"
proof -
  have cfg: "lt_config (lineage_store proc 6 11 10 parent ''bash'' seen_nginx) = DefaultLineageConfig" for parent
    using lineage_store_ok [OF _ refl, of seen_nginx proc 6 11 10 parent "''bash''"] reach_ok [OF example_reach(1)]
    by (simp add: seen_nginx_facts)
  have find: "checkPattern env lt e ''systemd'' ''bash'' = None"
      "map_option lp_Name (checkPattern env lt e ''nginx'' ''bash'') = Some ''web_shell_spawn''"
    if "lt_config lt = DefaultLineageConfig" for lt e
    unfolding checkPattern_def that
    by (simp_all add: DefaultLineageConfig_def matchesAny_def matches_one_def evaluateLineageCondition_def)
  let ?e = "\<lambda>parent. lineage_event 11 10 ''bash'' parent"
  have e: "ev_pid (?e parent) = 11" "ev_ppid (?e parent) = 10" for parent by (simp_all add: lineage_event_def)
  have c: "cleanComm (ev_parent_comm (?e '''')) = ''''" "cleanComm (ev_parent_comm (?e ''nginx'')) = ''nginx''" by code_simp+
  have g: "getParentInfo proc 6 (?e '''') seen_nginx = ((10, ''systemd''), seen_nginx)"
      "getParentInfo proc 6 (?e ''nginx'') seen_nginx = ((10, ''nginx''), seen_nginx)"
    using seen_nginx_facts(5) by (simp_all add: getParentInfo_def e c Let_def GetLineage_def)
  show ?thesis
    using find(1) [OF cfg, of "''systemd''" "?e ''''"] find(2) [OF cfg, of "''nginx''" "?e ''nginx''"]
    by (auto simp: lineage_Update_def seen_nginx_facts(1,3) g e Let_def simp del: seen_nginx_facts(4))
qed

text \<open>
  \<open>Cleanup\<close> forgets exactly the processes whose last event lies more than the time to
  live back, with their trees.
\<close>

theorem Cleanup_expires:
  assumes "tracker_reach config lt"
  shows "GetLineage (lineage_Cleanup now lt) pid =
      (case GetLineage lt pid of Some info \<Rightarrow> if time_sub now (pi_Timestamp info) > lg_TTL (lt_config lt) then None else Some info | None \<Rightarrow> None) \<and>
    GetProcessTree (lineage_Cleanup now lt) pid =
      (case GetLineage lt pid of Some info \<Rightarrow> if time_sub now (pi_Timestamp info) > lg_TTL (lt_config lt) then [] else GetProcessTree lt pid
       | None \<Rightarrow> GetProcessTree lt pid)"
  using reach_ok [OF assms] Cleanup_lookup(1,2) [OF lineage_ok_shards, of lt now pid]
  by (simp add: GetProcessTree_def split: option.split)

theorem Cleanup_expires_witness:
  "GetLineage (lineage_Cleanup 300000000006 example_tracker) 10 = None \<and> GetProcessTree (lineage_Cleanup 300000000006 example_tracker) 10 = [] \<and>
   GetProcessTree (lineage_Cleanup 300000000006 example_tracker) 11 = GetProcessTree example_tracker 11"
proof -
  have l: "GetLineage example_tracker 10 = Some \<lparr>pi_PPID = 1, pi_ParentComm = ''systemd'', pi_Timestamp = 5\<rparr>"
      "GetLineage example_tracker 11 = Some \<lparr>pi_PPID = 10, pi_ParentComm = ''nginx'', pi_Timestamp = 6\<rparr>"
      "lg_TTL (lt_config example_tracker) = 300000000000" by code_simp+
  show ?thesis
    using Cleanup_expires [OF example_reach(2), of 300000000006 10] Cleanup_expires [OF example_reach(2), of 300000000006 11]
    unfolding l by (simp add: time_sub_def max_duration_def)
qed

text \<open>
  A chain that was built from \<open>/proc\<close> for a parent no event was seen of is never given up: such chains
  are outside the reach of \<open>Cleanup\<close> and accumulate.
\<close>

theorem bootstrapped_chain_never_expires:
  "\<exists>lt. tracker_reach DefaultLineageConfig lt \<and> (\<forall>nows. GetProcessTree (fold lineage_Cleanup nows lt) 10 \<noteq> [])"
proof (intro exI conjI allI)
  let ?lt = "Track (\<lambda>_. None) 5 (lineage_event 11 10 ''bash'' ''nginx'') (NewLineageTracker DefaultLineageConfig)"
  show r: "tracker_reach DefaultLineageConfig ?lt" by (intro track new)
  have "tracker_reach DefaultLineageConfig lt \<Longrightarrow> GetLineage lt 10 = None \<Longrightarrow> GetProcessTree lt 10 \<noteq> [] \<Longrightarrow>
      GetProcessTree (fold lineage_Cleanup nows lt) 10 \<noteq> []" for lt nows
  proof (induction nows arbitrary: lt)
    case (Cons now nows)
    have ok: "shards_ok lt" using reach_ok [OF Cons.prems(1)] lineage_ok_shards by blast
    show ?case
      using Cons.IH [of "lineage_Cleanup now lt"] Cons.prems tracker_reach.cleanup [of _ lt now] Cleanup_lookup(1,2) [OF ok, of now 10]
      by (simp add: GetProcessTree_def)
  qed simp
  moreover have "GetLineage ?lt 10 = None" "GetProcessTree ?lt 10 = [\<lparr>pn_pid = 10, pn_ppid = 0, pn_comm = ''''\<rparr>]" by code_simp+
  ultimately show "GetProcessTree (fold lineage_Cleanup nows ?lt) 10 \<noteq> []" for nows using r by simp
qed

end
