(* ===== verification/Lru_Heap.thy ===== *)
theory Lru_Heap
  imports Event_Types
begin

text \<open>
  The least-recently-used order of \<open>profiler/lru_heap.go\<close>: a binary min-heap of entries ordered by their
  last access, with an index from keys to entries.  Entries are shared by heap and index and hold their
  position in the heap, so they live in an explicit store, a list to which an allocation
  appends, and both structures hold references, which are positions in it.  The three
  copies of the code for string, integer and workload keys are one polymorphic model.  \<open>lru_up\<close> and
  \<open>lru_down\<close> are the loops of the library package \<open>container/heap\<close>; \<open>Less\<close>, \<open>Swap\<close>, \<open>Push\<close> and \<open>Pop\<close>
  are the methods it calls.
\<close>

section \<open>Data\<close>

record 'k lruEntry =
  le_key :: 'k
  le_last :: time
  le_index :: int

record 'k lru =
  lr_store :: "'k lruEntry list"
  lr_heap :: "nat list"
  lr_index :: "('k \<times> nat) list"

definition lru_empty :: "'k lru" where
  "lru_empty = \<lparr>lr_store = [], lr_heap = [], lr_index = []\<rparr>"

definition lru_at :: "'k lru \<Rightarrow> nat \<Rightarrow> 'k lruEntry" where
  "lru_at st i = lr_store st ! (lr_heap st ! i)"

definition Less :: "'k lru \<Rightarrow> nat \<Rightarrow> nat \<Rightarrow> bool" where
  "Less st i j \<longleftrightarrow> le_last (lru_at st i) < le_last (lru_at st j)"

definition set_index :: "nat \<Rightarrow> int \<Rightarrow> 'k lru \<Rightarrow> 'k lru" where
  "set_index r i st = st\<lparr>lr_store := (lr_store st)[r := (lr_store st ! r)\<lparr>le_index := i\<rparr>]\<rparr>"

definition Swap :: "nat \<Rightarrow> nat \<Rightarrow> 'k lru \<Rightarrow> 'k lru" where
  "Swap i j st =
     (let a = lr_heap st ! i; b = lr_heap st ! j
      in set_index a (int j) (set_index b (int i) (st\<lparr>lr_heap := (lr_heap st)[i := b, j := a]\<rparr>)))"

definition heap_method_Push :: "nat \<Rightarrow> 'k lru \<Rightarrow> 'k lru" where
  "heap_method_Push r st = set_index r (int (length (lr_heap st))) (st\<lparr>lr_heap := lr_heap st @ [r]\<rparr>)"

definition heap_method_Pop :: "'k lru \<Rightarrow> nat \<times> 'k lru" where
  "heap_method_Pop st = (last (lr_heap st), set_index (last (lr_heap st)) (-1) (st\<lparr>lr_heap := butlast (lr_heap st)\<rparr>))"

section \<open>container/heap\<close>

text \<open>Go divides towards zero, so the parent of position 0 is position 0 itself, as here.\<close>

fun lru_up :: "nat \<Rightarrow> 'k lru \<Rightarrow> 'k lru" where
  "lru_up j st =
     (let i = (j - 1) div 2
      in if i = j \<or> \<not> Less st j i then st else lru_up i (Swap i j st))"

function lru_down :: "nat \<Rightarrow> nat \<Rightarrow> 'k lru \<Rightarrow> nat \<times> 'k lru" where
  "lru_down i n st =
     (let j1 = 2 * i + 1
      in if n \<le> j1 then (i, st)
         else let j = (if j1 + 1 < n \<and> Less st (j1 + 1) j1 then j1 + 1 else j1)
           in if \<not> Less st j i then (i, st) else lru_down j n (Swap i j st))"
  by auto
termination by (relation "measure (\<lambda>(i, n, st). n - i)") (auto simp: Let_def split: if_splits)

declare lru_up.simps [simp del] lru_down.simps [simp del]

text \<open>\<open>down\<close> reports whether it moved the element.\<close>

definition down_moved :: "nat \<Rightarrow> nat \<Rightarrow> 'k lru \<Rightarrow> bool \<times> 'k lru" where
  "down_moved i n st = (case lru_down i n st of (k, st) \<Rightarrow> (i < k, st))"

definition heap_Push :: "nat \<Rightarrow> 'k lru \<Rightarrow> 'k lru" where
  "heap_Push r st = (let st = heap_method_Push r st in lru_up (length (lr_heap st) - 1) st)"

definition heap_Pop :: "'k lru \<Rightarrow> nat \<times> 'k lru" where
  "heap_Pop st =
     (let n = length (lr_heap st) - 1
      in heap_method_Pop (snd (lru_down 0 n (Swap 0 n st))))"

definition heap_Fix :: "nat \<Rightarrow> 'k lru \<Rightarrow> 'k lru" where
  "heap_Fix i st = (case down_moved i (length (lr_heap st)) st of (moved, st) \<Rightarrow> if moved then st else lru_up i st)"

definition heap_Remove :: "nat \<Rightarrow> 'k lru \<Rightarrow> nat \<times> 'k lru" where
  "heap_Remove i st =
     (let n = length (lr_heap st) - 1
      in heap_method_Pop
        (if n = i then st
         else case down_moved i n (Swap i n st) of (moved, st) \<Rightarrow> if moved then st else lru_up i st))"

section \<open>The index\<close>

definition lru_push :: "time \<Rightarrow> 'k \<Rightarrow> 'k lru \<Rightarrow> 'k lru" where
  "lru_push now key st =
     (let r = length (lr_store st);
          st = st\<lparr>lr_store := lr_store st @ [\<lparr>le_key = key, le_last = now, le_index = 0\<rparr>]\<rparr>;
          st = heap_Push r st
      in st\<lparr>lr_index := AList.update key r (lr_index st)\<rparr>)"

definition lru_touch :: "time \<Rightarrow> 'k \<Rightarrow> 'k lru \<Rightarrow> 'k lru" where
  "lru_touch now key st =
     (case map_of (lr_index st) key of
        None \<Rightarrow> st
      | Some r \<Rightarrow> heap_Fix (nat (le_index (lr_store st ! r)))
          (st\<lparr>lr_store := (lr_store st)[r := (lr_store st ! r)\<lparr>le_last := now\<rparr>]\<rparr>))"

definition lru_remove :: "'k \<Rightarrow> 'k lru \<Rightarrow> 'k lru" where
  "lru_remove key st =
     (case map_of (lr_index st) key of
        None \<Rightarrow> st
      | Some r \<Rightarrow> (let st = snd (heap_Remove (nat (le_index (lr_store st ! r))) st)
          in st\<lparr>lr_index := AList.delete key (lr_index st)\<rparr>))"

text \<open>What the users of the heap do to evict: pop the oldest entry and drop its key from the index.\<close>

definition lru_evict :: "'k lru \<Rightarrow> 'k \<times> 'k lru" where
  "lru_evict st =
     (case heap_Pop st of (r, st) \<Rightarrow>
        (le_key (lr_store st ! r), st\<lparr>lr_index := AList.delete (le_key (lr_store st ! r)) (lr_index st)\<rparr>))"

section \<open>Swaps\<close>

abbreviation hlen :: "'k lru \<Rightarrow> nat" where
  "hlen st \<equiv> length (lr_heap st)"

definition at_time :: "'k lru \<Rightarrow> nat \<Rightarrow> time" where
  "at_time st i = le_last (lru_at st i)"

definition positions_ok :: "'k lru \<Rightarrow> bool" where
  "positions_ok st \<longleftrightarrow> distinct (lr_heap st) \<and> set (lr_heap st) \<subseteq> {..<length (lr_store st)} \<and>
     (\<forall>i < hlen st. le_index (lru_at st i) = int i)"

text \<open>The same entries in another order: only positions, and the fields that hold them, differ.\<close>

definition same_entries :: "'k lru \<Rightarrow> 'k lru \<Rightarrow> bool" where
  "same_entries st st' \<longleftrightarrow> positions_ok st' \<and> mset (lr_heap st') = mset (lr_heap st) \<and> lr_index st' = lr_index st \<and>
     length (lr_store st') = length (lr_store st) \<and>
     (\<forall>r. le_key (lr_store st' ! r) = le_key (lr_store st ! r) \<and> le_last (lr_store st' ! r) = le_last (lr_store st ! r))"

lemma same_entries_refl: "positions_ok st \<Longrightarrow> same_entries st st"
  and same_entries_trans: "same_entries a b \<Longrightarrow> same_entries b c \<Longrightarrow> same_entries a c"
  by (simp_all add: same_entries_def)

lemma same_entries_length: "same_entries st st' \<Longrightarrow> hlen st' = hlen st"
  unfolding same_entries_def by (metis size_mset)

lemma set_index_fields [simp]:
  "lr_heap (set_index r i st) = lr_heap st" "lr_index (set_index r i st) = lr_index st"
  "length (lr_store (set_index r i st)) = length (lr_store st)"
  by (simp_all add: set_index_def)

lemma set_index_store: "r < length (lr_store st) \<Longrightarrow>
    lr_store (set_index r i st) ! q = (if q = r then (lr_store st ! r)\<lparr>le_index := i\<rparr> else lr_store st ! q)"
  by (simp add: set_index_def nth_list_update)

lemma set_index_other: "le_key (lr_store (set_index r i st) ! q) = le_key (lr_store st ! q)"
    "le_last (lr_store (set_index r i st) ! q) = le_last (lr_store st ! q)"
proof -
  have "lr_store (set_index r i st) = lr_store st" if "\<not> r < length (lr_store st)"
    using that unfolding not_less by (simp add: set_index_def list_update_beyond)
  then show "le_key (lr_store (set_index r i st) ! q) = le_key (lr_store st ! q)"
      "le_last (lr_store (set_index r i st) ! q) = le_last (lr_store st ! q)"
    using set_index_store [of r st i q] by (cases "r < length (lr_store st)"; simp)+
qed

lemma Swap_fields [simp]:
  "lr_heap (Swap i j st) = (lr_heap st)[i := lr_heap st ! j, j := lr_heap st ! i]" "lr_index (Swap i j st) = lr_index st"
  "length (lr_store (Swap i j st)) = length (lr_store st)"
  by (simp_all add: Swap_def Let_def)

lemma Swap_ok:
  assumes "positions_ok st" "i < hlen st" "j < hlen st"
  shows "same_entries st (Swap i j st)"
    "k < hlen st \<Longrightarrow> at_time (Swap i j st) k = (if k = i then at_time st j else if k = j then at_time st i else at_time st k)"
proof -
  have kl: "le_key (lr_store (Swap i j st) ! r) = le_key (lr_store st ! r)" "le_last (lr_store (Swap i j st) ! r) = le_last (lr_store st ! r)" for r
    by (simp_all add: Swap_def Let_def set_index_other)
  have d: "distinct (lr_heap st)" and le: "\<And>k. k < hlen st \<Longrightarrow> lr_heap st ! k < length (lr_store st)"
    and pos: "\<And>k. k < hlen st \<Longrightarrow> le_index (lr_store st ! (lr_heap st ! k)) = int k"
    using assms(1) by (auto simp: positions_ok_def lru_at_def dest: nth_mem)
  have m: "mset (lr_heap (Swap i j st)) = mset (lr_heap st)"
    using assms(2,3) by (simp add: mset_swap)
  have p: "positions_ok (Swap i j st)"
    unfolding positions_ok_def
  proof (intro conjI allI impI)
    show "distinct (lr_heap (Swap i j st))" using d m mset_eq_imp_distinct_iff by blast
    show "set (lr_heap (Swap i j st)) \<subseteq> {..<length (lr_store (Swap i j st))}"
      using assms(1) mset_eq_setD [OF m] by (simp add: positions_ok_def)
    fix k assume "k < hlen (Swap i j st)"
    then have k: "k < hlen st" by simp
    let ?a = "lr_heap st ! i" and ?b = "lr_heap st ! j"
    have "lr_heap st ! k = ?a \<longleftrightarrow> k = i" "lr_heap st ! k = ?b \<longleftrightarrow> k = j" "?a = ?b \<longleftrightarrow> i = j"
      using d k assms(2,3) by (simp_all add: nth_eq_iff_index_eq)
    then show "le_index (lru_at (Swap i j st) k) = int k"
      using k assms(2,3) le pos [OF k]
      by (auto simp: lru_at_def Swap_def Let_def set_index_store nth_list_update)
  qed
  show "same_entries st (Swap i j st)"
    using p m kl by (simp add: same_entries_def)
  show "k < hlen st \<Longrightarrow> at_time (Swap i j st) k = (if k = i then at_time st j else if k = j then at_time st i else at_time st k)"
    using assms(2,3) by (auto simp: at_time_def lru_at_def kl nth_list_update)
qed

section \<open>Heap order\<close>

definition parent :: "nat \<Rightarrow> nat" where
  "parent k = (k - 1) div 2"

definition in_order :: "'k lru \<Rightarrow> nat \<Rightarrow> bool" where
  "in_order st k \<longleftrightarrow> 0 < k \<longrightarrow> at_time st (parent k) \<le> at_time st k"

definition heap_upto :: "nat \<Rightarrow> 'k lru \<Rightarrow> bool" where
  "heap_upto n st \<longleftrightarrow> (\<forall>k < n. in_order st k)"

lemma parent_less: "0 < k \<Longrightarrow> parent k < k"
  by (simp add: parent_def)

lemma parent_iff: "0 < k \<Longrightarrow> parent k = i \<longleftrightarrow> k = 2 * i + 1 \<or> k = 2 * i + 2"
  unfolding parent_def by linarith

lemma Less_iff: "Less st i j \<longleftrightarrow> at_time st i < at_time st j"
  by (simp add: Less_def at_time_def)

lemma up_ok:
  assumes "positions_ok st" "j < n" "n \<le> hlen st" "\<forall>k < n. k \<noteq> j \<longrightarrow> in_order st k"
    "\<forall>k < n. 0 < k \<and> parent k = j \<and> 0 < j \<longrightarrow> at_time st (parent j) \<le> at_time st k"
  shows "same_entries st (lru_up j st) \<and> drop n (lr_heap (lru_up j st)) = drop n (lr_heap st) \<and> heap_upto n (lru_up j st)"
  using assms
proof (induction j arbitrary: st rule: less_induct)
  case (less j)
  let ?i = "parent j"
  show ?case
  proof (cases "?i = j \<or> \<not> Less st j ?i")
    case True
    then have "lru_up j st = st" by (subst lru_up.simps) (simp add: parent_def Let_def)
    moreover have "in_order st j" using True parent_less [of j] by (auto simp: in_order_def Less_iff)
    ultimately show ?thesis using less.prems by (auto simp: heap_upto_def same_entries_refl)
  next
    case False
    then have j: "0 < j" "?i < j" using parent_less [of j] by (auto simp: parent_def)
    have i: "?i < hlen st" "j < hlen st" using j less.prems(2,3) by simp_all
    let ?s = "Swap ?i j st"
    have up: "lru_up j st = lru_up ?i ?s" using False by (subst lru_up.simps) (simp add: parent_def Let_def)
    note t = Swap_ok(2) [OF less.prems(1) i]
    have lt: "at_time st j < at_time st ?i" using False by (simp add: Less_iff)
    have same: "same_entries st ?s" by (rule Swap_ok(1) [OF less.prems(1) i])
    have 1: "in_order ?s k" if "k < n" "k \<noteq> ?i" for k
    proof (cases "0 < k")
      case True
      have p: "parent k < hlen st" "k < hlen st" using parent_less [OF True] that less.prems(3) by simp_all
      have "k \<noteq> j \<Longrightarrow> at_time st (parent k) \<le> at_time st k" using less.prems(4) that True by (simp add: in_order_def)
      moreover have "parent k = j \<Longrightarrow> at_time st ?i \<le> at_time st k" using less.prems(5) that True j by simp
      ultimately show ?thesis using lt that True p by (auto simp: in_order_def t)
    qed (simp add: in_order_def)
    have 2: "at_time ?s (parent ?i) \<le> at_time ?s k" if "k < n" "0 < k" "parent k = ?i" "0 < ?i" for k
    proof -
      have p: "parent ?i < hlen st" "parent ?i < ?i" "k < hlen st" using parent_less [OF that(4)] i that less.prems(3) by simp_all
      have "at_time st (parent ?i) \<le> at_time st ?i" using less.prems(2,4) j that(4) by (simp add: in_order_def)
      moreover have "k \<noteq> j \<Longrightarrow> at_time st ?i \<le> at_time st k" using less.prems(4) that by (auto simp: in_order_def)
      ultimately show ?thesis using lt j p that parent_less [OF that(2)] by (auto simp: t)
    qed
    have ok: "positions_ok ?s" "?i < n" "n \<le> hlen ?s" using same less.prems(2,3) j by (simp_all add: same_entries_def)
    have "drop n (lr_heap ?s) = drop n (lr_heap st)" using less.prems(2) j by simp
    moreover from less.IH [OF j(2) ok] 1 2
    have "same_entries ?s (lru_up ?i ?s) \<and> drop n (lr_heap (lru_up ?i ?s)) = drop n (lr_heap ?s) \<and> heap_upto n (lru_up ?i ?s)"
      by blast
    ultimately show ?thesis using same_entries_trans [OF same] up by metis
  qed
qed

lemma down_ok:
  assumes "positions_ok st" "i < n" "n \<le> hlen st" "lru_down i n st = (i', st')"
    "\<forall>k < n. 0 < k \<and> k \<noteq> i \<and> parent k \<noteq> i \<longrightarrow> in_order st k"
    "\<forall>k < n. 0 < k \<and> parent k = i \<and> 0 < i \<longrightarrow> at_time st (parent i) \<le> at_time st k"
  shows "same_entries st st' \<and> drop n (lr_heap st') = drop n (lr_heap st) \<and>
    (i' = i \<and> st' = st \<and> (\<forall>k < n. k \<noteq> i \<longrightarrow> in_order st k) \<or> i < i' \<and> heap_upto n st')"
  using assms
proof (induction "n - i" arbitrary: i st rule: less_induct)
  case less
  let ?j1 = "2 * i + 1"
  define j where "j = (if ?j1 + 1 < n \<and> Less st (?j1 + 1) ?j1 then ?j1 + 1 else ?j1)"
  show ?case
  proof (cases "n \<le> ?j1 \<or> \<not> Less st j i")
    case True
    have "in_order st k" if "k < n" "k \<noteq> i" for k
    proof (cases "0 < k \<and> parent k = i")
      case k: True
      then have "k = ?j1 \<or> k = ?j1 + 1" using parent_iff [of k i] by auto
      then have "at_time st i \<le> at_time st k" using True that j_def by (auto simp: Less_iff split: if_splits)
      then show ?thesis using k by (simp add: in_order_def)
    next
      case False
      then show ?thesis using less.prems(5) that by (auto simp: in_order_def)
    qed
    moreover have "i' = i \<and> st' = st"
      using less.prems(4) True by (subst (asm) lru_down.simps) (auto simp: Let_def j_def split: if_splits)
    ultimately show ?thesis using less.prems(1) by (auto simp: same_entries_refl)
  next
    case False
    let ?s = "Swap i j st"
    have j: "j < n" "parent j = i" "0 < j" "i < j" "j = ?j1 \<or> j = ?j1 + 1"
      using False by (auto simp: j_def parent_def)
    have jl: "j < hlen st" "i < hlen st" using j less.prems(2,3) by simp_all
    have rec: "lru_down j n ?s = (i', st')"
      using less.prems(4) False by (subst (asm) lru_down.simps) (auto simp: Let_def j_def split: if_splits)
    note t = Swap_ok(2) [OF less.prems(1) jl(2,1)]
    have same: "same_entries st ?s" by (rule Swap_ok(1) [OF less.prems(1) jl(2,1)])
    have lt: "at_time st j < at_time st i" using False by (simp add: Less_iff)
    have sib: "at_time st j \<le> at_time st k" if "k < n" "0 < k" "parent k = i" for k
      using that parent_iff [of k i] by (auto simp: j_def Less_iff split: if_splits)
    have below: "k < n \<Longrightarrow> k < hlen st \<and> parent k < hlen st" for k using less.prems(3) by (auto simp: parent_def)
    have jo: "in_order ?s j" using lt j jl by (simp add: in_order_def t)
    have 5: "\<forall>k < n. 0 < k \<and> k \<noteq> j \<and> parent k \<noteq> j \<longrightarrow> in_order ?s k"
    proof (intro allI impI, elim conjE)
      fix k assume k: "k < n" "0 < k" "k \<noteq> j" "parent k \<noteq> j"
      show "in_order ?s k"
      proof (cases "k = i")
        case True
        then have "parent i \<noteq> i" "parent i \<noteq> j" using k parent_less [of i] j by auto
        then show ?thesis using less.prems(6) j True k below by (auto simp: in_order_def t)
      next
        case False
        have tk: "at_time ?s k = at_time st k" using k False below by (simp add: t)
        show ?thesis
        proof (cases "parent k = i")
          case True
          then have "at_time ?s (parent k) = at_time st j" using jl by (simp add: t)
          then show ?thesis using sib [OF k(1,2) True] tk by (simp add: in_order_def)
        next
          case p: False
          then have "at_time ?s (parent k) = at_time st (parent k)" using k below by (simp add: t)
          then show ?thesis using less.prems(5) k False p tk by (simp add: in_order_def)
        qed
      qed
    qed
    have 6: "\<forall>k < n. 0 < k \<and> parent k = j \<and> 0 < j \<longrightarrow> at_time ?s (parent j) \<le> at_time ?s k"
    proof (intro allI impI, elim conjE)
      fix k assume k: "k < n" "0 < k" "parent k = j"
      then have "j < k" using parent_less by blast
      then have "at_time st j \<le> at_time st k" using less.prems(5) k j by (auto simp: in_order_def)
      then show "at_time ?s (parent j) \<le> at_time ?s k" using k j jl \<open>j < k\<close> below by (simp add: t)
    qed
    have "positions_ok ?s" "n \<le> hlen ?s" using same less.prems(3) by (simp_all add: same_entries_def)
    moreover have "n - j < n - i" using j by simp
    ultimately have "same_entries ?s st' \<and> drop n (lr_heap st') = drop n (lr_heap ?s) \<and>
        (i' = j \<and> st' = ?s \<and> (\<forall>k < n. k \<noteq> j \<longrightarrow> in_order ?s k) \<or> j < i' \<and> heap_upto n st')"
      using less.hyps [of j ?s] j(1) rec 5 6 by blast
    moreover have "drop n (lr_heap ?s) = drop n (lr_heap st)" using j less.prems(2) by simp
    moreover have "heap_upto n st' \<and> i < i'" if "i' = j" "st' = ?s" "\<forall>k < n. k \<noteq> j \<longrightarrow> in_order ?s k"
      using that jo j by (auto simp: heap_upto_def)
    ultimately show ?thesis using same_entries_trans [OF same, of st'] j(4) by auto
  qed
qed

lemma settle_ok:
  assumes "positions_ok st" "i < n" "n \<le> hlen st"
    "\<forall>k < n. 0 < k \<and> k \<noteq> i \<and> parent k \<noteq> i \<longrightarrow> in_order st k"
    "\<forall>k < n. 0 < k \<and> parent k = i \<and> 0 < i \<longrightarrow> at_time st (parent i) \<le> at_time st k"
    "st' = (case down_moved i n st of (moved, st) \<Rightarrow> if moved then st else lru_up i st)"
  shows "same_entries st st' \<and> drop n (lr_heap st') = drop n (lr_heap st) \<and> heap_upto n st'"
proof -
  obtain i1 st1 where d: "lru_down i n st = (i1, st1)" by fastforce
  note k = down_ok [OF assms(1-3) d assms(4,5)]
  show ?thesis
  proof (cases "i < i1")
    case True
    then show ?thesis using k by (simp add: assms(6) down_moved_def d)
  next
    case False
    then have "st' = lru_up i st" "\<forall>k < n. k \<noteq> i \<longrightarrow> in_order st k" using k by (auto simp: assms(6) down_moved_def d)
    then show ?thesis using up_ok [OF assms(1-3) _ assms(5)] by simp
  qed
qed

lemma heap_min:
  assumes "heap_upto n st" "k < n"
  shows "at_time st 0 \<le> at_time st k"
  using assms(2)
proof (induction k rule: less_induct)
  case (less k)
  show ?case
  proof (cases "k = 0")
    case False
    then have "at_time st 0 \<le> at_time st (parent k)" using less parent_less [of k] by auto
    also have "\<dots> \<le> at_time st k" using assms(1) less.prems False by (simp add: heap_upto_def in_order_def)
    finally show ?thesis .
  qed simp
qed

section \<open>What the index stands for\<close>

definition indexed :: "'k lru \<Rightarrow> bool" where
  "indexed st \<longleftrightarrow> distinct_keys (lr_index st) \<and>
     (\<forall>key r. map_of (lr_index st) key = Some r \<longleftrightarrow> r \<in> set (lr_heap st) \<and> le_key (lr_store st ! r) = key)"

definition lru_ok :: "'k lru \<Rightarrow> bool" where
  "lru_ok st \<longleftrightarrow> positions_ok st \<and> heap_upto (hlen st) st \<and> indexed st"

text \<open>The abstraction: when each key was last accessed.\<close>

definition recency :: "'k lru \<Rightarrow> 'k \<Rightarrow> time option" where
  "recency st key = map_option (\<lambda>r. le_last (lr_store st ! r)) (map_of (lr_index st) key)"

lemma same_entries_indexed:
  assumes "same_entries st st'"
  shows "indexed st' = indexed st" "recency st' = recency st" "set (lr_heap st') = set (lr_heap st)"
proof -
  have s: "set (lr_heap st') = set (lr_heap st)" using assms mset_eq_setD by (auto simp: same_entries_def)
  then show "indexed st' = indexed st" "recency st' = recency st" "set (lr_heap st') = set (lr_heap st)"
    using assms unfolding indexed_def recency_def same_entries_def by (auto intro!: ext)
qed

lemma method_Pop_ok:
  assumes "positions_ok st" "lr_heap st \<noteq> []" "heap_upto (hlen st - 1) st" "indexed st" "heap_method_Pop st = (r, st1)"
    "st' = st1\<lparr>lr_index := AList.delete (le_key (lr_store st ! r)) (lr_index st1)\<rparr>"
  shows "r = last (lr_heap st) \<and> lru_ok st' \<and> recency st' = (recency st)(le_key (lr_store st ! r) := None) \<and>
    le_key (lr_store st1 ! r) = le_key (lr_store st ! r)"
proof -
  obtain hs where h: "lr_heap st = hs @ [r]" and st1: "st1 = set_index r (-1) (st\<lparr>lr_heap := hs\<rparr>)"
    using assms(2,5) by (cases "lr_heap st" rule: rev_cases) (auto simp: heap_method_Pop_def)
  have d: "distinct hs" "r \<notin> set hs" "set hs \<subseteq> {..<length (lr_store st)}" "r < length (lr_store st)"
    using assms(1) h by (auto simp: positions_ok_def)
  let ?key = "le_key (lr_store st ! r)"
  have heap': "lr_heap st' = hs" and idx': "lr_index st' = AList.delete ?key (lr_index st)"
    by (simp_all add: assms(6) st1)
  have store': "lr_store st' ! q = (if q = r then (lr_store st ! r)\<lparr>le_index := -1\<rparr> else lr_store st ! q)"
    "length (lr_store st') = length (lr_store st)" for q
    using d(4) by (simp_all add: assms(6) st1 set_index_store)
  have at: "lru_at st' k = lru_at st k" if "k < length hs" for k
    using that d(2) by (auto simp: lru_at_def heap' store' h nth_append)
  have "positions_ok st'"
    using assms(1) d at h unfolding positions_ok_def by (auto simp: heap' store'(2))
  moreover have "heap_upto (hlen st') st'"
    using assms(3) h unfolding heap_upto_def in_order_def heap' by (auto simp: at_time_def at parent_def)
  moreover have "map_of (lr_index st) k = Some q \<longleftrightarrow> q \<in> insert r (set hs) \<and> le_key (lr_store st ! q) = k" for k q
    using assms(4) h by (auto simp: indexed_def)
  note mi = this
  have "map_of (lr_index st') k = Some q \<longleftrightarrow> q \<in> set hs \<and> le_key (lr_store st' ! q) = k" for k q
    using mi [of k q] mi [of ?key r] mi [of ?key q] d(2) unfolding idx' store'(1)
    by (cases "k = ?key") (auto simp: d(2))
  then have "indexed st'" using assms(4) by (simp add: indexed_def heap' idx')
  moreover have "recency st' = (recency st)(?key := None)"
  proof
    fix k show "recency st' k = ((recency st)(?key := None)) k"
    proof -
      have "le_last (lr_store st' ! q) = le_last (lr_store st ! q)" for q by (simp add: store'(1))
      then show ?thesis by (cases "k = ?key") (simp_all add: recency_def idx')
    qed
  qed
  ultimately show ?thesis using h by (simp add: lru_ok_def st1 set_index_other)
qed

lemma last_of_drop: "drop n xs = [x] \<Longrightarrow> xs \<noteq> [] \<and> last xs = x"
  by (metis append_take_drop_id last_snoc snoc_eq_iff_butlast)

lemma drop_last: "ys \<noteq> [] \<Longrightarrow> drop (length ys - 1) ys = [ys ! (length ys - 1)]"
  by (cases ys rule: rev_cases) auto

lemma Swap_last:
  assumes "positions_ok st" "i < hlen st"
  shows "drop (hlen st - 1) (lr_heap (Swap i (hlen st - 1) st)) = [lr_heap st ! i]"
proof -

  have n: "hlen st - 1 < hlen st" using assms(2) by simp
  have "lr_heap (Swap i (hlen st - 1) st) \<noteq> []" using assms(2) by auto
  from drop_last [OF this] show ?thesis using n by (simp add: nth_list_update)
qed

lemma pop_after:
  assumes "lru_ok st" "same_entries st s" "heap_upto (hlen st - 1) s" "drop (hlen st - 1) (lr_heap s) = [r]"
    "heap_method_Pop s = (q, s1)" "st' = s1\<lparr>lr_index := AList.delete (le_key (lr_store st ! r)) (lr_index s1)\<rparr>"
  shows "q = r \<and> lru_ok st' \<and> recency st' = (recency st)(le_key (lr_store st ! r) := None) \<and> le_key (lr_store s1 ! r) = le_key (lr_store st ! r)"
proof -
  note l = last_of_drop [OF assms(4)]
  have q: "q = r" using assms(5) l by (simp add: heap_method_Pop_def)
  have s: "positions_ok s" "hlen s = hlen st" "le_key (lr_store s ! r) = le_key (lr_store st ! r)" "indexed s" "recency s = recency st"
    using assms(1,2) same_entries_indexed [OF assms(2)] by (auto simp: same_entries_def lru_ok_def same_entries_length dest: mset_eq_length)
  from method_Pop_ok [OF s(1) _ _ s(4) assms(5) refl] l assms(3) q show ?thesis by (simp add: s assms(6))
qed

lemma recency_iff:
  assumes "indexed st"
  shows "recency st k = Some t \<longleftrightarrow> (\<exists>r \<in> set (lr_heap st). le_key (lr_store st ! r) = k \<and> le_last (lr_store st ! r) = t)"
  using assms by (auto simp: recency_def indexed_def)

lemma lru_evict_ok:
  assumes "lru_ok st" "lr_heap st \<noteq> []" "lru_evict st = (key, st')"
  shows "lru_ok st' \<and> recency st' = (recency st)(key := None) \<and>
    (\<exists>t. recency st key = Some t \<and> (\<forall>k u. recency st k = Some u \<longrightarrow> t \<le> u))"
proof -
  have ok: "positions_ok st" "heap_upto (hlen st) st" "indexed st" using assms(1) by (simp_all add: lru_ok_def)
  define n where "n = hlen st - 1"
  have n: "n < hlen st" "0 < hlen st" using assms(2) by (simp_all add: n_def)
  let ?s = "Swap 0 n st"
  have sw: "same_entries st ?s" by (rule Swap_ok(1) [OF ok(1) n(2,1)])
  obtain i' s2 where d: "lru_down 0 n ?s = (i', s2)" by fastforce
  have s2: "same_entries ?s s2 \<and> drop n (lr_heap s2) = drop n (lr_heap ?s) \<and> heap_upto n s2"
  proof (cases "n = 0")
    case True
    then have "s2 = ?s" using d by (subst (asm) lru_down.simps) simp
    then show ?thesis using True sw by (simp add: same_entries_refl same_entries_def heap_upto_def)
  next
    case False
    have "in_order ?s k" if "k < n" "0 < k" "parent k \<noteq> 0" for k
      using that ok(2) n parent_less [OF that(2)] by (simp add: in_order_def heap_upto_def Swap_ok(2) [OF ok(1) n(2,1)])
    then have "same_entries ?s s2 \<and> drop n (lr_heap s2) = drop n (lr_heap ?s) \<and>
      (i' = 0 \<and> s2 = ?s \<and> (\<forall>k < n. k \<noteq> 0 \<longrightarrow> in_order ?s k) \<or> 0 < i' \<and> heap_upto n s2)"
      using False n sw by (intro down_ok [OF _ _ _ d]) (auto simp: same_entries_def)
    then show ?thesis by (auto simp: heap_upto_def in_order_def)
  qed
  let ?r = "lr_heap st ! 0"
  have dr: "drop n (lr_heap s2) = [?r]" using s2 Swap_last [OF ok(1) n(2)] by (simp add: n_def)
  obtain q s3 where p: "heap_method_Pop s2 = (q, s3)" by fastforce
  have "heap_Pop st = (q, s3)" unfolding heap_Pop_def Let_def n_def [symmetric] d by (simp add: p)
  then have e: "key = le_key (lr_store s3 ! q)" "st' = s3\<lparr>lr_index := AList.delete (le_key (lr_store s3 ! q)) (lr_index s3)\<rparr>"
    using assms(3) by (auto simp: lru_evict_def)
  from pop_after [OF assms(1) same_entries_trans [OF sw] _ _ p refl, of ?r] s2 dr
  have k: "q = ?r" "key = le_key (lr_store st ! ?r)" "lru_ok st'" "recency st' = (recency st)(key := None)"
    by (simp_all add: e n_def)
  have "recency st key = Some (at_time st 0)" using recency_iff [OF ok(3)] k(2) n by (auto simp: at_time_def lru_at_def)
  moreover have "at_time st 0 \<le> u" if "recency st x = Some u" for x u
    using that heap_min [OF ok(2)] by (auto simp: recency_iff [OF ok(3)] in_set_conv_nth at_time_def lru_at_def)
  ultimately show ?thesis using k by blast
qed

lemma lru_remove_ok:
  assumes "lru_ok st"
  shows "lru_ok (lru_remove key st) \<and> recency (lru_remove key st) = (recency st)(key := None)"
proof (cases "map_of (lr_index st) key")
  case None
  then show ?thesis using assms by (auto simp: lru_remove_def recency_def intro!: ext)
next
  case (Some r)
  have ok: "positions_ok st" "heap_upto (hlen st) st" "indexed st" using assms by (simp_all add: lru_ok_def)
  have r: "r \<in> set (lr_heap st)" "le_key (lr_store st ! r) = key" using ok(3) Some by (auto simp: indexed_def)
  then obtain i where i: "i < hlen st" "lr_heap st ! i = r" by (auto simp: in_set_conv_nth)
  have pos: "nat (le_index (lr_store st ! r)) = i" using ok(1) i by (auto simp: positions_ok_def lru_at_def)
  define n where "n = hlen st - 1"
  have n: "n < hlen st" "i \<le> n" using i by (auto simp: n_def)
  define s2 where "s2 = (if n = i then st else case down_moved i n (Swap i n st) of (moved, st) \<Rightarrow> if moved then st else lru_up i st)"
  have s2: "same_entries st s2 \<and> drop n (lr_heap s2) = [r] \<and> heap_upto n s2"
  proof (cases "n = i")
    case True
    have "lr_heap st \<noteq> []" using i(1) by auto
    from drop_last [OF this] have "drop n (lr_heap st) = [r]" using i(2) True by (simp add: n_def)
    then show ?thesis using True ok n by (auto simp: s2_def same_entries_refl heap_upto_def)
  next
    case False
    let ?s = "Swap i n st"
    note t = Swap_ok(2) [OF ok(1) i(1) n(1)]
    have sw: "same_entries st ?s" by (rule Swap_ok(1) [OF ok(1) i(1) n(1)])
    have dr: "drop n (lr_heap ?s) = [r]" using Swap_last [OF ok(1) i(1)] i(2) by (simp add: n_def)
    have io: "k < n \<Longrightarrow> 0 < k \<Longrightarrow> at_time st (parent k) \<le> at_time st k" for k
      using ok(2) n by (auto simp: heap_upto_def in_order_def)
    have in5: "\<forall>k < n. 0 < k \<and> k \<noteq> i \<and> parent k \<noteq> i \<longrightarrow> in_order ?s k"
    proof (intro allI impI, elim conjE)
      fix k assume k: "k < n" "0 < k" "k \<noteq> i" "parent k \<noteq> i"
      then have "k < hlen st" "parent k < hlen st" "parent k \<noteq> n" using n parent_less [OF k(2)] by simp_all
      then show "in_order ?s k" using io [OF k(1,2)] k by (simp add: in_order_def t)
    qed
    have in6: "\<forall>k < n. 0 < k \<and> parent k = i \<and> 0 < i \<longrightarrow> at_time ?s (parent i) \<le> at_time ?s k"
    proof (intro allI impI, elim conjE)
      fix k assume k: "k < n" "0 < k" "parent k = i" "0 < i"
      have "at_time st (parent i) \<le> at_time st k" using io [OF k(1,2)] io [of i] k n False by simp
      then show "at_time ?s (parent i) \<le> at_time ?s k" using k n parent_less [OF k(4)] parent_less [OF k(2)] by (simp add: t)
    qed
    have "same_entries ?s s2 \<and> drop n (lr_heap s2) = drop n (lr_heap ?s) \<and> heap_upto n s2"
      using False n sw by (intro settle_ok [OF _ _ _ in5 in6]) (auto simp: s2_def same_entries_def)
    then show ?thesis using same_entries_trans [OF sw] dr by simp
  qed
  obtain q s3 where p: "heap_method_Pop s2 = (q, s3)" by fastforce
  have "heap_Remove i st = (q, s3)" unfolding heap_Remove_def Let_def n_def [symmetric] s2_def [symmetric] by (rule p)
  then have "lru_remove key st = s3\<lparr>lr_index := AList.delete (le_key (lr_store st ! r)) (lr_index s3)\<rparr>"
    using Some by (simp add: lru_remove_def pos r Let_def)
  from pop_after [OF assms _ _ _ p this] s2 show ?thesis by (simp add: n_def r(2))
qed

lemma lru_push_ok:
  assumes "lru_ok st" "recency st key = None"
  shows "lru_ok (lru_push now key st) \<and> recency (lru_push now key st) = (recency st)(key \<mapsto> now)"
proof -
  have ok: "positions_ok st" "heap_upto (hlen st) st" "indexed st" using assms(1) by (simp_all add: lru_ok_def)
  define r where "r = length (lr_store st)"
  define e where "e = \<lparr>le_key = key, le_last = now, le_index = int (hlen st)\<rparr>"
  define s where "s = heap_method_Push r (st\<lparr>lr_store := lr_store st @ [\<lparr>le_key = key, le_last = now, le_index = 0\<rparr>]\<rparr>)"
  have s: "lr_heap s = lr_heap st @ [r]" "lr_store s = lr_store st @ [e]" "lr_index s = lr_index st"
    by (simp_all add: s_def heap_method_Push_def set_index_def r_def e_def nth_append)
  have old: "q \<in> set (lr_heap st) \<Longrightarrow> lr_store s ! q = lr_store st ! q" "lr_store s ! r = e" "r \<notin> set (lr_heap st)" for q
    using ok(1) by (auto simp: s positions_ok_def nth_append r_def)
  have at: "k < hlen st \<Longrightarrow> lru_at s k = lru_at st k" "lru_at s (hlen st) = e" for k
    using old by (simp_all add: lru_at_def s(1) nth_append)
  have pos: "positions_ok s"
    using ok(1) old(3) at unfolding positions_ok_def by (auto simp: s r_def e_def less_Suc_eq)
  have up: "same_entries s (lru_up (hlen st) s) \<and> drop (hlen s) (lr_heap (lru_up (hlen st) s)) = drop (hlen s) (lr_heap s) \<and>
      heap_upto (hlen s) (lru_up (hlen st) s)"
  proof (rule up_ok [OF pos])
    show "\<forall>k < hlen s. k \<noteq> hlen st \<longrightarrow> in_order s k"
    proof (intro allI impI)
      fix k assume "k < hlen s" "k \<noteq> hlen st"
      then have k: "k < hlen st" "parent k < hlen st" by (auto simp: s parent_def)
      then show "in_order s k" using ok(2) by (simp add: heap_upto_def in_order_def at_time_def at)
    qed
    show "\<forall>k < hlen s. 0 < k \<and> parent k = hlen st \<and> 0 < hlen st \<longrightarrow> at_time s (parent (hlen st)) \<le> at_time s k"
    proof (intro allI impI, elim conjE)
      fix k assume "k < hlen s" "0 < k" "parent k = hlen st"
      then show "at_time s (parent (hlen st)) \<le> at_time s k" using parent_less [of k] by (simp add: s)
    qed
  qed (simp_all add: s)
  let ?u = "lru_up (hlen st) s" and ?st = "lru_push now key st"
  have p: "?st = ?u\<lparr>lr_index := AList.update key r (lr_index ?u)\<rparr>"
    by (simp add: lru_push_def heap_Push_def Let_def s(1) flip: s_def r_def)
  have u: "mset (lr_heap ?u) = mset (lr_heap s)" "lr_index ?u = lr_index st" "positions_ok ?u"
      "\<And>q. le_key (lr_store ?u ! q) = le_key (lr_store s ! q) \<and> le_last (lr_store ?u ! q) = le_last (lr_store s ! q)"
    using up by (simp_all add: same_entries_def s)
  have hs: "set (lr_heap ?u) = insert r (set (lr_heap st))" using mset_eq_setD [OF u(1)] by (simp add: s)
  have none: "map_of (lr_index st) key = None" using assms(2) by (simp add: recency_def)
  have mi: "map_of (lr_index st) k = Some q \<longleftrightarrow> q \<in> set (lr_heap st) \<and> le_key (lr_store st ! q) = k" for k q
    using ok(3) by (simp add: indexed_def)
  have "map_of (lr_index ?st) k = Some q \<longleftrightarrow> q \<in> set (lr_heap ?st) \<and> le_key (lr_store ?st ! q) = k" for k q
    using mi [of k q] mi [of key q] none old by (auto simp: p u hs update_conv' e_def)
  then have "indexed ?st" using ok(3) by (simp add: indexed_def p u)
  moreover have "recency ?st = (recency st)(key \<mapsto> now)"
  proof
    fix k
    have "lr_store s ! a = lr_store st ! a" if "map_of (lr_index st) k = Some a" for a
      using mi [of k a] that old(1) by simp
    then show "recency ?st k = ((recency st)(key \<mapsto> now)) k"
      using old(2) by (cases "map_of (lr_index st) k") (auto simp: recency_def p u update_conv' e_def)
  qed
  moreover have "positions_ok ?st" "heap_upto (hlen ?st) ?st"
    using u up same_entries_length [of s ?u] by (auto simp: p positions_ok_def heap_upto_def in_order_def at_time_def lru_at_def)
  ultimately show ?thesis by (simp add: lru_ok_def)
qed

lemma lru_touch_ok:
  assumes "lru_ok st"
  shows "lru_ok (lru_touch now key st) \<and>
    recency (lru_touch now key st) = (if recency st key = None then recency st else (recency st)(key \<mapsto> now))"
proof (cases "map_of (lr_index st) key")
  case None
  then show ?thesis using assms by (simp add: lru_touch_def recency_def)
next
  case (Some r)
  have ok: "positions_ok st" "heap_upto (hlen st) st" "indexed st" using assms by (simp_all add: lru_ok_def)
  have r: "r \<in> set (lr_heap st)" "le_key (lr_store st ! r) = key" using ok(3) Some by (auto simp: indexed_def)
  then obtain i where i: "i < hlen st" "lr_heap st ! i = r" by (auto simp: in_set_conv_nth)
  have pos: "nat (le_index (lr_store st ! r)) = i" using ok(1) i by (auto simp: positions_ok_def lru_at_def)
  define s where "s = st\<lparr>lr_store := (lr_store st)[r := (lr_store st ! r)\<lparr>le_last := now\<rparr>]\<rparr>"
  have rl: "r < length (lr_store st)" using ok(1) r(1) by (auto simp: positions_ok_def)
  have s: "lr_heap s = lr_heap st" "lr_index s = lr_index st" "length (lr_store s) = length (lr_store st)" by (simp_all add: s_def)
  have store: "lr_store s ! q = (if q = r then (lr_store st ! r)\<lparr>le_last := now\<rparr> else lr_store st ! q)" for q
    using rl by (simp add: s_def nth_list_update)
  have ne: "k < hlen st \<Longrightarrow> lr_heap st ! k = r \<longleftrightarrow> k = i" for k
    using ok(1) i by (auto simp: positions_ok_def nth_eq_iff_index_eq)
  have "le_index (lru_at s k) = le_index (lru_at st k)" for k by (simp add: lru_at_def s store)
  then have ps: "positions_ok s" using ok(1) by (simp add: positions_ok_def s)
  have t: "at_time s k = at_time st k" if "k < hlen st" "k \<noteq> i" for k
    using ne that by (simp add: at_time_def lru_at_def s store)
  have io: "k < hlen st \<Longrightarrow> 0 < k \<Longrightarrow> at_time st (parent k) \<le> at_time st k" for k
    using ok(2) by (simp add: heap_upto_def in_order_def)
  have in5: "\<forall>k < hlen s. 0 < k \<and> k \<noteq> i \<and> parent k \<noteq> i \<longrightarrow> in_order s k"
  proof (intro allI impI, elim conjE)
    fix k assume k: "k < hlen s" "0 < k" "k \<noteq> i" "parent k \<noteq> i"
    then show "in_order s k" using io [of k] t [of k] t [of "parent k"] parent_less [of k] by (simp add: in_order_def s)
  qed
  have in6: "\<forall>k < hlen s. 0 < k \<and> parent k = i \<and> 0 < i \<longrightarrow> at_time s (parent i) \<le> at_time s k"
  proof (intro allI impI, elim conjE)
    fix k assume k: "k < hlen s" "0 < k" "parent k = i" "0 < i"
    have "at_time st (parent i) \<le> at_time st k" using io [of k] io [of i] k i by (simp add: s)
    then show "at_time s (parent i) \<le> at_time s k"
      using t [of k] t [of "parent i"] k i parent_less [of i] parent_less [of k] by (simp add: s)
  qed
  define u where "u = lru_touch now key st"
  have "u = (case down_moved i (hlen s) s of (moved, st) \<Rightarrow> if moved then st else lru_up i st)"
    using Some by (simp add: u_def lru_touch_def pos heap_Fix_def flip: s_def)
  from settle_ok [OF ps _ le_refl in5 in6 this] i have u: "same_entries s u" "heap_upto (hlen s) u" by (simp_all add: s)
  have "indexed s" using ok(3) by (simp add: indexed_def s store)
  then have "lru_ok u" using u same_entries_indexed [OF u(1)] same_entries_length [OF u(1)] by (simp add: lru_ok_def same_entries_def)
  moreover have "recency s k = ((recency st)(key \<mapsto> now)) k" for k
    using ok(3) r Some by (cases "map_of (lr_index st) k") (auto simp: recency_def s store indexed_def)
  then have "recency u = (recency st)(key \<mapsto> now)" using same_entries_indexed(2) [OF u(1)] by (auto intro!: ext)
  ultimately show ?thesis using Some by (simp add: u_def recency_def)
qed

lemma lru_empty_ok: "lru_ok lru_empty" "recency lru_empty = Map.empty"
  by (simp_all add: lru_ok_def lru_empty_def positions_ok_def heap_upto_def indexed_def recency_def fun_eq_iff)

section \<open>The interface\<close>

text \<open>
  What the profilers rely on: a finite map from keys to the time of their last access, from which the
  oldest key can be taken.
\<close>

locale recency_order =
  fixes ok :: "'s \<Rightarrow> bool" and accessed :: "'s \<Rightarrow> 'k \<Rightarrow> time option" and push :: "time \<Rightarrow> 'k \<Rightarrow> 's \<Rightarrow> 's"
    and touch :: "time \<Rightarrow> 'k \<Rightarrow> 's \<Rightarrow> 's" and remove :: "'k \<Rightarrow> 's \<Rightarrow> 's" and evict :: "'s \<Rightarrow> 'k \<times> 's"
  assumes finite_keys: "ok s \<Longrightarrow> finite (dom (accessed s))"
    and push: "ok s \<Longrightarrow> accessed s k = None \<Longrightarrow> ok (push now k s) \<and> accessed (push now k s) = (accessed s)(k \<mapsto> now)"
    and touch: "ok s \<Longrightarrow> ok (touch now k s) \<and>
      accessed (touch now k s) = (if accessed s k = None then accessed s else (accessed s)(k \<mapsto> now))"
    and remove: "ok s \<Longrightarrow> ok (remove k s) \<and> accessed (remove k s) = (accessed s)(k := None)"
    and evict: "ok s \<Longrightarrow> accessed s \<noteq> Map.empty \<Longrightarrow> evict s = (k, s') \<Longrightarrow>
      ok s' \<and> accessed s' = (accessed s)(k := None) \<and>
      (\<exists>t. accessed s k = Some t \<and> (\<forall>k' u. accessed s k' = Some u \<longrightarrow> t \<le> u))"
begin

lemma touch_dom: "ok s \<Longrightarrow> dom (accessed (touch now k s)) = dom (accessed s)"
  using touch [of s now k] by auto

lemma push_card: "ok s \<Longrightarrow> accessed s k = None \<Longrightarrow> card (dom (accessed (push now k s))) = card (dom (accessed s)) + 1"
  using push [of s k now] finite_keys [of s] by (auto simp: card_insert_if)

lemma evict_card:
  assumes "ok s" "accessed s \<noteq> Map.empty" "evict s = (k, s')"
  shows "card (dom (accessed s')) = card (dom (accessed s)) - 1" "dom (accessed s') = dom (accessed s) - {k}" "k \<in> dom (accessed s)"
proof -
  show d: "dom (accessed s') = dom (accessed s) - {k}" "k \<in> dom (accessed s)" using evict [OF assms] by auto
  show "card (dom (accessed s')) = card (dom (accessed s)) - 1" unfolding d(1) by (rule card_Diff_singleton [OF d(2)])
qed

text \<open>Making room before a new key is added keeps the number of keys within the cap.\<close>

lemma insert_within_cap:
  assumes "ok s" "accessed s k = None" "0 < cap" "card (dom (accessed s)) \<le> cap"
    "room = (if card (dom (accessed s)) < cap \<or> accessed s = Map.empty then s else snd (evict s))"
  shows "card (dom (accessed (push now k room))) \<le> cap"
proof (cases "card (dom (accessed s)) < cap \<or> accessed s = Map.empty")
  case True
  then show ?thesis using push_card [OF assms(1,2)] assms(3,5) by auto
next
  case False
  obtain j s' where e: "evict s = (j, s')" by fastforce
  have s': "ok s'" "accessed s' k = None" using evict [OF assms(1) _ e] False assms(2) by auto
  have "0 < card (dom (accessed s))" using False finite_keys [OF assms(1)] by (simp add: card_gt_0_iff)
  then show ?thesis
    using evict_card(1) [OF assms(1) _ e] push_card [OF s'] False assms(4,5) by (simp add: e)
qed

end

lemma recency_dom: "dom (recency st) = fst ` set (lr_index st)"
proof -
  have "dom (recency st) = dom (map_of (lr_index st))" by (auto simp: recency_def)
  then show ?thesis by (simp add: dom_map_of_conv_image_fst)
qed

lemma heap_empty_iff: "lru_ok st \<Longrightarrow> lr_heap st = [] \<longleftrightarrow> recency st = Map.empty"
proof
  assume ok: "lru_ok st"
  show "recency st = Map.empty" if "lr_heap st = []"
    using ok recency_iff [of st] that by (auto simp: lru_ok_def fun_eq_iff) (meson not_None_eq)
  show "lr_heap st = []" if "recency st = Map.empty"
  proof (rule ccontr)
    assume "lr_heap st \<noteq> []"
    then have "hd (lr_heap st) \<in> set (lr_heap st)" by simp
    then have "recency st (le_key (lr_store st ! hd (lr_heap st))) = Some (le_last (lr_store st ! hd (lr_heap st)))"
      using ok recency_iff [of st] by (auto simp: lru_ok_def)
    then show False using that by simp
  qed
qed

interpretation lru: recency_order lru_ok recency lru_push lru_touch lru_remove lru_evict
proof unfold_locales
  show "lru_ok st \<Longrightarrow> finite (dom (recency st))" for st :: "'a lru" by (simp add: recency_dom)
  fix st s' :: "'a lru" and key now
  assume ok: "lru_ok st"
  show "recency st key = None \<Longrightarrow> lru_ok (lru_push now key st) \<and> recency (lru_push now key st) = (recency st)(key \<mapsto> now)"
    by (rule lru_push_ok [OF ok])
  show "lru_ok (lru_touch now key st) \<and>
      recency (lru_touch now key st) = (if recency st key = None then recency st else (recency st)(key \<mapsto> now))"
    by (rule lru_touch_ok [OF ok])
  show "lru_ok (lru_remove key st) \<and> recency (lru_remove key st) = (recency st)(key := None)"
    by (rule lru_remove_ok [OF ok])
  assume "recency st \<noteq> Map.empty" and e: "lru_evict st = (key, s')"
  then have "lr_heap st \<noteq> []" using heap_empty_iff [OF ok] by simp
  from lru_evict_ok [OF ok this e] show "lru_ok s' \<and> recency s' = (recency st)(key := None) \<and>
      (\<exists>t. recency st key = Some t \<and> (\<forall>k' u. recency st k' = Some u \<longrightarrow> t \<le> u))" .
qed

text \<open>
  C17 (refinement).  The heap with its index implements a map from keys to the time of their last access:
  push and touch set a time, remove forgets a key, and what is taken from a heap that is not empty is a
  key accessed no later than any other.
\<close>

theorem lru_refines_recency:
  fixes st :: "'k lru"
  shows "lru_ok (lru_empty :: 'k lru) \<and> recency (lru_empty :: 'k lru) = Map.empty \<and>
   (lru_ok st \<longrightarrow>
     (recency st key = None \<longrightarrow> lru_ok (lru_push now key st) \<and> recency (lru_push now key st) = (recency st)(key \<mapsto> now)) \<and>
     lru_ok (lru_touch now key st) \<and>
     recency (lru_touch now key st) = (if recency st key = None then recency st else (recency st)(key \<mapsto> now)) \<and>
     lru_ok (lru_remove key st) \<and> recency (lru_remove key st) = (recency st)(key := None) \<and>
     (recency st \<noteq> Map.empty \<and> lru_evict st = (old, st') \<longrightarrow>
       lru_ok st' \<and> recency st' = (recency st)(old := None) \<and>
       (\<exists>t. recency st old = Some t \<and> (\<forall>k u. recency st k = Some u \<longrightarrow> t \<le> u))))"
  using lru.push [of st key now] lru.touch [of st now key] lru.remove [of st key] lru.evict [of st old st']
  by (simp add: lru_empty_ok)

theorem lru_refines_recency_witness:
  "fst (lru_evict (lru_push 3 ''b'' (lru_push 5 ''a'' lru_empty))) = ''b''"
proof -
  let ?a = "lru_push 5 ''a'' lru_empty" let ?b = "lru_push 3 ''b'' ?a"
  have a: "lru_ok ?a \<and> recency ?a = [''a'' \<mapsto> 5]" using lru_refines_recency [of lru_empty "''a''" 5 "''a''" lru_empty] by simp
  then have b: "lru_ok ?b \<and> recency ?b = [''a'' \<mapsto> 5, ''b'' \<mapsto> 3]" using lru_refines_recency [of ?a "''b''" 3 "''b''" lru_empty] by simp
  then have ne: "recency ?b \<noteq> Map.empty" by (metis map_upd_nonempty)
  obtain old st' where e: "lru_evict ?b = (old, st')" by fastforce
  obtain t where t: "recency ?b old = Some t" "\<forall>k u. recency ?b k = Some u \<longrightarrow> t \<le> u"
    using lru_refines_recency [of ?b "''b''" 3 old st'] b ne e by blast
  have "recency ?b ''b'' = Some 3" using b by simp
  then have "t \<le> 3" using t(2) by blast
  then show ?thesis using t(1) b e by (auto split: if_splits)
qed

end
