(* ===== verification/Workload_Profiles.thy ===== *)
theory Workload_Profiles
  imports Lru_Heap
begin

text \<open>
  Profiles per workload (\<open>profiler/workload.go\<close>): sixteen shards chosen by a hash of the workload key, each
  with the profiles of its keys and their order of use, and a count of all profiles that bounds them.
  What a profile holds is a type parameter, with its creation, its update by an event and its expiry as
  arguments: the statistics of \<open>profile.go\<close> do not influence which profiles exist.
\<close>

section \<open>Keys\<close>

record WorkloadKey =
  wk_Comm :: string
  wk_Namespace :: string
  wk_AppLabel :: string

definition WorkloadKey_String :: "WorkloadKey \<Rightarrow> string" where
  "WorkloadKey_String k = wk_Comm k @ ''|'' @ wk_Namespace k @ ''|'' @ wk_AppLabel k"

definition internComm :: "byte list \<Rightarrow> string" where
  "internComm comm = string_of_bytes (takeWhile (\<lambda>b. b \<noteq> 0) comm)"

definition WorkloadKeyFromEvent :: "event \<Rightarrow> WorkloadKey" where
  "WorkloadKeyFromEvent e =
     (case ev_enrichment e of
        None \<Rightarrow> \<lparr>wk_Comm = internComm (ev_comm e), wk_Namespace = [], wk_AppLabel = []\<rparr>
      | Some en \<Rightarrow> \<lparr>wk_Comm = internComm (ev_comm e), wk_Namespace = en_namespace en,
          wk_AppLabel = (case map_of (en_labels en) ''app'' of Some v \<Rightarrow> v | None \<Rightarrow> [])\<rparr>)"

definition fnv_byte :: "u32 \<Rightarrow> char \<Rightarrow> u32" where
  "fnv_byte h c = (xor h (word_of_nat (of_char c))) * 16777619"

definition hashWorkloadKey :: "WorkloadKey \<Rightarrow> u32" where
  "hashWorkloadKey k =
     foldl fnv_byte (fnv_byte (foldl fnv_byte (fnv_byte (foldl fnv_byte 2166136261 (wk_Comm k)) CHR ''|'') (wk_Namespace k)) CHR ''|'')
       (wk_AppLabel k)"

section \<open>The manager\<close>

definition workloadShardCount :: nat where
  "workloadShardCount = 16"

record 'p workloadShard =
  ws_profiles :: "(WorkloadKey \<times> 'p) list"
  ws_lru :: "WorkloadKey lru"

record 'p WorkloadProfileManager =
  wm_shards :: "'p workloadShard list"
  wm_maxKeys :: int
  wm_entryCount :: int
  wm_evictions :: nat

definition wshard_no :: "WorkloadKey \<Rightarrow> nat" where
  "wshard_no key = nat (uint (hashWorkloadKey key) mod int workloadShardCount)"

text \<open>\<open>pid_max\<close> is what \<open>readSystemPIDMax\<close> returned.\<close>

definition NewWorkloadProfileManager :: "int \<Rightarrow> int \<Rightarrow> 'p WorkloadProfileManager" where
  "NewWorkloadProfileManager pid_max maxKeys =
     \<lparr>wm_shards = replicate workloadShardCount \<lparr>ws_profiles = [], ws_lru = lru_empty\<rparr>,
      wm_maxKeys = (if maxKeys \<le> 0 then pid_max else maxKeys), wm_entryCount = 0, wm_evictions = 0\<rparr>"

definition wshardFor :: "'p WorkloadProfileManager \<Rightarrow> WorkloadKey \<Rightarrow> 'p workloadShard" where
  "wshardFor wpm key = wm_shards wpm ! wshard_no key"

definition GetByKey :: "WorkloadKey \<Rightarrow> 'p WorkloadProfileManager \<Rightarrow> 'p option" where
  "GetByKey key wpm = map_of (ws_profiles (wshardFor wpm key)) key"

text \<open>The scan for the shard whose oldest entry is the oldest of all.\<close>

fun oldest_shard :: "(nat \<times> time) option \<Rightarrow> nat \<Rightarrow> 'p workloadShard list \<Rightarrow> (nat \<times> time) option" where
  "oldest_shard best i [] = best"
| "oldest_shard best i (sh # shs) =
     oldest_shard
       (if lr_heap (ws_lru sh) \<noteq> [] \<and> (case best of None \<Rightarrow> True | Some (_, t) \<Rightarrow> le_last (lru_at (ws_lru sh) 0) < t)
        then Some (i, le_last (lru_at (ws_lru sh) 0)) else best) (i + 1) shs"

definition evict_shard :: "'p workloadShard \<Rightarrow> 'p workloadShard" where
  "evict_shard sh = (case lru_evict (ws_lru sh) of (key, l) \<Rightarrow> \<lparr>ws_profiles = AList.delete key (ws_profiles sh), ws_lru = l\<rparr>)"

definition evictIfOverCapacity :: "'p WorkloadProfileManager \<Rightarrow> 'p WorkloadProfileManager" where
  "evictIfOverCapacity wpm =
     (if wm_maxKeys wpm \<le> 0 \<or> wm_entryCount wpm < wm_maxKeys wpm then wpm
      else case oldest_shard None 0 (wm_shards wpm) of
        None \<Rightarrow> wpm
      | Some (i, t) \<Rightarrow>
          wpm\<lparr>wm_shards := (wm_shards wpm)[i := evict_shard (wm_shards wpm ! i)],
              wm_entryCount := wm_entryCount wpm - 1, wm_evictions := wm_evictions wpm + 1\<rparr>)"

definition put_profile :: "WorkloadKey \<Rightarrow> 'p \<Rightarrow> 'p workloadShard \<Rightarrow> 'p workloadShard" where
  "put_profile key p sh = sh\<lparr>ws_profiles := AList.update key p (ws_profiles sh)\<rparr>"

text \<open>Looking a key up under the lock: a known key is touched, an unknown one gets a new profile.\<close>

definition lookup_or_create :: "(WorkloadKey \<Rightarrow> 'p) \<Rightarrow> time \<Rightarrow> WorkloadKey \<Rightarrow> 'p WorkloadProfileManager \<Rightarrow> 'p \<times> 'p WorkloadProfileManager" where
  "lookup_or_create fresh now key wpm =
     (let sh = wshardFor wpm key
      in case map_of (ws_profiles sh) key of
           Some p \<Rightarrow> (p, wpm\<lparr>wm_shards := (wm_shards wpm)[wshard_no key := sh\<lparr>ws_lru := lru_touch now key (ws_lru sh)\<rparr>]\<rparr>)
         | None \<Rightarrow> (fresh key,
             wpm\<lparr>wm_shards := (wm_shards wpm)[wshard_no key := (put_profile key (fresh key) sh)\<lparr>ws_lru := lru_push now key (ws_lru sh)\<rparr>],
                 wm_entryCount := wm_entryCount wpm + 1\<rparr>))"

definition GetOrCreateByKey :: "(WorkloadKey \<Rightarrow> 'p) \<Rightarrow> time \<Rightarrow> WorkloadKey \<Rightarrow> 'p WorkloadProfileManager \<Rightarrow> 'p \<times> 'p WorkloadProfileManager" where
  "GetOrCreateByKey fresh now key wpm = lookup_or_create fresh now key (evictIfOverCapacity wpm)"

definition RecordEvent :: "(WorkloadKey \<Rightarrow> 'p) \<Rightarrow> (event \<Rightarrow> 'p \<Rightarrow> 'p) \<Rightarrow> time \<Rightarrow> event \<Rightarrow> 'p WorkloadProfileManager \<Rightarrow> 'p WorkloadProfileManager" where
  "RecordEvent fresh upd now e wpm =
     (let key = WorkloadKeyFromEvent e
      in case lookup_or_create fresh now key (evictIfOverCapacity wpm) of (p, wpm) \<Rightarrow>
           wpm\<lparr>wm_shards := (wm_shards wpm)[wshard_no key := put_profile key (upd e p) (wshardFor wpm key)]\<rparr>)"

definition clean_wshard :: "('p \<Rightarrow> bool) \<Rightarrow> 'p workloadShard \<Rightarrow> nat \<times> 'p workloadShard" where
  "clean_wshard expired sh =
     (let gone = map fst (filter (\<lambda>(k, p). expired p) (ws_profiles sh))
      in (length gone, \<lparr>ws_profiles = fold AList.delete gone (ws_profiles sh), ws_lru = fold lru_remove gone (ws_lru sh)\<rparr>))"

definition wpm_CleanupExpired :: "('p \<Rightarrow> bool) \<Rightarrow> 'p WorkloadProfileManager \<Rightarrow> nat \<times> 'p WorkloadProfileManager" where
  "wpm_CleanupExpired expired wpm =
     (let rs = map (clean_wshard expired) (wm_shards wpm); n = sum_list (map fst rs)
      in (n, wpm\<lparr>wm_shards := map snd rs, wm_entryCount := wm_entryCount wpm - int n\<rparr>))"

definition wpm_Len :: "'p WorkloadProfileManager \<Rightarrow> nat" where
  "wpm_Len wpm = sum_list (map (\<lambda>sh. length (ws_profiles sh)) (wm_shards wpm))"

definition wpm_Keys :: "'p WorkloadProfileManager \<Rightarrow> WorkloadKey list" where
  "wpm_Keys wpm = concat (map (\<lambda>sh. map fst (ws_profiles sh)) (wm_shards wpm))"

definition wpm_Flush :: "'p WorkloadProfileManager \<Rightarrow> 'p WorkloadProfileManager" where
  "wpm_Flush wpm = wpm\<lparr>wm_shards := map (\<lambda>sh. \<lparr>ws_profiles = [], ws_lru = lru_empty\<rparr>) (wm_shards wpm), wm_entryCount := 0\<rparr>"

section \<open>Invariant\<close>

definition wshard_ok :: "nat \<Rightarrow> 'p workloadShard \<Rightarrow> bool" where
  "wshard_ok i sh \<longleftrightarrow> lru_ok (ws_lru sh) \<and> distinct_keys (ws_profiles sh) \<and>
     dom (recency (ws_lru sh)) = fst ` set (ws_profiles sh) \<and> (\<forall>k \<in> fst ` set (ws_profiles sh). wshard_no k = i)"

definition wpm_ok :: "'p WorkloadProfileManager \<Rightarrow> bool" where
  "wpm_ok wpm \<longleftrightarrow> length (wm_shards wpm) = 16 \<and> (\<forall>i < 16. wshard_ok i (wm_shards wpm ! i)) \<and>
     wm_entryCount wpm = int (wpm_Len wpm)"

lemma wshard_no_less [simp]: "wshard_no key < 16"
  by (simp add: wshard_no_def workloadShardCount_def nat_less_iff)

lemma Len_update:
  assumes "i < length (wm_shards wpm)"
  shows "int (wpm_Len (wpm\<lparr>wm_shards := (wm_shards wpm)[i := sh]\<rparr>)) =
    int (wpm_Len wpm) + int (length (ws_profiles sh)) - int (length (ws_profiles (wm_shards wpm ! i)))"
proof -
  have "length (ws_profiles (wm_shards wpm ! i)) \<le> wpm_Len wpm"
    unfolding wpm_Len_def using assms elem_le_sum_list [of i "map (\<lambda>sh. length (ws_profiles sh)) (wm_shards wpm)"] by simp
  then show ?thesis using assms by (simp add: wpm_Len_def map_update sum_list_update)
qed

lemma Len_fields [simp]:
  "wpm_Len (wpm\<lparr>wm_entryCount := n\<rparr>) = wpm_Len wpm" "wpm_Len (wpm\<lparr>wm_evictions := m\<rparr>) = wpm_Len wpm"
  by (simp_all add: wpm_Len_def)

lemma wpm_ok_update:
  assumes "wpm_ok wpm" "i < 16" "wshard_ok i sh" "wm_shards wpm' = (wm_shards wpm)[i := sh]"
    "wm_entryCount wpm' = wm_entryCount wpm + int (length (ws_profiles sh)) - int (length (ws_profiles (wm_shards wpm ! i)))"
  shows "wpm_ok wpm'"
proof -
  have "int (wpm_Len wpm') = int (wpm_Len wpm) + int (length (ws_profiles sh)) - int (length (ws_profiles (wm_shards wpm ! i)))"
    using Len_update [of i wpm sh] assms(1,2,4) by (simp add: wpm_Len_def wpm_ok_def)
  then show ?thesis using assms unfolding wpm_ok_def by (auto simp: nth_list_update)
qed

lemma oldest_shard_ok:
  "(case oldest_shard best i shs of
      None \<Rightarrow> best = None \<and> (\<forall>sh\<in>set shs. lr_heap (ws_lru sh) = [])
    | Some (j, t) \<Rightarrow> (best = Some (j, t) \<or> (\<exists>m < length shs. j = i + m \<and> lr_heap (ws_lru (shs ! m)) \<noteq> [] \<and> t = at_time (ws_lru (shs ! m)) 0)) \<and>
        (\<forall>sh\<in>set shs. lr_heap (ws_lru sh) \<noteq> [] \<longrightarrow> t \<le> at_time (ws_lru sh) 0) \<and> (\<forall>j' u. best = Some (j', u) \<longrightarrow> t \<le> u))"
proof (induction best i shs rule: oldest_shard.induct)
  case (2 best i sh shs)
  let ?t = "le_last (lru_at (ws_lru sh) 0)"
  define best' where "best' = (if lr_heap (ws_lru sh) \<noteq> [] \<and> (case best of None \<Rightarrow> True | Some (_, t) \<Rightarrow> ?t < t) then Some (i, ?t) else best)"
  have IH: "case oldest_shard best' (i + 1) shs of
      None \<Rightarrow> best' = None \<and> (\<forall>sh\<in>set shs. lr_heap (ws_lru sh) = [])
    | Some (j, t) \<Rightarrow> (best' = Some (j, t) \<or> (\<exists>m < length shs. j = i + 1 + m \<and> lr_heap (ws_lru (shs ! m)) \<noteq> [] \<and> t = at_time (ws_lru (shs ! m)) 0)) \<and>
        (\<forall>sh\<in>set shs. lr_heap (ws_lru sh) \<noteq> [] \<longrightarrow> t \<le> at_time (ws_lru sh) 0) \<and> (\<forall>j' u. best' = Some (j', u) \<longrightarrow> t \<le> u)"
    using "2.IH" unfolding best'_def .
  have o: "oldest_shard best i (sh # shs) = oldest_shard best' (i + 1) shs" by (simp add: best'_def)
  show ?case
  proof (cases "oldest_shard best' (i + 1) shs")
    case None
    then show ?thesis using IH unfolding o by (auto simp: best'_def split: if_splits option.splits)
  next
    case (Some p)
    obtain j t where p: "p = (j, t)" by force
    note IH = IH [unfolded Some p option.case prod.case]
    have le: "lr_heap (ws_lru sh) \<noteq> [] \<longrightarrow> t \<le> at_time (ws_lru sh) 0" "\<forall>j' u. best = Some (j', u) \<longrightarrow> t \<le> u"
      using conjunct2 [OF conjunct2 [OF IH]] by (auto simp: best'_def at_time_def split: if_splits option.splits)
    have "best = Some (j, t) \<or> (\<exists>m < length (sh # shs). j = i + m \<and> lr_heap (ws_lru ((sh # shs) ! m)) \<noteq> [] \<and> t = at_time (ws_lru ((sh # shs) ! m)) 0)"
    proof (cases "best' = Some (j, t)")
      case True
      then have "best = Some (j, t) \<or> (j = i + 0 \<and> lr_heap (ws_lru ((sh # shs) ! 0)) \<noteq> [] \<and> t = at_time (ws_lru ((sh # shs) ! 0)) 0)"
        by (auto simp: best'_def at_time_def split: if_splits)
      then show ?thesis by blast
    next
      case False
      then obtain m where "m < length shs" "j = i + 1 + m" "lr_heap (ws_lru (shs ! m)) \<noteq> []" "t = at_time (ws_lru (shs ! m)) 0"
        using IH by blast
      then have "Suc m < length (sh # shs) \<and> j = i + Suc m \<and> lr_heap (ws_lru ((sh # shs) ! Suc m)) \<noteq> [] \<and> t = at_time (ws_lru ((sh # shs) ! Suc m)) 0" by simp
      then show ?thesis by blast
    qed
    then show ?thesis using IH le unfolding o Some p by auto
  qed
qed (auto split: option.split)

lemma keys_delete: "fst ` set (AList.delete k al) = fst ` set al - {k}"
  by (auto simp: AList.delete_eq image_iff)

lemma evict_shard_ok:
  assumes "wshard_ok i sh" "lr_heap (ws_lru sh) \<noteq> []" "lru_evict (ws_lru sh) = (key, l)"
  shows "wshard_ok i (evict_shard sh) \<and> length (ws_profiles (evict_shard sh)) = length (ws_profiles sh) - 1 \<and>
    key \<in> fst ` set (ws_profiles sh) \<and> ws_profiles (evict_shard sh) = AList.delete key (ws_profiles sh) \<and>
    recency (ws_lru sh) key = Some (at_time (ws_lru sh) 0) \<and> recency (ws_lru (evict_shard sh)) = (recency (ws_lru sh))(key := None)"
proof -
  have ok: "lru_ok (ws_lru sh)" "distinct_keys (ws_profiles sh)" "dom (recency (ws_lru sh)) = fst ` set (ws_profiles sh)"
    using assms(1) by (simp_all add: wshard_ok_def)
  have ne: "recency (ws_lru sh) \<noteq> Map.empty" using heap_empty_iff [OF ok(1)] assms(2) by simp
  note e = lru.evict [OF ok(1) ne assms(3)]
  have k: "key \<in> fst ` set (ws_profiles sh)" using e ok(3) by blast
  have es: "evict_shard sh = \<lparr>ws_profiles = AList.delete key (ws_profiles sh), ws_lru = l\<rparr>"
    by (simp add: evict_shard_def assms(3))
  have "length (AList.delete key (ws_profiles sh)) = length (ws_profiles sh) - 1"
  proof -
    have "length (AList.delete key (ws_profiles sh)) = card (fst ` set (ws_profiles sh) - {key})"
      using distinct_card [of "map fst (AList.delete key (ws_profiles sh))"] ok(2) by (simp add: keys_delete)
    also have "\<dots> = card (fst ` set (ws_profiles sh)) - 1" by (rule card_Diff_singleton [OF k])
    also have "card (fst ` set (ws_profiles sh)) = length (ws_profiles sh)"
      using distinct_card [OF ok(2)] by simp
    finally show ?thesis .
  qed
  moreover have "wshard_ok i (evict_shard sh)"
    using assms(1) e by (auto simp: wshard_ok_def es keys_delete)
  moreover have "recency (ws_lru sh) key = Some (at_time (ws_lru sh) 0)"
  proof -
    obtain t where t: "recency (ws_lru sh) key = Some t" "\<forall>k u. recency (ws_lru sh) k = Some u \<longrightarrow> t \<le> u" using e by blast
    have ix: "indexed (ws_lru sh)" and hp: "heap_upto (hlen (ws_lru sh)) (ws_lru sh)" using ok(1) by (simp_all add: lru_ok_def)
    have "recency (ws_lru sh) (le_key (lru_at (ws_lru sh) 0)) = Some (at_time (ws_lru sh) 0)"
      using recency_iff [OF ix] assms(2) by (auto simp: at_time_def lru_at_def)
    then have "t \<le> at_time (ws_lru sh) 0" using t(2) by blast
    moreover have "at_time (ws_lru sh) 0 \<le> t"
      using t(1) heap_min [OF hp] by (auto simp: recency_iff [OF ix] in_set_conv_nth at_time_def lru_at_def)
    ultimately show ?thesis using t(1) by simp
  qed
  ultimately show ?thesis using e k by (simp add: es)
qed

definition accessed_at :: "'p WorkloadProfileManager \<Rightarrow> WorkloadKey \<Rightarrow> time option" where
  "accessed_at wpm key = recency (ws_lru (wshardFor wpm key)) key"

lemma wshardFor_update:
  assumes "length (wm_shards wpm) = 16" "i < 16" "wm_shards wpm' = (wm_shards wpm)[i := sh]"
  shows "wshardFor wpm' k = (if wshard_no k = i then sh else wshardFor wpm k)"
  using assms by (simp add: wshardFor_def nth_list_update)

lemma wshardFor_ok: "wpm_ok wpm \<Longrightarrow> wshard_ok (wshard_no k) (wshardFor wpm k)"
  by (simp add: wpm_ok_def wshardFor_def)

lemma heap_nonempty_iff: "wshard_ok i sh \<Longrightarrow> lr_heap (ws_lru sh) \<noteq> [] \<longleftrightarrow> ws_profiles sh \<noteq> []"
  using heap_empty_iff [of "ws_lru sh"] by (auto simp: wshard_ok_def)

lemma evictIfOverCapacity_ok:
  assumes "wpm_ok wpm"
  defines "wpm' \<equiv> evictIfOverCapacity wpm"
  shows "wpm_ok wpm' \<and> wm_maxKeys wpm' = wm_maxKeys wpm \<and>
    (wpm' = wpm \<and> (wm_maxKeys wpm \<le> 0 \<or> wm_entryCount wpm < wm_maxKeys wpm \<or> wm_entryCount wpm = 0) \<or>
     (\<exists>key t. GetByKey key wpm \<noteq> None \<and> accessed_at wpm key = Some t \<and> (\<forall>k u. accessed_at wpm k = Some u \<longrightarrow> t \<le> u) \<and>
       (\<forall>k. GetByKey k wpm' = (if k = key then None else GetByKey k wpm)) \<and> wm_entryCount wpm' = wm_entryCount wpm - 1))"
proof (cases "wm_maxKeys wpm \<le> 0 \<or> wm_entryCount wpm < wm_maxKeys wpm")
  case True
  then show ?thesis using assms(1) by (auto simp: wpm'_def evictIfOverCapacity_def)
next
  case over: False
  have sh: "length (wm_shards wpm) = 16" "\<And>i. i < 16 \<Longrightarrow> wshard_ok i (wm_shards wpm ! i)"
    using assms(1) by (simp_all add: wpm_ok_def)
  note o = oldest_shard_ok [where best = None and i = 0 and shs = "wm_shards wpm"]
  show ?thesis
  proof (cases "oldest_shard None 0 (wm_shards wpm)")
    case None
    then have "\<forall>s\<in>set (wm_shards wpm). lr_heap (ws_lru s) = []" using o by simp
    then have "\<forall>s\<in>set (wm_shards wpm). ws_profiles s = []" using sh heap_nonempty_iff by (metis in_set_conv_nth)
    then have "wpm_Len wpm = 0" by (simp add: wpm_Len_def)
    then have "wm_entryCount wpm = 0" using assms(1) by (simp add: wpm_ok_def)
    then show ?thesis using over None assms(1) by (simp add: wpm'_def evictIfOverCapacity_def)
  next
    case (Some p)
    obtain i t where p: "p = (i, t)" by force
    let ?s = "wm_shards wpm ! i"
    have i: "i < 16" "lr_heap (ws_lru ?s) \<noteq> []" "t = at_time (ws_lru ?s) 0"
      and le: "\<forall>s\<in>set (wm_shards wpm). lr_heap (ws_lru s) \<noteq> [] \<longrightarrow> t \<le> at_time (ws_lru s) 0"
      using o sh(1) by (auto simp: Some p)
    have wpm': "wpm' = wpm\<lparr>wm_shards := (wm_shards wpm)[i := evict_shard ?s], wm_entryCount := wm_entryCount wpm - 1, wm_evictions := wm_evictions wpm + 1\<rparr>"
      using over by (simp add: wpm'_def evictIfOverCapacity_def Some p)
    obtain key l where e: "lru_evict (ws_lru ?s) = (key, l)" by fastforce
    note es = evict_shard_ok [OF sh(2) [OF i(1)] i(2) e]
    have key: "wshard_no key = i" "wshardFor wpm key = ?s" using es sh(2) [OF i(1)] by (auto simp: wshard_ok_def wshardFor_def)
    have ne: "ws_profiles ?s \<noteq> []" using es by auto
    have "wpm_ok wpm'"
      by (rule wpm_ok_update [OF assms(1) i(1)]) (use es ne in \<open>auto simp: wpm' Suc_leI\<close>)
    moreover have "GetByKey k wpm' = (if k = key then None else GetByKey k wpm)" for k
      using wshardFor_update [OF sh(1) i(1), of wpm' "evict_shard ?s" k] es key
      by (auto simp: GetByKey_def wpm' wshardFor_def)
    moreover have "t \<le> u" if "accessed_at wpm k = Some u" for k u
    proof -
      let ?q = "wshardFor wpm k"
      have q: "?q \<in> set (wm_shards wpm)" "lru_ok (ws_lru ?q)" using sh wshardFor_ok [OF assms(1), of k] by (auto simp: wshardFor_def wshard_ok_def)
      have r: "recency (ws_lru ?q) k = Some u" using that by (simp add: accessed_at_def)
      then have ne: "lr_heap (ws_lru ?q) \<noteq> []" using heap_empty_iff [OF q(2)] by auto
      have "at_time (ws_lru ?q) 0 \<le> u"
        using r q(2) heap_min [of "hlen (ws_lru ?q)" "ws_lru ?q"] by (auto simp: lru_ok_def recency_iff in_set_conv_nth at_time_def lru_at_def)
      then show ?thesis using le q(1) ne by force
    qed
    moreover have "GetByKey key wpm \<noteq> None" "accessed_at wpm key = Some t"
      using es key i by (auto simp: GetByKey_def accessed_at_def map_of_eq_None_iff)
    ultimately show ?thesis by (auto simp: wpm')
  qed
qed

lemma keys_update: "fst ` set (AList.update k v al) = insert k (fst ` set al)"
  by (simp add: dom_update flip: dom_map_of_conv_image_fst) (auto simp: update_conv')

lemma length_update_key: "length (AList.update k v al) = length al + (if k \<in> fst ` set al then 0 else 1)"
  by (induction al) auto

lemma lookup_or_create_ok:
  assumes "wpm_ok wpm" "lookup_or_create fresh now key wpm = (p, wpm')"
  shows "wpm_ok wpm' \<and> wm_maxKeys wpm' = wm_maxKeys wpm \<and> p = (case GetByKey key wpm of Some q \<Rightarrow> q | None \<Rightarrow> fresh key) \<and>
    (\<forall>k. GetByKey k wpm' = (if k = key then Some p else GetByKey k wpm)) \<and>
    wm_entryCount wpm' = wm_entryCount wpm + (if GetByKey key wpm = None then 1 else 0)"
proof -
  let ?s = "wshardFor wpm key"
  have len: "length (wm_shards wpm) = 16" and sh: "wshard_ok (wshard_no key) ?s"
    using assms(1) wshardFor_ok by (auto simp: wpm_ok_def)
  have nth: "wm_shards wpm ! wshard_no key = ?s" by (simp add: wshardFor_def)
  have "\<exists>sh. wm_shards wpm' = (wm_shards wpm)[wshard_no key := sh] \<and> wshard_ok (wshard_no key) sh \<and>
      (\<forall>k. map_of (ws_profiles sh) k = (if k = key then Some p else map_of (ws_profiles ?s) k)) \<and>
      wm_entryCount wpm' = wm_entryCount wpm + int (length (ws_profiles sh)) - int (length (ws_profiles ?s)) \<and>
      wm_entryCount wpm' = wm_entryCount wpm + (if GetByKey key wpm = None then 1 else 0)"
  proof (cases "map_of (ws_profiles ?s) key")
    case None
    let ?n = "(put_profile key (fresh key) ?s)\<lparr>ws_lru := lru_push now key (ws_lru ?s)\<rparr>"
    have k: "key \<notin> fst ` set (ws_profiles ?s)" using None by (simp add: map_of_eq_None_iff)
    then have "recency (ws_lru ?s) key = None" using sh by (auto simp: wshard_ok_def)
    then have "wshard_ok (wshard_no key) ?n"
      using sh lru.push [of "ws_lru ?s" key now] by (auto simp: wshard_ok_def put_profile_def keys_update)
    then show ?thesis
      using None k assms(2) by (intro exI [of _ ?n]) (auto simp: lookup_or_create_def Let_def put_profile_def length_update_key GetByKey_def update_conv')
  next
    case (Some q)
    let ?n = "?s\<lparr>ws_lru := lru_touch now key (ws_lru ?s)\<rparr>"
    have "wshard_ok (wshard_no key) ?n"
      using sh lru.touch [of "ws_lru ?s" now key] lru.touch_dom [of "ws_lru ?s" now key] by (simp add: wshard_ok_def)
    then show ?thesis
      using Some assms(2) by (intro exI [of _ ?n]) (auto simp: lookup_or_create_def Let_def GetByKey_def)
  qed
  then obtain sh' where sh': "wm_shards wpm' = (wm_shards wpm)[wshard_no key := sh']" "wshard_ok (wshard_no key) sh'"
      "\<forall>k. map_of (ws_profiles sh') k = (if k = key then Some p else map_of (ws_profiles ?s) k)"
      "wm_entryCount wpm' = wm_entryCount wpm + int (length (ws_profiles sh')) - int (length (ws_profiles ?s))"
      "wm_entryCount wpm' = wm_entryCount wpm + (if GetByKey key wpm = None then 1 else 0)"
    by blast
  have "wpm_ok wpm'" by (rule wpm_ok_update [OF assms(1) wshard_no_less sh'(2,1)]) (simp add: sh'(4) nth)
  moreover have "GetByKey k wpm' = (if k = key then Some p else GetByKey k wpm)" for k
  proof -
    have "wshard_no k = wshard_no key \<Longrightarrow> wshardFor wpm k = ?s" by (simp add: wshardFor_def)
    then show ?thesis using wshardFor_update [OF len wshard_no_less sh'(1), of k] sh'(3) by (auto simp: GetByKey_def)
  qed
  moreover have "p = (case GetByKey key wpm of Some q \<Rightarrow> q | None \<Rightarrow> fresh key)" "wm_maxKeys wpm' = wm_maxKeys wpm"
    using assms(2) by (auto simp: lookup_or_create_def Let_def GetByKey_def split: option.splits)
  ultimately show ?thesis using sh'(5) by blast
qed

lemma put_known_ok:
  assumes "wpm_ok wpm" "GetByKey key wpm \<noteq> None"
    "wpm' = wpm\<lparr>wm_shards := (wm_shards wpm)[wshard_no key := put_profile key p (wshardFor wpm key)]\<rparr>"
  shows "wpm_ok wpm' \<and> (\<forall>k. GetByKey k wpm' = (if k = key then Some p else GetByKey k wpm))"
proof -
  let ?s = "wshardFor wpm key"
  have len: "length (wm_shards wpm) = 16" and sh: "wshard_ok (wshard_no key) ?s"
    using assms(1) wshardFor_ok by (auto simp: wpm_ok_def)
  have nth: "wm_shards wpm ! wshard_no key = ?s" by (simp add: wshardFor_def)
  have k: "key \<in> fst ` set (ws_profiles ?s)" using assms(2) by (simp add: GetByKey_def map_of_eq_None_iff)
  have sh': "wshard_ok (wshard_no key) (put_profile key p ?s)" "length (ws_profiles (put_profile key p ?s)) = length (ws_profiles ?s)"
    using sh k by (auto simp: wshard_ok_def put_profile_def keys_update length_update_key)
  have "wpm_ok wpm'" by (rule wpm_ok_update [OF assms(1) wshard_no_less sh'(1)]) (simp_all add: assms(3) sh'(2) nth)
  moreover have "GetByKey k wpm' = (if k = key then Some p else GetByKey k wpm)" for k
  proof -
    have "wshard_no k = wshard_no key \<Longrightarrow> wshardFor wpm k = ?s" by (simp add: wshardFor_def)
    then show ?thesis
      using wshardFor_update [OF len wshard_no_less, of wpm' key "put_profile key p ?s" k]
      by (auto simp: GetByKey_def assms(3) put_profile_def update_conv')
  qed
  ultimately show ?thesis by blast
qed

lemma fold_remove_ok:
  "lru_ok l \<Longrightarrow> lru_ok (fold lru_remove ks l) \<and> recency (fold lru_remove ks l) = (\<lambda>k. if k \<in> set ks then None else recency l k)"
proof (induction ks arbitrary: l)
  case (Cons k ks)
  then show ?case using Cons.IH [of "lru_remove k l"] lru.remove [of l k] by (auto simp: fun_eq_iff)
qed simp

lemma clean_wshard_ok:
  assumes "wshard_ok i sh" "clean_wshard expired sh = (n, sh')"
  shows "wshard_ok i sh' \<and> ws_profiles sh' = filter (\<lambda>(k, p). \<not> expired p) (ws_profiles sh) \<and> n + length (ws_profiles sh') = length (ws_profiles sh)"
proof -
  let ?gone = "map fst (filter (\<lambda>(k, p). expired p) (ws_profiles sh))"
  have d: "distinct_keys (ws_profiles sh)" using assms(1) by (simp add: wshard_ok_def)
  have "fold AList.delete ks al = filter (\<lambda>p. fst p \<notin> set ks) al" for ks and al :: "(WorkloadKey \<times> 'a) list"
    by (induction ks arbitrary: al) (auto simp: AList.delete_eq intro!: filter_cong)
  then have "fold AList.delete ?gone (ws_profiles sh) = filter (\<lambda>p. fst p \<notin> set ?gone) (ws_profiles sh)" .
  also have "\<dots> = filter (\<lambda>(k, p). \<not> expired p) (ws_profiles sh)"
    using d by (intro filter_cong refl) (force simp: distinct_map inj_on_def)
  finally have pr: "ws_profiles sh' = filter (\<lambda>(k, p). \<not> expired p) (ws_profiles sh)"
    using assms(2) by (auto simp: clean_wshard_def Let_def)
  have l: "ws_lru sh' = fold lru_remove ?gone (ws_lru sh)" "n = length ?gone" using assms(2) by (auto simp: clean_wshard_def Let_def)
  have "n + length (ws_profiles sh') = length (ws_profiles sh)"
    using sum_length_filter_compl [of "\<lambda>(k, p). expired p" "ws_profiles sh"] by (simp add: pr l(2) case_prod_unfold)
  moreover have "dom (recency (ws_lru sh')) = fst ` set (ws_profiles sh')"
  proof -
    have "dom (recency (ws_lru sh')) = dom (recency (ws_lru sh)) - set ?gone"
      using fold_remove_ok [of "ws_lru sh" ?gone] assms(1) by (auto simp: l(1) wshard_ok_def dom_def)
    also have "\<dots> = fst ` set (ws_profiles sh')"
      using assms(1) d by (force simp: wshard_ok_def pr distinct_map inj_on_def)
    finally show ?thesis .
  qed
  ultimately show ?thesis
    using assms(1) fold_remove_ok [of "ws_lru sh" ?gone] pr unfolding wshard_ok_def l(1) by auto
qed

lemma CleanupExpired_ok:
  assumes "wpm_ok wpm" "wpm_CleanupExpired expired wpm = (n, wpm')"
  shows "wpm_ok wpm' \<and> wm_maxKeys wpm' = wm_maxKeys wpm \<and> n + wpm_Len wpm' = wpm_Len wpm \<and>
    GetByKey k wpm' = (case GetByKey k wpm of Some p \<Rightarrow> if expired p then None else Some p | None \<Rightarrow> None)"
proof -
  have sh: "length (wm_shards wpm) = 16" "\<And>i. i < 16 \<Longrightarrow> wshard_ok i (wm_shards wpm ! i)" using assms(1) by (simp_all add: wpm_ok_def)
  have n: "n = sum_list (map (\<lambda>s. fst (clean_wshard expired s)) (wm_shards wpm))"
    and w: "wpm' = wpm\<lparr>wm_shards := map (\<lambda>s. snd (clean_wshard expired s)) (wm_shards wpm), wm_entryCount := wm_entryCount wpm - int n\<rparr>"
    using assms(2) by (auto simp: wpm_CleanupExpired_def Let_def comp_def)
  note c = clean_wshard_ok [OF sh(2) surjective_pairing, of _ expired]
  have eq: "fst (clean_wshard expired s) + length (ws_profiles (snd (clean_wshard expired s))) = length (ws_profiles s)"
    if "s \<in> set (wm_shards wpm)" for s
    using that c sh(1) by (auto simp: in_set_conv_nth)
  have "n + wpm_Len wpm' = wpm_Len wpm"
    using eq unfolding n wpm_Len_def w by (simp add: sum_list_addf [symmetric] comp_def cong: map_cong)
  moreover have "wshardFor wpm' k = snd (clean_wshard expired (wshardFor wpm k))"
    using sh(1) by (simp add: wshardFor_def w)
  moreover have "ws_profiles (snd (clean_wshard expired (wshardFor wpm k))) = filter (\<lambda>(k, p). \<not> expired p) (ws_profiles (wshardFor wpm k))"
    using c [of "wshard_no k"] by (simp add: wshardFor_def)
  moreover have "distinct_keys (ws_profiles (wshardFor wpm k))" using wshardFor_ok [OF assms(1)] by (simp add: wshard_ok_def)
  ultimately have "GetByKey k wpm' = (case GetByKey k wpm of Some p \<Rightarrow> if expired p then None else Some p | None \<Rightarrow> None)" "n + wpm_Len wpm' = wpm_Len wpm"
    by (simp_all add: GetByKey_def filter_keys_map_of if_distrib [of "\<lambda>b. if b then _ else _"] split: option.split)
  moreover have "wpm_ok wpm'"
    using assms(1) sh(1) c \<open>n + wpm_Len wpm' = wpm_Len wpm\<close> unfolding wpm_ok_def by (auto simp: w)
  ultimately show ?thesis by (simp add: w)
qed

section \<open>What the manager promises\<close>

inductive wpm_reach :: "int \<Rightarrow> int \<Rightarrow> 'p WorkloadProfileManager \<Rightarrow> bool" for pid_max maxKeys where
  new: "wpm_reach pid_max maxKeys (NewWorkloadProfileManager pid_max maxKeys)"
| get: "wpm_reach pid_max maxKeys wpm \<Longrightarrow> wpm_reach pid_max maxKeys (snd (GetOrCreateByKey fresh now key wpm))"
| record_event: "wpm_reach pid_max maxKeys wpm \<Longrightarrow> wpm_reach pid_max maxKeys (RecordEvent fresh upd now e wpm)"
| cleanup: "wpm_reach pid_max maxKeys wpm \<Longrightarrow> wpm_reach pid_max maxKeys (snd (wpm_CleanupExpired expired wpm))"
| flush: "wpm_reach pid_max maxKeys wpm \<Longrightarrow> wpm_reach pid_max maxKeys (wpm_Flush wpm)"

definition within_cap :: "'p WorkloadProfileManager \<Rightarrow> bool" where
  "within_cap wpm \<longleftrightarrow> wpm_ok wpm \<and> 0 < wm_maxKeys wpm \<and> wm_entryCount wpm \<le> wm_maxKeys wpm"

lemma evict_then_lookup:
  assumes "within_cap wpm" "lookup_or_create fresh now key (evictIfOverCapacity wpm) = (p, wpm')"
  shows "within_cap wpm' \<and> wm_maxKeys wpm' = wm_maxKeys wpm \<and> GetByKey key wpm' = Some p"
proof -
  have ok: "wpm_ok wpm" using assms(1) by (simp add: within_cap_def)
  note e = evictIfOverCapacity_ok [OF ok]
  have "0 \<le> wm_entryCount wpm" using ok by (simp add: wpm_ok_def)
  then have "wm_entryCount (evictIfOverCapacity wpm) + 1 \<le> wm_maxKeys wpm"
    using e assms(1) unfolding within_cap_def by auto
  moreover from lookup_or_create_ok [OF _ assms(2)] e
  have "wpm_ok wpm'" "wm_maxKeys wpm' = wm_maxKeys wpm" "GetByKey key wpm' = Some p" "wm_entryCount wpm' \<le> wm_entryCount (evictIfOverCapacity wpm) + 1"
    by auto
  ultimately show ?thesis using assms(1) by (simp add: within_cap_def)
qed

lemma RecordEvent_cap:
  assumes "within_cap wpm"
  shows "within_cap (RecordEvent fresh upd now e wpm) \<and> wm_maxKeys (RecordEvent fresh upd now e wpm) = wm_maxKeys wpm"
proof -
  let ?key = "WorkloadKeyFromEvent e"
  obtain p wpm1 where l: "lookup_or_create fresh now ?key (evictIfOverCapacity wpm) = (p, wpm1)" by fastforce
  note k = evict_then_lookup [OF assms l]
  then show ?thesis
    using put_known_ok [of wpm1 ?key, OF _ _ refl] by (simp add: RecordEvent_def Let_def l within_cap_def)
qed

lemma reach_within_cap:
  assumes "wpm_reach pid_max maxKeys wpm" "0 < pid_max"
  shows "within_cap wpm \<and> wm_maxKeys wpm = (if maxKeys \<le> 0 then pid_max else maxKeys)"
  using assms
proof (induction rule: wpm_reach.induct)
  case new
  then show ?case
    by (auto simp: within_cap_def wpm_ok_def NewWorkloadProfileManager_def workloadShardCount_def wshard_ok_def lru_empty_ok wpm_Len_def sum_list_replicate)
next
  case (get wpm fresh now key)
  then show ?case using evict_then_lookup [of wpm fresh now key, OF _ surjective_pairing] by (simp add: GetOrCreateByKey_def)
next
  case (record_event wpm fresh upd now e)
  then show ?case using RecordEvent_cap by metis
next
  case (cleanup wpm expired)
  then show ?case using CleanupExpired_ok [of wpm expired _ _ undefined, OF _ surjective_pairing] by (auto simp: within_cap_def wpm_ok_def)
next
  case (flush wpm)
  then show ?case by (auto simp: within_cap_def wpm_ok_def wpm_Flush_def wshard_ok_def lru_empty_ok wpm_Len_def comp_def)
qed

text \<open>
  C36 (bounds).  However many workloads appear, the number of profiles never exceeds the cap, and the
  count kept beside the shards is that number.
\<close>

theorem workload_profiles_bounded:
  assumes "wpm_reach pid_max maxKeys wpm" "0 < pid_max"
  shows "int (wpm_Len wpm) \<le> (if maxKeys \<le> 0 then pid_max else maxKeys) \<and> wm_entryCount wpm = int (wpm_Len wpm)"
  using reach_within_cap [OF assms] by (auto simp: within_cap_def wpm_ok_def)


definition comm_event :: "string \<Rightarrow> event" where
  "comm_event c = zero_event\<lparr>ev_comm := map (\<lambda>c. word_of_nat (of_char c)) c\<rparr>"

definition counting_manager :: "nat WorkloadProfileManager" where
  "counting_manager =
     RecordEvent (\<lambda>_. 0) (\<lambda>_. Suc) 7 (comm_event ''sh'')
       (RecordEvent (\<lambda>_. 0) (\<lambda>_. Suc) 5 (comm_event ''nginx'') (NewWorkloadProfileManager 32768 2))"

lemma counting_reach: "wpm_reach 32768 2 counting_manager"
  unfolding counting_manager_def by (intro wpm_reach.intros)

theorem workload_profiles_bounded_witness: "int (wpm_Len counting_manager) \<le> 2 \<and> wpm_Len counting_manager = 2"
  using workload_profiles_bounded [OF counting_reach] by (simp, code_simp)

text \<open>
  C37 (functional).  Recording an event updates the profile of its workload -- a new one when the workload is
  not known -- and no other, except that at the cap the one profile that was used longest ago is dropped first.
\<close>

theorem RecordEvent_updates_one:
  assumes "wpm_reach pid_max maxKeys wpm" "0 < pid_max"
  shows "\<exists>old. (if int (wpm_Len wpm) < wm_maxKeys wpm then old = {}
             else \<exists>key t. old = {key} \<and> GetByKey key wpm \<noteq> None \<and> accessed_at wpm key = Some t \<and>
               (\<forall>k u. accessed_at wpm k = Some u \<longrightarrow> t \<le> u)) \<and>
      (\<forall>k. GetByKey k (RecordEvent fresh upd now e wpm) =
        (if k = WorkloadKeyFromEvent e
         then Some (upd e (case GetByKey k wpm of Some p \<Rightarrow> if k \<in> old then fresh k else p | None \<Rightarrow> fresh k))
         else if k \<in> old then None else GetByKey k wpm))"
proof -
  let ?key = "WorkloadKeyFromEvent e" and ?w = "evictIfOverCapacity wpm"
  have cap: "within_cap wpm" and ok: "wpm_ok wpm" and pos: "0 < wm_maxKeys wpm" and len: "wm_entryCount wpm = int (wpm_Len wpm)"
    using reach_within_cap [OF assms] by (auto simp: within_cap_def wpm_ok_def)
  obtain p wpm1 where l: "lookup_or_create fresh now ?key ?w = (p, wpm1)" by fastforce
  note e = evictIfOverCapacity_ok [OF ok]
  note lk = lookup_or_create_ok [OF conjunct1 [OF e] l]
  have rec: "GetByKey k (RecordEvent fresh upd now e wpm) =
      (if k = ?key then Some (upd e (case GetByKey ?key ?w of Some q \<Rightarrow> q | None \<Rightarrow> fresh ?key)) else GetByKey k ?w)" for k
    using put_known_ok [of wpm1 ?key, OF _ _ refl] lk by (simp add: RecordEvent_def Let_def l)
  show ?thesis
  proof (cases "int (wpm_Len wpm) < wm_maxKeys wpm")
    case True
    then have "?w = wpm" using len by (simp add: evictIfOverCapacity_def)
    with True show ?thesis by (intro exI [of _ "{}"]) (auto simp: rec split: option.split)
  next
    case False
    then have "\<not> (wm_maxKeys wpm \<le> 0 \<or> wm_entryCount wpm < wm_maxKeys wpm \<or> wm_entryCount wpm = 0)" using pos len by auto
    with e obtain key t where k: "GetByKey key wpm \<noteq> None" "accessed_at wpm key = Some t" "\<forall>k u. accessed_at wpm k = Some u \<longrightarrow> t \<le> u"
      "\<And>k. GetByKey k ?w = (if k = key then None else GetByKey k wpm)" by auto
    show ?thesis
      by (rule exI [of _ "{key}"]) (use False k in \<open>auto simp: rec split: option.split\<close>)
  qed
qed

theorem RecordEvent_updates_one_witness:
  "GetByKey (WorkloadKeyFromEvent (comm_event ''sh'')) (RecordEvent (\<lambda>_. 0) (\<lambda>_. Suc) 9 (comm_event ''cat'') counting_manager) = Some 1 \<and>
   GetByKey (WorkloadKeyFromEvent (comm_event ''nginx'')) (RecordEvent (\<lambda>_. 0) (\<lambda>_. Suc) 9 (comm_event ''cat'') counting_manager) = None \<and>
   (\<exists>old. GetByKey (WorkloadKeyFromEvent (comm_event ''cat'')) (RecordEvent (\<lambda>_. 0) (\<lambda>_. Suc) 9 (comm_event ''cat'') counting_manager) =
     Some (Suc (case GetByKey (WorkloadKeyFromEvent (comm_event ''cat'')) counting_manager of
        Some p \<Rightarrow> if WorkloadKeyFromEvent (comm_event ''cat'') \<in> old then 0 else p | None \<Rightarrow> 0)))"
  apply (intro conjI)
    apply code_simp
   apply code_simp
  using RecordEvent_updates_one [OF counting_reach, of "\<lambda>_. 0" "\<lambda>_. Suc" 9 "comm_event ''cat''"] by fastforce

text \<open>
  The eviction runs before the lookup, so at the cap an event of a workload that already has a profile
  drops one as well -- here the profile of the very workload whose second event it is, which starts again.
\<close>

theorem known_workload_evicts:
  "let wpm = RecordEvent (\<lambda>_. 0) (\<lambda>_. Suc) 5 (comm_event ''nginx'') (NewWorkloadProfileManager 32768 1 :: nat WorkloadProfileManager);
       wpm' = RecordEvent (\<lambda>_. 0) (\<lambda>_. Suc) 6 (comm_event ''nginx'') wpm
   in GetByKey (WorkloadKeyFromEvent (comm_event ''nginx'')) wpm = Some 1 \<and>
      GetByKey (WorkloadKeyFromEvent (comm_event ''nginx'')) wpm' = Some 1 \<and> wm_evictions wpm' = 1"
  by code_simp

text \<open>
  Cleaning up removes exactly the expired profiles and reports how many they were.
\<close>

theorem CleanupExpired_removes_expired:
  assumes "wpm_reach pid_max maxKeys wpm" "0 < pid_max" "wpm_CleanupExpired expired wpm = (n, wpm')"
  shows "n + wpm_Len wpm' = wpm_Len wpm \<and>
    GetByKey k wpm' = (case GetByKey k wpm of Some p \<Rightarrow> if expired p then None else Some p | None \<Rightarrow> None)"
  using CleanupExpired_ok [OF _ assms(3), of k] reach_within_cap [OF assms(1,2)] unfolding within_cap_def by blast

theorem CleanupExpired_removes_expired_witness:
  "fst (wpm_CleanupExpired (\<lambda>n. n = 1) counting_manager) + wpm_Len (snd (wpm_CleanupExpired (\<lambda>n. n = 1) counting_manager)) = 2 \<and>
   fst (wpm_CleanupExpired (\<lambda>n. n = 1) counting_manager) = 2"
  using CleanupExpired_removes_expired [OF counting_reach _ surjective_pairing, of "\<lambda>n. n = 1"] by (simp, code_simp)

end
