(* ===== verification/Learning_Window.thy ===== *)
theory Learning_Window
  imports Guard_Prelude
begin

text \<open>
  What the profilers that learn a baseline have in common, seen from one workload: the observations up to the
  one that completes the baseline are learned, the later ones are judged against it.  Completion depends on
  the number of observations and on the time since the first.
\<close>

definition go_second :: duration where
  "go_second = 1000000000"

fun learning :: "(int \<Rightarrow> duration \<Rightarrow> bool) \<Rightarrow> time \<Rightarrow> int \<Rightarrow> (time \<times> 'a) list \<Rightarrow> 'a list \<times> bool" where
  "learning complete t0 n [] = ([], False)"
| "learning complete t0 n ((t, s) # ws) =
     (if complete (n + 1) (time_sub t t0) then ([s], True)
      else case learning complete t0 (n + 1) ws of (ss, over) \<Rightarrow> (s # ss, over))"

definition learned :: "(int \<Rightarrow> duration \<Rightarrow> bool) \<Rightarrow> (time \<times> 'a) list \<Rightarrow> 'a list \<times> bool" where
  "learned complete ws = learning complete (fst (hd ws)) 0 ws"

lemma learning_snoc:
  "learning complete t0 n (ws @ [(t, s)]) =
     (case learning complete t0 n ws of (ss, over) \<Rightarrow>
        if over then (ss, over) else (ss @ [s], complete (n + int (length ws) + 1) (time_sub t t0)))"
  by (induction complete t0 n ws rule: learning.induct) (auto split: prod.splits simp: algebra_simps)

lemma learned_Nil [simp]: "learned complete [] = ([], False)"
  by (simp add: learned_def)

lemma learned_first: "learned complete [(t, s)] = ([s], complete 1 (time_sub t t))"
  by (simp add: learned_def)

lemma learned_snoc:
  assumes "ws \<noteq> []"
  shows "learned complete (ws @ [(t, s)]) =
    (case learned complete ws of (ss, over) \<Rightarrow>
       if over then (ss, over) else (ss @ [s], complete (int (length ws) + 1) (time_sub t (fst (hd ws)))))"
  using assms by (simp add: learned_def learning_snoc split: prod.split)

text \<open>Everything learned was observed, and while learning goes on everything observed is learned.\<close>

lemma learning_subset: "set (fst (learning complete t0 n ws)) \<subseteq> snd ` set ws"
  by (induction complete t0 n ws rule: learning.induct) (auto split: prod.splits)

lemma learning_all: "\<not> snd (learning complete t0 n ws) \<Longrightarrow> fst (learning complete t0 n ws) = map snd ws"
  by (induction complete t0 n ws rule: learning.induct) (auto split: prod.splits if_splits)

text \<open>An observation for which the baseline is complete ends learning, if nothing before did.\<close>

lemma learning_ends:
  assumes "\<And>n. complete n (time_sub t t0)"
  shows "snd (learning complete t0 n (ws @ (t, s) # ws')) \<and> set (fst (learning complete t0 n (ws @ (t, s) # ws'))) \<subseteq> insert s (snd ` set ws)"
proof (induction ws arbitrary: n)
  case (Cons w ws)
  obtain a b where w: "w = (a, b)" by (rule prod.exhaust)
  show ?case using Cons.IH [of "n + 1"] by (cases "learning complete t0 (n + 1) (ws @ (t, s) # ws')") (auto simp: w)
qed (simp add: assms)

lemma learned_ends:
  assumes "\<And>n. complete n (time_sub t (fst (hd ws)))" "ws \<noteq> []"
  shows "snd (learned complete (ws @ (t, s) # ws')) \<and> set (fst (learned complete (ws @ (t, s) # ws'))) \<subseteq> insert s (snd ` set ws)"
  using learning_ends [of complete t "fst (hd ws)", OF assms(1)] assms(2) by (simp add: learned_def)

end
