(* ===== verification/Drift_Baseline.thy ===== *)
theory Drift_Baseline
  imports Workload_Profiles Alert_Aggregator Learning_Window
begin

text \<open>
  The drift baseline (\<open>profiler/driftbaseline.go\<close>): matches of rules of class drift are learned per workload for
  a while and only those not seen while learning raise alerts.  Two clock readings are arguments: \<open>now\<close> of
  the profiler and \<open>lnow\<close>, the one the order of use takes itself.  Counters stand for the metrics.
\<close>

section \<open>Configuration and state\<close>

record DriftBaselineConfig =
  dc_Enabled :: bool
  dc_LearningPeriod :: int
  dc_MinSamples :: int
  dc_PerWorkload :: bool
  dc_MaxWorkloads :: int
  dc_EnforceDeadlinePeriods :: int

definition DefaultDriftBaselineConfig :: DriftBaselineConfig where
  "DefaultDriftBaselineConfig =
     \<lparr>dc_Enabled = False, dc_LearningPeriod = 3600, dc_MinSamples = 20, dc_PerWorkload = True,
      dc_MaxWorkloads = 1000, dc_EnforceDeadlinePeriods = 3\<rparr>"

definition defaultDriftMaxWorkloads :: int where
  "defaultDriftMaxWorkloads = 1000"

definition defaultDriftEnforceDeadlinePeriods :: int where
  "defaultDriftEnforceDeadlinePeriods = 3"

record driftWorkloadProfile =
  dw_signatures :: "string list"
  dw_startedAt :: time
  dw_lastSeen :: time
  dw_sampleCount :: int
  dw_enforcing :: bool

record DriftBaselineProfiler =
  db_config :: DriftBaselineConfig
  db_profiles :: "(string \<times> driftWorkloadProfile) list"
  db_lru :: "string lru"
  db_maxWorkloads :: int
  db_enforceDeadline :: duration
  db_suppressed :: nat
  db_anomalies :: nat
  db_evictions :: nat

definition NewDriftBaselineProfiler :: "DriftBaselineConfig \<Rightarrow> DriftBaselineProfiler" where
  "NewDriftBaselineProfiler cfg =
     (let maxWorkloads = (if dc_MaxWorkloads cfg = 0 then defaultDriftMaxWorkloads else dc_MaxWorkloads cfg);
          deadlinePeriods = (if dc_EnforceDeadlinePeriods cfg = 0 then defaultDriftEnforceDeadlinePeriods else dc_EnforceDeadlinePeriods cfg)
      in \<lparr>db_config = cfg, db_profiles = [], db_lru = lru_empty,
          db_maxWorkloads = (if maxWorkloads < 0 then 0 else maxWorkloads),
          db_enforceDeadline = (if 0 < deadlinePeriods \<and> 0 < dc_LearningPeriod cfg
             then wrap64 (wrap64 (deadlinePeriods * dc_LearningPeriod cfg) * go_second) else 0),
          db_suppressed = 0, db_anomalies = 0, db_evictions = 0\<rparr>)"

section \<open>Signatures\<close>

definition driftPathPrefixMaxDepth :: nat where
  "driftPathPrefixMaxDepth = 2"

definition isNumericSegment :: "string \<Rightarrow> bool" where
  "isNumericSegment s \<longleftrightarrow> s \<noteq> [] \<and> list_all is_digit s"

text \<open>The loop over the path: \<open>seg\<close> is the part from \<open>start\<close> to the position reached.\<close>

fun drift_segments :: "string list \<Rightarrow> string \<Rightarrow> string \<Rightarrow> string list" where
  "drift_segments kept seg [] = (if seg = [] then kept else kept @ [if isNumericSegment seg then ''*'' else seg])"
| "drift_segments kept seg (c # path) =
     (if c \<noteq> CHR ''/'' then drift_segments kept (seg @ [c]) path
      else if seg = [] then drift_segments kept [] path
      else let kept = kept @ [if isNumericSegment seg then ''*'' else seg]
           in if driftPathPrefixMaxDepth \<le> length kept then kept else drift_segments kept [] path)"

fun drift_join :: "nat \<Rightarrow> string list \<Rightarrow> string" where
  "drift_join i [] = []"
| "drift_join i (s # ss) = (if 0 < i then ''/'' else []) @ s @ drift_join (i + 1) ss"

definition normalizeDriftPathPrefix :: "string \<Rightarrow> string" where
  "normalizeDriftPathPrefix path = (if path = [] then [] else ''/'' @ drift_join 0 (drift_segments [] [] path))"

definition driftSignatureTarget :: "event \<Rightarrow> string" where
  "driftSignatureTarget e =
     (if ev_type e = EventFileAccess then
        (case ev_file e of
           Some f \<Rightarrow> normalizeDriftPathPrefix (if fl_fdpath f = [] then BytesToString (fl_filename f) else fl_fdpath f)
         | None \<Rightarrow> [])
      else if ev_type e = EventTCPConnect then
        (case ev_network e of Some n \<Rightarrow> dec_nat (unat (net_dport n)) | None \<Rightarrow> [])
      else if ev_type e = EventSyscall then
        (case ev_syscall e of Some s \<Rightarrow> dec_int (sint (sc_nr s)) | None \<Rightarrow> [])
      else [])"

definition resolveKey :: "DriftBaselineProfiler \<Rightarrow> event \<Rightarrow> WorkloadKey" where
  "resolveKey p e = (if dc_PerWorkload (db_config p) then WorkloadKeyFromEvent e else \<lparr>wk_Comm = [], wk_Namespace = [], wk_AppLabel = []\<rparr>)"

section \<open>Observing a match\<close>

definition evictIfOverCapacityLocked :: "DriftBaselineProfiler \<Rightarrow> DriftBaselineProfiler" where
  "evictIfOverCapacityLocked p =
     (if db_maxWorkloads p \<le> 0 \<or> int (length (db_profiles p)) < db_maxWorkloads p then p
      else if lr_heap (db_lru p) = [] then p
      else case lru_evict (db_lru p) of (key, l) \<Rightarrow>
        p\<lparr>db_lru := l, db_profiles := AList.delete key (db_profiles p), db_evictions := db_evictions p + 1\<rparr>)"

definition fresh_drift :: "time \<Rightarrow> driftWorkloadProfile" where
  "fresh_drift now = \<lparr>dw_signatures = [], dw_startedAt = now, dw_lastSeen = now, dw_sampleCount = 0, dw_enforcing = False\<rparr>"

definition drift_profile :: "time \<Rightarrow> time \<Rightarrow> string \<Rightarrow> DriftBaselineProfiler \<Rightarrow> driftWorkloadProfile \<times> DriftBaselineProfiler" where
  "drift_profile now lnow key p =
     (case map_of (db_profiles p) key of
        None \<Rightarrow> let p = evictIfOverCapacityLocked p
          in (fresh_drift now, p\<lparr>db_profiles := AList.update key (fresh_drift now) (db_profiles p), db_lru := lru_push lnow key (db_lru p)\<rparr>)
      | Some prof \<Rightarrow> let prof = prof\<lparr>dw_lastSeen := now\<rparr>
          in (prof, p\<lparr>db_profiles := AList.update key prof (db_profiles p), db_lru := lru_touch lnow key (db_lru p)\<rparr>))"

definition baseline_complete :: "DriftBaselineConfig \<Rightarrow> duration \<Rightarrow> int \<Rightarrow> duration \<Rightarrow> bool" where
  "baseline_complete cfg deadline samples elapsed \<longleftrightarrow>
     wrap64 (dc_LearningPeriod cfg * go_second) \<le> elapsed \<and> dc_MinSamples cfg \<le> samples \<or> 0 < deadline \<and> deadline \<le> elapsed"

definition learn_signature :: "DriftBaselineConfig \<Rightarrow> duration \<Rightarrow> time \<Rightarrow> string \<Rightarrow> driftWorkloadProfile \<Rightarrow> driftWorkloadProfile" where
  "learn_signature cfg deadline now sig prof =
     prof\<lparr>dw_signatures := List.insert sig (dw_signatures prof), dw_sampleCount := dw_sampleCount prof + 1,
          dw_enforcing := baseline_complete cfg deadline (dw_sampleCount prof + 1) (time_sub now (dw_startedAt prof))\<rparr>"

definition drift_signature :: "string \<Rightarrow> event \<Rightarrow> string" where
  "drift_signature ruleID e = ruleID @ ''|'' @ driftSignatureTarget e"

definition Observe :: "time \<Rightarrow> time \<Rightarrow> string \<Rightarrow> event \<Rightarrow> DriftBaselineProfiler \<Rightarrow> bool \<times> DriftBaselineProfiler" where
  "Observe now lnow ruleID e p =
     (if \<not> dc_Enabled (db_config p) then (True, p)
      else let sig = drift_signature ruleID e; key = WorkloadKey_String (resolveKey p e)
        in case drift_profile now lnow key p of (prof, p) \<Rightarrow>
          if \<not> dw_enforcing prof then
            (False, p\<lparr>db_profiles := AList.update key (learn_signature (db_config p) (db_enforceDeadline p) now sig prof) (db_profiles p),
                      db_suppressed := db_suppressed p + 1\<rparr>)
          else if sig \<in> set (dw_signatures prof) then (False, p\<lparr>db_suppressed := db_suppressed p + 1\<rparr>)
          else (True, p\<lparr>db_anomalies := db_anomalies p + 1\<rparr>))"

definition LearningWorkloads :: "DriftBaselineProfiler \<Rightarrow> nat" where
  "LearningWorkloads p = length (filter (\<lambda>(k, prof). \<not> dw_enforcing prof) (db_profiles p))"

definition StuckLearningWorkloads :: "time \<Rightarrow> DriftBaselineProfiler \<Rightarrow> nat" where
  "StuckLearningWorkloads now p =
     (let learningPeriod = wrap64 (dc_LearningPeriod (db_config p) * go_second)
      in if learningPeriod \<le> 0 then 0
         else length (filter (\<lambda>(k, prof). \<not> dw_enforcing prof \<and> learningPeriod < time_sub now (dw_startedAt prof)) (db_profiles p)))"

definition ProfileCount :: "DriftBaselineProfiler \<Rightarrow> nat" where
  "ProfileCount p = length (db_profiles p)"

section \<open>Path prefixes\<close>

lemma drift_join_pos: "0 < i \<Longrightarrow> drift_join i ss = concat (map (\<lambda>s. CHR ''/'' # s) ss)"
  by (induction ss arbitrary: i) auto

lemma drift_join_0: "drift_join 0 ss = join_with CHR ''/'' ss"
proof (induction ss)
  case (Cons s ss)
  then show ?case by (cases ss) (simp_all add: drift_join_pos)
qed simp

lemma drift_segments_split:
  "CHR ''/'' \<notin> set seg \<Longrightarrow> drift_segments kept seg path = keep_segments kept (split_on CHR ''/'' (seg @ path))"
proof (induction path arbitrary: seg kept)
  case Nil
  then show ?case
    by (simp add: split_on_none isNumericSegment_def isNumeric_def Let_def)
next
  case (Cons c path)
  show ?case
  proof (cases "c = CHR ''/''")
    case True
    then have "split_on CHR ''/'' (seg @ c # path) = seg # split_on CHR ''/'' path"
      using Cons.prems by (simp add: split_on_append_sep)
    then show ?thesis using True Cons
      by (simp add: Let_def isNumericSegment_def isNumeric_def driftPathPrefixMaxDepth_def pathPrefixMaxDepth_def)
  next
    case False
    then show ?thesis using Cons.IH [of "seg @ [c]" kept] Cons.prems by simp
  qed
qed

text \<open>The drift signatures group paths exactly as the keys of alert aggregation do.\<close>

theorem normalizeDriftPathPrefix_agrees: "normalizeDriftPathPrefix path = normalizePathPrefix path"
  by (simp add: normalizeDriftPathPrefix_def normalizePathPrefix_def drift_join_0 drift_segments_split)

section \<open>Invariant\<close>

definition drift_ok :: "DriftBaselineProfiler \<Rightarrow> bool" where
  "drift_ok p \<longleftrightarrow> lru_ok (db_lru p) \<and> distinct_keys (db_profiles p) \<and>
     dom (recency (db_lru p)) = fst ` set (db_profiles p) \<and>
     (0 < db_maxWorkloads p \<longrightarrow> int (length (db_profiles p)) \<le> db_maxWorkloads p)"

definition same_settings :: "DriftBaselineProfiler \<Rightarrow> DriftBaselineProfiler \<Rightarrow> bool" where
  "same_settings p q \<longleftrightarrow> db_config p = db_config q \<and> db_maxWorkloads p = db_maxWorkloads q \<and> db_enforceDeadline p = db_enforceDeadline q"

lemma length_distinct_keys: "distinct_keys al \<Longrightarrow> length al = card (fst ` set al)"
  by (metis distinct_card length_map set_map)

lemma evict_drift_ok:
  assumes "drift_ok p"
  shows "drift_ok (evictIfOverCapacityLocked p) \<and> same_settings (evictIfOverCapacityLocked p) p \<and>
    (0 < db_maxWorkloads p \<longrightarrow> int (length (db_profiles (evictIfOverCapacityLocked p))) < db_maxWorkloads p) \<and>
    fst ` set (db_profiles (evictIfOverCapacityLocked p)) \<subseteq> fst ` set (db_profiles p) \<and>
    (int (length (db_profiles p)) < db_maxWorkloads p \<or> db_maxWorkloads p \<le> 0 \<longrightarrow> evictIfOverCapacityLocked p = p)"
proof (cases "db_maxWorkloads p \<le> 0 \<or> int (length (db_profiles p)) < db_maxWorkloads p")
  case True
  then show ?thesis using assms by (auto simp: evictIfOverCapacityLocked_def same_settings_def)
next
  case False
  have ok: "lru_ok (db_lru p)" "distinct_keys (db_profiles p)" and d: "dom (recency (db_lru p)) = fst ` set (db_profiles p)"
    and le: "int (length (db_profiles p)) \<le> db_maxWorkloads p"
    using assms False by (auto simp: drift_ok_def)
  have "db_profiles p \<noteq> []" using False by auto
  then have ne: "lr_heap (db_lru p) \<noteq> []" using heap_empty_iff [OF ok(1)] d by auto
  obtain key l where e: "lru_evict (db_lru p) = (key, l)" by fastforce
  note k = lru_evict_ok [OF ok(1) ne e]
  then have key: "key \<in> fst ` set (db_profiles p)" using d by (metis domIff option.distinct(1))
  let ?al = "AList.delete key (db_profiles p)"
  have al: "distinct_keys ?al" "fst ` set ?al = fst ` set (db_profiles p) - {key}" using ok(2) by (simp_all add: keys_delete)
  have "length ?al = length (db_profiles p) - 1"
    using key length_distinct_keys [OF al(1)] length_distinct_keys [OF ok(2)] unfolding al(2) by (simp add: card_Diff_singleton)
  then show ?thesis
    using False ne e k al d le \<open>db_profiles p \<noteq> []\<close>
    by (auto simp: evictIfOverCapacityLocked_def same_settings_def drift_ok_def)
qed

lemma drift_profile_ok:
  assumes "drift_ok p" "drift_profile now lnow key p = (prof, p')"
  shows "drift_ok p' \<and> same_settings p' p \<and> map_of (db_profiles p') key = Some prof"
    "prof = (case map_of (db_profiles p) key of None \<Rightarrow> fresh_drift now | Some q \<Rightarrow> q\<lparr>dw_lastSeen := now\<rparr>)"
    "map_of (db_profiles p) key \<noteq> None \<or> int (length (db_profiles p)) < db_maxWorkloads p \<or> db_maxWorkloads p \<le> 0 \<Longrightarrow>
      k \<noteq> key \<Longrightarrow> map_of (db_profiles p') k = map_of (db_profiles p) k"
    "fst ` set (db_profiles p') \<subseteq> insert key (fst ` set (db_profiles p))"
proof -
  have "drift_ok p' \<and> same_settings p' p \<and> map_of (db_profiles p') key = Some prof \<and>
    prof = (case map_of (db_profiles p) key of None \<Rightarrow> fresh_drift now | Some q \<Rightarrow> q\<lparr>dw_lastSeen := now\<rparr>) \<and>
    (map_of (db_profiles p) key \<noteq> None \<or> int (length (db_profiles p)) < db_maxWorkloads p \<or> db_maxWorkloads p \<le> 0 \<longrightarrow>
      k \<noteq> key \<longrightarrow> map_of (db_profiles p') k = map_of (db_profiles p) k) \<and>
    fst ` set (db_profiles p') \<subseteq> insert key (fst ` set (db_profiles p))"
  proof (cases "map_of (db_profiles p) key")
    case None
    let ?q = "evictIfOverCapacityLocked p"
    note e = evict_drift_ok [OF assms(1)]
    have p': "p' = ?q\<lparr>db_profiles := AList.update key (fresh_drift now) (db_profiles ?q), db_lru := lru_push lnow key (db_lru ?q)\<rparr>" "prof = fresh_drift now"
      using assms(2) None by (auto simp: drift_profile_def Let_def)
    have new: "key \<notin> fst ` set (db_profiles ?q)" using e None by (auto simp: map_of_eq_None_iff)
    then have "recency (db_lru ?q) key = None" using e by (auto simp: drift_ok_def)
    with e have l: "lru_ok (lru_push lnow key (db_lru ?q))" "recency (lru_push lnow key (db_lru ?q)) = (recency (db_lru ?q))(key \<mapsto> lnow)"
      using lru_push_ok [of "db_lru ?q" key lnow] by (auto simp: drift_ok_def)
    show ?thesis using e l None new unfolding p'
      by (auto simp: drift_ok_def same_settings_def keys_update length_update_key map_of_update_other)
  next
    case (Some q)
    have p': "p' = p\<lparr>db_profiles := AList.update key prof (db_profiles p), db_lru := lru_touch lnow key (db_lru p)\<rparr>" "prof = q\<lparr>dw_lastSeen := now\<rparr>"
      using assms(2) Some by (auto simp: drift_profile_def Let_def)
    have k: "key \<in> fst ` set (db_profiles p)" using Some by (metis map_of_eq_None_iff option.distinct(1))
    have "lru_ok (lru_touch lnow key (db_lru p))" "dom (recency (lru_touch lnow key (db_lru p))) = dom (recency (db_lru p))"
      using assms(1) lru_touch_ok [of "db_lru p" lnow key] by (auto simp: drift_ok_def)
    then show ?thesis using assms(1) k Some unfolding p'
      by (auto simp: drift_ok_def same_settings_def keys_update length_update_key map_of_update_other)
  qed
  then show "drift_ok p' \<and> same_settings p' p \<and> map_of (db_profiles p') key = Some prof"
    "prof = (case map_of (db_profiles p) key of None \<Rightarrow> fresh_drift now | Some q \<Rightarrow> q\<lparr>dw_lastSeen := now\<rparr>)"
    "map_of (db_profiles p) key \<noteq> None \<or> int (length (db_profiles p)) < db_maxWorkloads p \<or> db_maxWorkloads p \<le> 0 \<Longrightarrow>
      k \<noteq> key \<Longrightarrow> map_of (db_profiles p') k = map_of (db_profiles p) k"
    "fst ` set (db_profiles p') \<subseteq> insert key (fst ` set (db_profiles p))"
    by blast+
qed

lemma put_drift_ok:
  assumes "drift_ok p" "map_of (db_profiles p) key \<noteq> None"
  shows "drift_ok (p\<lparr>db_profiles := AList.update key prof (db_profiles p), db_suppressed := n\<rparr>)"
proof -
  have "key \<in> fst ` set (db_profiles p)" using assms(2) by (simp add: map_of_eq_None_iff)
  then show ?thesis using assms(1) by (auto simp: drift_ok_def keys_update length_update_key)
qed

definition drift_key :: "DriftBaselineConfig \<Rightarrow> event \<Rightarrow> string" where
  "drift_key cfg e = WorkloadKey_String (if dc_PerWorkload cfg then WorkloadKeyFromEvent e else \<lparr>wk_Comm = [], wk_Namespace = [], wk_AppLabel = []\<rparr>)"

text \<open>One observation in terms of the profile it finds.\<close>

lemma Observe_step:
  assumes "drift_ok p" "dc_Enabled (db_config p)" "Observe now lnow r e p = (verdict, p')"
  defines "key \<equiv> drift_key (db_config p) e" and "sig \<equiv> drift_signature r e"
  defines "prof \<equiv> (case map_of (db_profiles p) key of None \<Rightarrow> fresh_drift now | Some q \<Rightarrow> q\<lparr>dw_lastSeen := now\<rparr>)"
  shows "drift_ok p' \<and> same_settings p' p \<and> verdict = (dw_enforcing prof \<and> sig \<notin> set (dw_signatures prof)) \<and>
    map_of (db_profiles p') key = Some (if dw_enforcing prof then prof else learn_signature (db_config p) (db_enforceDeadline p) now sig prof) \<and>
    fst ` set (db_profiles p') \<subseteq> insert key (fst ` set (db_profiles p)) \<and>
    (map_of (db_profiles p) key \<noteq> None \<or> int (length (db_profiles p)) < db_maxWorkloads p \<or> db_maxWorkloads p \<le> 0 \<longrightarrow>
      (\<forall>k. k \<noteq> key \<longrightarrow> map_of (db_profiles p') k = map_of (db_profiles p) k))"
proof -
  have key: "WorkloadKey_String (resolveKey p e) = key" by (simp add: key_def drift_key_def resolveKey_def)
  obtain prof' q where d: "drift_profile now lnow key p = (prof', q)" by fastforce
  note ok = drift_profile_ok [OF assms(1) d]
  have prof': "prof' = prof" using ok(2) by (simp add: prof_def)
  have q: "drift_ok q" "db_config q = db_config p" "db_enforceDeadline q = db_enforceDeadline p" "db_maxWorkloads q = db_maxWorkloads p"
    "map_of (db_profiles q) key = Some prof"
    using ok(1) by (simp_all add: same_settings_def prof')
  have o: "(if \<not> dw_enforcing prof then
            (False, q\<lparr>db_profiles := AList.update key (learn_signature (db_config q) (db_enforceDeadline q) now sig prof) (db_profiles q),
                      db_suppressed := db_suppressed q + 1\<rparr>)
          else if sig \<in> set (dw_signatures prof) then (False, q\<lparr>db_suppressed := db_suppressed q + 1\<rparr>)
          else (True, q\<lparr>db_anomalies := db_anomalies q + 1\<rparr>)) = (verdict, p')"
    using assms(2,3) unfolding sig_def by (simp add: Observe_def Let_def key d prof' split del: if_split)
  have "drift_ok (q\<lparr>db_suppressed := n\<rparr>)" "drift_ok (q\<lparr>db_anomalies := n\<rparr>)" for n using q(1) by (simp_all add: drift_ok_def)
  then have "drift_ok p'" using o put_drift_ok [OF q(1), of key] q(5) by (auto split: if_splits)
  moreover have "key \<in> fst ` set (db_profiles q)" using q(5) by (metis map_of_eq_None_iff option.distinct(1))
  then have k: "fst ` set (AList.update key x (db_profiles q)) = fst ` set (db_profiles q)" for x by (simp add: keys_update insert_absorb)
  have "db_profiles p' = (if dw_enforcing prof then db_profiles q else AList.update key (learn_signature (db_config q) (db_enforceDeadline q) now sig prof) (db_profiles q))"
    using o by (auto split: if_splits)
  then have "fst ` set (db_profiles p') = fst ` set (db_profiles q)" using k by presburger
  with ok(4) have "fst ` set (db_profiles p') \<subseteq> insert key (fst ` set (db_profiles p))" by (simp only:)
  moreover have "map_of (db_profiles p') k = map_of (db_profiles q) k" if "k \<noteq> key" for k
    using o that by (auto simp: map_of_update_other split: if_splits)
  ultimately show ?thesis using o q ok(3) by (auto simp: same_settings_def split: if_splits)
qed

section \<open>What is learned\<close>

text \<open>
  A history is a list of observations: the two clock readings, the rule and the event.  Seen from one
  workload, the profiler learns the signatures of its first observations up to the one that completes the
  baseline.
\<close>

type_synonym drift_obs = "time \<times> time \<times> string \<times> event"

definition observe_all :: "drift_obs list \<Rightarrow> DriftBaselineProfiler \<Rightarrow> DriftBaselineProfiler" where
  "observe_all = fold (\<lambda>(now, lnow, r, e) p. snd (Observe now lnow r e p))"

definition workload_obs :: "DriftBaselineConfig \<Rightarrow> string \<Rightarrow> drift_obs list \<Rightarrow> (time \<times> string) list" where
  "workload_obs cfg key hist =
     map (\<lambda>(now, lnow, r, e). (now, drift_signature r e)) (filter (\<lambda>(now, lnow, r, e). drift_key cfg e = key) hist)"

definition workloads :: "DriftBaselineConfig \<Rightarrow> drift_obs list \<Rightarrow> string set" where
  "workloads cfg hist = (\<lambda>(now, lnow, r, e). drift_key cfg e) ` set hist"

definition profile_of :: "DriftBaselineConfig \<Rightarrow> duration \<Rightarrow> (time \<times> string) list \<Rightarrow> driftWorkloadProfile option \<Rightarrow> bool" where
  "profile_of cfg dl ws po \<longleftrightarrow>
     (case po of None \<Rightarrow> ws = []
      | Some prof \<Rightarrow> ws \<noteq> [] \<and> dw_startedAt prof = fst (hd ws) \<and>
          (case learned (baseline_complete cfg dl) ws of (ss, over) \<Rightarrow>
             set (dw_signatures prof) = set ss \<and> dw_enforcing prof = over \<and> (\<not> over \<longrightarrow> dw_sampleCount prof = int (length ws))))"

lemma profile_of_step:
  fixes now :: time
  assumes "profile_of cfg dl ws po"
  defines "prof \<equiv> (case po of None \<Rightarrow> fresh_drift now | Some q \<Rightarrow> q\<lparr>dw_lastSeen := now\<rparr>)"
  shows "profile_of cfg dl (ws @ [(now, sig)]) (Some (if dw_enforcing prof then prof else learn_signature cfg dl now sig prof))"
proof (cases po)
  case None
  then have "ws = []" using assms(1) by (simp add: profile_of_def)
  then show ?thesis by (simp add: None prof_def profile_of_def fresh_drift_def learn_signature_def learned_first)
next
  case (Some q)
  obtain ss over where l: "learned (baseline_complete cfg dl) ws = (ss, over)" by fastforce
  have ws: "ws \<noteq> []" "dw_startedAt q = fst (hd ws)" "set (dw_signatures q) = set ss" "dw_enforcing q = over" "\<not> over \<longrightarrow> dw_sampleCount q = int (length ws)"
    using assms(1) Some l by (simp_all add: profile_of_def)
  then show ?thesis
    by (simp add: Some prof_def profile_of_def learned_snoc l learn_signature_def)
qed

lemma observe_all_simps [simp]:
  "observe_all [] p = p" "observe_all (hist @ [(now, lnow, r, e)]) p = snd (Observe now lnow r e (observe_all hist p))"
  by (simp_all add: observe_all_def)

lemma drift_new_ok: "drift_ok (NewDriftBaselineProfiler cfg)"
  by (simp add: drift_ok_def NewDriftBaselineProfiler_def Let_def lru_empty_ok)

lemma observe_all_ok:
  assumes "dc_Enabled cfg"
  defines "p0 \<equiv> NewDriftBaselineProfiler cfg"
  shows "drift_ok (observe_all hist p0) \<and> same_settings (observe_all hist p0) p0 \<and>
    fst ` set (db_profiles (observe_all hist p0)) \<subseteq> workloads cfg hist"
proof (induction hist rule: rev_induct)
  case Nil
  show ?case by (simp add: p0_def drift_new_ok same_settings_def) (simp add: NewDriftBaselineProfiler_def Let_def)
next
  case (snoc ob hist)
  obtain now lnow r e where ob: "ob = (now, lnow, r, e)" by (cases ob)
  have cfg: "db_config (observe_all hist p0) = cfg" using snoc by (simp add: same_settings_def p0_def NewDriftBaselineProfiler_def Let_def)
  have "drift_ok (observe_all hist p0)" "dc_Enabled (db_config (observe_all hist p0))" using snoc cfg assms by simp_all
  note st = Observe_step [OF this surjective_pairing, of now lnow r e, unfolded cfg]
  have "workloads cfg (hist @ [ob]) = insert (drift_key cfg e) (workloads cfg hist)" by (simp add: workloads_def ob)
  moreover have "same_settings (snd (Observe now lnow r e (observe_all hist p0))) p0" using st snoc by (simp add: same_settings_def)
  ultimately show ?case using st snoc unfolding ob observe_all_simps by blast
qed

lemma learned_profiles:
  assumes "dc_Enabled cfg"
  defines "p0 \<equiv> NewDriftBaselineProfiler cfg"
  assumes "db_maxWorkloads p0 \<le> 0 \<or> int (card (workloads cfg hist)) \<le> db_maxWorkloads p0"
  shows "profile_of cfg (db_enforceDeadline p0) (workload_obs cfg key hist) (map_of (db_profiles (observe_all hist p0)) key)"
  using assms(3)
proof (induction hist arbitrary: key rule: rev_induct)
  case Nil
  show ?case by (simp add: p0_def profile_of_def workload_obs_def NewDriftBaselineProfiler_def Let_def)
next
  case (snoc ob hist)
  obtain now lnow r e where ob: "ob = (now, lnow, r, e)" by (cases ob)
  let ?p = "observe_all hist p0" and ?k = "drift_key cfg e"
  note ok = observe_all_ok [OF assms(1), of hist, folded p0_def]
  have cfg: "db_config ?p = cfg" "db_enforceDeadline ?p = db_enforceDeadline p0" "db_maxWorkloads ?p = db_maxWorkloads p0"
    using ok by (simp_all add: same_settings_def p0_def NewDriftBaselineProfiler_def Let_def)
  have fin: "finite (workloads cfg hist)" by (simp add: workloads_def)
  have W: "workloads cfg (hist @ [ob]) = insert ?k (workloads cfg hist)" by (simp add: workloads_def ob)
  have IH: "profile_of cfg (db_enforceDeadline p0) (workload_obs cfg k hist) (map_of (db_profiles ?p) k)" for k
    using snoc.IH snoc.prems fin unfolding W by (auto simp: card_insert_if split: if_splits)
  have "drift_ok ?p" "dc_Enabled (db_config ?p)" using ok cfg assms(1) by simp_all
  note st = Observe_step [OF this surjective_pairing, of now lnow r e, unfolded cfg]
  have room: "map_of (db_profiles ?p) ?k \<noteq> None \<or> int (length (db_profiles ?p)) < db_maxWorkloads p0 \<or> db_maxWorkloads p0 \<le> 0"
  proof (cases "?k \<in> workloads cfg hist")
    case True
    then have "workload_obs cfg ?k hist \<noteq> []" by (force simp: workloads_def workload_obs_def filter_empty_conv)
    then show ?thesis using IH [of ?k] by (auto simp: profile_of_def split: option.splits)
  next
    case False
    have "length (db_profiles ?p) \<le> card (workloads cfg hist)"
      using ok fin length_distinct_keys [of "db_profiles ?p"] by (auto simp: drift_ok_def intro: card_mono)
    then show ?thesis using False snoc.prems fin unfolding W by auto
  qed
  show ?case
  proof (cases "key = ?k")
    case True
    then show ?thesis
      using profile_of_step [OF IH [of ?k], of now "drift_signature r e"] st by (simp add: ob workload_obs_def)
  next
    case False
    then have "map_of (db_profiles (snd (Observe now lnow r e ?p))) key = map_of (db_profiles ?p) key" using st room by blast
    then show ?thesis using False IH [of key] by (simp add: ob workload_obs_def)
  qed
qed

section \<open>What the profiler promises\<close>

lemma observe_decision:
  fixes e :: event
  assumes "dc_Enabled cfg"
    "db_maxWorkloads (NewDriftBaselineProfiler cfg) = 0 \<or> int (card (workloads cfg hist)) \<le> db_maxWorkloads (NewDriftBaselineProfiler cfg)"
  defines "ws \<equiv> workload_obs cfg (drift_key cfg e) hist"
  shows "fst (Observe now lnow r e (observe_all hist (NewDriftBaselineProfiler cfg))) \<longleftrightarrow>
    (case learned (baseline_complete cfg (db_enforceDeadline (NewDriftBaselineProfiler cfg))) ws of
       (baseline, over) \<Rightarrow> over \<and> drift_signature r e \<notin> set baseline)"
proof -
  let ?p = "observe_all hist (NewDriftBaselineProfiler cfg)"
  note ok = observe_all_ok [OF assms(1), of hist]
  have cfg: "db_config ?p = cfg" using ok by (simp add: same_settings_def NewDriftBaselineProfiler_def Let_def)
  have st: "fst (Observe now lnow r e ?p) = (let prof = case map_of (db_profiles ?p) (drift_key cfg e) of None \<Rightarrow> fresh_drift now | Some q \<Rightarrow> q\<lparr>dw_lastSeen := now\<rparr>
      in dw_enforcing prof \<and> drift_signature r e \<notin> set (dw_signatures prof))"
    using Observe_step [of ?p, OF _ _ surjective_pairing, of now lnow r e] ok assms(1) unfolding cfg Let_def by blast
  have "db_maxWorkloads (NewDriftBaselineProfiler cfg) \<le> 0 \<or> int (card (workloads cfg hist)) \<le> db_maxWorkloads (NewDriftBaselineProfiler cfg)"
    using assms(2) by auto
  from learned_profiles [OF assms(1) this, of "drift_key cfg e"]
  show ?thesis unfolding st ws_def [symmetric]
    by (auto simp: profile_of_def fresh_drift_def Let_def split: option.splits)
qed

text \<open>
  C9 (equivalence).  With the profiler enabled and no more workloads than the cap, a match raises an alert
  exactly when its workload has finished learning and its signature is not among those of the observations
  up to the one that completed the baseline.
\<close>

theorem Observe_alerts_iff_novel:
  fixes e :: event
  assumes "dc_Enabled cfg"
    "db_maxWorkloads (NewDriftBaselineProfiler cfg) = 0 \<or> int (card (workloads cfg hist)) \<le> db_maxWorkloads (NewDriftBaselineProfiler cfg)"
  defines "ws \<equiv> workload_obs cfg (drift_key cfg e) hist"
  shows "fst (Observe now lnow r e (observe_all hist (NewDriftBaselineProfiler cfg))) \<longleftrightarrow>
    (case learned (baseline_complete cfg (db_enforceDeadline (NewDriftBaselineProfiler cfg))) ws of
       (baseline, over) \<Rightarrow> over \<and> drift_signature r e \<notin> set baseline)"
  using assms(1,2) unfolding ws_def by (rule observe_decision)

definition example_drift :: DriftBaselineConfig where
  "example_drift = DefaultDriftBaselineConfig\<lparr>dc_Enabled := True, dc_LearningPeriod := 60, dc_MinSamples := 2, dc_MaxWorkloads := 1\<rparr>"

definition port_event :: "u16 \<Rightarrow> event" where
  "port_event port = zero_event\<lparr>ev_type := EventTCPConnect, ev_network := Some \<lparr>net_saddr = replicate 16 0, net_daddr = replicate 16 0, net_sport = 0, net_dport = port, net_proto = 6, net_family = AFInet\<rparr>\<rparr>"

definition learned_hist :: "drift_obs list" where
  "learned_hist = [(0, 0, ''r'', port_event 80), (60000000000, 1, ''r'', port_event 443)]"

theorem Observe_alerts_iff_novel_witness:
  "fst (Observe 60000000001 2 ''r'' (port_event 4444) (observe_all learned_hist (NewDriftBaselineProfiler example_drift))) \<and>
   \<not> fst (Observe 60000000001 2 ''r'' (port_event 443) (observe_all learned_hist (NewDriftBaselineProfiler example_drift)))"
proof -
  have c: "dc_Enabled example_drift" "int (card (workloads example_drift learned_hist)) \<le> db_maxWorkloads (NewDriftBaselineProfiler example_drift)"
    by (simp add: example_drift_def) code_simp
  show ?thesis
    unfolding Observe_alerts_iff_novel [OF c(1) disjI2 [OF c(2)]] by code_simp
qed

text \<open>
  With a cap, never more profiles are kept than it allows, whatever names processes give themselves.
\<close>

theorem drift_profiles_bounded:
  assumes "dc_Enabled cfg" "0 \<le> dc_MaxWorkloads cfg"
  shows "int (ProfileCount (observe_all hist (NewDriftBaselineProfiler cfg))) \<le>
    (if dc_MaxWorkloads cfg = 0 then defaultDriftMaxWorkloads else dc_MaxWorkloads cfg)"
proof -
  note ok = observe_all_ok [OF assms(1), of hist]
  then have "db_maxWorkloads (observe_all hist (NewDriftBaselineProfiler cfg)) =
      (if dc_MaxWorkloads cfg = 0 then defaultDriftMaxWorkloads else dc_MaxWorkloads cfg)"
    using assms(2) by (auto simp: same_settings_def NewDriftBaselineProfiler_def Let_def defaultDriftMaxWorkloads_def)
  then show ?thesis using ok assms(2) by (auto simp: drift_ok_def ProfileCount_def defaultDriftMaxWorkloads_def split: if_splits)
qed

theorem drift_profiles_bounded_witness:
  "int (ProfileCount (observe_all [(0, 0, ''r'', comm_event ''a''), (0, 1, ''r'', comm_event ''b'')] (NewDriftBaselineProfiler example_drift))) \<le> 1"
  using drift_profiles_bounded [of example_drift] by (simp add: example_drift_def)

text \<open>
  C38 (liveness).  No workload stays a blind spot: while there are no more workloads than the cap, an observation
  after the deadline of its workload ends learning for good.  Whatever is observed later, of this workload and of
  others, a signature that was not observed of the workload up to then raises an alert.
\<close>

theorem deadline_ends_learning:
  assumes "dc_Enabled cfg" "p0 = NewDriftBaselineProfiler cfg" "hist = before @ (now, lnow, r, e) # later"
    "db_maxWorkloads p0 = 0 \<or> int (card (workloads cfg hist)) \<le> db_maxWorkloads p0"
    "workload_obs cfg (drift_key cfg e) before = (t0, s0) # ws" "0 < db_enforceDeadline p0" "db_enforceDeadline p0 \<le> time_sub now t0"
    "drift_key cfg e' = drift_key cfg e" "drift_signature r' e' \<notin> insert (drift_signature r e) (set (s0 # map snd ws))"
  shows "fst (Observe now' lnow' r' e' (observe_all hist p0))"
proof -
  let ?k = "drift_key cfg e" and ?complete = "baseline_complete cfg (db_enforceDeadline p0)"
  have "workload_obs cfg ?k hist = workload_obs cfg ?k before @ (now, drift_signature r e) # workload_obs cfg ?k later"
    by (simp add: assms(3) workload_obs_def)
  moreover have "?complete n (time_sub now (fst (hd (workload_obs cfg ?k before))))" for n
    using assms(5-7) by (simp add: baseline_complete_def)
  ultimately have "snd (learned ?complete (workload_obs cfg ?k hist)) \<and>
      set (fst (learned ?complete (workload_obs cfg ?k hist))) \<subseteq> insert (drift_signature r e) (snd ` set (workload_obs cfg ?k before))"
    using learned_ends [of ?complete now "workload_obs cfg ?k before"] assms(5) by simp
  moreover have "snd ` set (workload_obs cfg ?k before) = set (s0 # map snd ws)" by (simp add: assms(5))
  ultimately show ?thesis
    using observe_decision [OF assms(1) assms(4) [unfolded assms(2)], of now' lnow' r' e'] assms(9)
    unfolding assms(2) [symmetric] assms(8) by (auto split: prod.splits)
qed

definition deadline_hist :: "drift_obs list" where
  "deadline_hist = [(0, 0, ''r'', port_event 80)] @ (180000000000, 1, ''r'', port_event 443) # [(180000000001, 2, ''r'', port_event 22)]"

theorem deadline_ends_learning_witness:
  "fst (Observe 180000000002 3 ''r'' (port_event 22) (observe_all deadline_hist (NewDriftBaselineProfiler (example_drift\<lparr>dc_MinSamples := 20\<rparr>))))"
proof (rule deadline_ends_learning [OF _ refl deadline_hist_def])
  let ?cfg = "example_drift\<lparr>dc_MinSamples := 20\<rparr>"
  show "dc_Enabled ?cfg" "workload_obs ?cfg (drift_key ?cfg (port_event 443)) [(0, 0, ''r'', port_event 80)] = (0, ''r|80'') # []" by code_simp+
  show "db_maxWorkloads (NewDriftBaselineProfiler ?cfg) = 0 \<or> int (card (workloads ?cfg deadline_hist)) \<le> db_maxWorkloads (NewDriftBaselineProfiler ?cfg)" by code_simp
  show "0 < db_enforceDeadline (NewDriftBaselineProfiler ?cfg)" "db_enforceDeadline (NewDriftBaselineProfiler ?cfg) \<le> time_sub 180000000000 0" by code_simp+
  show "drift_key ?cfg (port_event 22) = drift_key ?cfg (port_event 443)"
    "drift_signature ''r'' (port_event 22) \<notin> insert (drift_signature ''r'' (port_event 443)) (set (''r|80'' # map snd []))" by code_simp+
qed

text \<open>
  The observation that completes the baseline is learned and suppressed like every other one before it, and two
  files directly under the same directory have signatures of their own.
\<close>

theorem completing_observation_suppressed:
  assumes "drift_ok p" "dc_Enabled (db_config p)" "map_of (db_profiles p) (drift_key (db_config p) e) = Some prof" "\<not> dw_enforcing prof"
  shows "\<not> fst (Observe now lnow r e p)"
  using Observe_step [OF assms(1,2) surjective_pairing, of now lnow r e] assms(3,4) by simp

theorem etc_files_not_collapsed: "normalizeDriftPathPrefix ''/etc/passwd'' \<noteq> normalizeDriftPathPrefix ''/etc/shadow''"
  by code_simp

end
