(* ===== verification/Go_Files.thy ===== *)
theory Go_Files
  imports Guard_Prelude
begin

text \<open>
  The file system as the state files of the agent use it: \<open>os.ReadFile\<close> as a function of the path, and
  \<open>os.MkdirAll\<close>, \<open>os.WriteFile\<close> and \<open>os.Rename\<close> as arguments, with what is documented of them as a predicate.
\<close>

datatype file_read = FileData string | FileMissing | FileError

type_synonym files = "string \<Rightarrow> file_read"

record file_env =
  fv_mkdir :: "string \<Rightarrow> bool"
  fv_write :: "string \<Rightarrow> string \<Rightarrow> files \<Rightarrow> bool \<times> files"
  fv_rename :: "string \<Rightarrow> string \<Rightarrow> files \<Rightarrow> bool \<times> files"

text \<open>
  A write changes at most its file and, if it succeeds, leaves the data in it; a rename that fails changes
  nothing, one that succeeds makes the contents of the old path those of the new.
\<close>

definition file_env_ok :: "file_env \<Rightarrow> bool" where
  "file_env_ok env \<longleftrightarrow>
     (\<forall>path data fs ok fs'. fv_write env path data fs = (ok, fs') \<longrightarrow>
        (ok \<longrightarrow> fs' path = FileData data) \<and> (\<forall>p. p \<noteq> path \<longrightarrow> fs' p = fs p)) \<and>
     (\<forall>old new fs ok fs'. fv_rename env old new fs = (ok, fs') \<longrightarrow>
        (if ok then fs' new = fs old \<and> (\<forall>p. p \<noteq> old \<longrightarrow> p \<noteq> new \<longrightarrow> fs' p = fs p) else fs' = fs))"

lemma file_env_okD:
  assumes "file_env_ok env"
  shows "fv_write env path data fs = (True, fs') \<Longrightarrow> fs' path = FileData data"
    "fv_write env path data fs = (ok, fs') \<Longrightarrow> p \<noteq> path \<Longrightarrow> fs' p = fs p"
    "fv_rename env old new fs = (True, fs') \<Longrightarrow> fs' new = fs old"
    "fv_rename env old new fs = (False, fs') \<Longrightarrow> fs' = fs"
  using assms unfolding file_env_ok_def by (blast, blast, metis (full_types), metis (full_types))

text \<open>A file system on which every operation succeeds.\<close>

definition plain_file_env :: file_env where
  "plain_file_env = \<lparr>fv_mkdir = (\<lambda>_. True), fv_write = (\<lambda>p s fs. (True, fs(p := FileData s))),
     fv_rename = (\<lambda>old new fs. (True, (fs(old := FileMissing))(new := fs old)))\<rparr>"

lemma plain_file_env_ok: "file_env_ok plain_file_env"
  by (auto simp: file_env_ok_def plain_file_env_def)

end
