(* ===== verification/Syscall_Allowlist.thy ===== *)
theory Syscall_Allowlist
  imports Workload_Profiles Learning_Window Go_Files Go_Float Dns_Analysis "HOL-Library.Countable"
begin

text \<open>
  The syscall allowlist (\<open>profiler/allowlist.go\<close>): per workload the system calls seen while learning, and the
  check of later ones against them.  The clock, the random draw of the sampling, JSON and the file system are
  arguments; the violations counter is the list of its increments.
\<close>

section \<open>Configuration and state\<close>

record SyscallAllowlistConfig =
  sl_Enabled :: bool
  sl_Mode :: string
  sl_EnforcingAction :: string
  sl_PerWorkload :: bool
  sl_LearningPeriod :: int
  sl_MinSamples :: int
  sl_SparseThreshold :: int
  sl_GlobalAllow :: "int list"
  sl_GlobalDeny :: "int list"
  sl_PersistPath :: string

definition DefaultSyscallAllowlistConfig :: SyscallAllowlistConfig where
  "DefaultSyscallAllowlistConfig =
     \<lparr>sl_Enabled = False, sl_Mode = ''learning'', sl_EnforcingAction = ''alert'', sl_PerWorkload = True, sl_LearningPeriod = 3600,
      sl_MinSamples = 100, sl_SparseThreshold = 10, sl_GlobalAllow = [], sl_GlobalDeny = [], sl_PersistPath = []\<rparr>"

record WorkloadSyscallProfile =
  wp_AllowedSyscalls :: "u32 list"
  wp_AllowedList :: "u32 list"
  wp_ImageRef :: string
  wp_Namespace :: string
  wp_AppLabel :: string
  wp_LearnedAt :: time
  wp_SampleCount :: int
  wp_Enforcing :: bool
  wp_StartedAt :: time

definition newWorkloadSyscallProfile :: "WorkloadKey \<Rightarrow> time \<Rightarrow> WorkloadSyscallProfile" where
  "newWorkloadSyscallProfile key now =
     \<lparr>wp_AllowedSyscalls = [], wp_AllowedList = [], wp_ImageRef = wk_Comm key, wp_Namespace = wk_Namespace key, wp_AppLabel = wk_AppLabel key,
      wp_LearnedAt = 0, wp_SampleCount = 0, wp_Enforcing = False, wp_StartedAt = now\<rparr>"

definition profile_toJSON :: "WorkloadSyscallProfile \<Rightarrow> WorkloadSyscallProfile" where
  "profile_toJSON p = p\<lparr>wp_AllowedList := wp_AllowedSyscalls p\<rparr>"

definition profile_fromJSON :: "WorkloadSyscallProfile \<Rightarrow> WorkloadSyscallProfile" where
  "profile_fromJSON p = p\<lparr>wp_AllowedSyscalls := remdups (wp_AllowedList p)\<rparr>"

record AllowlistViolation =
  av_WorkloadKey :: WorkloadKey
  av_SyscallNr :: u32
  av_Source :: string
  av_Action :: string

record persistedState =
  ps_Version :: int
  ps_SavedAt :: time
  ps_Profiles :: "(string \<times> WorkloadSyscallProfile) list"

record SyscallAllowlistProfiler =
  sp_config :: SyscallAllowlistConfig
  sp_profiles :: "(string \<times> WorkloadSyscallProfile) list"
  sp_globalAllow :: "u32 list"
  sp_globalDeny :: "u32 list"
  sp_violations :: "(string \<times> u32) list"
  sp_sparseProfiles :: nat
  sp_samplingRate :: f64

definition toSet :: "int list \<Rightarrow> u32 list" where
  "toSet nrs = remdups (map word_of_int (filter (\<lambda>n. 0 \<le> n) nrs))"

definition NewSyscallAllowlistProfiler :: "SyscallAllowlistConfig \<Rightarrow> SyscallAllowlistProfiler" where
  "NewSyscallAllowlistProfiler cfg =
     \<lparr>sp_config = cfg, sp_profiles = [], sp_globalAllow = toSet (sl_GlobalAllow cfg), sp_globalDeny = toSet (sl_GlobalDeny cfg),
      sp_violations = [], sp_sparseProfiles = 0, sp_samplingRate = Fin 1\<rparr>"

definition SetSamplingRate :: "f64 \<Rightarrow> SyscallAllowlistProfiler \<Rightarrow> SyscallAllowlistProfiler" where
  "SetSamplingRate rate p =
     (let rate = (if f64_less rate (Fin 0) then Fin 0 else rate); rate = (if f64_less (Fin 1) rate then Fin 1 else rate)
      in p\<lparr>sp_samplingRate := rate\<rparr>)"

section \<open>Recording and checking\<close>

definition sl_resolveKey :: "SyscallAllowlistProfiler \<Rightarrow> event \<Rightarrow> WorkloadKey" where
  "sl_resolveKey p e = (if sl_PerWorkload (sp_config p) then WorkloadKeyFromEvent e else \<lparr>wk_Comm = [], wk_Namespace = [], wk_AppLabel = []\<rparr>)"

definition transitionToEnforcing :: "time \<Rightarrow> WorkloadSyscallProfile \<Rightarrow> SyscallAllowlistProfiler \<Rightarrow> WorkloadSyscallProfile \<times> SyscallAllowlistProfiler" where
  "transitionToEnforcing now prof p =
     (prof\<lparr>wp_Enforcing := True, wp_LearnedAt := now\<rparr>,
      if int (length (wp_AllowedSyscalls prof)) < sl_SparseThreshold (sp_config p) then p\<lparr>sp_sparseProfiles := sp_sparseProfiles p + 1\<rparr> else p)"

definition learn_syscall :: "u32 list \<Rightarrow> u32 \<Rightarrow> WorkloadSyscallProfile \<Rightarrow> WorkloadSyscallProfile" where
  "learn_syscall allow nr prof =
     prof\<lparr>wp_AllowedSyscalls := (if nr \<in> set allow then wp_AllowedSyscalls prof else List.insert nr (wp_AllowedSyscalls prof)),
          wp_SampleCount := wp_SampleCount prof + 1\<rparr>"

definition learning_complete :: "SyscallAllowlistConfig \<Rightarrow> int \<Rightarrow> duration \<Rightarrow> bool" where
  "learning_complete cfg samples elapsed \<longleftrightarrow> wrap64 (sl_LearningPeriod cfg * go_second) \<le> elapsed \<and> sl_MinSamples cfg \<le> samples"

definition record_syscall :: "time \<Rightarrow> u32 \<Rightarrow> WorkloadKey \<Rightarrow> SyscallAllowlistProfiler \<Rightarrow> SyscallAllowlistProfiler" where
  "record_syscall now nr key p =
     (let k = WorkloadKey_String key;
          prof = (case map_of (sp_profiles p) k of Some prof \<Rightarrow> prof | None \<Rightarrow> newWorkloadSyscallProfile key now);
          p = p\<lparr>sp_profiles := AList.update k prof (sp_profiles p)\<rparr>
      in if wp_Enforcing prof then p
         else let prof = learn_syscall (sp_globalAllow p) nr prof;
                  (prof, p) = (if learning_complete (sp_config p) (wp_SampleCount prof) (time_sub now (wp_StartedAt prof))
                               then transitionToEnforcing now prof p else (prof, p))
           in p\<lparr>sp_profiles := AList.update k prof (sp_profiles p)\<rparr>)"

definition Record :: "time \<Rightarrow> f64 \<Rightarrow> event \<Rightarrow> SyscallAllowlistProfiler \<Rightarrow> SyscallAllowlistProfiler" where
  "Record now draw e p =
     (if \<not> sl_Enabled (sp_config p) \<or> ev_type e \<noteq> EventSyscall then p
      else case ev_syscall e of
        None \<Rightarrow> p
      | Some s \<Rightarrow>
          if f64_less (sp_samplingRate p) (Fin 1) \<and> f64_ge draw (sp_samplingRate p) then p
          else record_syscall now (ucast (sc_nr s)) (sl_resolveKey p e) p)"

definition recordViolationMetric :: "WorkloadKey \<Rightarrow> u32 \<Rightarrow> SyscallAllowlistProfiler \<Rightarrow> SyscallAllowlistProfiler" where
  "recordViolationMetric key nr p =
     (let label = (if wk_Namespace key = [] then wk_Comm key else wk_Namespace key @ ''/'' @ wk_Comm key)
      in p\<lparr>sp_violations := sp_violations p @ [(label, nr)]\<rparr>)"

definition Check :: "event \<Rightarrow> SyscallAllowlistProfiler \<Rightarrow> AllowlistViolation option \<times> SyscallAllowlistProfiler" where
  "Check e p =
     (if \<not> sl_Enabled (sp_config p) \<or> ev_type e \<noteq> EventSyscall then (None, p)
      else case ev_syscall e of
        None \<Rightarrow> (None, p)
      | Some s \<Rightarrow>
          let nr = ucast (sc_nr s); key = sl_resolveKey p e;
              action = (if sl_EnforcingAction (sp_config p) = [] then ''alert'' else sl_EnforcingAction (sp_config p))
          in if nr \<in> set (sp_globalAllow p) then (None, p)
             else if nr \<in> set (sp_globalDeny p)
             then (Some \<lparr>av_WorkloadKey = key, av_SyscallNr = nr, av_Source = ''global_deny'', av_Action = action\<rparr>, recordViolationMetric key nr p)
             else case map_of (sp_profiles p) (WorkloadKey_String key) of
               None \<Rightarrow> (None, p)
             | Some prof \<Rightarrow>
                 if \<not> wp_Enforcing prof \<or> nr \<in> set (wp_AllowedSyscalls prof) then (None, p)
                 else (Some \<lparr>av_WorkloadKey = key, av_SyscallNr = nr, av_Source = ''unknown'', av_Action = action\<rparr>, recordViolationMetric key nr p))"

definition SparseProfiles :: "SyscallAllowlistProfiler \<Rightarrow> WorkloadSyscallProfile list" where
  "SparseProfiles p =
     filter (\<lambda>prof. wp_Enforcing prof \<and> int (length (wp_AllowedSyscalls prof)) < sl_SparseThreshold (sp_config p)) (map snd (sp_profiles p))"

section \<open>The state file\<close>

datatype allowlist_error = AllowlistMarshal | AllowlistMkdir | AllowlistWriteTmp | AllowlistRename | AllowlistRead | AllowlistUnmarshal

record allowlist_env =
  ae_marshal :: "persistedState \<Rightarrow> string option"
  ae_unmarshal :: "string \<Rightarrow> persistedState option"
  ae_files :: file_env

definition SaveState :: "allowlist_env \<Rightarrow> time \<Rightarrow> string \<Rightarrow> SyscallAllowlistProfiler \<Rightarrow> files \<Rightarrow> allowlist_error option \<times> files" where
  "SaveState env now path p fs =
     (let out = \<lparr>ps_Version = 1, ps_SavedAt = now, ps_Profiles = map (\<lambda>(k, prof). (k, profile_toJSON prof)) (sp_profiles p)\<rparr>;
          tmp = path @ ''.tmp''
      in case ae_marshal env out of
           None \<Rightarrow> (Some AllowlistMarshal, fs)
         | Some data \<Rightarrow>
             if \<not> fv_mkdir (ae_files env) path then (Some AllowlistMkdir, fs)
             else case fv_write (ae_files env) tmp data fs of
               (False, fs) \<Rightarrow> (Some AllowlistWriteTmp, fs)
             | (True, fs) \<Rightarrow> (case fv_rename (ae_files env) tmp path fs of (ok, fs) \<Rightarrow> (if ok then None else Some AllowlistRename, fs)))"

definition loadState :: "allowlist_env \<Rightarrow> string \<Rightarrow> files \<Rightarrow> SyscallAllowlistProfiler \<Rightarrow> allowlist_error option \<times> SyscallAllowlistProfiler" where
  "loadState env path fs p =
     (case fs path of
        FileMissing \<Rightarrow> (None, p)
      | FileError \<Rightarrow> (Some AllowlistRead, p)
      | FileData data \<Rightarrow>
          (case ae_unmarshal env data of
             None \<Rightarrow> (Some AllowlistUnmarshal, p)
           | Some st \<Rightarrow> (None, p\<lparr>sp_profiles := fold (\<lambda>(k, prof). AList.update k (profile_fromJSON prof)) (ps_Profiles st) (sp_profiles p)\<rparr>)))"

definition NewSyscallAllowlistProfilerWithContext :: "allowlist_env \<Rightarrow> files \<Rightarrow> SyscallAllowlistConfig \<Rightarrow> SyscallAllowlistProfiler" where
  "NewSyscallAllowlistProfilerWithContext env fs cfg =
     (let p = NewSyscallAllowlistProfiler cfg
      in if sl_PersistPath cfg = [] then p else snd (loadState env (sl_PersistPath cfg) fs p))"

section \<open>Invariant\<close>

definition allowlist_ok :: "SyscallAllowlistProfiler \<Rightarrow> bool" where
  "allowlist_ok p \<longleftrightarrow> distinct_keys (sp_profiles p) \<and> (\<forall>prof\<in>snd ` set (sp_profiles p). distinct (wp_AllowedSyscalls prof)) \<and>
     sp_globalAllow p = toSet (sl_GlobalAllow (sp_config p)) \<and> sp_globalDeny p = toSet (sl_GlobalDeny (sp_config p))"

lemma snd_update_alist: "snd ` set (AList.update k v al) \<subseteq> insert v (snd ` set al)"
  using set_update_alist [of k v al] by force

text \<open>One recorded call: the profile of its workload learns it unless it is enforcing.\<close>

definition after_record :: "SyscallAllowlistConfig \<Rightarrow> u32 list \<Rightarrow> time \<Rightarrow> u32 \<Rightarrow> WorkloadSyscallProfile \<Rightarrow> WorkloadSyscallProfile" where
  "after_record cfg allow now nr prof =
     (if wp_Enforcing prof then prof
      else let prof = learn_syscall allow nr prof
        in if learning_complete cfg (wp_SampleCount prof) (time_sub now (wp_StartedAt prof))
           then prof\<lparr>wp_Enforcing := True, wp_LearnedAt := now\<rparr> else prof)"

lemma update_twice: "AList.update k v (AList.update k w al) = AList.update k v al"
  by (induction al) auto

lemma record_syscall_profiles:
  "sp_profiles (record_syscall now nr key p) =
     AList.update (WorkloadKey_String key) (after_record (sp_config p) (sp_globalAllow p) now nr
       (case map_of (sp_profiles p) (WorkloadKey_String key) of Some prof \<Rightarrow> prof | None \<Rightarrow> newWorkloadSyscallProfile key now)) (sp_profiles p)"
  "sp_config (record_syscall now nr key p) = sp_config p" "sp_globalAllow (record_syscall now nr key p) = sp_globalAllow p"
  "sp_globalDeny (record_syscall now nr key p) = sp_globalDeny p" "sp_samplingRate (record_syscall now nr key p) = sp_samplingRate p"
  by (simp_all add: record_syscall_def after_record_def transitionToEnforcing_def Let_def update_twice split: option.split)

lemma distinct_after_record: "distinct (wp_AllowedSyscalls prof) \<Longrightarrow> distinct (wp_AllowedSyscalls (after_record cfg allow now nr prof))"
  by (simp add: after_record_def learn_syscall_def Let_def)

lemma Record_ok:
  assumes "allowlist_ok p"
  shows "allowlist_ok (Record now draw e p) \<and> sp_config (Record now draw e p) = sp_config p \<and> sp_samplingRate (Record now draw e p) = sp_samplingRate p"
proof -
  have "allowlist_ok (record_syscall now nr key p)" for nr key
  proof -
    let ?prof = "case map_of (sp_profiles p) (WorkloadKey_String key) of Some prof \<Rightarrow> prof | None \<Rightarrow> newWorkloadSyscallProfile key now"
    have d: "\<forall>prof\<in>snd ` set (sp_profiles p). distinct (wp_AllowedSyscalls prof)" using assms by (simp add: allowlist_ok_def)
    have "distinct (wp_AllowedSyscalls ?prof)"
    proof (cases "map_of (sp_profiles p) (WorkloadKey_String key)")
      case (Some prof)
      have "prof \<in> snd ` set (sp_profiles p)" using imageI [OF map_of_SomeD [OF Some], of snd] by simp
      then show ?thesis using d Some by fastforce
    qed (simp add: newWorkloadSyscallProfile_def)
    note new = distinct_after_record [OF this, of "sp_config p" "sp_globalAllow p" now nr]
    have "distinct (wp_AllowedSyscalls prof)" if "prof \<in> snd ` set (sp_profiles (record_syscall now nr key p))" for prof
      using subsetD [OF snd_update_alist that [unfolded record_syscall_profiles]] d new by (auto simp del: distinct_insert)
    then show ?thesis using assms unfolding allowlist_ok_def record_syscall_profiles(2-5) by (simp add: record_syscall_profiles(1))
  qed
  then show ?thesis using assms by (simp add: Record_def record_syscall_profiles split: option.split)
qed

lemma Check_ok: "allowlist_ok p \<Longrightarrow> allowlist_ok (snd (Check e p)) \<and> sp_config (snd (Check e p)) = sp_config p \<and>
    sp_profiles (snd (Check e p)) = sp_profiles p \<and> sp_samplingRate (snd (Check e p)) = sp_samplingRate p"
  by (simp add: Check_def recordViolationMetric_def Let_def allowlist_ok_def split: option.split)

lemma new_allowlist_ok: "allowlist_ok (NewSyscallAllowlistProfiler cfg)"
  by (simp add: allowlist_ok_def NewSyscallAllowlistProfiler_def)

section \<open>What is learned\<close>

text \<open>
  A run is a sequence of recordings with their clock readings and draws, and of checks, as the correlation
  engine performs them.
\<close>

datatype allowlist_op = RecordAt time f64 event | CheckOf event

primrec allowlist_step :: "allowlist_op \<Rightarrow> SyscallAllowlistProfiler \<Rightarrow> SyscallAllowlistProfiler" where
  "allowlist_step (RecordAt now draw e) p = Record now draw e p"
| "allowlist_step (CheckOf e) p = snd (Check e p)"

definition allowlist_key :: "SyscallAllowlistConfig \<Rightarrow> event \<Rightarrow> string" where
  "allowlist_key cfg e = WorkloadKey_String (if sl_PerWorkload cfg then WorkloadKeyFromEvent e else \<lparr>wk_Comm = [], wk_Namespace = [], wk_AppLabel = []\<rparr>)"

fun workload_calls :: "SyscallAllowlistConfig \<Rightarrow> string \<Rightarrow> allowlist_op list \<Rightarrow> (time \<times> u32) list" where
  "workload_calls cfg k [] = []"
| "workload_calls cfg k (RecordAt now draw e # ops) =
     (case ev_syscall e of
        Some s \<Rightarrow> if ev_type e = EventSyscall \<and> allowlist_key cfg e = k then (now, ucast (sc_nr s)) # workload_calls cfg k ops else workload_calls cfg k ops
      | None \<Rightarrow> workload_calls cfg k ops)"
| "workload_calls cfg k (CheckOf e # ops) = workload_calls cfg k ops"

lemma workload_calls_append: "workload_calls cfg k (xs @ ys) = workload_calls cfg k xs @ workload_calls cfg k ys"
  by (induction cfg k xs rule: workload_calls.induct) (auto split: option.split)

definition syscalls_of :: "SyscallAllowlistConfig \<Rightarrow> (time \<times> u32) list \<Rightarrow> WorkloadSyscallProfile option \<Rightarrow> bool" where
  "syscalls_of cfg ws po \<longleftrightarrow>
     (case po of None \<Rightarrow> ws = []
      | Some prof \<Rightarrow> ws \<noteq> [] \<and> wp_StartedAt prof = fst (hd ws) \<and>
          (case learned (learning_complete cfg) ws of (nrs, over) \<Rightarrow>
             set (wp_AllowedSyscalls prof) = set nrs - set (toSet (sl_GlobalAllow cfg)) \<and> wp_Enforcing prof = over \<and>
             (\<not> over \<longrightarrow> wp_SampleCount prof = int (length ws))))"

lemma syscalls_of_step:
  fixes now :: time and key :: WorkloadKey
  assumes "syscalls_of cfg ws po"
  defines "prof \<equiv> (case po of Some q \<Rightarrow> q | None \<Rightarrow> newWorkloadSyscallProfile key now)"
  shows "syscalls_of cfg (ws @ [(now, nr)]) (Some (after_record cfg (toSet (sl_GlobalAllow cfg)) now nr prof))"
proof (cases po)
  case None
  then have "ws = []" using assms(1) by (simp add: syscalls_of_def)
  then show ?thesis
    by (auto simp: None prof_def syscalls_of_def newWorkloadSyscallProfile_def after_record_def learn_syscall_def Let_def learned_first)
next
  case (Some q)
  obtain nrs over where l: "learned (learning_complete cfg) ws = (nrs, over)" by fastforce
  have ws: "ws \<noteq> []" "wp_StartedAt q = fst (hd ws)" "set (wp_AllowedSyscalls q) = set nrs - set (toSet (sl_GlobalAllow cfg))"
    "wp_Enforcing q = over" "\<not> over \<longrightarrow> wp_SampleCount q = int (length ws)"
    using assms(1) Some l by (simp_all add: syscalls_of_def)
  then show ?thesis
    by (auto simp: Some prof_def syscalls_of_def learned_snoc l after_record_def learn_syscall_def Let_def)
qed

lemma allowlist_run_ok:
  defines "run ops p \<equiv> fold allowlist_step ops p"
  assumes "allowlist_ok p"
  shows "allowlist_ok (run ops p) \<and> sp_config (run ops p) = sp_config p \<and> sp_samplingRate (run ops p) = sp_samplingRate p"
  unfolding run_def using assms(2)
proof (induction ops arbitrary: p)
  case (Cons op ops)
  have "allowlist_ok (allowlist_step op p) \<and> sp_config (allowlist_step op p) = sp_config p \<and> sp_samplingRate (allowlist_step op p) = sp_samplingRate p"
    using Cons.prems Record_ok Check_ok by (cases op) auto
  then show ?case using Cons.IH [of "allowlist_step op p"] by simp
qed simp

lemma learned_syscalls:
  assumes "sl_Enabled cfg"
  shows "syscalls_of cfg (workload_calls cfg k ops) (map_of (sp_profiles (fold allowlist_step ops (NewSyscallAllowlistProfiler cfg))) k)"
proof (induction ops arbitrary: k rule: rev_induct)
  case Nil
  show ?case by (simp add: syscalls_of_def NewSyscallAllowlistProfiler_def)
next
  case (snoc op ops)
  let ?p = "fold allowlist_step ops (NewSyscallAllowlistProfiler cfg)"
  have ok: "allowlist_ok ?p" "sp_config ?p = cfg" "sp_samplingRate ?p = Fin 1"
    using allowlist_run_ok [OF new_allowlist_ok [of cfg], of ops] by (simp_all add: NewSyscallAllowlistProfiler_def)
  then have allow: "sp_globalAllow ?p = toSet (sl_GlobalAllow cfg)" by (simp add: allowlist_ok_def)
  show ?case
  proof (cases op)
    case (CheckOf e)
    then show ?thesis using snoc.IH Check_ok [OF ok(1)] by (simp add: workload_calls_append)
  next
    case (RecordAt now draw e)
    show ?thesis
    proof (cases "\<exists>s. ev_syscall e = Some s \<and> ev_type e = EventSyscall")
      case False
      then have "Record now draw e ?p = ?p" "workload_calls cfg k [RecordAt now draw e] = []"
        by (auto simp: Record_def split: option.split)
      then show ?thesis using snoc.IH by (simp add: RecordAt workload_calls_append)
    next
      case True
      then obtain s where s: "ev_syscall e = Some s" "ev_type e = EventSyscall" by blast
      have key: "WorkloadKey_String (sl_resolveKey ?p e) = allowlist_key cfg e" by (simp add: sl_resolveKey_def allowlist_key_def ok)
      have r: "sp_profiles (Record now draw e ?p) = AList.update (allowlist_key cfg e) (after_record cfg (toSet (sl_GlobalAllow cfg)) now (ucast (sc_nr s))
          (case map_of (sp_profiles ?p) (allowlist_key cfg e) of Some prof \<Rightarrow> prof | None \<Rightarrow> newWorkloadSyscallProfile (sl_resolveKey ?p e) now)) (sp_profiles ?p)"
        using s assms by (simp add: Record_def ok record_syscall_profiles key allow)
      show ?thesis
      proof (cases "k = allowlist_key cfg e")
        case True
        then show ?thesis using syscalls_of_step [OF snoc.IH [of k], where key = "sl_resolveKey ?p e" and now = now and nr = "ucast (sc_nr s)"] s
          by (simp add: RecordAt workload_calls_append r)
      next
        case False
        then show ?thesis using snoc.IH [of k] s by (simp add: RecordAt workload_calls_append r map_of_update_other)
      qed
    qed
  qed
qed

lemma check_decision:
  assumes "sl_Enabled cfg" "ev_type e = EventSyscall" "ev_syscall e = Some s"
  shows "fst (Check e (fold allowlist_step ops (NewSyscallAllowlistProfiler cfg))) \<noteq> None \<longleftrightarrow>
    (let nr = ucast (sc_nr s) in nr \<notin> set (toSet (sl_GlobalAllow cfg)) \<and>
       (nr \<in> set (toSet (sl_GlobalDeny cfg)) \<or>
        (case learned (learning_complete cfg) (workload_calls cfg (allowlist_key cfg e) ops) of (nrs, over) \<Rightarrow> over \<and> nr \<notin> set nrs)))"
proof -
  let ?p = "fold allowlist_step ops (NewSyscallAllowlistProfiler cfg)"
  have ok: "allowlist_ok ?p" "sp_config ?p = cfg"
    using allowlist_run_ok [OF new_allowlist_ok [of cfg], of ops] by (simp_all add: NewSyscallAllowlistProfiler_def)
  then have sets: "sp_globalAllow ?p = toSet (sl_GlobalAllow cfg)" "sp_globalDeny ?p = toSet (sl_GlobalDeny cfg)" by (simp_all add: allowlist_ok_def)
  have key: "WorkloadKey_String (sl_resolveKey ?p e) = allowlist_key cfg e" by (simp add: sl_resolveKey_def allowlist_key_def ok)
  note l = learned_syscalls [OF assms(1), of "allowlist_key cfg e" ops]
  show ?thesis
  proof (cases "map_of (sp_profiles ?p) (allowlist_key cfg e)")
    case None
    then show ?thesis using l assms by (simp add: Check_def ok sets key Let_def syscalls_of_def)
  next
    case (Some prof)
    obtain nrs over where lr: "learned (learning_complete cfg) (workload_calls cfg (allowlist_key cfg e) ops) = (nrs, over)" by fastforce
    have "set (wp_AllowedSyscalls prof) = set nrs - set (toSet (sl_GlobalAllow cfg))" "wp_Enforcing prof = over"
      using l Some lr by (simp_all add: syscalls_of_def)
    then show ?thesis using Some assms lr by (simp add: Check_def ok sets key Let_def)
  qed
qed

text \<open>
  C10 (equivalence).  While every event is sampled, a system call is reported exactly when it is not globally
  allowed and it is globally denied, or its workload has finished learning and the call is not among those
  recorded up to the end of learning.
\<close>

theorem Check_flags_unlearned:
  assumes "sl_Enabled cfg" "ev_type e = EventSyscall" "ev_syscall e = Some s"
  shows "fst (Check e (fold allowlist_step ops (NewSyscallAllowlistProfiler cfg))) \<noteq> None \<longleftrightarrow>
    (let nr = ucast (sc_nr s) in nr \<notin> set (toSet (sl_GlobalAllow cfg)) \<and>
       (nr \<in> set (toSet (sl_GlobalDeny cfg)) \<or>
        (case learned (learning_complete cfg) (workload_calls cfg (allowlist_key cfg e) ops) of (nrs, over) \<Rightarrow> over \<and> nr \<notin> set nrs)))"
  using assms by (rule check_decision)

definition example_allowlist :: SyscallAllowlistConfig where
  "example_allowlist = DefaultSyscallAllowlistConfig\<lparr>sl_Enabled := True, sl_LearningPeriod := 60, sl_MinSamples := 2, sl_GlobalDeny := [101], sl_PersistPath := ''state''\<rparr>"

definition call_event :: "u64 \<Rightarrow> event" where
  "call_event nr = zero_event\<lparr>ev_type := EventSyscall, ev_syscall := Some \<lparr>sc_nr = nr, sc_ret = 0, sc_args = []\<rparr>\<rparr>"

definition example_calls :: "allowlist_op list" where
  "example_calls = [RecordAt 0 (Fin 0) (call_event 1), CheckOf (call_event 1), RecordAt 60000000000 (Fin 0) (call_event 1)]"

theorem Check_flags_unlearned_witness:
  "fst (Check (call_event 59) (fold allowlist_step example_calls (NewSyscallAllowlistProfiler example_allowlist))) \<noteq> None \<and>
   \<not> fst (Check (call_event 1) (fold allowlist_step example_calls (NewSyscallAllowlistProfiler example_allowlist))) \<noteq> None"
proof -
  have e: "sl_Enabled example_allowlist" "ev_type (call_event nr) = EventSyscall" "ev_syscall (call_event nr) = Some \<lparr>sc_nr = nr, sc_ret = 0, sc_args = []\<rparr>" for nr
    by (simp_all add: example_allowlist_def call_event_def)
  show ?thesis unfolding Check_flags_unlearned [OF e] by code_simp
qed

text \<open>
  Learning ends by the number of samples, not of different calls; it does not end without them however much
  time passes; and the configured mode is never looked at.
\<close>

theorem one_call_completes_learning:
  "map_option (\<lambda>prof. (wp_Enforcing prof, wp_AllowedSyscalls prof))
     (map_of (sp_profiles (fold allowlist_step example_calls (NewSyscallAllowlistProfiler example_allowlist))) (allowlist_key example_allowlist (call_event 1))) =
   Some (True, [1])"
  by code_simp

theorem learning_needs_samples:
  assumes "sl_Enabled cfg" "ev_type e = EventSyscall" "ev_syscall e = Some s" "ucast (sc_nr s) \<notin> set (toSet (sl_GlobalDeny cfg))"
    "int (length (workload_calls cfg (allowlist_key cfg e) ops)) < sl_MinSamples cfg"
  shows "fst (Check e (fold allowlist_step ops (NewSyscallAllowlistProfiler cfg))) = None"
proof -
  have "\<not> snd (learning (learning_complete cfg) t0 n ws)" if "n + int (length ws) < sl_MinSamples cfg" for t0 n ws
    using that by (induction "learning_complete cfg" t0 n ws rule: learning.induct) (auto simp: learning_complete_def split: prod.split)
  from this [of 0 "workload_calls cfg (allowlist_key cfg e) ops"] assms(5)
  have "\<not> snd (learned (learning_complete cfg) (workload_calls cfg (allowlist_key cfg e) ops))" by (simp add: learned_def)
  then show ?thesis using check_decision [OF assms(1-3), of ops] assms(4) by (auto simp: Let_def split: prod.splits)
qed

theorem mode_ignored: "fst (Check e (NewSyscallAllowlistProfiler (cfg\<lparr>sl_Mode := mode\<rparr>))) = fst (Check e (NewSyscallAllowlistProfiler cfg))"
  by (simp add: Check_def NewSyscallAllowlistProfiler_def Let_def sl_resolveKey_def split: option.split)

section \<open>The state file\<close>

text \<open>
  C18 (error).  A save that fails -- in JSON, creating the directory, writing or renaming -- leaves the state
  file as it was: the new state goes to a temporary file first.
\<close>

theorem SaveState_error_keeps_file:
  assumes "file_env_ok (ae_files env)" "SaveState env now path p fs = (Some err, fs')"
  shows "fs' path = fs path"
proof -
  let ?env = "ae_files env"
  have "fs' = fs \<or> (\<exists>data ok fs1. fv_write ?env (path @ ''.tmp'') data fs = (ok, fs1) \<and> (fs' = fs1 \<or> fv_rename ?env (path @ ''.tmp'') path fs1 = (False, fs')))"
    using assms(2) by (auto simp: SaveState_def Let_def split: option.splits if_splits prod.splits bool.splits)
  then consider "fs' = fs" | data ok fs1 where "fv_write ?env (path @ ''.tmp'') data fs = (ok, fs1)" "fs' = fs1"
    using file_env_okD(4) [OF assms(1)] by blast
  then show ?thesis
  proof cases
    case (2 data ok fs1)
    then show ?thesis using file_env_okD(2) [OF assms(1) 2(1), of path] by simp
  qed simp
qed

definition full_disk :: allowlist_env where
  "full_disk = \<lparr>ae_marshal = (\<lambda>_. Some ''new''), ae_unmarshal = (\<lambda>_. None),
     ae_files = plain_file_env\<lparr>fv_write := (\<lambda>p s fs. (False, fs(p := FileData (take 1 s))))\<rparr>\<rparr>"

theorem SaveState_error_keeps_file_witness:
  "fst (SaveState full_disk 0 ''state'' (NewSyscallAllowlistProfiler example_allowlist) (\<lambda>_. FileData ''old'')) = Some AllowlistWriteTmp \<and>
   snd (SaveState full_disk 0 ''state'' (NewSyscallAllowlistProfiler example_allowlist) (\<lambda>_. FileData ''old'')) ''state'' = FileData ''old''"
proof -
  let ?r = "SaveState full_disk 0 ''state'' (NewSyscallAllowlistProfiler example_allowlist) (\<lambda>_. FileData ''old'')"
  have "file_env_ok (ae_files full_disk)" by (auto simp: full_disk_def file_env_ok_def plain_file_env_def)
  moreover have r: "?r = (Some AllowlistWriteTmp, snd ?r)" by (simp add: SaveState_def full_disk_def plain_file_env_def Let_def)
  ultimately show ?thesis using SaveState_error_keeps_file [OF _ r] by (metis fst_conv)
qed

lemma map_of_map_value: "map_of (map (\<lambda>(k, v). (k, f v)) al) k = map_option f (map_of al k)"
  by (induction al) auto

lemma fold_update_map_of:
  "distinct_keys xs \<Longrightarrow> map_of (fold (\<lambda>(k, v). AList.update k (f v)) xs al) k = (case map_of xs k of Some v \<Rightarrow> Some (f v) | None \<Rightarrow> map_of al k)"
proof (induction xs arbitrary: al)
  case (Cons x xs)
  obtain k' v where x: "x = (k', v)" by force
  have "map_of xs k' = None" using Cons.prems x by (simp add: map_of_eq_None_iff)
  then show ?case using Cons x by (auto simp: update_conv' split: option.split)
qed simp

text \<open>
  JSON text is UTF-8: the package writes U+FFFD for every byte that is not part of a valid sequence, and reads
  such bytes the same way.  A string survives when decoding it into runes and encoding them gives it back.
\<close>

definition json_text :: "string \<Rightarrow> bool" where
  "json_text s \<longleftrightarrow> concat (map utf8_encode (runes s)) = s"

definition json_profile :: "string \<times> WorkloadSyscallProfile \<Rightarrow> bool" where
  "json_profile kp \<longleftrightarrow> json_text (fst kp) \<and> json_text (wp_ImageRef (snd kp)) \<and> json_text (wp_Namespace (snd kp)) \<and> json_text (wp_AppLabel (snd kp))"

lemma json_profile_toJSON: "list_all json_profile (map (\<lambda>(k, prof). (k, profile_toJSON prof)) ps) = list_all json_profile ps"
  by (induction ps) (auto simp: json_profile_def profile_toJSON_def)

text \<open>
  C39 (roundtrip).  After a save that succeeded, a profiler started on the state file with the same configuration
  has the same profiles -- learned calls, counts, times and phase -- and judges every event as the one that was
  saved, when the names of the saved workloads are valid UTF-8.  JSON is relied on to read back what it wrote of
  such a state but for the field it is told to leave out.
\<close>

theorem saved_state_restored:
  assumes "file_env_ok (ae_files env)" "sl_PersistPath cfg \<noteq> []" "p = fold allowlist_step ops (NewSyscallAllowlistProfiler cfg)"
    and json: "\<forall>st data. list_all json_profile (ps_Profiles st) \<and> ae_marshal env st = Some data \<longrightarrow>
      ae_unmarshal env data = Some (st\<lparr>ps_Profiles := map (\<lambda>(k, prof). (k, prof\<lparr>wp_AllowedSyscalls := []\<rparr>)) (ps_Profiles st)\<rparr>)"
    and save: "SaveState env now (sl_PersistPath cfg) p fs = (None, fs')" and names: "list_all json_profile (sp_profiles p)"
  shows "map_of (sp_profiles (NewSyscallAllowlistProfilerWithContext env fs' cfg)) k = map_option profile_toJSON (map_of (sp_profiles p) k) \<and>
    fst (Check e (NewSyscallAllowlistProfilerWithContext env fs' cfg)) = fst (Check e p)"
proof -
  let ?st = "\<lparr>ps_Version = 1, ps_SavedAt = now, ps_Profiles = map (\<lambda>(k, prof). (k, profile_toJSON prof)) (sp_profiles p)\<rparr>"
  let ?path = "sl_PersistPath cfg" and ?q = "NewSyscallAllowlistProfilerWithContext env fs' cfg"
  have ok: "allowlist_ok p" "sp_config p = cfg"
    using allowlist_run_ok [OF new_allowlist_ok [of cfg], of ops] by (simp_all add: assms(3) NewSyscallAllowlistProfiler_def)
  from save obtain data fs1 where d: "ae_marshal env ?st = Some data" "fv_write (ae_files env) (?path @ ''.tmp'') data fs = (True, fs1)"
    "fv_rename (ae_files env) (?path @ ''.tmp'') ?path fs1 = (True, fs')"
    by (auto simp: SaveState_def Let_def split: option.splits if_splits prod.splits bool.splits)
  have f: "fs' ?path = FileData data" using file_env_okD(1,3) [OF assms(1)] d(2,3) by metis
  let ?xs = "map (\<lambda>(k, prof). (k, (profile_toJSON prof)\<lparr>wp_AllowedSyscalls := []\<rparr>)) (sp_profiles p)"
  have u: "ae_unmarshal env data = Some (?st\<lparr>ps_Profiles := ?xs\<rparr>)"
  proof -
    have "list_all json_profile (ps_Profiles ?st)" using names by (simp add: json_profile_toJSON)
    then show ?thesis using json [rule_format, OF conjI, of ?st data] d(1) by (simp add: comp_def case_prod_unfold)
  qed
  have q: "?q = (NewSyscallAllowlistProfiler cfg)\<lparr>sp_profiles := fold (\<lambda>(k, prof). AList.update k (profile_fromJSON prof)) ?xs []\<rparr>"
    using u f assms(2) by (simp add: NewSyscallAllowlistProfilerWithContext_def Let_def loadState_def NewSyscallAllowlistProfiler_def)
  have "distinct_keys ?xs" using ok(1) by (simp add: allowlist_ok_def comp_def case_prod_beta)
  then have "map_of (sp_profiles ?q) k = map_option (\<lambda>prof. profile_fromJSON ((profile_toJSON prof)\<lparr>wp_AllowedSyscalls := []\<rparr>)) (map_of (sp_profiles p) k)" for k
    unfolding q by (simp add: fold_update_map_of map_of_map_value option.map_comp comp_def split: option.split)
  moreover have "profile_fromJSON ((profile_toJSON prof)\<lparr>wp_AllowedSyscalls := []\<rparr>) = profile_toJSON prof" if "map_of (sp_profiles p) k = Some prof" for prof k
  proof -
    have "distinct (wp_AllowedSyscalls prof)" using ok(1) map_of_SomeD [OF that] by (force simp: allowlist_ok_def)
    then show ?thesis by (simp add: profile_fromJSON_def profile_toJSON_def)
  qed
  ultimately have m: "map_of (sp_profiles ?q) k = map_option profile_toJSON (map_of (sp_profiles p) k)" for k
    by (cases "map_of (sp_profiles p) k") simp_all
  have "sp_config ?q = cfg" "sp_globalAllow ?q = sp_globalAllow p" "sp_globalDeny ?q = sp_globalDeny p"
    using ok by (simp_all add: q NewSyscallAllowlistProfiler_def allowlist_ok_def)
  then have "fst (Check e ?q) = fst (Check e p)"
    by (simp add: Check_def m ok(2) Let_def sl_resolveKey_def profile_toJSON_def split: option.split)
  then show ?thesis using m by blast
qed

text \<open>An encoding that every state survives.\<close>

definition state_fields :: "persistedState \<Rightarrow> int \<times> time \<times> (string \<times> u32 list \<times> u32 list \<times> string \<times> string \<times> string \<times> time \<times> int \<times> bool \<times> time) list" where
  "state_fields st = (ps_Version st, ps_SavedAt st, map (\<lambda>(k, p). (k, wp_AllowedSyscalls p, wp_AllowedList p, wp_ImageRef p, wp_Namespace p,
     wp_AppLabel p, wp_LearnedAt p, wp_SampleCount p, wp_Enforcing p, wp_StartedAt p)) (ps_Profiles st))"

definition fields_state :: "int \<times> time \<times> (string \<times> u32 list \<times> u32 list \<times> string \<times> string \<times> string \<times> time \<times> int \<times> bool \<times> time) list \<Rightarrow> persistedState" where
  "fields_state = (\<lambda>(v, t, ps). \<lparr>ps_Version = v, ps_SavedAt = t, ps_Profiles = map (\<lambda>(k, _, l, i, n, a, la, c, en, sa). (k, \<lparr>wp_AllowedSyscalls = [],
     wp_AllowedList = l, wp_ImageRef = i, wp_Namespace = n, wp_AppLabel = a, wp_LearnedAt = la, wp_SampleCount = c, wp_Enforcing = en, wp_StartedAt = sa\<rparr>)) ps\<rparr>)"

lemma fields_state_fields:
  "fields_state (state_fields st) = st\<lparr>ps_Profiles := map (\<lambda>(k, prof). (k, prof\<lparr>wp_AllowedSyscalls := []\<rparr>)) (ps_Profiles st)\<rparr>"
  by (cases st) (auto simp: state_fields_def fields_state_def)

definition example_json :: allowlist_env where
  "example_json = \<lparr>ae_marshal = (\<lambda>st. Some (replicate (to_nat (state_fields st)) CHR ''1'')),
     ae_unmarshal = (\<lambda>data. Some (fields_state (from_nat (length data)))), ae_files = plain_file_env\<rparr>"

lemma example_json_reads:
  "ae_marshal example_json st = Some data \<Longrightarrow>
     ae_unmarshal example_json data = Some (st\<lparr>ps_Profiles := map (\<lambda>(k, prof). (k, prof\<lparr>wp_AllowedSyscalls := []\<rparr>)) (ps_Profiles st)\<rparr>)"
  by (auto simp: example_json_def fields_state_fields)

theorem saved_state_restored_witness:
  "let p = fold allowlist_step example_calls (NewSyscallAllowlistProfiler example_allowlist);
       r = SaveState example_json 7 ''state'' p (\<lambda>_. FileMissing)
   in fst r = None \<and> fst (Check (call_event 59) (NewSyscallAllowlistProfilerWithContext example_json (snd r) example_allowlist)) = fst (Check (call_event 59) p)"
proof -
  let ?p = "fold allowlist_step example_calls (NewSyscallAllowlistProfiler example_allowlist)"
  let ?r = "SaveState example_json 7 ''state'' ?p (\<lambda>_. FileMissing)"
  have path: "sl_PersistPath example_allowlist = ''state''" by (simp add: example_allowlist_def)
  have r: "SaveState example_json 7 (sl_PersistPath example_allowlist) ?p (\<lambda>_. FileMissing) = (None, snd ?r)"
    by (simp add: path SaveState_def Let_def example_json_def plain_file_env_def)
  have names: "list_all json_profile (sp_profiles ?p)" by code_simp
  have json: "\<forall>st data. list_all json_profile (ps_Profiles st) \<and> ae_marshal example_json st = Some data \<longrightarrow>
      ae_unmarshal example_json data = Some (st\<lparr>ps_Profiles := map (\<lambda>(k, prof). (k, prof\<lparr>wp_AllowedSyscalls := []\<rparr>)) (ps_Profiles st)\<rparr>)"
    using example_json_reads by blast
  have "file_env_ok (ae_files example_json)" "sl_PersistPath example_allowlist \<noteq> []"
    by (simp_all add: example_json_def plain_file_env_ok path)
  note restored = saved_state_restored [OF this refl json r names, of "[]" "call_event 59", THEN conjunct2]
  have "fst ?r = None" using arg_cong [OF r, of fst] unfolding path by (simp only: fst_conv)
  with restored show ?thesis unfolding Let_def by (rule conjI [rotated])
qed

text \<open>
  A process chooses its name, and a name need not be UTF-8.  The reader of the state file never produces such a
  name, so the profile of its workload is gone after a restart and, until it is learned again, nothing but the
  global deny list is checked.
\<close>

theorem invalid_workload_not_restored:
  assumes reads: "\<forall>data st. ae_unmarshal env data = Some st \<longrightarrow> list_all json_profile (ps_Profiles st)"
    and "\<not> json_text (WorkloadKey_String (sl_resolveKey (NewSyscallAllowlistProfiler cfg) e))"
    and "ev_syscall e = Some s" "ucast (sc_nr s) \<notin> set (toSet (sl_GlobalDeny cfg))"
  shows "fst (Check e (NewSyscallAllowlistProfilerWithContext env fs cfg)) = None"
proof -
  let ?p = "NewSyscallAllowlistProfilerWithContext env fs cfg" and ?k = "WorkloadKey_String (sl_resolveKey (NewSyscallAllowlistProfiler cfg) e)"
  have fold_keys: "fst ` set (fold (\<lambda>(k, prof). AList.update k (profile_fromJSON prof)) ps xs) \<subseteq> fst ` set xs \<union> fst ` set ps" for ps xs :: "(string \<times> WorkloadSyscallProfile) list"
  proof (induction ps arbitrary: xs)
    case (Cons x ps)
    obtain k v where x: "x = (k, v)" by (rule prod.exhaust)
    show ?case using Cons.IH [of "AList.update k (profile_fromJSON v) xs"] by (auto simp: x dom_update)
  qed simp
  have keys: "?k \<notin> fst ` set ps" if "list_all json_profile ps" for ps
    using that assms(2) by (auto simp: list_all_iff json_profile_def)
  have new: "sp_profiles (NewSyscallAllowlistProfiler cfg) = []" "sp_config (NewSyscallAllowlistProfiler cfg) = cfg"
    "sp_globalDeny (NewSyscallAllowlistProfiler cfg) = toSet (sl_GlobalDeny cfg)" by (simp_all add: NewSyscallAllowlistProfiler_def)
  have "\<exists>ps. list_all json_profile ps \<and>
      ?p = (NewSyscallAllowlistProfiler cfg)\<lparr>sp_profiles := fold (\<lambda>(k, prof). AList.update k (profile_fromJSON prof)) ps []\<rparr>"
  proof (cases "sl_PersistPath cfg = [] \<or> sp_profiles ?p = [] \<and> ?p = NewSyscallAllowlistProfiler cfg")
    case True
    then have "?p = (NewSyscallAllowlistProfiler cfg)\<lparr>sp_profiles := []\<rparr>" by (auto simp: NewSyscallAllowlistProfilerWithContext_def new)
    then show ?thesis by (intro exI [of _ "[]"]) simp
  next
    case False
    then obtain data st where "fs (sl_PersistPath cfg) = FileData data" "ae_unmarshal env data = Some st"
      by (auto simp: NewSyscallAllowlistProfilerWithContext_def loadState_def Let_def new split: file_read.splits option.splits)
    then show ?thesis using False reads
      by (intro exI [of _ "ps_Profiles st"]) (auto simp: NewSyscallAllowlistProfilerWithContext_def loadState_def Let_def new)
  qed
  then obtain ps where ps: "list_all json_profile ps"
    "?p = (NewSyscallAllowlistProfiler cfg)\<lparr>sp_profiles := fold (\<lambda>(k, prof). AList.update k (profile_fromJSON prof)) ps []\<rparr>" by blast
  have "map_of (sp_profiles ?p) ?k = None"
    using fold_keys [of ps "[]"] keys [OF ps(1)] by (auto simp: ps(2) map_of_eq_None_iff)
  moreover have "sp_config ?p = cfg" "sp_globalDeny ?p = toSet (sl_GlobalDeny cfg)" by (simp_all add: ps(2) new)
  ultimately show ?thesis using assms(3,4) by (simp add: Check_def Let_def sl_resolveKey_def new)
qed

lemma names_and_json:
  "\<not> json_text [char_of (255::nat)] \<and> json_text ''curl''"
  by (simp add: json_text_def runes_def rune_at_def utf8_encode_def char_of_def bit_0)

end
