(* ===== verification/Feedback_Manager.thy ===== *)
theory Feedback_Manager
  imports Event_Types Go_Files
begin

text \<open>
  Analyst feedback (\<open>feedback/manager.go\<close>): verdicts on alerts are recorded, false positives suppress later
  alerts of the same rule and command, and the records survive a restart in a file.  YAML and the file
  system are arguments.
\<close>

section \<open>Records and suppressions\<close>

abbreviation VerdictFalsePositive :: string where "VerdictFalsePositive \<equiv> ''false_positive''"
abbreviation VerdictTruePositive :: string where "VerdictTruePositive \<equiv> ''true_positive''"

record feedback_record =
  fr_AlertID :: string
  fr_Verdict :: string
  fr_RuleID :: string
  fr_Comm :: string
  fr_Timestamp :: time
  fr_Reason :: string

record feedback_response =
  rp_AlertID :: string
  rp_Verdict :: string
  rp_Suppressed :: bool

definition anomalyRuleID :: string where
  "anomalyRuleID = ''anomaly_detection''"

record feedback_manager =
  fm_records :: "feedback_record list"
  fm_suppressions :: "(string \<times> string) list"
  fm_anomalySuppressions :: "string list"
  fm_exportPath :: string

definition NewManager :: "string \<Rightarrow> feedback_manager" where
  "NewManager path = \<lparr>fm_records = [], fm_suppressions = [], fm_anomalySuppressions = [], fm_exportPath = path\<rparr>"

section \<open>The file\<close>

datatype feedback_error = FeedbackMarshal | FeedbackMkdir | FeedbackWrite | FeedbackRead | FeedbackUnmarshal

record feedback_env =
  fe_marshal :: "feedback_record list \<Rightarrow> string option"
  fe_unmarshal :: "string \<Rightarrow> feedback_record list option"
  fe_files :: file_env

definition ExportToFile :: "feedback_env \<Rightarrow> feedback_manager \<Rightarrow> files \<Rightarrow> (feedback_error option) \<times> files" where
  "ExportToFile env m fs =
     (if fm_exportPath m = [] then (None, fs)
      else case fe_marshal env (fm_records m) of
        None \<Rightarrow> (Some FeedbackMarshal, fs)
      | Some data \<Rightarrow>
          if \<not> fv_mkdir (fe_files env) (fm_exportPath m) then (Some FeedbackMkdir, fs)
          else case fv_write (fe_files env) (fm_exportPath m) data fs of
            (ok, fs) \<Rightarrow> (if ok then None else Some FeedbackWrite, fs))"

definition load_record :: "feedback_record \<Rightarrow> feedback_manager \<Rightarrow> feedback_manager" where
  "load_record rec m =
     (let m = m\<lparr>fm_records := fm_records m @ [rec]\<rparr>
      in if fr_Verdict rec = VerdictFalsePositive
         then m\<lparr>fm_suppressions := List.insert (fr_RuleID rec, fr_Comm rec) (fm_suppressions m),
                fm_anomalySuppressions := (if fr_RuleID rec = anomalyRuleID
                  then List.insert (fr_Comm rec) (fm_anomalySuppressions m) else fm_anomalySuppressions m)\<rparr>
         else m)"

definition LoadFromFile :: "feedback_env \<Rightarrow> files \<Rightarrow> feedback_manager \<Rightarrow> (feedback_error option) \<times> feedback_manager" where
  "LoadFromFile env fs m =
     (if fm_exportPath m = [] then (None, m)
      else case fs (fm_exportPath m) of
        FileMissing \<Rightarrow> (None, m)
      | FileError \<Rightarrow> (Some FeedbackRead, m)
      | FileData data \<Rightarrow>
          (case fe_unmarshal env data of
             None \<Rightarrow> (Some FeedbackUnmarshal, m)
           | Some recs \<Rightarrow> (None, fold load_record recs m)))"

section \<open>Feedback and its effect\<close>

definition apply_verdict :: "alert \<Rightarrow> string \<Rightarrow> feedback_manager \<Rightarrow> bool \<times> feedback_manager" where
  "apply_verdict al verdict m =
     (if verdict \<noteq> VerdictFalsePositive then (False, m)
      else let key = (al_rule_id al, al_comm al);
               new = (key \<notin> set (fm_suppressions m));
               m = m\<lparr>fm_suppressions := List.insert key (fm_suppressions m)\<rparr>
        in if al_rule_id al = anomalyRuleID
           then (new \<or> al_comm al \<notin> set (fm_anomalySuppressions m),
                 m\<lparr>fm_anomalySuppressions := List.insert (al_comm al) (fm_anomalySuppressions m)\<rparr>)
           else (new, m))"

definition Submit :: "feedback_env \<Rightarrow> time \<Rightarrow> alert \<Rightarrow> string \<Rightarrow> string \<Rightarrow> feedback_manager \<Rightarrow> files \<Rightarrow>
    (feedback_response \<times> feedback_error option) \<times> feedback_manager \<times> files" where
  "Submit env now al verdict reason m fs =
     (let rec = \<lparr>fr_AlertID = al_id al, fr_Verdict = verdict, fr_RuleID = al_rule_id al, fr_Comm = al_comm al,
                 fr_Timestamp = now, fr_Reason = reason\<rparr>;
          m = m\<lparr>fm_records := fm_records m @ [rec]\<rparr>
      in case apply_verdict al verdict m of (suppressed, m) \<Rightarrow>
         case ExportToFile env m fs of (err, fs) \<Rightarrow>
           ((\<lparr>rp_AlertID = al_id al, rp_Verdict = verdict, rp_Suppressed = suppressed\<rparr>, err), m, fs))"

definition IsSuppressed :: "feedback_manager \<Rightarrow> string \<Rightarrow> string \<Rightarrow> bool" where
  "IsSuppressed m ruleID comm =
     (if (ruleID, comm) \<in> set (fm_suppressions m) then True
      else if ruleID = anomalyRuleID then comm \<in> set (fm_anomalySuppressions m) else False)"

fun filter_alerts :: "feedback_manager \<Rightarrow> alert list \<Rightarrow> alert list \<Rightarrow> alert list" where
  "filter_alerts m out [] = out"
| "filter_alerts m out (a # as) =
     (if (al_rule_id a, al_comm a) \<in> set (fm_suppressions m) then filter_alerts m out as
      else if al_rule_id a = anomalyRuleID \<and> al_comm a \<in> set (fm_anomalySuppressions m) then filter_alerts m out as
      else filter_alerts m (out @ [a]) as)"

definition FilterAlerts :: "feedback_manager \<Rightarrow> alert list \<Rightarrow> alert list" where
  "FilterAlerts m as = filter_alerts m [] as"

definition SuppressionCount :: "feedback_manager \<Rightarrow> nat" where
  "SuppressionCount m = length (fm_suppressions m) + length (fm_anomalySuppressions m)"

section \<open>Suppressions follow the records\<close>

definition false_positive :: "feedback_record list \<Rightarrow> string \<Rightarrow> string \<Rightarrow> bool" where
  "false_positive recs ruleID comm \<longleftrightarrow> (\<exists>rec\<in>set recs. fr_Verdict rec = VerdictFalsePositive \<and> fr_RuleID rec = ruleID \<and> fr_Comm rec = comm)"

definition manager_ok :: "feedback_manager \<Rightarrow> bool" where
  "manager_ok m \<longleftrightarrow>
     (\<forall>r c. (r, c) \<in> set (fm_suppressions m) \<longleftrightarrow> false_positive (fm_records m) r c) \<and>
     (\<forall>c. c \<in> set (fm_anomalySuppressions m) \<longleftrightarrow> false_positive (fm_records m) anomalyRuleID c) \<and>
     distinct (fm_suppressions m) \<and> distinct (fm_anomalySuppressions m)"

lemma false_positive_snoc:
  "false_positive (recs @ [rec]) r c \<longleftrightarrow>
     false_positive recs r c \<or> fr_Verdict rec = VerdictFalsePositive \<and> fr_RuleID rec = r \<and> fr_Comm rec = c"
  by (auto simp: false_positive_def)

lemma new_manager_ok: "manager_ok (NewManager path)"
  by (simp add: manager_ok_def NewManager_def false_positive_def)

lemma load_record_ok:
  "manager_ok m \<Longrightarrow> manager_ok (load_record rec m) \<and> fm_records (load_record rec m) = fm_records m @ [rec] \<and>
     fm_exportPath (load_record rec m) = fm_exportPath m"
  by (auto simp: manager_ok_def load_record_def Let_def false_positive_snoc)

lemma fold_load_ok:
  "manager_ok m \<Longrightarrow> manager_ok (fold load_record recs m) \<and> fm_records (fold load_record recs m) = fm_records m @ recs \<and>
     fm_exportPath (fold load_record recs m) = fm_exportPath m"
  by (induction recs arbitrary: m) (simp_all add: load_record_ok)

text \<open>Submitting has the effect on the sets that loading the new record has.\<close>

lemma Submit_is_load:
  assumes "Submit env now al verdict reason m fs = ((resp, err), m', fs')"
  shows "m' = load_record \<lparr>fr_AlertID = al_id al, fr_Verdict = verdict, fr_RuleID = al_rule_id al, fr_Comm = al_comm al,
      fr_Timestamp = now, fr_Reason = reason\<rparr> m" "(err, fs') = ExportToFile env m' fs"
  using assms by (auto simp: Submit_def apply_verdict_def load_record_def Let_def split: prod.splits if_splits)

inductive manager_reach :: "feedback_env \<Rightarrow> feedback_manager \<Rightarrow> files \<Rightarrow> bool" for env where
  new: "manager_reach env (NewManager path) fs"
| load: "manager_reach env m fs \<Longrightarrow> manager_reach env (snd (LoadFromFile env fs m)) fs"
| submit: "manager_reach env m fs \<Longrightarrow> Submit env now al verdict reason m fs = (resp, m', fs') \<Longrightarrow> manager_reach env m' fs'"

lemma reach_manager_ok: "manager_reach env m fs \<Longrightarrow> manager_ok m"
proof (induction rule: manager_reach.induct)
  case (load m fs)
  then show ?case by (auto simp: LoadFromFile_def fold_load_ok split: file_read.splits option.splits)
next
  case (submit m fs now al verdict reason resp m' fs')
  then show ?case using Submit_is_load(1) [of env now al verdict reason m fs "fst resp" "snd resp" m' fs'] by (simp add: load_record_ok)
qed (simp add: new_manager_ok)

lemma filter_alerts_eq: "filter_alerts m out as = out @ filter (\<lambda>a. \<not> IsSuppressed m (al_rule_id a) (al_comm a)) as"
  by (induction m out as rule: filter_alerts.induct) (auto simp: IsSuppressed_def)

lemma IsSuppressed_iff: "manager_ok m \<Longrightarrow> IsSuppressed m r c \<longleftrightarrow> false_positive (fm_records m) r c"
  by (auto simp: manager_ok_def IsSuppressed_def)

text \<open>
  C19 (functional).  The alerts that pass the feedback filter are, in their order, exactly those for whose rule
  and command no false positive was ever recorded, however the records came in and whatever other verdicts
  followed.
\<close>

theorem FilterAlerts_drops_false_positives:
  assumes "manager_reach env m fs"
  shows "FilterAlerts m as = filter (\<lambda>a. \<not> false_positive (fm_records m) (al_rule_id a) (al_comm a)) as"
  using IsSuppressed_iff [OF reach_manager_ok [OF assms]] by (simp add: FilterAlerts_def filter_alerts_eq)

definition noisy_alert :: alert where
  "noisy_alert = zero_alert\<lparr>al_id := ''1'', al_rule_id := ''r'', al_comm := ''cron''\<rparr>"

definition noisy_record :: feedback_record where
  "noisy_record = \<lparr>fr_AlertID = ''1'', fr_Verdict = VerdictFalsePositive, fr_RuleID = ''r'', fr_Comm = ''cron'', fr_Timestamp = 0, fr_Reason = []\<rparr>"

definition plain_files :: feedback_env where
  "plain_files = \<lparr>fe_marshal = (\<lambda>recs. if recs = [noisy_record] then Some ''one'' else None), fe_unmarshal = (\<lambda>_. Some [noisy_record]),
     fe_files = plain_file_env\<rparr>"

theorem FilterAlerts_drops_false_positives_witness:
  "FilterAlerts (fst (snd (Submit plain_files 0 noisy_alert VerdictFalsePositive [] (NewManager ''f'') (\<lambda>_. FileMissing))))
     [noisy_alert, noisy_alert\<lparr>al_comm := ''sh''\<rparr>] = [noisy_alert\<lparr>al_comm := ''sh''\<rparr>]"
proof -
  let ?s = "Submit plain_files 0 noisy_alert VerdictFalsePositive [] (NewManager ''f'') (\<lambda>_. FileMissing)"
  have "manager_reach plain_files (fst (snd ?s)) (snd (snd ?s))"
    by (rule manager_reach.submit [OF manager_reach.new [where path = "''f''" and fs = "\<lambda>_. FileMissing"], where resp = "fst ?s" and now = 0
          and al = noisy_alert and verdict = VerdictFalsePositive and reason = "[]"]) simp
  note f = FilterAlerts_drops_false_positives [OF this]
  have "fm_records (fst (snd ?s)) = [noisy_record]"
    by (simp add: Submit_def Let_def apply_verdict_def NewManager_def noisy_alert_def noisy_record_def ExportToFile_def plain_files_def plain_file_env_def anomalyRuleID_def)
  then show ?thesis unfolding f by (simp add: noisy_record_def noisy_alert_def false_positive_def)
qed

text \<open>
  C40 (roundtrip).  Feedback survives a restart: when a submission reports no error, a new manager that loads
  the file has the same records and suppresses the same alerts.  YAML is relied on to read back what it wrote
  and a successful write to store the data.
\<close>

theorem feedback_survives_restart:
  assumes "manager_reach env m fs" "fm_exportPath m \<noteq> []"
    and yaml: "\<forall>recs data. fe_marshal env recs = Some data \<longrightarrow> fe_unmarshal env data = Some recs"
    and stored: "file_env_ok (fe_files env)"
    and submit: "Submit env now al verdict reason m fs = ((resp, None), m', fs')"
    and load: "LoadFromFile env fs' (NewManager (fm_exportPath m)) = (err, m'')"
  shows "err = None \<and> fm_records m'' = fm_records m' \<and> IsSuppressed m'' = IsSuppressed m' \<and> FilterAlerts m'' = FilterAlerts m'"
proof -
  have ok: "manager_ok m'" "fm_exportPath m' = fm_exportPath m"
    using Submit_is_load(1) [OF submit] load_record_ok [OF reach_manager_ok [OF assms(1)]] by simp_all
  from Submit_is_load(2) [OF submit] obtain data where d: "fe_marshal env (fm_records m') = Some data" "fv_write (fe_files env) (fm_exportPath m) data fs = (True, fs')"
    using assms(2) ok(2) by (auto simp: ExportToFile_def split: option.splits if_splits prod.splits)
  then have "fs' (fm_exportPath m) = FileData data" "fe_unmarshal env data = Some (fm_records m')" using yaml file_env_okD(1) [OF stored] by blast+
  then have m'': "err = None" "m'' = fold load_record (fm_records m') (NewManager (fm_exportPath m))"
    using load assms(2) by (simp_all add: LoadFromFile_def NewManager_def)
  have "manager_ok m''" "fm_records m'' = fm_records m'"
    using fold_load_ok [OF new_manager_ok] unfolding m'' by (simp_all add: NewManager_def)
  moreover from this have "IsSuppressed m'' = IsSuppressed m'" using IsSuppressed_iff ok(1) by (auto simp: fun_eq_iff)
  ultimately show ?thesis using m''(1) by (simp add: FilterAlerts_def filter_alerts_eq fun_eq_iff)
qed

theorem feedback_survives_restart_witness:
  "let s = Submit plain_files 0 noisy_alert VerdictFalsePositive [] (NewManager ''f'') (\<lambda>_. FileMissing);
       m = snd (LoadFromFile plain_files (snd (snd s)) (NewManager ''f''))
   in FilterAlerts m = FilterAlerts (fst (snd s)) \<and> fm_records m = [noisy_record]"
proof -
  let ?s = "Submit plain_files 0 noisy_alert VerdictFalsePositive [] (NewManager ''f'') (\<lambda>_. FileMissing)"
  have s: "?s = ((fst (fst ?s), None), fst (snd ?s), snd (snd ?s))" and r: "fm_records (fst (snd ?s)) = [noisy_record]"
    by (simp_all add: Submit_def Let_def apply_verdict_def NewManager_def noisy_alert_def noisy_record_def ExportToFile_def plain_files_def plain_file_env_def anomalyRuleID_def)
  have p: "fm_exportPath (NewManager ''f'') \<noteq> []"
    and yaml: "\<forall>recs data. fe_marshal plain_files recs = Some data \<longrightarrow> fe_unmarshal plain_files data = Some recs"
    and st: "file_env_ok (fe_files plain_files)"
    by (auto simp: NewManager_def plain_files_def plain_file_env_ok split: if_splits)
  have "LoadFromFile plain_files (snd (snd ?s)) (NewManager (fm_exportPath (NewManager ''f''))) =
      (fst (LoadFromFile plain_files (snd (snd ?s)) (NewManager ''f'')), snd (LoadFromFile plain_files (snd (snd ?s)) (NewManager ''f'')))"
    by (simp add: NewManager_def)
  from feedback_survives_restart [OF manager_reach.new p yaml st s this] r show ?thesis by (simp add: Let_def)
qed

end
