(* ===== verification/Trace_Context.thy ===== *)
theory Trace_Context
  imports Event_Types Go_Strings
begin

text \<open>
  Trace identifiers of a process (\<open>correlator/trace_extractor.go\<close>): parsing of its environment and the cache in
  front of it.  The contents of \<open>/proc/<pid>/environ\<close> are an argument; \<open>None\<close> is a read error.
\<close>

section \<open>Parsing\<close>

definition index_byte :: "string \<Rightarrow> char \<Rightarrow> nat option" where
  "index_byte s c = (if c \<in> set s then Some (length (takeWhile (\<lambda>d. d \<noteq> c) s)) else None)"

definition parseEnviron :: "string \<Rightarrow> (string \<times> string) list" where
  "parseEnviron data =
     fold (\<lambda>entry env. case index_byte entry CHR ''='' of
         Some idx \<Rightarrow> if 0 < idx then AList.update (take idx entry) (drop (idx + 1) entry) env else env
       | None \<Rightarrow> env) (split_on (CHR 0x00) data) []"

abbreviation zero_trace :: trace_context where
  "zero_trace \<equiv> \<lparr>tc_trace_id = [], tc_span_id = [], tc_trace_flags = [], tc_trace_state = [], tc_source = []\<rparr>"

definition parseTraceparent :: "string \<Rightarrow> trace_context option" where
  "parseTraceparent tp =
     (case split_n 4 CHR ''-'' tp of
        [version, traceID, spanID, flags] \<Rightarrow>
          if version = ''ff'' then None
          else if length traceID \<noteq> 32 \<or> length spanID \<noteq> 16 \<or> length flags \<noteq> 2 then None
          else Some (zero_trace\<lparr>tc_trace_id := traceID, tc_span_id := spanID, tc_trace_flags := flags\<rparr>)
      | _ \<Rightarrow> None)"

text \<open>Padding on the left to a width in runes, as \<open>%032s\<close> does.\<close>

definition zero_pad :: "nat \<Rightarrow> string \<Rightarrow> string" where
  "zero_pad w s = replicate (w - length (rune_chunks s)) CHR ''0'' @ s"

definition parseJaegerTraceID :: "string \<Rightarrow> trace_context option" where
  "parseJaegerTraceID val =
     (case split_n 4 CHR '':'' val of
        traceID # spanID # _ \<Rightarrow>
          if traceID = [] \<or> traceID = ''0'' then None
          else Some (zero_trace\<lparr>tc_trace_id := (if length traceID \<le> 16 then zero_pad 32 traceID else traceID),
                                tc_span_id := (if length spanID \<le> 16 then zero_pad 16 spanID else spanID)\<rparr>)
      | _ \<Rightarrow> None)"

text \<open>\<open>fmt.Sscanf\<close> with \<open>%d\<close> for an unsigned number: white space other than a newline is skipped, then digits are read.\<close>

fun skip_space :: "(nat \<times> string) list \<Rightarrow> string option" where
  "skip_space [] = Some []"
| "skip_space ((r, bytes) # cs) =
     (if r = 13 \<and> cs \<noteq> [] \<and> fst (hd cs) = 10 then skip_space cs
      else if r = 10 then None
      else if unicode_IsSpace r then skip_space cs
      else Some (bytes @ concat (map snd cs)))"

definition scan_uint64 :: "string \<Rightarrow> nat option" where
  "scan_uint64 s = (case skip_space (rune_chunks s) of None \<Rightarrow> None | Some rest \<Rightarrow> ParseUint 64 (takeWhile is_digit rest))"

definition datadogDecimalToHex :: "string \<Rightarrow> string" where
  "datadogDecimalToHex decimal =
     (if decimal = [] then []
      else case scan_uint64 decimal of None \<Rightarrow> [] | Some v \<Rightarrow> replicate (32 - length (hex_nat v)) CHR ''0'' @ hex_nat v)"

definition env_get :: "(string \<times> string) list \<Rightarrow> string \<Rightarrow> string" where
  "env_get env k = (case map_of env k of Some v \<Rightarrow> v | None \<Rightarrow> [])"

definition otel_context :: "(string \<times> string) list \<Rightarrow> trace_context option" where
  "otel_context env =
     (if env_get env ''OTEL_TRACE_ID'' = [] then None
      else Some (zero_trace\<lparr>tc_trace_id := env_get env ''OTEL_TRACE_ID'', tc_span_id := env_get env ''OTEL_SPAN_ID'', tc_source := ''environ''\<rparr>))"

definition datadog_context :: "(string \<times> string) list \<Rightarrow> trace_context option" where
  "datadog_context env =
     (let dd = env_get env ''DD_TRACE_ID''
      in if dd = [] \<or> datadogDecimalToHex dd = [] then None
         else Some (zero_trace\<lparr>tc_trace_id := datadogDecimalToHex dd, tc_span_id := datadogDecimalToHex (env_get env ''DD_SPAN_ID''), tc_source := ''environ''\<rparr>))"

definition jaeger_context :: "(string \<times> string) list \<Rightarrow> string \<Rightarrow> trace_context option" where
  "jaeger_context env key =
     (if env_get env key = [] then None else map_option (\<lambda>tc. tc\<lparr>tc_source := ''environ''\<rparr>) (parseJaegerTraceID (env_get env key)))"

definition w3c_context :: "(string \<times> string) list \<Rightarrow> trace_context option" where
  "w3c_context env =
     (case map_of env ''TRACEPARENT'' of
        None \<Rightarrow> None
      | Some tp \<Rightarrow> map_option (\<lambda>tc. tc\<lparr>tc_source := ''environ'', tc_trace_state := env_get env ''TRACESTATE''\<rparr>) (parseTraceparent tp))"

definition or_else :: "'a option \<Rightarrow> 'a option \<Rightarrow> 'a option" where
  "or_else x y = (case x of None \<Rightarrow> y | Some _ \<Rightarrow> x)"

definition extractTraceContext :: "(u32 \<Rightarrow> string option) \<Rightarrow> u32 \<Rightarrow> trace_context option" where
  "extractTraceContext proc pid =
     (case proc pid of
        None \<Rightarrow> None
      | Some data \<Rightarrow>
          let env = parseEnviron data
          in or_else (w3c_context env) (or_else (otel_context env) (or_else (datadog_context env)
               (or_else (jaeger_context env ''UBER_TRACE_ID'') (jaeger_context env ''JAEGER_TRACE_ID'')))))"

section \<open>The cache\<close>

definition traceContextTTL :: duration where
  "traceContextTTL = 30 * 1000000000"

record traceCacheEntry =
  te_tc :: "trace_context option"
  te_expires :: time

type_synonym traceContextCache = "(u32 \<times> traceCacheEntry) list"

definition newTraceContextCache :: traceContextCache where
  "newTraceContextCache = []"

definition trace_lookup :: "(u32 \<Rightarrow> string option) \<Rightarrow> u32 \<Rightarrow> time \<Rightarrow> traceContextCache \<Rightarrow> trace_context option \<times> traceContextCache" where
  "trace_lookup proc pid now c =
     (case map_of c pid of
        Some e \<Rightarrow> if now < te_expires e then (te_tc e, c)
          else (extractTraceContext proc pid, AList.update pid \<lparr>te_tc = extractTraceContext proc pid, te_expires = now + traceContextTTL\<rparr> c)
      | None \<Rightarrow> (extractTraceContext proc pid, AList.update pid \<lparr>te_tc = extractTraceContext proc pid, te_expires = now + traceContextTTL\<rparr> c))"

definition trace_cleanup :: "time \<Rightarrow> traceContextCache \<Rightarrow> traceContextCache" where
  "trace_cleanup now c = filter (\<lambda>(pid, e). now < te_expires e) c"

section \<open>What the parsers accept\<close>

lemma split_n_first:
  "c \<notin> set x \<Longrightarrow> split_n (Suc (Suc n)) c (x @ c # rest) = x # split_n (Suc n) c rest"
  by (simp add: takeWhile_append dropWhile_append)

text \<open>
  A traceparent value written in the W3C format is read back with its trace, span and flags,
  unless it has the reserved version.
\<close>

theorem parseTraceparent_roundtrip:
  assumes "length version = 2" "length traceID = 32" "length spanID = 16" "length flags = 2"
    "CHR ''-'' \<notin> set version \<union> set traceID \<union> set spanID"
  shows "parseTraceparent (version @ ''-'' @ traceID @ ''-'' @ spanID @ ''-'' @ flags) =
    (if version = ''ff'' then None else Some (zero_trace\<lparr>tc_trace_id := traceID, tc_span_id := spanID, tc_trace_flags := flags\<rparr>))"
proof -
  have four: "4 = Suc (Suc (Suc (Suc 0)))" by simp
  have "split_n 4 CHR ''-'' (version @ CHR ''-'' # traceID @ CHR ''-'' # spanID @ CHR ''-'' # flags) = [version, traceID, spanID, flags]"
    using assms(5) unfolding four by (simp add: split_n_first del: split_n.simps(3))
  then show ?thesis using assms(1-4) by (simp add: parseTraceparent_def)
qed

text \<open>Span identifiers of Datadog come out in the width of trace identifiers.\<close>

theorem datadog_span_width:
  assumes "scan_uint64 s = Some v" "s \<noteq> []" "v < 2 ^ 64"
  shows "length (datadogDecimalToHex s) = 32"
proof -
  have "length (nat_text 16 v) \<le> n" if "v < 16 ^ n" "0 < n" for n v
    using that
  proof (induction n arbitrary: v)
    case (Suc n)
    show ?case
    proof (cases "v < 16")
      case False
      then have "0 < n" using Suc.prems by (cases n) auto
      moreover have "v div 16 < 16 ^ n" using Suc.prems(1) by (simp add: less_mult_imp_div_less mult.commute)
      ultimately have "length (nat_text 16 (v div 16)) \<le> n" using Suc.IH by blast
      then show ?thesis using False by (subst nat_text.simps) simp
    qed (subst nat_text.simps, simp)
  qed simp
  from this [of v 32] assms(3) have "length (hex_nat v) \<le> 32" by (simp add: hex_nat_def)
  then show ?thesis using assms by (simp add: datadogDecimalToHex_def)
qed

section \<open>How stale a cached context can be\<close>

datatype trace_op = LookupAt "u32 \<Rightarrow> string option" u32 time | CleanupAt time

primrec trace_step :: "trace_op \<Rightarrow> traceContextCache \<Rightarrow> traceContextCache" where
  "trace_step (LookupAt proc pid now) c = snd (trace_lookup proc pid now c)"
| "trace_step (CleanupAt now) c = trace_cleanup now c"

lemma trace_entries:
  assumes "map_of (fold trace_step ops newTraceContextCache) pid = Some e"
  shows "\<exists>proc t. LookupAt proc pid t \<in> set ops \<and> te_tc e = extractTraceContext proc pid \<and> te_expires e = t + traceContextTTL"
  using assms
proof (induction ops arbitrary: e rule: rev_induct)
  case (snoc op ops)
  let ?c = "fold trace_step ops newTraceContextCache"
  show ?case
  proof (cases "map_of ?c pid = Some e")
    case True
    then show ?thesis using snoc.IH by auto
  next
    case False
    show ?thesis
    proof (cases op)
      case (LookupAt proc p now)
      then show ?thesis
        using snoc.prems False
        by (cases "p = pid") (force simp: trace_lookup_def map_of_update_other split: option.splits if_splits)+
    next
      case (CleanupAt now)
      have "map_of (filter (\<lambda>(pid, e). now < te_expires e) c) pid = Some e \<Longrightarrow> distinct_keys c \<Longrightarrow> map_of c pid = Some e" for c :: traceContextCache
        by (simp add: filter_keys_map_of split: option.splits if_splits)
      moreover have "distinct_keys (fold trace_step ops c)" if "distinct_keys c" for ops c
        using that
      proof (induction ops arbitrary: c)
        case (Cons op ops)
        then show ?case by (cases op) (auto simp: trace_lookup_def trace_cleanup_def distinct_keys_filter split: option.split)
      qed simp
      ultimately show ?thesis using snoc.prems False CleanupAt by (simp add: trace_cleanup_def newTraceContextCache_def)
    qed
  qed
qed (simp add: newTraceContextCache_def)

text \<open>
  A trace context put on an alert is the one of the environment read now, or was read by an
  earlier lookup of the same process less than thirty seconds ago.
\<close>

theorem trace_lookup_fresh:
  "\<exists>proc' t. LookupAt proc' pid t \<in> set (ops @ [LookupAt proc pid now]) \<and> now < t + traceContextTTL \<and>
     fst (trace_lookup proc pid now (fold trace_step ops newTraceContextCache)) = extractTraceContext proc' pid"
proof (cases "map_of (fold trace_step ops newTraceContextCache) pid")
  case None
  then show ?thesis by (auto simp: trace_lookup_def traceContextTTL_def intro!: exI [of _ proc] exI [of _ now])
next
  case (Some e)
  obtain proc' t where e: "LookupAt proc' pid t \<in> set ops" "te_tc e = extractTraceContext proc' pid" "te_expires e = t + traceContextTTL"
    using trace_entries [OF Some] by blast
  show ?thesis
  proof (cases "now < te_expires e")
    case True
    then show ?thesis using Some e by (auto simp: trace_lookup_def intro!: exI [of _ proc'] exI [of _ t])
  next
    case False
    then show ?thesis using Some by (auto simp: trace_lookup_def traceContextTTL_def intro!: exI [of _ proc] exI [of _ now])
  qed
qed

end
