(* ===== verification/Correlation_Engine.thy ===== *)
theory Correlation_Engine
  imports Rule_Loader Rate_Limiter Sharded_Maps Incident_Tracker Lineage_Tracker Drift_Baseline
    Syscall_Allowlist Feedback_Manager Trace_Context Dns_Prefilter "HOL-Library.Monad_Syntax"
begin

text \<open>
  The correlation engine (\<open>correlator/engine.go\<close>), which puts the other components together: an event is
  tracked, evaluated by the rules, plugins, indicators, the anomaly detector and the allowlist; each candidate
  alert passes deduplication and two rate limits; alerts are handed to policy workers or, after the analysts'
  filter, to the caller and the incident tracker.

  The token bucket of \<open>x/time/rate\<close>, the plugin runtime, the indicator matcher, the anomaly detector, the
  sensitivity of peer nodes and the policy engine are fields of an environment; so are the contents of \<open>/proc\<close>.
  The clock readings within one call are the argument \<open>start\<close>.  Channels are bounded lists; each goroutine
  that drains one is a step.  \<open>None\<close> is a panic of a component.
\<close>

section \<open>Environment and state\<close>

record AnomalyResult =
  ar_Namespace :: string
  ar_AppLabel :: string
  ar_Score :: f64
  ar_IsAnomaly :: bool
  ar_Contributions :: "(string \<times> string) list"

record PolicyDecision =
  pd_RuleID :: string
  pd_Severity :: severity
  pd_Message :: string
  pd_Action :: string
  pd_MitreTechnique :: string

record ('re, 'g, 'a) engine_env =
  gv_go :: "'re go_env"
  gv_draws :: "nat \<Rightarrow> f64"
  gv_allowlist_draw :: f64
  gv_status :: "u32 \<Rightarrow> string option"
  gv_environ :: "u32 \<Rightarrow> string option"
  gv_global :: "time \<Rightarrow> 'g \<Rightarrow> bool \<times> 'g"
  gv_wasm :: "(event \<Rightarrow> alert list) option"
  gv_ioc :: "((string \<Rightarrow> bool) \<times> (string \<Rightarrow> bool)) option"
  gv_detect :: "event \<Rightarrow> bool \<Rightarrow> 'a \<Rightarrow> AnomalyResult option \<times> 'a"
  gv_sensitivity :: "(string \<Rightarrow> f64) option"
  gv_rego :: "alert \<Rightarrow> PolicyDecision list option"

record ('re, 'g, 'a) CorrelationEngine =
  ce_ruleEngine :: "'re RuleEngine option"
  ce_buffer :: ShardedEventBuffer
  ce_enableEventBuffer :: bool
  ce_pending :: "alert list"
  ce_enableAnomaly :: bool
  ce_baseAnomalyThreshold :: f64
  ce_rateLimiter :: RateLimiter
  ce_globalLimiter :: 'g
  ce_globalLimiterEnabled :: bool
  ce_enableRegoEval :: bool
  ce_regoQueue :: "alert list list"
  ce_regoQueueSize :: nat
  ce_dnsPrefilter :: DNSPrefilter
  ce_analyzer :: DNSEntropyCalculator
  ce_alertSeq :: u64
  ce_lineageTracker :: LineageTracker
  ce_feedbackManager :: "feedback_manager option"
  ce_enableDedup :: bool
  ce_dedup :: shardedDedup
  ce_actionExecutor :: bool
  ce_enforceCooldown :: duration
  ce_cooldowns :: shardedCooldowns
  ce_enforceQueue :: "(string \<times> alert) list"
  ce_enforceQueueSize :: nat
  ce_allowlistProfiler :: "SyscallAllowlistProfiler option"
  ce_driftBaselineProfiler :: "DriftBaselineProfiler option"
  ce_incidentTracker :: IncidentTracker
  ce_traceCtxCache :: traceContextCache
  ce_ingestLocal :: "alert list list"
  ce_ingestDetectors :: "'a option list"
  ce_regoLocal :: "alert list list"
  ce_processedEvents :: nat
  ce_alertsGenerated :: nat
  ce_alertsDropped :: nat
  ce_alertsDroppedGlobal :: nat
  ce_alertsDedupDropped :: nat
  ce_enforced :: nat
  ce_enforceQueueDropped :: nat
  ce_regoQueueDropped :: nat
  ce_regoEvalErrors :: nat

definition preAlertContextWindow :: int where
  "preAlertContextWindow = 20"

definition localFlushBatch :: nat where
  "localFlushBatch = 64"

section \<open>Alert fields\<close>

definition buildAlertID :: "string \<Rightarrow> u64 \<Rightarrow> u32 \<Rightarrow> u64 \<Rightarrow> string" where
  "buildAlertID pre ts pid seq =
     pre @ ''-'' @ dec_nat (unat ts) @ ''-'' @ dec_nat (unat pid) @ ''-'' @ dec_nat (unat seq)"

definition formatAnomalyDescription :: "AnomalyResult \<Rightarrow> string" where
  "formatAnomalyDescription r =
     (if ar_Contributions r = [] then ''Anomalous behavior detected''
      else ''Anomalous behavior detected: '' @
        (let ps = map (\<lambda>(f, v). f @ ''='' @ v) (ar_Contributions r)
         in hd ps @ concat (map (\<lambda>p. '', '' @ p) (tl ps))))"

definition isEnforcedAction :: "string \<Rightarrow> bool" where
  "isEnforcedAction action \<longleftrightarrow> action = ''block'' \<or> action = ''kill'' \<or> action = ''throttle''"

text \<open>Trace context of the event, or else of the environment of the process.\<close>

definition with_trace :: "('re, 'g, 'a) engine_env \<Rightarrow> time \<Rightarrow> event \<Rightarrow> alert \<Rightarrow> ('re, 'g, 'a) CorrelationEngine \<Rightarrow> alert \<times> ('re, 'g, 'a) CorrelationEngine" where
  "with_trace env start e al ce =
     (case ev_trace_context e of
        Some tc \<Rightarrow> (al\<lparr>al_trace_id := tc_trace_id tc, al_span_id := tc_span_id tc, al_trace_context := Some (tc\<lparr>tc_source := ''tls_header''\<rparr>)\<rparr>, ce)
      | None \<Rightarrow>
          (case trace_lookup (gv_environ env) (ev_pid e) start (ce_traceCtxCache ce) of (found, cache) \<Rightarrow>
             (case found of
                Some tc \<Rightarrow> al\<lparr>al_trace_id := tc_trace_id tc, al_span_id := tc_span_id tc, al_trace_context := Some tc\<rparr>
              | None \<Rightarrow> al, ce\<lparr>ce_traceCtxCache := cache\<rparr>)))"

definition with_enrichment :: "event \<Rightarrow> alert \<Rightarrow> alert" where
  "with_enrichment e al = (case ev_enrichment e of Some en \<Rightarrow> al\<lparr>al_enrichment := en\<rparr> | None \<Rightarrow> al)"

definition with_tree :: "('re, 'g, 'a) CorrelationEngine \<Rightarrow> event \<Rightarrow> alert \<Rightarrow> alert" where
  "with_tree ce e al = al\<lparr>al_process_tree := GetProcessTree (ce_lineageTracker ce) (ev_pid e)\<rparr>"

definition with_context :: "('re, 'g, 'a) CorrelationEngine \<Rightarrow> event \<Rightarrow> alert \<Rightarrow> alert option" where
  "with_context ce e al =
     (if ce_enableEventBuffer ce
      then map_option (\<lambda>es. al\<lparr>al_pre_alert_context := es\<rparr>) (buffer_GetRecent (ev_pid e) preAlertContextWindow (ce_buffer ce))
      else Some al)"

definition next_seq :: "('re, 'g, 'a) CorrelationEngine \<Rightarrow> u64 \<times> ('re, 'g, 'a) CorrelationEngine" where
  "next_seq ce = (ce_alertSeq ce + 1, ce\<lparr>ce_alertSeq := ce_alertSeq ce + 1\<rparr>)"

section \<open>Deduplication and limits\<close>

definition checkDup :: "time \<Rightarrow> alert \<Rightarrow> ('re, 'g, 'a) CorrelationEngine \<Rightarrow> bool option" where
  "checkDup start al ce =
     (if ce_enableDedup ce then dedup_check start (al_rule_id al) (al_pid al) (al_comm al) (ce_dedup ce) else Some False)"

definition markDedup :: "time \<Rightarrow> alert \<Rightarrow> ('re, 'g, 'a) CorrelationEngine \<Rightarrow> ('re, 'g, 'a) CorrelationEngine option" where
  "markDedup start al ce =
     (if ce_enableDedup ce
      then map_option (\<lambda>d. ce\<lparr>ce_dedup := d\<rparr>) (dedup_mark (al_rule_id al) (al_pid al) (al_comm al) start (ce_dedup ce))
      else Some ce)"

definition rate_allow :: "time \<Rightarrow> alert \<Rightarrow> ('re, 'g, 'a) CorrelationEngine \<Rightarrow> (bool \<times> ('re, 'g, 'a) CorrelationEngine) option" where
  "rate_allow start al ce = map_option (\<lambda>(ok, rl). (ok, ce\<lparr>ce_rateLimiter := rl\<rparr>)) (Allow start (al_rule_id al) (ce_rateLimiter ce))"

definition global_allow :: "('re, 'g, 'a) engine_env \<Rightarrow> time \<Rightarrow> ('re, 'g, 'a) CorrelationEngine \<Rightarrow> bool \<times> ('re, 'g, 'a) CorrelationEngine" where
  "global_allow env start ce =
     (if ce_globalLimiterEnabled ce
      then (case gv_global env start (ce_globalLimiter ce) of (ok, g) \<Rightarrow> (ok, ce\<lparr>ce_globalLimiter := g\<rparr>))
      else (True, ce))"

definition drop_alert :: "('re, 'g, 'a) CorrelationEngine \<Rightarrow> ('re, 'g, 'a) CorrelationEngine" where
  "drop_alert ce = ce\<lparr>ce_alertsDropped := ce_alertsDropped ce + 1\<rparr>"

definition drop_global :: "('re, 'g, 'a) CorrelationEngine \<Rightarrow> ('re, 'g, 'a) CorrelationEngine" where
  "drop_global ce = ce\<lparr>ce_alertsDropped := ce_alertsDropped ce + 1, ce_alertsDroppedGlobal := ce_alertsDroppedGlobal ce + 1\<rparr>"

definition drop_dup :: "('re, 'g, 'a) CorrelationEngine \<Rightarrow> ('re, 'g, 'a) CorrelationEngine" where
  "drop_dup ce = ce\<lparr>ce_alertsDedupDropped := ce_alertsDedupDropped ce + 1, ce_alertsDropped := ce_alertsDropped ce + 1\<rparr>"

text \<open>Both limits in turn, as for rules and plugins: a refusal is counted with its reason.\<close>

definition both_limits :: "('re, 'g, 'a) engine_env \<Rightarrow> time \<Rightarrow> alert \<Rightarrow> ('re, 'g, 'a) CorrelationEngine \<Rightarrow> (bool \<times> ('re, 'g, 'a) CorrelationEngine) option" where
  "both_limits env start al ce =
     do {
       (ok, ce) \<leftarrow> rate_allow start al ce;
       if \<not> ok then Some (False, drop_alert ce)
       else case global_allow env start ce of (ok, ce) \<Rightarrow> if ok then Some (True, ce) else Some (False, drop_global ce)
     }"

definition emit :: "alert \<Rightarrow> ('re, 'g, 'a) CorrelationEngine \<times> alert list \<Rightarrow> ('re, 'g, 'a) CorrelationEngine \<times> alert list" where
  "emit al st = (case st of (ce, alerts) \<Rightarrow> (ce\<lparr>ce_alertsGenerated := ce_alertsGenerated ce + 1\<rparr>, alerts @ [al]))"

section \<open>Candidate alerts\<close>

text \<open>Matches of drift rules ask the baseline first.\<close>

definition drift_pass :: "time \<Rightarrow> event \<Rightarrow> alert \<Rightarrow> ('re, 'g, 'a) CorrelationEngine \<Rightarrow> bool \<times> ('re, 'g, 'a) CorrelationEngine" where
  "drift_pass start e al ce =
     (if al_class al \<noteq> ''drift'' then (True, ce)
      else case ce_driftBaselineProfiler ce of
        None \<Rightarrow> (True, ce)
      | Some p \<Rightarrow> (case Observe start start (al_rule_id al) e p of (ok, p) \<Rightarrow> (ok, ce\<lparr>ce_driftBaselineProfiler := Some p\<rparr>)))"

definition enforce_rule :: "time \<Rightarrow> alert \<Rightarrow> ('re, 'g, 'a) CorrelationEngine \<Rightarrow> (alert \<times> ('re, 'g, 'a) CorrelationEngine) option" where
  "enforce_rule start al ce =
     (if \<not> (ce_actionExecutor ce \<and> isEnforcedAction (al_action al)) then Some (al, ce)
      else do {
        (granted, cds) \<leftarrow> tryAcquire (al_rule_id al) (al_pid al) (ce_enforceCooldown ce) start (ce_cooldowns ce);
        let ce = ce\<lparr>ce_cooldowns := cds\<rparr>;
        if \<not> granted then Some (al, ce)
        else let al = al\<lparr>al_enforced := True\<rparr>; ce = ce\<lparr>ce_enforced := ce_enforced ce + 1\<rparr>
          in if length (ce_enforceQueue ce) < ce_enforceQueueSize ce
             then Some (al, ce\<lparr>ce_enforceQueue := ce_enforceQueue ce @ [(al_action al, al)]\<rparr>)
             else Some (al, ce\<lparr>ce_enforceQueueDropped := ce_enforceQueueDropped ce + 1\<rparr>)
      })"

text \<open>A match that passed the limits, or is a duplicate: it is completed and enforced; only then duplicates are dropped.\<close>

definition raise_rule :: "('re, 'g, 'a) engine_env \<Rightarrow> time \<Rightarrow> event \<Rightarrow> alert \<Rightarrow> bool \<Rightarrow> ('re, 'g, 'a) CorrelationEngine \<times> alert list \<Rightarrow>
    (('re, 'g, 'a) CorrelationEngine \<times> alert list) option" where
  "raise_rule env start e al isDup st =
     (case st of (ce, alerts) \<Rightarrow>
        case next_seq ce of (seq, ce) \<Rightarrow>
          case with_trace env start e (al\<lparr>al_id := buildAlertID (al_rule_id al) (ev_timestamp e) (ev_pid e) seq\<rparr>) ce of (al, ce) \<Rightarrow>
          do {
            al \<leftarrow> with_context ce e (with_tree ce e (with_enrichment e al));
            (al, ce) \<leftarrow> enforce_rule start al ce;
            if isDup then Some (drop_dup ce, alerts)
            else do {
              ce \<leftarrow> markDedup start al ce;
              Some (emit al (ce, alerts))
            }
          })"

definition rule_path :: "('re, 'g, 'a) engine_env \<Rightarrow> time \<Rightarrow> event \<Rightarrow> alert \<Rightarrow> ('re, 'g, 'a) CorrelationEngine \<times> alert list \<Rightarrow>
    (('re, 'g, 'a) CorrelationEngine \<times> alert list) option" where
  "rule_path env start e al st =
     (case st of (ce, alerts) \<Rightarrow>
      case drift_pass start e al ce of (pass, ce) \<Rightarrow>
      if \<not> pass then Some (ce, alerts)
      else do {
        isDup \<leftarrow> checkDup start al ce;
        (ok, ce) \<leftarrow> (if isDup then Some (True, ce) else both_limits env start al ce);
        if \<not> ok then Some (ce, alerts)
        else raise_rule env start e al isDup (ce, alerts)
      })"

definition wasm_path :: "('re, 'g, 'a) engine_env \<Rightarrow> time \<Rightarrow> event \<Rightarrow> alert \<Rightarrow> ('re, 'g, 'a) CorrelationEngine \<times> alert list \<Rightarrow>
    (('re, 'g, 'a) CorrelationEngine \<times> alert list) option" where
  "wasm_path env start e al st =
     (case st of (ce, alerts) \<Rightarrow> do {
        isDup \<leftarrow> checkDup start al ce;
        if isDup then Some (drop_dup ce, alerts)
        else do {
          (ok, ce) \<leftarrow> both_limits env start al ce;
          if \<not> ok then Some (ce, alerts)
          else do {
            ce \<leftarrow> markDedup start al ce;
            case next_seq ce of (seq, ce) \<Rightarrow> do {
              al \<leftarrow> with_context ce e (with_tree ce e (al\<lparr>al_id := buildAlertID (al_rule_id al) (ev_timestamp e) (ev_pid e) seq\<rparr>));
              Some (emit al (ce, alerts))
            }
          }
        }
      })"

text \<open>
  The common end of the indicator and allowlist paths: the global limit is asked only when the limit of the
  rule allows, and a refusal by either is counted alike.
\<close>

definition admit_quiet :: "('re, 'g, 'a) engine_env \<Rightarrow> time \<Rightarrow> alert \<Rightarrow> ('re, 'g, 'a) CorrelationEngine \<times> alert list \<Rightarrow>
    (('re, 'g, 'a) CorrelationEngine \<times> alert list) option" where
  "admit_quiet env start al st =
     (case st of (ce, alerts) \<Rightarrow> do {
        isDup \<leftarrow> checkDup start al ce;
        if isDup then Some (drop_dup ce, alerts)
        else do {
          (ok, ce) \<leftarrow> rate_allow start al ce;
          case (if ok then global_allow env start ce else (False, ce)) of (ok, ce) \<Rightarrow>
            if ok then do { ce \<leftarrow> markDedup start al ce; Some (emit al (ce, alerts)) }
            else Some (drop_alert ce, alerts)
        }
      })"

definition ioc_indicator :: "('re, 'g, 'a) engine_env \<Rightarrow> (string \<Rightarrow> bool) \<times> (string \<Rightarrow> bool) \<Rightarrow> event \<Rightarrow> string option" where
  "ioc_indicator env match e =
     (if ev_type e = EventTCPConnect then
        (case ev_network e of
           None \<Rightarrow> None
         | Some n \<Rightarrow> let ip = FormatIP16 (env_ip6_text (gv_go env)) (net_daddr n) (net_family n)
             in if fst match ip then Some (''ip:'' @ ip) else None)
      else if ev_type e = EventDNS then
        (case ev_dns e of None \<Rightarrow> None | Some d \<Rightarrow> if snd match (dns_qname d) then Some (''dns:'' @ dns_qname d) else None)
      else None)"

definition checkIOCMatch :: "('re, 'g, 'a) engine_env \<Rightarrow> time \<Rightarrow> (string \<Rightarrow> bool) \<times> (string \<Rightarrow> bool) \<Rightarrow> event \<Rightarrow>
    ('re, 'g, 'a) CorrelationEngine \<Rightarrow> alert option \<times> ('re, 'g, 'a) CorrelationEngine" where
  "checkIOCMatch env start match e ce =
     (case ioc_indicator env match e of
        None \<Rightarrow> (None, ce)
      | Some indicator \<Rightarrow>
          case next_seq ce of (seq, ce) \<Rightarrow>
          case with_trace env start e (zero_alert
              \<lparr>al_id := buildAlertID ''gossip_ioc_match'' (ev_timestamp e) (ev_pid e) seq, al_timestamp := time_unix_ns (ev_timestamp e),
               al_rule_id := ''gossip_ioc_match'', al_rule_name := ''Gossip IOC Match'',
               al_message := ''Event matched a cluster-wide IOC: '' @ indicator, al_severity := SeverityCritical, al_pid := ev_pid e,
               al_comm := BytesToString (ev_comm e), al_event := e\<rparr>) ce of (al, ce) \<Rightarrow>
            (Some (with_enrichment e al), ce))"

definition ioc_path :: "('re, 'g, 'a) engine_env \<Rightarrow> time \<Rightarrow> event \<Rightarrow> ('re, 'g, 'a) CorrelationEngine \<times> alert list \<Rightarrow>
    (('re, 'g, 'a) CorrelationEngine \<times> alert list) option" where
  "ioc_path env start e st =
     (case gv_ioc env of
        None \<Rightarrow> Some st
      | Some match \<Rightarrow>
          case st of (ce, alerts) \<Rightarrow>
          case checkIOCMatch env start match e ce of (found, ce) \<Rightarrow>
            (case found of
               None \<Rightarrow> Some (ce, alerts)
             | Some al \<Rightarrow> do {
                 al \<leftarrow> with_context ce e (with_tree ce e al);
                 admit_quiet env start al (ce, alerts)
               }))"

section \<open>Anomalies and the allowlist\<close>

definition is_anomaly :: "('re, 'g, 'a) engine_env \<Rightarrow> f64 \<Rightarrow> event \<Rightarrow> AnomalyResult \<Rightarrow> bool" where
  "is_anomaly env threshold e r =
     (if ar_IsAnomaly r then True
      else case (gv_sensitivity env, ev_enrichment e) of
        (Some adjust, Some en) \<Rightarrow>
          en_namespace en \<noteq> [] \<and> f64_less (adjust (en_namespace en)) (Fin 1) \<and>
          f64_ge (ar_Score r) (f64_mul threshold (adjust (en_namespace en)))
      | _ \<Rightarrow> False)"

definition anomaly_alert :: "event \<Rightarrow> u64 \<Rightarrow> AnomalyResult \<Rightarrow> alert" where
  "anomaly_alert e seq r = zero_alert
     \<lparr>al_id := buildAlertID ''anomaly'' (ev_timestamp e) (ev_pid e) seq, al_timestamp := time_unix_ns (ev_timestamp e),
      al_rule_id := ''anomaly_detection'', al_rule_name := ''Behavioral Anomaly Detected'', al_message := formatAnomalyDescription r,
      al_severity := SeverityWarning, al_pid := ev_pid e, al_comm := BytesToString (ev_comm e),
      al_details := (if ar_Namespace r = [] then [] else [(''namespace'', DetailString (ar_Namespace r))]) @
                    (if ar_AppLabel r = [] then [] else [(''app_label'', DetailString (ar_AppLabel r))]),
      al_event := e\<rparr>"

text \<open>Here both limits are asked whatever the first says.\<close>

definition admit_anomaly :: "('re, 'g, 'a) engine_env \<Rightarrow> time \<Rightarrow> alert \<Rightarrow> ('re, 'g, 'a) CorrelationEngine \<times> alert list \<Rightarrow>
    (('re, 'g, 'a) CorrelationEngine \<times> alert list) option" where
  "admit_anomaly env start al st =
     (case st of (ce, alerts) \<Rightarrow> do {
        isDup \<leftarrow> checkDup start al ce;
        if isDup then Some (drop_dup ce, alerts)
        else do {
          (perRuleOK, ce) \<leftarrow> rate_allow start al ce;
          case global_allow env start ce of (globalOK, ce) \<Rightarrow>
            if perRuleOK \<and> globalOK then do { ce \<leftarrow> markDedup start al ce; Some (emit al (ce, alerts)) }
            else Some (if globalOK then drop_alert ce else drop_global ce, alerts)
        }
      })"

definition anomaly_path :: "('re, 'g, 'a) engine_env \<Rightarrow> time \<Rightarrow> event \<Rightarrow> 'a option \<Rightarrow> ('re, 'g, 'a) CorrelationEngine \<times> alert list \<Rightarrow>
    (('re, 'g, 'a) CorrelationEngine \<times> alert list) option \<times> 'a option" where
  "anomaly_path env start e ad st =
     (case (ce_enableAnomaly (fst st), ad) of
        (True, Some d) \<Rightarrow>
          (case gv_detect env e (snd st \<noteq> []) d of (result, d) \<Rightarrow>
             (case result of
                None \<Rightarrow> Some st
              | Some r \<Rightarrow>
                  if \<not> is_anomaly env (ce_baseAnomalyThreshold (fst st)) e r then Some st
                  else case next_seq (fst st) of (seq, ce) \<Rightarrow>
                    case with_trace env start e (anomaly_alert e seq r) ce of (al, ce) \<Rightarrow> do {
                      al \<leftarrow> with_context ce e (with_tree ce e (with_enrichment e al));
                      admit_anomaly env start al (ce, snd st)
                    }, Some d))
      | _ \<Rightarrow> (Some st, ad))"

definition allowlist_alert :: "event \<Rightarrow> u64 \<Rightarrow> AllowlistViolation \<Rightarrow> alert" where
  "allowlist_alert e seq v = zero_alert
     \<lparr>al_id := buildAlertID ''auto_allowlist_violation'' (ev_timestamp e) (ev_pid e) seq, al_timestamp := time_unix_ns (ev_timestamp e),
      al_rule_id := ''auto_allowlist_violation'', al_rule_name := ''Syscall Allowlist Violation'',
      al_message := (if av_Source v = ''global_deny''
        then ''Syscall '' @ dec_nat (unat (av_SyscallNr v)) @ '' matches global deny list for workload '' @ WorkloadKey_String (av_WorkloadKey v)
        else ''Unknown syscall '' @ dec_nat (unat (av_SyscallNr v)) @ '' not in learned allowlist for workload '' @ WorkloadKey_String (av_WorkloadKey v)),
      al_severity := SeverityWarning, al_pid := ev_pid e, al_comm := BytesToString (ev_comm e),
      al_details := [(''syscall_nr'', DetailInt (uint (av_SyscallNr v))), (''source'', DetailString (av_Source v)),
                     (''workload'', DetailString (WorkloadKey_String (av_WorkloadKey v))), (''action'', DetailString (av_Action v))],
      al_event := e, al_action := av_Action v\<rparr>"

definition allowlist_path :: "('re, 'g, 'a) engine_env \<Rightarrow> time \<Rightarrow> event \<Rightarrow> ('re, 'g, 'a) CorrelationEngine \<times> alert list \<Rightarrow>
    (('re, 'g, 'a) CorrelationEngine \<times> alert list) option" where
  "allowlist_path env start e st =
     (case st of (ce, alerts) \<Rightarrow>
      case ce_allowlistProfiler ce of
        None \<Rightarrow> Some (ce, alerts)
      | Some p \<Rightarrow>
          if ev_type e \<noteq> EventSyscall then Some (ce, alerts)
          else case Check e (Record start (gv_allowlist_draw env) e p) of (v, p) \<Rightarrow>
            let ce = ce\<lparr>ce_allowlistProfiler := Some p\<rparr>
            in case v of
                 None \<Rightarrow> Some (ce, alerts)
               | Some v \<Rightarrow>
                   case next_seq ce of (seq, ce) \<Rightarrow> do {
                     al \<leftarrow> with_context ce e (with_tree ce e (allowlist_alert e seq v));
                     admit_quiet env start (with_enrichment e al) (ce, alerts)
                   })"

section \<open>One event\<close>

definition rule_stage :: "('re, 'g, 'a) engine_env \<Rightarrow> time \<Rightarrow> event \<Rightarrow> ('re, 'g, 'a) CorrelationEngine \<times> alert list \<Rightarrow>
    (('re, 'g, 'a) CorrelationEngine \<times> alert list) option" where
  "rule_stage env start e st =
     (case ce_ruleEngine (fst st) of
        None \<Rightarrow> Some st
      | Some re \<Rightarrow> fst (EvaluateInto (gv_go env) re (gv_draws env) e (\<lambda>al s. Option.bind s (rule_path env start e al)) (Some st)))"

definition wasm_stage :: "('re, 'g, 'a) engine_env \<Rightarrow> time \<Rightarrow> event \<Rightarrow> ('re, 'g, 'a) CorrelationEngine \<times> alert list \<Rightarrow>
    (('re, 'g, 'a) CorrelationEngine \<times> alert list) option" where
  "wasm_stage env start e st =
     (case gv_wasm env of None \<Rightarrow> Some st | Some eval \<Rightarrow> fold (\<lambda>al s. Option.bind s (wasm_path env start e al)) (eval e) (Some st))"

text \<open>The candidates of one event: those emitted, before they are dispatched.\<close>

definition track_event :: "('re, 'g, 'a) engine_env \<Rightarrow> time \<Rightarrow> event \<Rightarrow> ('re, 'g, 'a) CorrelationEngine \<Rightarrow> ('re, 'g, 'a) CorrelationEngine option" where
  "track_event env start e ce =
     do {
       let ce = ce\<lparr>ce_processedEvents := ce_processedEvents ce + 1\<rparr>;
       ce \<leftarrow> (if ce_enableEventBuffer ce
              then map_option (\<lambda>b. ce\<lparr>ce_buffer := b\<rparr>) (buffer_Add start (ev_pid e) e (ce_buffer ce)) else Some ce);
       Some (ce\<lparr>ce_lineageTracker := Track (gv_status env) start e (ce_lineageTracker ce)\<rparr>)
     }"

definition collect_alerts :: "('re, 'g, 'a) engine_env \<Rightarrow> time \<Rightarrow> event \<Rightarrow> 'a option \<Rightarrow> ('re, 'g, 'a) CorrelationEngine \<Rightarrow>
    ((('re, 'g, 'a) CorrelationEngine \<times> alert list) \<times> 'a option) option" where
  "collect_alerts env start e ad ce =
     do {
       ce \<leftarrow> track_event env start e ce;
       st \<leftarrow> rule_stage env start e (ce, []);
       st \<leftarrow> wasm_stage env start e st;
       st \<leftarrow> ioc_path env start e st;
       case anomaly_path env start e ad st of (st, ad) \<Rightarrow> do {
         st \<leftarrow> st;
         st \<leftarrow> allowlist_path env start e st;
         Some (st, ad)
       }
     }"

definition filter_feedback :: "('re, 'g, 'a) CorrelationEngine \<Rightarrow> alert list \<Rightarrow> alert list" where
  "filter_feedback ce alerts = (case ce_feedbackManager ce of Some m \<Rightarrow> FilterAlerts m alerts | None \<Rightarrow> alerts)"

text \<open>Alerts go to the policy workers when there is room, and else through the analysts' filter to the incidents.\<close>

definition dispatch :: "time \<Rightarrow> alert list \<Rightarrow> ('re, 'g, 'a) CorrelationEngine \<Rightarrow> (alert list \<times> bool) \<times> ('re, 'g, 'a) CorrelationEngine" where
  "dispatch start alerts ce =
     (let rego = ce_enableRegoEval ce \<and> alerts \<noteq> [];
          room = length (ce_regoQueue ce) < ce_regoQueueSize ce
      in if rego \<and> room then ((alerts, True), ce\<lparr>ce_regoQueue := ce_regoQueue ce @ [alerts]\<rparr>)
         else let ce = (if rego then ce\<lparr>ce_regoQueueDropped := ce_regoQueueDropped ce + 1\<rparr> else ce);
                  alerts = filter_feedback ce alerts
           in ((alerts, False), ce\<lparr>ce_incidentTracker := fold (tracker_Add start) alerts (ce_incidentTracker ce)\<rparr>))"

definition ingestWithAD :: "('re, 'g, 'a) engine_env \<Rightarrow> time \<Rightarrow> event \<Rightarrow> 'a option \<Rightarrow> ('re, 'g, 'a) CorrelationEngine \<Rightarrow>
    (((alert list \<times> bool) \<times> ('re, 'g, 'a) CorrelationEngine) \<times> 'a option) option" where
  "ingestWithAD env start e ad ce =
     map_option (\<lambda>((ce, alerts), ad). (dispatch start alerts ce, ad)) (collect_alerts env start e ad ce)"

definition Ingest :: "('re, 'g, 'a) engine_env \<Rightarrow> time \<Rightarrow> event \<Rightarrow> 'a option \<Rightarrow> ('re, 'g, 'a) CorrelationEngine \<Rightarrow>
    ((alert list \<times> ('re, 'g, 'a) CorrelationEngine) \<times> 'a option) option" where
  "Ingest env start e ad ce =
     map_option (\<lambda>(((alerts, queued), ce), ad).
       ((alerts, if alerts \<noteq> [] \<and> \<not> queued then ce\<lparr>ce_pending := ce_pending ce @ alerts\<rparr> else ce), ad)) (ingestWithAD env start e ad ce)"

section \<open>The workers\<close>

definition ingest_pool_size :: "int \<Rightarrow> nat \<Rightarrow> nat" where
  "ingest_pool_size workerCount numCPU =
     (let n = (if workerCount \<le> 0 then pow2_from (max 4 numCPU) 1 else nat workerCount) in min 64 n)"

definition ingest_worker :: "nat \<Rightarrow> u32 \<Rightarrow> nat" where
  "ingest_worker pool pid = unat (and pid (word_of_nat pool - 1))"

text \<open>\<open>flushPending\<close> for the local buffer of an ingest or policy worker.\<close>

definition flush_ingest :: "nat \<Rightarrow> ('re, 'g, 'a) CorrelationEngine \<Rightarrow> ('re, 'g, 'a) CorrelationEngine" where
  "flush_ingest w ce =
     (if ce_ingestLocal ce ! w = [] then ce
      else ce\<lparr>ce_pending := ce_pending ce @ ce_ingestLocal ce ! w, ce_ingestLocal := (ce_ingestLocal ce)[w := []]\<rparr>)"

definition flush_rego :: "nat \<Rightarrow> ('re, 'g, 'a) CorrelationEngine \<Rightarrow> ('re, 'g, 'a) CorrelationEngine" where
  "flush_rego w ce =
     (if ce_regoLocal ce ! w = [] then ce
      else ce\<lparr>ce_pending := ce_pending ce @ ce_regoLocal ce ! w, ce_regoLocal := (ce_regoLocal ce)[w := []]\<rparr>)"

text \<open>A worker takes an event off its channel.\<close>

definition worker_ingest :: "('re, 'g, 'a) engine_env \<Rightarrow> time \<Rightarrow> nat \<Rightarrow> event \<Rightarrow> ('re, 'g, 'a) CorrelationEngine \<Rightarrow> ('re, 'g, 'a) CorrelationEngine option" where
  "worker_ingest env start w e ce =
     map_option (\<lambda>(((alerts, queued), ce), ad).
       let ce = ce\<lparr>ce_ingestDetectors := (ce_ingestDetectors ce)[w := ad]\<rparr>
       in if alerts \<noteq> [] \<and> \<not> queued
          then let ce = ce\<lparr>ce_ingestLocal := (ce_ingestLocal ce)[w := ce_ingestLocal ce ! w @ alerts]\<rparr>
            in if localFlushBatch \<le> length (ce_ingestLocal ce ! w) then flush_ingest w ce else ce
          else ce)
       (ingestWithAD env start e (ce_ingestDetectors ce ! w) ce)"

definition selectMostSevereDecision :: "PolicyDecision list \<Rightarrow> PolicyDecision" where
  "selectMostSevereDecision ds =
     (case ds of
        [] \<Rightarrow> \<lparr>pd_RuleID = [], pd_Severity = [], pd_Message = [], pd_Action = [], pd_MitreTechnique = []\<rparr>
      | [d] \<Rightarrow> d
      | d # _ \<Rightarrow> (case find (\<lambda>d. pd_Severity d = SeverityCritical) ds of Some c \<Rightarrow> c | None \<Rightarrow> d))"

definition apply_decision :: "PolicyDecision \<Rightarrow> alert \<Rightarrow> alert" where
  "apply_decision d al =
     al\<lparr>al_rule_id := pd_RuleID d, al_severity := (if pd_Severity d = [] then al_severity al else pd_Severity d),
        al_message := (if pd_Message d = [] then al_message al else pd_Message d),
        al_details := AList.update ''mitre_technique'' (DetailString (pd_MitreTechnique d))
          (AList.update ''rego_action'' (DetailString (pd_Action d)) (al_details al))\<rparr>"

definition evaluate_policy :: "('re, 'g, 'a) engine_env \<Rightarrow> alert \<Rightarrow> ('re, 'g, 'a) CorrelationEngine \<Rightarrow> alert \<times> ('re, 'g, 'a) CorrelationEngine" where
  "evaluate_policy env al ce =
     (let e = al_event al;
          (eval, calc) = (if ev_type e = EventDNS \<and> ev_dns e \<noteq> None
            then prefilter_ShouldEvaluate (env_dns (gv_go env)) (ce_dnsPrefilter ce) (ev_dns e) (BytesToString (ev_comm e)) (ce_analyzer ce)
            else (True, ce_analyzer ce));
          ce = ce\<lparr>ce_analyzer := calc\<rparr>
      in if \<not> eval then (al, ce)
         else case gv_rego env al of
           None \<Rightarrow> (al, ce\<lparr>ce_regoEvalErrors := ce_regoEvalErrors ce + 1\<rparr>)
         | Some ds \<Rightarrow> (if ds = [] then al else apply_decision (selectMostSevereDecision ds) al, ce))"

fun evaluateRegoPolicies :: "('re, 'g, 'a) engine_env \<Rightarrow> alert list \<Rightarrow> ('re, 'g, 'a) CorrelationEngine \<Rightarrow> alert list \<times> ('re, 'g, 'a) CorrelationEngine" where
  "evaluateRegoPolicies env [] ce = ([], ce)"
| "evaluateRegoPolicies env (al # als) ce =
     (case evaluate_policy env al ce of (al, ce) \<Rightarrow> case evaluateRegoPolicies env als ce of (als, ce) \<Rightarrow> (al # als, ce))"

text \<open>A policy worker takes a task off the queue.\<close>

definition rego_work :: "('re, 'g, 'a) engine_env \<Rightarrow> nat \<Rightarrow> ('re, 'g, 'a) CorrelationEngine \<Rightarrow> ('re, 'g, 'a) CorrelationEngine" where
  "rego_work env w ce =
     (case ce_regoQueue ce of
        [] \<Rightarrow> ce
      | task # rest \<Rightarrow>
          case evaluateRegoPolicies env task (ce\<lparr>ce_regoQueue := rest\<rparr>) of (enriched, ce) \<Rightarrow>
            let ce = ce\<lparr>ce_regoLocal := (ce_regoLocal ce)[w := ce_regoLocal ce ! w @ filter_feedback ce enriched]\<rparr>
            in if localFlushBatch \<le> length (ce_regoLocal ce ! w) then flush_rego w ce else ce)"

text \<open>An enforcement worker takes a task off the queue; what the executor does with it is not modelled.\<close>

definition enforce_work :: "('re, 'g, 'a) CorrelationEngine \<Rightarrow> (string \<times> alert) option \<times> ('re, 'g, 'a) CorrelationEngine" where
  "enforce_work ce =
     (case ce_enforceQueue ce of [] \<Rightarrow> (None, ce) | task # rest \<Rightarrow> (Some task, ce\<lparr>ce_enforceQueue := rest\<rparr>))"

definition engine_Flush :: "('re, 'g, 'a) CorrelationEngine \<Rightarrow> alert list \<times> ('re, 'g, 'a) CorrelationEngine" where
  "engine_Flush ce = (ce_pending ce, ce\<lparr>ce_pending := []\<rparr>)"

section \<open>Reloads and upkeep\<close>

definition UpdateRules :: "('re, 'g, 'a) engine_env \<Rightarrow> Rule list \<Rightarrow> ('re, 'g, 'a) CorrelationEngine \<Rightarrow> nat list \<times> ('re, 'g, 'a) CorrelationEngine" where
  "UpdateRules env rules ce =
     (let re = NewRuleEngineWithCache (gv_go env) rules (ce_ruleEngine ce)
      in (ReferencedSyscalls (re_rules re), ce\<lparr>ce_ruleEngine := Some re\<rparr>))"

definition UpdateRateLimiter :: "duration \<Rightarrow> int \<Rightarrow> bool \<Rightarrow> ('re, 'g, 'a) CorrelationEngine \<Rightarrow> ('re, 'g, 'a) CorrelationEngine option" where
  "UpdateRateLimiter window maxAlerts enabled ce =
     map_option (\<lambda>rl. ce\<lparr>ce_rateLimiter := rl\<lparr>rl_enabled := enabled\<rparr>\<rparr>) (UpdateConfig window maxAlerts (ce_rateLimiter ce))"

text \<open>The periodic cleanup.\<close>

definition engine_cleanup :: "time \<Rightarrow> ('re, 'g, 'a) CorrelationEngine \<Rightarrow> ('re, 'g, 'a) CorrelationEngine" where
  "engine_cleanup now ce =
     ce\<lparr>ce_cooldowns := cooldowns_cleanup (now - ce_enforceCooldown ce) (ce_cooldowns ce),
        ce_dedup := dedup_cleanup (now - sd_window (ce_dedup ce)) (ce_dedup ce),
        ce_incidentTracker := tracker_Cleanup now (ce_incidentTracker ce),
        ce_lineageTracker := lineage_Cleanup now (ce_lineageTracker ce),
        ce_traceCtxCache := trace_cleanup now (ce_traceCtxCache ce)\<rparr>"

text \<open>
  The other background loops: the sweep of the event buffer, which runs only when events are buffered, the cleanup
  of the rate limiter, and the gauge loop, which evicts early when a map is four fifths full.
\<close>

definition buffer_sweep :: "time \<Rightarrow> duration \<Rightarrow> ('re, 'g, 'a) CorrelationEngine \<Rightarrow> ('re, 'g, 'a) CorrelationEngine" where
  "buffer_sweep now bufferTTL ce =
     (let ttl = (if bufferTTL \<le> 0 then 120000000000 else bufferTTL)
      in if ce_enableEventBuffer ce then ce\<lparr>ce_buffer := snd (buffer_CleanupExpired now ttl (ce_buffer ce))\<rparr> else ce)"

definition cleanupLoop_tick :: "time \<Rightarrow> ('re, 'g, 'a) CorrelationEngine \<Rightarrow> ('re, 'g, 'a) CorrelationEngine" where
  "cleanupLoop_tick now ce = ce\<lparr>ce_rateLimiter := snd (Cleanup now cleanup_age (ce_rateLimiter ce))\<rparr>"

definition updateRLGaugeLoop_tick :: "time \<Rightarrow> ('re, 'g, 'a) CorrelationEngine \<Rightarrow> ('re, 'g, 'a) CorrelationEngine" where
  "updateRLGaugeLoop_tick now ce =
     (let ce = (if MaxCooldownEntries * 4 div 5 \<le> cooldowns_Size (ce_cooldowns ce)
            then ce\<lparr>ce_cooldowns := cooldowns_cleanup (now - ce_enforceCooldown ce) (ce_cooldowns ce)\<rparr> else ce)
      in if MaxDedupEntries * 4 div 5 \<le> dedup_Size (ce_dedup ce)
         then ce\<lparr>ce_dedup := dedup_cleanup (now - sd_window (ce_dedup ce)) (ce_dedup ce)\<rparr> else ce)"

section \<open>Construction\<close>

record CorrelationEngineConfig =
  cf_Rules :: "Rule list"
  cf_BufferSize :: int
  cf_EnableEventBuffer :: bool
  cf_EnableAnomaly :: bool
  cf_AnomalyThreshold :: f64
  cf_EnableRateLimit :: bool
  cf_RateLimitWindow :: duration
  cf_MaxAlertsPerWindow :: int
  cf_EnableRegoEval :: bool
  cf_RegoWorkerCount :: int
  cf_RegoQueueSize :: int
  cf_MaxAlertsPerSecond :: int
  cf_LineageTracker :: "LineageTracker option"
  cf_FeedbackManager :: "feedback_manager option"
  cf_ActionExecutor :: bool
  cf_EnforcementCooldown :: duration
  cf_EnforceQueueSize :: int
  cf_IngestWorkerCount :: int
  cf_EnableDedup :: bool
  cf_DedupWindow :: duration
  cf_IncidentWindow :: duration
  cf_AllowlistProfiler :: "SyscallAllowlistProfiler option"
  cf_DriftBaselineProfiler :: "DriftBaselineProfiler option"

definition DefaultCorrelationEngineConfig :: CorrelationEngineConfig where
  "DefaultCorrelationEngineConfig =
     \<lparr>cf_Rules = [], cf_BufferSize = 100, cf_EnableEventBuffer = False, cf_EnableAnomaly = True, cf_AnomalyThreshold = f64_round (8 / 10),
      cf_EnableRateLimit = True, cf_RateLimitWindow = 60 * go_second, cf_MaxAlertsPerWindow = 10, cf_EnableRegoEval = False,
      cf_RegoWorkerCount = 0, cf_RegoQueueSize = 4096, cf_MaxAlertsPerSecond = 10000, cf_LineageTracker = None, cf_FeedbackManager = None,
      cf_ActionExecutor = False, cf_EnforcementCooldown = 0, cf_EnforceQueueSize = 4096, cf_IngestWorkerCount = 0, cf_EnableDedup = True,
      cf_DedupWindow = 5 * go_second, cf_IncidentWindow = 60 * go_second, cf_AllowlistProfiler = None, cf_DriftBaselineProfiler = None\<rparr>"

definition positive_or :: "int \<Rightarrow> int \<Rightarrow> int" where
  "positive_or dflt n = (if n \<le> 0 then dflt else n)"

text \<open>
  \<open>limiter\<close> is \<open>rate.NewLimiter\<close> for a rate, \<open>detector\<close> a new anomaly detector; \<open>cf_EnableRegoEval\<close> includes that a
  policy engine was given.
\<close>

definition NewCorrelationEngineWithConfig :: "('re, 'g, 'a) engine_env \<Rightarrow> nat \<Rightarrow> nat \<Rightarrow> (int \<Rightarrow> 'g) \<Rightarrow> 'a \<Rightarrow> DNSEntropyCalculator \<Rightarrow>
    CorrelationEngineConfig \<Rightarrow> ('re, 'g, 'a) CorrelationEngine" where
  "NewCorrelationEngineWithConfig env numCPU gomaxprocs limiter detector calc cfg =
     (let pool = ingest_pool_size (cf_IngestWorkerCount cfg) numCPU;
          regoWorkers = nat (positive_or (max 2 (int numCPU div 2)) (cf_RegoWorkerCount cfg))
      in \<lparr>ce_ruleEngine = Some (NewRuleEngine (gv_go env) (cf_Rules cfg)),
          ce_buffer = NewShardedEventBuffer numCPU gomaxprocs (cf_BufferSize cfg), ce_enableEventBuffer = cf_EnableEventBuffer cfg,
          ce_pending = [], ce_enableAnomaly = cf_EnableAnomaly cfg, ce_baseAnomalyThreshold = cf_AnomalyThreshold cfg,
          ce_rateLimiter = NewRateLimiter (cf_RateLimitWindow cfg) (cf_MaxAlertsPerWindow cfg) (cf_EnableRateLimit cfg),
          ce_globalLimiter = limiter (positive_or 10000 (cf_MaxAlertsPerSecond cfg)), ce_globalLimiterEnabled = True,
          ce_enableRegoEval = cf_EnableRegoEval cfg, ce_regoQueue = [],
          ce_regoQueueSize = (if cf_EnableRegoEval cfg then nat (positive_or 4096 (cf_RegoQueueSize cfg)) else 0),
          ce_dnsPrefilter = DefaultDNSPrefilter, ce_analyzer = calc, ce_alertSeq = 0,
          ce_lineageTracker = (case cf_LineageTracker cfg of Some lt \<Rightarrow> lt | None \<Rightarrow> NewLineageTracker DefaultLineageConfig),
          ce_feedbackManager = cf_FeedbackManager cfg, ce_enableDedup = cf_EnableDedup cfg,
          ce_dedup = newShardedDedup numCPU gomaxprocs (positive_or (5 * go_second) (cf_DedupWindow cfg)),
          ce_actionExecutor = cf_ActionExecutor cfg, ce_enforceCooldown = positive_or (5 * go_second) (cf_EnforcementCooldown cfg),
          ce_cooldowns = newShardedCooldowns numCPU gomaxprocs, ce_enforceQueue = [],
          ce_enforceQueueSize = nat (positive_or 4096 (cf_EnforceQueueSize cfg)),
          ce_allowlistProfiler = cf_AllowlistProfiler cfg, ce_driftBaselineProfiler = cf_DriftBaselineProfiler cfg,
          ce_incidentTracker = newIncidentTracker (cf_IncidentWindow cfg), ce_traceCtxCache = newTraceContextCache,
          ce_ingestLocal = replicate pool [], ce_ingestDetectors = replicate pool (if cf_EnableAnomaly cfg then Some detector else None),
          ce_regoLocal = replicate (if cf_EnableRegoEval cfg then regoWorkers else 0) [],
          ce_processedEvents = 0, ce_alertsGenerated = 0, ce_alertsDropped = 0, ce_alertsDroppedGlobal = 0, ce_alertsDedupDropped = 0,
          ce_enforced = 0, ce_enforceQueueDropped = 0, ce_regoQueueDropped = 0, ce_regoEvalErrors = 0\<rparr>)"

end
