(* ===== verification/Alert_Pipeline.thy ===== *)
theory Alert_Pipeline
  imports Correlation_Engine
begin

text \<open>
  What happens to the candidate alerts of one event: each is emitted with a fresh number or turned away and counted,
  along every path of the correlation engine.  A candidate path is an interface, provided by the callback of the rule
  engine and by the handling of plugin alerts.  The last section is about enforcement.
\<close>

section \<open>What the steps change\<close>

text \<open>The counters and learning components a step may change, and the hand-over state the path of an event leaves alone.\<close>

definition drift_suppressed :: "('re, 'g, 'a) CorrelationEngine \<Rightarrow> nat" where
  "drift_suppressed ce = (case ce_driftBaselineProfiler ce of Some p \<Rightarrow> db_suppressed p | None \<Rightarrow> 0)"

definition tally :: "('re, 'g, 'a) CorrelationEngine \<Rightarrow> nat \<times> nat \<times> u64 \<times> SyscallAllowlistProfiler option" where
  "tally ce = (ce_alertsGenerated ce, ce_alertsDropped ce + drift_suppressed ce, ce_alertSeq ce, ce_allowlistProfiler ce)"

definition outbox where
  "outbox ce = (ce_enableAnomaly ce, ce_pending ce, ce_enableRegoEval ce, ce_regoQueue ce, ce_regoQueueSize ce, ce_feedbackManager ce, ce_incidentTracker ce,
     ce_ingestLocal ce, ce_regoLocal ce)"

definition same_subject :: "alert \<Rightarrow> alert \<Rightarrow> bool" where
  "same_subject al al' \<longleftrightarrow> al_id al' = al_id al \<and> al_rule_id al' = al_rule_id al \<and> al_action al' = al_action al \<and> al_pid al' = al_pid al \<and> al_comm al' = al_comm al"

lemma with_trace_frame:
  assumes "with_trace env start e al ce = (al', ce')"
  shows "same_subject al al'" "tally ce' = tally ce" "outbox ce' = outbox ce"
  using assms by (auto simp: with_trace_def same_subject_def tally_def drift_suppressed_def outbox_def split: option.splits prod.splits)

lemma with_context_frame: "with_context ce e al = Some al' \<Longrightarrow> same_subject al al'"
  by (auto simp: with_context_def same_subject_def split: if_splits)

lemma with_enrichment_frame: "same_subject al (with_enrichment e al)"
  by (simp add: with_enrichment_def same_subject_def split: option.split)

lemma with_tree_frame: "same_subject al (with_tree ce e al)"
  by (simp add: with_tree_def same_subject_def)

lemma same_subject_trans: "same_subject a b \<Longrightarrow> same_subject b c \<Longrightarrow> same_subject a c"
  by (simp add: same_subject_def)

lemma rate_allow_frame:
  assumes "rate_allow start al ce = Some (ok, ce')"
  shows "tally ce' = tally ce" "outbox ce' = outbox ce"
  using assms by (auto simp: rate_allow_def tally_def drift_suppressed_def outbox_def)

lemma global_allow_frame:
  assumes "global_allow env start ce = (ok, ce')"
  shows "tally ce' = tally ce" "outbox ce' = outbox ce"
  using assms by (auto simp: global_allow_def tally_def drift_suppressed_def outbox_def split: if_splits prod.splits)

lemma markDedup_frame:
  assumes "markDedup start al ce = Some ce'"
  shows "tally ce' = tally ce" "outbox ce' = outbox ce"
  using assms by (auto simp: markDedup_def tally_def drift_suppressed_def outbox_def split: if_splits)

lemma drop_frame [simp]:
  "outbox (drop_alert ce) = outbox ce" "outbox (drop_global ce) = outbox ce" "outbox (drop_dup ce) = outbox ce"
  "tally (drop_global ce) = tally (drop_alert ce)" "tally (drop_dup ce) = tally (drop_alert ce)"
  by (simp_all add: drop_alert_def drop_global_def drop_dup_def outbox_def tally_def drift_suppressed_def)

lemma tally_drop_cong: "tally ce' = tally ce \<Longrightarrow> tally (drop_alert ce') = tally (drop_alert ce)"
  by (simp add: drop_alert_def tally_def drift_suppressed_def)

lemma both_limits_frame:
  assumes "both_limits env start al ce = Some (ok, ce')"
  shows "tally ce' = tally (if ok then ce else drop_alert ce)" "outbox ce' = outbox ce"
proof -
  from assms obtain ok1 ce1 where r: "rate_allow start al ce = Some (ok1, ce1)"
    and k: "(if \<not> ok1 then Some (False, drop_alert ce1)
       else case global_allow env start ce1 of (ok, ce) \<Rightarrow> if ok then Some (True, ce) else Some (False, drop_global ce)) = Some (ok, ce')"
    by (auto simp: both_limits_def bind_eq_Some_conv)
  obtain ok2 ce2 where g: "global_allow env start ce1 = (ok2, ce2)" by fastforce
  note f = rate_allow_frame [OF r] global_allow_frame [OF g]
  show "tally ce' = tally (if ok then ce else drop_alert ce)" using k f by (auto simp: g intro: tally_drop_cong split: if_splits)
  show "outbox ce' = outbox ce" using k f by (auto simp: g split: if_splits)
qed

lemma enforce_rule_cases:
  assumes "enforce_rule start al ce = Some (al', ce')"
  obtains (idle) "\<not> (ce_actionExecutor ce \<and> isEnforcedAction (al_action al))" "al' = al" "ce' = ce"
  | (refused) cds where "tryAcquire (al_rule_id al) (al_pid al) (ce_enforceCooldown ce) start (ce_cooldowns ce) = Some (False, cds)"
      "al' = al" "ce' = ce\<lparr>ce_cooldowns := cds\<rparr>"
  | (queued) cds where "tryAcquire (al_rule_id al) (al_pid al) (ce_enforceCooldown ce) start (ce_cooldowns ce) = Some (True, cds)"
      "al' = al\<lparr>al_enforced := True\<rparr>"
      "ce' = ce\<lparr>ce_cooldowns := cds, ce_enforced := ce_enforced ce + 1, ce_enforceQueue := ce_enforceQueue ce @ [(al_action al, al')]\<rparr>"
  | (full) cds where "tryAcquire (al_rule_id al) (al_pid al) (ce_enforceCooldown ce) start (ce_cooldowns ce) = Some (True, cds)"
      "al' = al\<lparr>al_enforced := True\<rparr>"
      "ce' = ce\<lparr>ce_cooldowns := cds, ce_enforced := ce_enforced ce + 1, ce_enforceQueueDropped := ce_enforceQueueDropped ce + 1\<rparr>"
proof (cases "ce_actionExecutor ce \<and> isEnforcedAction (al_action al)")
  case False
  with assms have "al' = al" "ce' = ce" by (simp_all add: enforce_rule_def)
  with False show thesis by (intro idle)
next
  case True
  obtain granted cds where t: "tryAcquire (al_rule_id al) (al_pid al) (ce_enforceCooldown ce) start (ce_cooldowns ce) = Some (granted, cds)"
    using assms True unfolding enforce_rule_def by (cases "tryAcquire (al_rule_id al) (al_pid al) (ce_enforceCooldown ce) start (ce_cooldowns ce)") auto
  consider "\<not> granted" | "granted" "length (ce_enforceQueue ce) < ce_enforceQueueSize ce" | "granted" "\<not> length (ce_enforceQueue ce) < ce_enforceQueueSize ce"
    by blast
  then show thesis
  proof cases
    case 1
    have "al' = al" "ce' = ce\<lparr>ce_cooldowns := cds\<rparr>" using assms True t 1 by (simp_all add: enforce_rule_def)
    with t 1 show thesis by (intro refused [of cds]) simp_all
  next
    case 2
    have "al' = al\<lparr>al_enforced := True\<rparr>"
      "ce' = ce\<lparr>ce_cooldowns := cds, ce_enforced := ce_enforced ce + 1, ce_enforceQueue := ce_enforceQueue ce @ [(al_action al, al')]\<rparr>"
      using assms True t 2 by (auto simp: enforce_rule_def Let_def)
    with t 2 show thesis by (intro queued [of cds]) simp_all
  next
    case 3
    have "al' = al\<lparr>al_enforced := True\<rparr>"
      "ce' = ce\<lparr>ce_cooldowns := cds, ce_enforced := ce_enforced ce + 1, ce_enforceQueueDropped := ce_enforceQueueDropped ce + 1\<rparr>"
      using assms True t 3 by (auto simp: enforce_rule_def Let_def)
    with t 3 show thesis by (intro full [of cds]) simp_all
  qed
qed

lemma enforce_rule_frame:
  assumes "enforce_rule start al ce = Some (al', ce')"
  shows "same_subject al al'" "tally ce' = tally ce" "outbox ce' = outbox ce"
  by (rule enforce_rule_cases [OF assms]; simp add: same_subject_def tally_def drift_suppressed_def outbox_def)+

lemma Observe_suppressed: "Observe now lnow rid e p = (ok, p') \<Longrightarrow> db_suppressed p' = db_suppressed p + (if ok then 0 else 1)"
  by (auto simp: Observe_def drift_profile_def evictIfOverCapacityLocked_def Let_def split: if_splits option.splits prod.splits)

lemma drift_pass_frame:
  assumes "drift_pass start e al ce = (pass, ce')"
  shows "tally ce' = tally (if pass then ce else drop_alert ce)" "outbox ce' = outbox ce"
proof -
  show "tally ce' = tally (if pass then ce else drop_alert ce)"
  proof (cases "al_class al \<noteq> ''drift'' \<or> ce_driftBaselineProfiler ce = None")
    case True
    then show ?thesis using assms by (auto simp: drift_pass_def split: if_splits)
  next
    case False
    then obtain p where p: "ce_driftBaselineProfiler ce = Some p" "al_class al = ''drift''" by auto
    obtain p' where o: "Observe start start (al_rule_id al) e p = (pass, p')" "ce' = ce\<lparr>ce_driftBaselineProfiler := Some p'\<rparr>"
      using assms p by (auto simp: drift_pass_def split: prod.splits)
    show ?thesis using Observe_suppressed [OF o(1)] p o(2) by (simp add: tally_def drift_suppressed_def drop_alert_def)
  qed
  show "outbox ce' = outbox ce" using assms by (auto simp: drift_pass_def outbox_def split: if_splits option.splits prod.splits)
qed

section \<open>Accounting for candidates\<close>

text \<open>
  \<open>handled n st st'\<close>: between the two states \<open>n\<close> candidates were handled; each was emitted, with an identifier that
  ends in a fresh number, or turned away and counted.
\<close>

definition ends_in :: "u64 \<Rightarrow> alert \<Rightarrow> bool" where
  "ends_in q al \<longleftrightarrow> (\<exists>pre. al_id al = pre @ ''-'' @ dec_nat (unat q))"

definition numbered :: "u64 \<Rightarrow> nat \<Rightarrow> alert list \<Rightarrow> bool" where
  "numbered s K new \<longleftrightarrow> (\<exists>ks. sorted_wrt (<) ks \<and> set ks \<subseteq> {0<..K} \<and> list_all2 (\<lambda>k al. ends_in (s + of_nat k) al) ks new)"

definition handled :: "nat \<Rightarrow> ('re, 'g, 'a) CorrelationEngine \<times> alert list \<Rightarrow> ('re, 'g, 'a) CorrelationEngine \<times> alert list \<Rightarrow> bool" where
  "handled n st st' \<longleftrightarrow> outbox (fst st') = outbox (fst st) \<and>
     (\<exists>new K. K \<le> n \<and> length new \<le> n \<and> snd st' = snd st @ new \<and> numbered (ce_alertSeq (fst st)) K new \<and>
        tally (fst st') = (ce_alertsGenerated (fst st) + length new,
          ce_alertsDropped (fst st) + drift_suppressed (fst st) + (n - length new), ce_alertSeq (fst st) + of_nat K, ce_allowlistProfiler (fst st)))"

lemma numbered_Nil [simp]: "numbered s K []"
  by (auto simp: numbered_def)

lemma numbered_one: "ends_in (s + 1) al \<Longrightarrow> numbered s (Suc 0) [al]"
  by (auto simp: numbered_def intro!: exI [of _ "[Suc 0]"])

lemma numbered_append:
  assumes "numbered s K new" "numbered (s + of_nat K) L new'"
  shows "numbered s (K + L) (new @ new')"
proof -
  obtain ks where k: "sorted_wrt (<) ks" "set ks \<subseteq> {0<..K}" "list_all2 (\<lambda>k al. ends_in (s + of_nat k) al) ks new"
    using assms(1) by (auto simp: numbered_def)
  obtain ls where l: "sorted_wrt (<) ls" "set ls \<subseteq> {0<..L}" "list_all2 (\<lambda>k al. ends_in (s + of_nat K + of_nat k) al) ls new'"
    using assms(2) by (auto simp: numbered_def)
  have "x < K + y" if "x \<in> set ks" "y \<in> set ls" for x y using subsetD [OF k(2) that(1)] subsetD [OF l(2) that(2)] by simp
  then have "sorted_wrt (<) (ks @ map ((+) K) ls)" using k(1) l(1) by (auto simp: sorted_wrt_append sorted_wrt_map)
  moreover have "set (ks @ map ((+) K) ls) \<subseteq> {0<..K + L}" using k(2) l(2) by auto
  moreover have "list_all2 (\<lambda>k al. ends_in (s + of_nat k) al) (ks @ map ((+) K) ls) (new @ new')"
    using k(3) l(3) by (intro list_all2_appendI) (simp_all add: list_all2_map1 add.assoc)
  ultimately show ?thesis unfolding numbered_def by blast
qed

lemma handled_trans:
  assumes "handled m st st'" "handled n st' st''"
  shows "handled (m + n) st st''"
proof -
  obtain new K where a: "outbox (fst st') = outbox (fst st)" "K \<le> m" "length new \<le> m" "snd st' = snd st @ new" "numbered (ce_alertSeq (fst st)) K new"
    "tally (fst st') = (ce_alertsGenerated (fst st) + length new,
          ce_alertsDropped (fst st) + drift_suppressed (fst st) + (m - length new), ce_alertSeq (fst st) + of_nat K, ce_allowlistProfiler (fst st))"
    using assms(1) by (auto simp: handled_def)
  obtain new' L where b: "outbox (fst st'') = outbox (fst st')" "L \<le> n" "length new' \<le> n" "snd st'' = snd st' @ new'" "numbered (ce_alertSeq (fst st')) L new'"
    "tally (fst st'') = (ce_alertsGenerated (fst st') + length new',
          ce_alertsDropped (fst st') + drift_suppressed (fst st') + (n - length new'), ce_alertSeq (fst st') + of_nat L, ce_allowlistProfiler (fst st'))"
    using assms(2) by (auto simp: handled_def)
  have seq: "ce_alertSeq (fst st') = ce_alertSeq (fst st) + of_nat K" using a(6) by (simp add: tally_def)
  have "numbered (ce_alertSeq (fst st)) (K + L) (new @ new')" using numbered_append a(5) b(5) seq by metis
  then show ?thesis using a b unfolding handled_def tally_def
    by (intro conjI exI [of _ "new @ new'"] exI [of _ "K + L"]) auto
qed

lemma handled_none: "tally ce' = tally ce \<Longrightarrow> outbox ce' = outbox ce \<Longrightarrow> handled 0 (ce, als) (ce', als)"
  by (auto simp: handled_def tally_def intro!: exI [of _ 0])

lemma handled_drop: "tally ce' = tally (drop_alert ce) \<Longrightarrow> outbox ce' = outbox ce \<Longrightarrow> handled 1 (ce, als) (ce', als)"
  by (auto simp: handled_def tally_def drop_alert_def drift_suppressed_def intro!: exI [of _ 0])

lemma handled_drop_seq:
  assumes "tally ce' = tally (drop_alert (snd (next_seq ce)))" "outbox ce' = outbox ce"
  shows "handled 1 (ce, als) (ce', als)"
  using assms by (auto simp: handled_def tally_def drop_alert_def drift_suppressed_def next_seq_def intro!: exI [of _ 1])

lemma handled_emit:
  assumes "tally ce' = tally (snd (next_seq ce))" "outbox ce' = outbox ce" "ends_in (ce_alertSeq ce + 1) al"
  shows "handled 1 (ce, als) (emit al (ce', als))"
  using assms unfolding handled_def
  by (intro conjI exI [of _ "[al]"] exI [of _ 1])
    (simp_all add: emit_def tally_def outbox_def drift_suppressed_def next_seq_def numbered_one)

lemma handled_tally:
  assumes "handled n (ce1, als) st" "tally ce1 = tally ce" "outbox ce1 = outbox ce"
  shows "handled n (ce, als) st"
  using assms by (auto simp: handled_def tally_def)

lemma tally_next_seq: "tally ce' = tally ce \<Longrightarrow> tally (snd (next_seq ce')) = tally (snd (next_seq ce))"
  by (simp add: tally_def next_seq_def drift_suppressed_def)

lemma outbox_next_seq [simp]: "outbox (snd (next_seq ce)) = outbox ce"
  by (simp add: outbox_def next_seq_def)

lemma ends_in_ID: "al_id al = buildAlertID p ts pid q \<Longrightarrow> ends_in q al"
  by (auto simp: ends_in_def buildAlertID_def intro!: exI [of _ "p @ ''-'' @ dec_nat (unat ts) @ ''-'' @ dec_nat (unat pid)"])

lemma ends_in_subject: "same_subject al al' \<Longrightarrow> ends_in q al \<Longrightarrow> ends_in q al'"
  by (simp add: same_subject_def ends_in_def)

lemma ends_in_with [simp]: "ends_in q (with_tree ce e al) = ends_in q al" "ends_in q (with_enrichment e al) = ends_in q al"
  using with_tree_frame [of al ce e] with_enrichment_frame [of al e] by (simp_all add: same_subject_def ends_in_def)

lemma admit_quiet_handled:
  assumes "admit_quiet env start al (ce1, als) = Some st'" "tally ce1 = tally (snd (next_seq ce))" "outbox ce1 = outbox ce"
    "ends_in (ce_alertSeq ce + 1) al"
  shows "handled 1 (ce, als) st'"
proof -
  obtain dup where d: "checkDup start al ce1 = Some dup" using assms(1) by (cases "checkDup start al ce1") (simp_all add: admit_quiet_def)
  show ?thesis
  proof (cases dup)
    case True
    then have st: "st' = (drop_dup ce1, als)" using assms(1) d by (simp add: admit_quiet_def)
    show ?thesis unfolding st by (rule handled_drop_seq) (simp_all add: tally_drop_cong [OF assms(2)] assms(3))
  next
    case False
    then have "rate_allow start al ce1 \<noteq> None" using assms(1) d by (intro notI) (simp add: admit_quiet_def)
    then obtain ok1 ce2 where r: "rate_allow start al ce1 = Some (ok1, ce2)" by auto
    obtain ok2 ce3 where g: "(if ok1 then global_allow env start ce2 else (False, ce2)) = (ok2, ce3)" by (rule prod.exhaust)
    have "tally ce3 = tally ce2 \<and> outbox ce3 = outbox ce2"
    proof (cases ok1)
      case True
      with g have "global_allow env start ce2 = (ok2, ce3)" by simp
      then show ?thesis using global_allow_frame by blast
    qed (use g in simp)
    then have f': "tally ce3 = tally (snd (next_seq ce))" "outbox ce3 = outbox ce" using rate_allow_frame [OF r] assms(2,3) by simp_all
    have k: "(if ok2 then do { ce \<leftarrow> markDedup start al ce3; Some (emit al (ce, als)) } else Some (drop_alert ce3, als)) = Some st'"
      using assms(1) d False r g by (simp add: admit_quiet_def)
    show ?thesis
    proof (cases ok2)
      case True
      then obtain ce4 where m: "markDedup start al ce3 = Some ce4" "st' = emit al (ce4, als)" using k by (auto simp: bind_eq_Some_conv)
      show ?thesis unfolding m(2) by (rule handled_emit) (simp_all add: markDedup_frame [OF m(1)] f' assms(4))
    next
      case False
      then have st: "st' = (drop_alert ce3, als)" using k by simp
      show ?thesis unfolding st by (rule handled_drop_seq) (simp_all add: tally_drop_cong [OF f'(1)] f'(2))
    qed
  qed
qed

lemma admit_anomaly_handled:
  assumes "admit_anomaly env start al (ce1, als) = Some st'" "tally ce1 = tally (snd (next_seq ce))" "outbox ce1 = outbox ce"
    "ends_in (ce_alertSeq ce + 1) al"
  shows "handled 1 (ce, als) st'"
proof -
  obtain dup where d: "checkDup start al ce1 = Some dup" using assms(1) by (cases "checkDup start al ce1") (simp_all add: admit_anomaly_def)
  show ?thesis
  proof (cases dup)
    case True
    then have st: "st' = (drop_dup ce1, als)" using assms(1) d by (simp add: admit_anomaly_def)
    show ?thesis unfolding st by (rule handled_drop_seq) (simp_all add: tally_drop_cong [OF assms(2)] assms(3))
  next
    case False
    then have "rate_allow start al ce1 \<noteq> None" using assms(1) d by (intro notI) (simp add: admit_anomaly_def)
    then obtain ok1 ce2 where r: "rate_allow start al ce1 = Some (ok1, ce2)" by auto
    obtain ok2 ce3 where g: "global_allow env start ce2 = (ok2, ce3)" by (rule prod.exhaust)
    have f': "tally ce3 = tally (snd (next_seq ce))" "outbox ce3 = outbox ce"
      using rate_allow_frame [OF r] global_allow_frame [OF g] assms(2,3) by simp_all
    have k: "(if ok1 \<and> ok2 then do { ce \<leftarrow> markDedup start al ce3; Some (emit al (ce, als)) }
        else Some (if ok2 then drop_alert ce3 else drop_global ce3, als)) = Some st'"
      using assms(1) d False r g by (simp add: admit_anomaly_def)
    show ?thesis
    proof (cases "ok1 \<and> ok2")
      case True
      then obtain ce4 where m: "markDedup start al ce3 = Some ce4" "st' = emit al (ce4, als)" using k by (auto simp: bind_eq_Some_conv)
      show ?thesis unfolding m(2) by (rule handled_emit) (simp_all add: markDedup_frame [OF m(1)] f' assms(4))
    next
      case False
      then have st: "st' = (if ok2 then drop_alert ce3 else drop_global ce3, als)" using k by (simp split: if_splits)
      show ?thesis unfolding st by (rule handled_drop_seq) (simp_all add: tally_drop_cong [OF f'(1)] f'(2))
    qed
  qed
qed

lemma wasm_path_handled:
  assumes "wasm_path env start e al (ce, als) = Some st'"
  shows "handled 1 (ce, als) st'"
proof -
  obtain dup where d: "checkDup start al ce = Some dup" using assms by (cases "checkDup start al ce") (simp_all add: wasm_path_def)
  show ?thesis
  proof (cases dup)
    case True
    then have "st' = (drop_dup ce, als)" using assms d by (simp add: wasm_path_def)
    then show ?thesis by (simp add: handled_drop del: One_nat_def)
  next
    case False
    then have "both_limits env start al ce \<noteq> None" using assms d by (intro notI) (simp add: wasm_path_def)
    then obtain ok ce1 where l: "both_limits env start al ce = Some (ok, ce1)" by auto
    note f = both_limits_frame [OF l]
    show ?thesis
    proof (cases ok)
      case False
      then have "st' = (ce1, als)" using assms d \<open>\<not> dup\<close> l by (simp add: wasm_path_def)
      then show ?thesis using f False by (simp add: handled_drop del: One_nat_def)
    next
      case True
      have "markDedup start al ce1 \<noteq> None" using assms d \<open>\<not> dup\<close> l True by (intro notI) (simp add: wasm_path_def)
      then obtain ce2 where m: "markDedup start al ce1 = Some ce2" by auto
      have g: "tally ce2 = tally ce" "outbox ce2 = outbox ce" using markDedup_frame [OF m] f True by simp_all
      let ?ce = "snd (next_seq ce2)" and ?al = "al\<lparr>al_id := buildAlertID (al_rule_id al) (ev_timestamp e) (ev_pid e) (ce_alertSeq ce2 + 1)\<rparr>"
      have k: "Option.bind (with_context ?ce e (with_tree ?ce e ?al)) (\<lambda>al. Some (emit al (?ce, als))) = Some st'"
        using assms d \<open>\<not> dup\<close> l True m by (simp add: wasm_path_def next_seq_def)
      then have "with_context ?ce e (with_tree ?ce e ?al) \<noteq> None" by (intro notI) simp
      then obtain al' where c: "with_context ?ce e (with_tree ?ce e ?al) = Some al'" by auto
      have st: "st' = emit al' (?ce, als)" using k by (simp add: c)
      have "ends_in (ce_alertSeq ce2 + 1) al'" using ends_in_subject [OF with_context_frame [OF c]] by (simp add: ends_in_ID)
      moreover have "ce_alertSeq ce2 = ce_alertSeq ce" using g by (simp add: tally_def)
      ultimately show ?thesis unfolding st by (intro handled_emit) (simp_all add: tally_next_seq [OF g(1)] g(2))
    qed
  qed
qed

lemma raise_rule_handled:
  assumes "raise_rule env start e al dup (ce2, als) = Some st'" "tally ce2 = tally ce" "outbox ce2 = outbox ce"
  shows "handled 1 (ce, als) st'"
proof -
  let ?ce = "snd (next_seq ce2)" and ?al = "al\<lparr>al_id := buildAlertID (al_rule_id al) (ev_timestamp e) (ev_pid e) (ce_alertSeq ce2 + 1)\<rparr>"
  obtain al1 ce3 where w: "with_trace env start e ?al ?ce = (al1, ce3)" by (rule prod.exhaust)
  let ?al1 = "with_tree ce3 e (with_enrichment e al1)"
  have k: "Option.bind (with_context ce3 e ?al1) (\<lambda>al. Option.bind (enforce_rule start al ce3)
      (\<lambda>(al, ce). if dup then Some (drop_dup ce, als) else Option.bind (markDedup start al ce) (\<lambda>ce. Some (emit al (ce, als))))) = Some st'"
    using assms(1) w by (simp add: raise_rule_def next_seq_def)
  have "with_context ce3 e ?al1 \<noteq> None" using k by (intro notI) simp
  then obtain al2 where c: "with_context ce3 e ?al1 = Some al2" by auto
  have "enforce_rule start al2 ce3 \<noteq> None" using k c by (intro notI) simp
  then obtain al3 ce4 where n: "enforce_rule start al2 ce3 = Some (al3, ce4)" by auto
  note fr = with_trace_frame [OF w] enforce_rule_frame [OF n]
  have f: "tally ce4 = tally (snd (next_seq ce))" "outbox ce4 = outbox ce" using fr tally_next_seq [OF assms(2)] assms(3) by simp_all
  have "ends_in (ce_alertSeq ce2 + 1) al3"
    using ends_in_subject [OF fr(4)] ends_in_subject [OF with_context_frame [OF c]] ends_in_subject [OF fr(1)] by (simp add: ends_in_ID)
  then have i: "ends_in (ce_alertSeq ce + 1) al3" using assms(2) by (simp add: tally_def)
  show ?thesis
  proof (cases dup)
    case True
    then have st: "st' = (drop_dup ce4, als)" using k c n by simp
    show ?thesis unfolding st by (rule handled_drop_seq) (simp_all add: tally_drop_cong [OF f(1)] f(2))
  next
    case False
    have "markDedup start al3 ce4 \<noteq> None" using k c n False by (intro notI) simp
    then obtain ce5 where m: "markDedup start al3 ce4 = Some ce5" by auto
    have st: "st' = emit al3 (ce5, als)" using k c n m False by simp
    show ?thesis unfolding st by (rule handled_emit) (simp_all add: markDedup_frame [OF m] f i)
  qed
qed

lemma rule_path_handled:
  assumes "rule_path env start e al (ce, als) = Some st'"
  shows "handled 1 (ce, als) st'"
proof -
  obtain pass ce1 where p: "drift_pass start e al ce = (pass, ce1)" by (rule prod.exhaust)
  note fp = drift_pass_frame [OF p]
  show ?thesis
  proof (cases pass)
    case False
    then have st: "st' = (ce1, als)" using assms p by (simp add: rule_path_def)
    show ?thesis unfolding st using fp False by (intro handled_drop) simp_all
  next
    case True
    have "checkDup start al ce1 \<noteq> None" using assms p True by (intro notI) (simp add: rule_path_def)
    then obtain dup where d: "checkDup start al ce1 = Some dup" by auto
    have "(if dup then Some (True, ce1) else both_limits env start al ce1) \<noteq> None"
      using assms p True d by (intro notI) (simp add: rule_path_def)
    then obtain ok ce2 where l: "(if dup then Some (True, ce1) else both_limits env start al ce1) = Some (ok, ce2)" by auto
    have fl: "tally ce2 = tally (if ok then ce else drop_alert ce)" "outbox ce2 = outbox ce"
    proof -
      have "tally ce2 = tally (if ok then ce1 else drop_alert ce1) \<and> outbox ce2 = outbox ce1"
        using l both_limits_frame [of env start al ce1 ok ce2] by (cases dup) auto
      then show "tally ce2 = tally (if ok then ce else drop_alert ce)" "outbox ce2 = outbox ce"
        using fp True tally_drop_cong [of ce1 ce] by (cases ok; simp)+
    qed
    show ?thesis
    proof (cases ok)
      case False
      then have st: "st' = (ce2, als)" using assms p True d l by (simp add: rule_path_def)
      show ?thesis unfolding st using fl False by (intro handled_drop) simp_all
    next
      case ok: True
      have "raise_rule env start e al dup (ce2, als) = Some st'"
        using assms p True d l ok by (simp add: rule_path_def)
      from raise_rule_handled [OF this] show ?thesis using fl ok by simp
    qed
  qed
qed

section \<open>Stages\<close>

text \<open>A stage runs a path over a list of candidates; paths that handle one candidate make stages that handle the list.\<close>

lemma handled_refl [simp]: "handled 0 st st"
  using handled_none [of "fst st" "fst st" "snd st"] by simp

locale candidate_path =
  fixes path :: "alert \<Rightarrow> ('re, 'g, 'a) CorrelationEngine \<times> alert list \<Rightarrow> (('re, 'g, 'a) CorrelationEngine \<times> alert list) option"
  assumes handles_one: "path al st = Some st' \<Longrightarrow> handled 1 st st'"
begin

lemma fold_None: "fold (\<lambda>al s. Option.bind s (path al)) als None = None"
  by (induction als) simp_all

lemma handles_all: "fold (\<lambda>al s. Option.bind s (path al)) als (Some st) = Some st' \<Longrightarrow> handled (length als) st st'"
proof (induction als arbitrary: st)
  case Nil
  then show ?case by (cases st) (simp add:)
next
  case (Cons al als)
  then have "path al st \<noteq> None" by (intro notI) (simp add: fold_None)
  then obtain st1 where p: "path al st = Some st1" by auto
  with Cons.prems have "fold (\<lambda>al s. Option.bind s (path al)) als (Some st1) = Some st'" by simp
  from handled_trans [OF handles_one [OF p] Cons.IH [OF this]] show ?case by simp
qed

end

interpretation rp: candidate_path "rule_path env start e" for env :: "('re, 'g, 'a) engine_env" and start e
proof
  fix al st and st' :: "('re, 'g, 'a) CorrelationEngine \<times> alert list"
  show "rule_path env start e al st = Some st' \<Longrightarrow> handled 1 st st'" by (cases st) (simp only: rule_path_handled)
qed

interpretation wp: candidate_path "wasm_path env start e" for env :: "('re, 'g, 'a) engine_env" and start e
proof
  fix al st and st' :: "('re, 'g, 'a) CorrelationEngine \<times> alert list"
  show "wasm_path env start e al st = Some st' \<Longrightarrow> handled 1 st st'" by (cases st) (simp only: wasm_path_handled)
qed

definition rule_matches :: "('re, 'g, 'a) engine_env \<Rightarrow> event \<Rightarrow> ('re, 'g, 'a) CorrelationEngine \<Rightarrow> alert list" where
  "rule_matches env e ce = (case ce_ruleEngine ce of None \<Rightarrow> [] | Some re \<Rightarrow> fst (Evaluate (gv_go env) re (gv_draws env) e))"

definition plugin_matches :: "('re, 'g, 'a) engine_env \<Rightarrow> event \<Rightarrow> alert list" where
  "plugin_matches env e = (case gv_wasm env of None \<Rightarrow> [] | Some eval \<Rightarrow> eval e)"

definition ioc_matches :: "('re, 'g, 'a) engine_env \<Rightarrow> event \<Rightarrow> nat" where
  "ioc_matches env e = (case gv_ioc env of None \<Rightarrow> 0 | Some match \<Rightarrow> if ioc_indicator env match e = None then 0 else 1)"

lemma rule_stage_handled:
  assumes "rule_stage env start e (ce, als) = Some st'"
  shows "handled (length (rule_matches env e ce)) (ce, als) st'"
proof (cases "ce_ruleEngine ce")
  case None
  with assms show ?thesis by (simp add: rule_stage_def rule_matches_def)
next
  case (Some re)
  with assms have "fold (\<lambda>al s. Option.bind s (rule_path env start e al)) (rule_matches env e ce) (Some (ce, als)) = Some st'"
    by (simp add: rule_stage_def rule_matches_def EvaluateInto_is_Evaluate)
  then show ?thesis by (rule rp.handles_all)
qed

lemma wasm_stage_handled:
  assumes "wasm_stage env start e st = Some st'"
  shows "handled (length (plugin_matches env e)) st st'"
proof (cases "gv_wasm env")
  case None
  with assms show ?thesis by (cases st) (simp add: wasm_stage_def plugin_matches_def)
next
  case (Some eval)
  with assms have "fold (\<lambda>al s. Option.bind s (wasm_path env start e al)) (plugin_matches env e) (Some st) = Some st'"
    by (simp add: wasm_stage_def plugin_matches_def)
  then show ?thesis by (rule wp.handles_all)
qed

lemma ioc_path_handled:
  assumes "ioc_path env start e (ce, als) = Some st'"
  shows "handled (ioc_matches env e) (ce, als) st'"
proof (cases "gv_ioc env")
  case None
  with assms show ?thesis by (simp add: ioc_path_def ioc_matches_def)
next
  case (Some match)
  show ?thesis
  proof (cases "ioc_indicator env match e")
    case None
    with assms Some show ?thesis by (simp add: ioc_path_def ioc_matches_def checkIOCMatch_def)
  next
    case ind: (Some indicator)
    obtain al1 ce1 where c: "checkIOCMatch env start match e ce = (Some al1, ce1)"
      "tally ce1 = tally (snd (next_seq ce))" "outbox ce1 = outbox ce" "ends_in (ce_alertSeq ce + 1) al1"
    proof -
      let ?al = "zero_alert
              \<lparr>al_id := buildAlertID ''gossip_ioc_match'' (ev_timestamp e) (ev_pid e) (ce_alertSeq ce + 1), al_timestamp := time_unix_ns (ev_timestamp e),
               al_rule_id := ''gossip_ioc_match'', al_rule_name := ''Gossip IOC Match'',
               al_message := ''Event matched a cluster-wide IOC: '' @ indicator, al_severity := SeverityCritical, al_pid := ev_pid e,
               al_comm := BytesToString (ev_comm e), al_event := e\<rparr>"
      obtain al1 ce1 where w: "with_trace env start e ?al (snd (next_seq ce)) = (al1, ce1)" by (rule prod.exhaust)
      note f = with_trace_frame [OF w]
      have "checkIOCMatch env start match e ce = (Some (with_enrichment e al1), ce1)" using ind w by (simp add: checkIOCMatch_def next_seq_def)
      moreover have "ends_in (ce_alertSeq ce + 1) ?al" by (rule ends_in_ID) simp
      from ends_in_subject [OF f(1) this] have "ends_in (ce_alertSeq ce + 1) (with_enrichment e al1)" by simp
      moreover have "outbox ce1 = outbox ce" using f(3) by simp
      ultimately show thesis using f(2) by (intro that)
    qed
    have k: "Option.bind (with_context ce1 e (with_tree ce1 e al1)) (\<lambda>al. admit_quiet env start al (ce1, als)) = Some st'"
      using assms Some c(1) by (simp add: ioc_path_def)
    then have "with_context ce1 e (with_tree ce1 e al1) \<noteq> None" by (intro notI) simp
    then obtain al2 where w: "with_context ce1 e (with_tree ce1 e al1) = Some al2" by auto
    have "admit_quiet env start al2 (ce1, als) = Some st'" using k w by simp
    moreover have "ends_in (ce_alertSeq ce + 1) al2" using ends_in_subject [OF with_context_frame [OF w]] c(4) by simp
    ultimately have "handled 1 (ce, als) st'" using admit_quiet_handled c(2,3) by blast
    then show ?thesis using Some ind by (simp add: ioc_matches_def)
  qed
qed

lemma anomaly_path_handled:
  assumes "anomaly_path env start e ad (ce, als) = (Some st', ad')"
  shows "\<exists>a \<le> 1. (ad = None \<or> \<not> ce_enableAnomaly ce \<longrightarrow> a = 0) \<and> handled a (ce, als) st'"
proof (cases "ce_enableAnomaly ce \<and> ad \<noteq> None")
  case False
  then have "st' = (ce, als)" using assms by (auto simp: anomaly_path_def split: bool.splits option.splits)
  then show ?thesis by auto
next
  case True
  then obtain d where d: "ad = Some d" "ce_enableAnomaly ce" by auto
  obtain result d' where r: "gv_detect env e (als \<noteq> []) d = (result, d')" by (rule prod.exhaust)
  consider "result = None \<or> (\<exists>x. result = Some x \<and> \<not> is_anomaly env (ce_baseAnomalyThreshold ce) e x)"
    | x where "result = Some x" "is_anomaly env (ce_baseAnomalyThreshold ce) e x" by (cases result) auto
  then show ?thesis
  proof cases
    case 1
    then have "st' = (ce, als)" using assms d r by (auto simp: anomaly_path_def)
    then show ?thesis by auto
  next
    case (2 x)
    let ?al = "anomaly_alert e (ce_alertSeq ce + 1) x"
    obtain al1 ce1 where w: "with_trace env start e ?al (snd (next_seq ce)) = (al1, ce1)" by (rule prod.exhaust)
    note f = with_trace_frame [OF w]
    let ?al1 = "with_tree ce1 e (with_enrichment e al1)"
    have k: "Option.bind (with_context ce1 e ?al1) (\<lambda>al. admit_anomaly env start al (ce1, als)) = Some st'"
      using assms d r 2 w by (simp add: anomaly_path_def next_seq_def)
    then have "with_context ce1 e ?al1 \<noteq> None" by (intro notI) simp
    then obtain al2 where c: "with_context ce1 e ?al1 = Some al2" by auto
    have "ends_in (ce_alertSeq ce + 1) ?al" by (rule ends_in_ID) (simp add: anomaly_alert_def)
    from ends_in_subject [OF f(1) this] have "ends_in (ce_alertSeq ce + 1) al2" using ends_in_subject [OF with_context_frame [OF c]] by simp
    moreover have "admit_anomaly env start al2 (ce1, als) = Some st'" using k c by simp
    moreover have "outbox ce1 = outbox ce" using f(3) by simp
    ultimately have "handled 1 (ce, als) st'" using admit_anomaly_handled f(2) by blast
    then show ?thesis using d by auto
  qed
qed

definition violations :: "('re, 'g, 'a) CorrelationEngine \<Rightarrow> nat" where
  "violations ce = (case ce_allowlistProfiler ce of Some p \<Rightarrow> length (sp_violations p) | None \<Rightarrow> 0)"

lemma Record_violations: "sp_violations (Record now draw e p) = sp_violations p"
  by (simp add: Record_def record_syscall_def transitionToEnforcing_def Let_def split: option.split prod.split)

lemma Check_violations: "Check e p = (v, p') \<Longrightarrow> length (sp_violations p') = length (sp_violations p) + (if v = None then 0 else 1)"
  by (auto simp: Check_def recordViolationMetric_def Let_def split: if_splits option.splits)

lemma allowlist_path_handled:
  assumes "allowlist_path env start e (ce, als) = Some st'"
  shows "\<exists>p v. handled v (ce\<lparr>ce_allowlistProfiler := p\<rparr>, als) st' \<and> violations (ce\<lparr>ce_allowlistProfiler := p\<rparr>) = violations ce + v \<and> v \<le> 1"
proof (cases "ev_type e = EventSyscall \<and> ce_allowlistProfiler ce \<noteq> None")
  case False
  then have "st' = (ce, als)" using assms by (auto simp: allowlist_path_def split: option.splits)
  then show ?thesis by (intro exI [of _ "ce_allowlistProfiler ce"] exI [of _ 0]) simp
next
  case True
  then obtain p where p: "ce_allowlistProfiler ce = Some p" "ev_type e = EventSyscall" by auto
  obtain v p' where c: "Check e (Record start (gv_allowlist_draw env) e p) = (v, p')" by (rule prod.exhaust)
  let ?ce = "ce\<lparr>ce_allowlistProfiler := Some p'\<rparr>"
  have n: "violations ?ce = violations ce + (if v = None then 0 else 1)"
    using Check_violations [OF c] p by (simp add: violations_def Record_violations)
  show ?thesis
  proof (cases v)
    case None
    then have "st' = (?ce, als)" using assms p c by (simp add: allowlist_path_def)
    then show ?thesis using n None by (intro exI [of _ "Some p'"] exI [of _ 0]) simp
  next
    case (Some x)
    let ?ce1 = "snd (next_seq ?ce)" and ?al = "allowlist_alert e (ce_alertSeq ce + 1) x"
    have k: "Option.bind (with_context ?ce1 e (with_tree ?ce1 e ?al)) (\<lambda>al. admit_quiet env start (with_enrichment e al) (?ce1, als)) = Some st'"
      using assms p c Some by (simp add: allowlist_path_def next_seq_def Let_def)
    then have "with_context ?ce1 e (with_tree ?ce1 e ?al) \<noteq> None" by (intro notI) simp
    then obtain al2 where w: "with_context ?ce1 e (with_tree ?ce1 e ?al) = Some al2" by auto
    have "ends_in (ce_alertSeq ?ce + 1) ?al" by (rule ends_in_ID) (simp add: allowlist_alert_def)
    then have "ends_in (ce_alertSeq ?ce + 1) (with_enrichment e al2)" using ends_in_subject [OF with_context_frame [OF w]] by simp
    moreover have "admit_quiet env start (with_enrichment e al2) (?ce1, als) = Some st'" using k w by simp
    ultimately have "handled 1 (?ce, als) st'" using admit_quiet_handled [of env start "with_enrichment e al2" ?ce1 als st' ?ce] by (simp del: One_nat_def)
    then show ?thesis using n Some by (intro exI [of _ "Some p'"] exI [of _ 1]) simp
  qed
qed

lemma track_event_frame:
  assumes "track_event env start e ce = Some ce'"
  shows "tally ce' = tally ce" "outbox ce' = outbox ce" "ce_ruleEngine ce' = ce_ruleEngine ce"
  using assms by (auto simp: track_event_def Let_def bind_eq_Some_conv tally_def drift_suppressed_def outbox_def split: if_splits)

lemma tally_violations: "tally ce' = tally ce \<Longrightarrow> violations ce' = violations ce"
  by (simp add: tally_def violations_def)

definition candidates :: "('re, 'g, 'a) engine_env \<Rightarrow> event \<Rightarrow> ('re, 'g, 'a) CorrelationEngine \<Rightarrow> nat" where
  "candidates env e ce = length (rule_matches env e ce) + length (plugin_matches env e) + ioc_matches env e"

lemma collect_alerts_handled:
  assumes "collect_alerts env start e ad ce = Some ((ce', alerts), ad')"
  obtains a p v where "handled (candidates env e ce + a + v) (ce\<lparr>ce_allowlistProfiler := p\<rparr>, []) (ce', alerts)"
    "violations (ce\<lparr>ce_allowlistProfiler := p\<rparr>) = violations ce + v" "v \<le> 1" "a \<le> 1" "ad = None \<or> \<not> ce_enableAnomaly ce \<longrightarrow> a = 0"
proof -
  have "track_event env start e ce \<noteq> None" using assms by (intro notI) (simp add: collect_alerts_def)
  then obtain ce1 where t: "track_event env start e ce = Some ce1" by auto
  note ft = track_event_frame [OF t]
  have "rule_stage env start e (ce1, []) \<noteq> None" using assms t by (intro notI) (simp add: collect_alerts_def)
  then obtain ce2 als2 where r: "rule_stage env start e (ce1, []) = Some (ce2, als2)" by auto
  have "wasm_stage env start e (ce2, als2) \<noteq> None" using assms t r by (intro notI) (simp add: collect_alerts_def)
  then obtain ce3 als3 where w: "wasm_stage env start e (ce2, als2) = Some (ce3, als3)" by auto
  have "ioc_path env start e (ce3, als3) \<noteq> None" using assms t r w by (intro notI) (simp add: collect_alerts_def)
  then obtain ce4 als4 where i: "ioc_path env start e (ce3, als3) = Some (ce4, als4)" by auto
  obtain s5 ad5 where n: "anomaly_path env start e ad (ce4, als4) = (s5, ad5)" by (rule prod.exhaust)
  have "s5 \<noteq> None" using assms t r w i n by (intro notI) (simp add: collect_alerts_def)
  then obtain ce5 als5 where s5: "s5 = Some (ce5, als5)" by auto
  have l: "allowlist_path env start e (ce5, als5) = Some (ce', alerts)"
    using assms t r w i n s5 by (auto simp: collect_alerts_def bind_eq_Some_conv)
  have m: "rule_matches env e ce1 = rule_matches env e ce" using ft by (simp add: rule_matches_def)
  have h4: "handled (candidates env e ce) (ce, []) (ce4, als4)"
    using handled_tally [OF handled_trans [OF handled_trans [OF rule_stage_handled [OF r] wasm_stage_handled [OF w]] ioc_path_handled [OF i]] ft(1,2)]
    by (simp add: m candidates_def)
  then have "outbox ce4 = outbox ce" by (simp add: handled_def)
  then have en: "ce_enableAnomaly ce4 = ce_enableAnomaly ce" by (simp add: outbox_def)
  obtain a where a: "a \<le> 1" "ad = None \<or> \<not> ce_enableAnomaly ce \<longrightarrow> a = 0" "handled a (ce4, als4) (ce5, als5)"
    using anomaly_path_handled [OF n [unfolded s5]] en by auto
  have h5: "handled (candidates env e ce + a) (ce, []) (ce5, als5)" by (rule handled_trans [OF h4 a(3)])
  obtain p v where v: "handled v (ce5\<lparr>ce_allowlistProfiler := p\<rparr>, als5) (ce', alerts)"
    "violations (ce5\<lparr>ce_allowlistProfiler := p\<rparr>) = violations ce5 + v" "v \<le> 1"
    using allowlist_path_handled [OF l] by auto
  have "handled (candidates env e ce + a) (ce\<lparr>ce_allowlistProfiler := p\<rparr>, []) (ce5\<lparr>ce_allowlistProfiler := p\<rparr>, als5)"
    using h5 by (auto simp: handled_def tally_def outbox_def drift_suppressed_def)
  from handled_trans [OF this v(1)] have "handled (candidates env e ce + a + v) (ce\<lparr>ce_allowlistProfiler := p\<rparr>, []) (ce', alerts)" .
  moreover have "violations ce5 = violations ce" using h5 by (auto simp: handled_def tally_def violations_def)
  then have "violations (ce\<lparr>ce_allowlistProfiler := p\<rparr>) = violations ce + v" using v(2) by (simp add: violations_def)
  ultimately show thesis using that a(1,2) v(3) by blast
qed

lemma ingest_collects:
  assumes "ingestWithAD env start e ad ce = Some (((alerts, queued), ce'), ad')"
  obtains ce1 new where "collect_alerts env start e ad ce = Some ((ce1, new), ad')" "dispatch start new ce1 = ((alerts, queued), ce')"
proof -
  obtain st where c: "collect_alerts env start e ad ce = Some st" "(case st of ((ce, alerts), ad) \<Rightarrow> (dispatch start alerts ce, ad)) = (((alerts, queued), ce'), ad')"
    using assms by (auto simp: ingestWithAD_def)
  obtain ce1 new ad1 where st: "st = ((ce1, new), ad1)" by (metis surj_pair)
  show thesis using c st by (intro that [of ce1 new]) simp_all
qed

lemma dispatch_frame:
  assumes "dispatch start new ce1 = ((alerts, queued), ce')"
  shows "tally ce' = tally ce1" "alerts = (if queued then new else filter_feedback ce1 new)"
proof -
  show "tally ce' = tally ce1"
    using assms by (auto simp: dispatch_def Let_def tally_def drift_suppressed_def split: if_splits)
  show "alerts = (if queued then new else filter_feedback ce1 new)"
    using assms by (auto simp: dispatch_def Let_def filter_feedback_def split: if_splits)
qed

text \<open>
  C1 (functional).  Every candidate of an event is accounted for.  The matches of rules, plugins and
  indicators, at most one anomaly and each allowlist violation recorded are, together, as many as the alerts generated,
  those counted as dropped and those the drift baseline suppressed; the alerts handed on are the generated ones, less
  those the analysts suppressed when no policy worker takes them.
\<close>

theorem candidates_accounted:
  assumes "ingestWithAD env start e ad ce = Some (((alerts, queued), ce'), ad')"
  shows "\<exists>new a. a \<le> 1 \<and> (ad = None \<or> \<not> ce_enableAnomaly ce \<longrightarrow> a = 0) \<and>
    alerts = (if queued then new else filter_feedback ce new) \<and>
    ce_alertsGenerated ce' = ce_alertsGenerated ce + length new \<and>
    ce_alertsGenerated ce' + ce_alertsDropped ce' + drift_suppressed ce' + violations ce =
      ce_alertsGenerated ce + ce_alertsDropped ce + drift_suppressed ce + violations ce' +
      length (rule_matches env e ce) + length (plugin_matches env e) + ioc_matches env e + a"
proof -
  obtain ce1 new where c: "collect_alerts env start e ad ce = Some ((ce1, new), ad')" and d: "dispatch start new ce1 = ((alerts, queued), ce')"
    using ingest_collects [OF assms] .
  obtain a p v where h: "handled (candidates env e ce + a + v) (ce\<lparr>ce_allowlistProfiler := p\<rparr>, []) (ce1, new)"
    "violations (ce\<lparr>ce_allowlistProfiler := p\<rparr>) = violations ce + v" "v \<le> 1" "a \<le> 1" "ad = None \<or> \<not> ce_enableAnomaly ce \<longrightarrow> a = 0"
    using collect_alerts_handled [OF c] .
  have f: "filter_feedback ce1 = filter_feedback ce" using h(1) by (auto simp: handled_def outbox_def filter_feedback_def)
  have t: "tally ce' = (ce_alertsGenerated ce + length new, ce_alertsDropped ce + drift_suppressed ce + (candidates env e ce + a + v - length new),
      ce_alertSeq ce1, p)" and l: "length new \<le> candidates env e ce + a + v"
    using h(1) dispatch_frame(1) [OF d] by (auto simp: handled_def tally_def drift_suppressed_def)
  have "violations ce' = violations ce + v" using t h(2) by (simp add: tally_def violations_def)
  then show ?thesis using t l h(4,5) dispatch_frame(2) [OF d] f
    by (intro exI [of _ new] exI [of _ a]) (auto simp: tally_def candidates_def)
qed

definition example_engine_env :: "(unit, nat, unit) engine_env" where
  "example_engine_env = \<lparr>gv_go = example_env, gv_draws = (\<lambda>_. Fin 0), gv_allowlist_draw = Fin 0, gv_status = (\<lambda>_. None), gv_environ = (\<lambda>_. None),
     gv_global = (\<lambda>_ n. (0 < n, n - 1)), gv_wasm = Some (\<lambda>e. [zero_alert\<lparr>al_rule_id := ''w1''\<rparr>, zero_alert\<lparr>al_rule_id := ''w2''\<rparr>]), gv_ioc = None,
     gv_detect = (\<lambda>_ _ d. (None, d)), gv_sensitivity = None, gv_rego = (\<lambda>_. Some [])\<rparr>"

definition example_engine :: "(unit, nat, unit) CorrelationEngine" where
  "example_engine =
     \<lparr>ce_ruleEngine = None, ce_buffer = NewShardedEventBuffer 1 1 4, ce_enableEventBuffer = True, ce_pending = [], ce_enableAnomaly = False,
      ce_baseAnomalyThreshold = Fin 1, ce_rateLimiter = NewRateLimiter 60 1 True, ce_globalLimiter = 1, ce_globalLimiterEnabled = True,
      ce_enableRegoEval = False, ce_regoQueue = [], ce_regoQueueSize = 0, ce_dnsPrefilter = DefaultDNSPrefilter, ce_analyzer = NewDNSEntropyCalculator,
      ce_alertSeq = 0, ce_lineageTracker = NewLineageTracker DefaultLineageConfig, ce_feedbackManager = None, ce_enableDedup = True,
      ce_dedup = newShardedDedup 1 1 5, ce_actionExecutor = False, ce_enforceCooldown = 5, ce_cooldowns = newShardedCooldowns 1 1,
      ce_enforceQueue = [], ce_enforceQueueSize = 1, ce_allowlistProfiler = None, ce_driftBaselineProfiler = None,
      ce_incidentTracker = newIncidentTracker 60, ce_traceCtxCache = newTraceContextCache, ce_ingestLocal = [[]], ce_ingestDetectors = [None],
      ce_regoLocal = [], ce_processedEvents = 0, ce_alertsGenerated = 0, ce_alertsDropped = 0, ce_alertsDroppedGlobal = 0, ce_alertsDedupDropped = 0,
      ce_enforced = 0, ce_enforceQueueDropped = 0, ce_regoQueueDropped = 0, ce_regoEvalErrors = 0\<rparr>"

definition example_tracked :: "(unit, nat, unit) CorrelationEngine" where
  "example_tracked = the (track_event example_engine_env 100 example_event example_engine)"

lemma example_stages:
  "track_event example_engine_env 100 example_event example_engine = Some example_tracked"
  "map_option (\<lambda>(ce, als). (map al_id als, ce_alertsGenerated ce, ce_alertsDropped ce)) (wasm_stage example_engine_env 100 example_event (example_tracked, [])) =
     Some ([''w1-0-7-1''], 1, 1)"
proof -
  have "map_option ce_processedEvents (track_event example_engine_env 100 example_event example_engine) = Some 1" by code_simp
  then show t: "track_event example_engine_env 100 example_event example_engine = Some example_tracked" by (auto simp: example_tracked_def)
  show "map_option (\<lambda>(ce, als). (map al_id als, ce_alertsGenerated ce, ce_alertsDropped ce)) (wasm_stage example_engine_env 100 example_event (example_tracked, [])) =
     Some ([''w1-0-7-1''], 1, 1)" by code_simp
qed

lemma example_ingest:
  obtains alerts ce' where "ingestWithAD example_engine_env 100 example_event None example_engine = Some (((alerts, False), ce'), None)"
    "map al_id alerts = [''w1-0-7-1'']" "ce_alertsGenerated ce' = 1" "ce_alertsDropped ce' = 1" "drift_suppressed ce' = 0"
proof -
  let ?env = example_engine_env
  obtain ce als where w: "wasm_stage ?env 100 example_event (example_tracked, []) = Some (ce, als)" "map al_id als = [''w1-0-7-1'']"
    "ce_alertsGenerated ce = 1" "ce_alertsDropped ce = 1" using example_stages(2) by auto
  note t = track_event_frame [OF example_stages(1)]
  have h: "outbox ce = outbox example_engine" "ce_allowlistProfiler ce = None"
    using wasm_stage_handled [OF w(1)] t by (auto simp: handled_def tally_def example_engine_def)
  have "length (plugin_matches ?env example_event) = 2" "ce_alertsGenerated example_engine = 0" "ce_alertsDropped example_engine = 0"
    "drift_suppressed example_engine = 0"
    by (simp_all add: plugin_matches_def example_engine_env_def example_engine_def drift_suppressed_def)
  then have s: "drift_suppressed ce = 0" using wasm_stage_handled [OF w(1)] t(1) w(3,4) by (auto simp: handled_def tally_def)
  have r: "rule_stage ?env 100 example_event (example_tracked, []) = Some (example_tracked, [])"
    using t(3) by (simp add: rule_stage_def example_engine_def)
  have g: "gv_ioc ?env = None" by (simp add: example_engine_env_def)
  have "collect_alerts ?env 100 example_event None example_engine = Some ((ce, als), None)"
    using h g by (simp add: collect_alerts_def example_stages(1) r w(1) ioc_path_def anomaly_path_def allowlist_path_def outbox_def split: bool.split)
  moreover obtain ce' where d: "dispatch 100 als ce = ((als, False), ce')"
    using h by (auto simp: dispatch_def Let_def filter_feedback_def outbox_def example_engine_def)
  ultimately have "ingestWithAD ?env 100 example_event None example_engine = Some (((als, False), ce'), None)" by (simp add: ingestWithAD_def)
  moreover have "ce_alertsGenerated ce' = 1" "ce_alertsDropped ce' = 1" "drift_suppressed ce' = 0"
    using d w s by (auto simp: dispatch_def drift_suppressed_def Let_def split: if_splits)
  ultimately show thesis using w(2) by (intro that [of als ce'])
qed

theorem candidates_accounted_witness:
  "\<exists>alerts ce'. ingestWithAD example_engine_env 100 example_event None example_engine = Some (((alerts, False), ce'), None) \<and>
     length alerts = 1 \<and> ce_alertsGenerated ce' + ce_alertsDropped ce' + drift_suppressed ce' = violations ce' + 2"
proof -
  obtain alerts ce' where i: "ingestWithAD example_engine_env 100 example_event None example_engine = Some (((alerts, False), ce'), None)"
    "map al_id alerts = [''w1-0-7-1'']" by (rule example_ingest)
  have "length alerts = 1" using arg_cong [OF i(2), of length] by simp
  moreover have "rule_matches example_engine_env example_event example_engine = []" "length (plugin_matches example_engine_env example_event) = 2"
    "ioc_matches example_engine_env example_event = 0" "drift_suppressed example_engine = 0" "violations example_engine = 0"
    "ce_alertsGenerated example_engine = 0" "ce_alertsDropped example_engine = 0"
    by (simp_all add: rule_matches_def plugin_matches_def ioc_matches_def drift_suppressed_def violations_def example_engine_def example_engine_env_def)
  then have "ce_alertsGenerated ce' + ce_alertsDropped ce' + drift_suppressed ce' = violations ce' + 2"
    using candidates_accounted [OF i(1)] by auto
  ultimately show ?thesis using i(1) by blast
qed

section \<open>Enforcement\<close>

text \<open>Deduplication holds back the alert of a repeated match, not its enforcement, which has a cooldown of its own.\<close>

theorem duplicates_still_enforced:
  assumes "raise_rule env start e al True (ce, als) = Some (ce', als')" "ce_actionExecutor ce" "isEnforcedAction (al_action al)"
    "tryAcquire (al_rule_id al) (al_pid al) (ce_enforceCooldown ce) start (ce_cooldowns ce) = Some (True, cds)"
    "length (ce_enforceQueue ce) < ce_enforceQueueSize ce"
  shows "als' = als \<and> (\<exists>al'. ce_enforceQueue ce' = ce_enforceQueue ce @ [(al_action al, al')] \<and> al_rule_id al' = al_rule_id al \<and> al_enforced al')"
proof -
  let ?al = "al\<lparr>al_id := buildAlertID (al_rule_id al) (ev_timestamp e) (ev_pid e) (ce_alertSeq ce + 1)\<rparr>"
  obtain al1 ce1 where w: "with_trace env start e ?al (ce\<lparr>ce_alertSeq := ce_alertSeq ce + 1\<rparr>) = (al1, ce1)" by (rule prod.exhaust)
  have f: "ce_actionExecutor ce1 = ce_actionExecutor ce" "ce_enforceCooldown ce1 = ce_enforceCooldown ce" "ce_cooldowns ce1 = ce_cooldowns ce"
    "ce_enforceQueue ce1 = ce_enforceQueue ce" "ce_enforceQueueSize ce1 = ce_enforceQueueSize ce"
    using w by (auto simp: with_trace_def split: option.splits prod.splits)
  let ?al1 = "with_tree ce1 e (with_enrichment e al1)"
  have k: "Option.bind (with_context ce1 e ?al1) (\<lambda>al. Option.bind (enforce_rule start al ce1) (\<lambda>(al, ce). Some (drop_dup ce, als))) = Some (ce', als')"
    using assms(1) w by (simp add: raise_rule_def next_seq_def)
  then have "with_context ce1 e ?al1 \<noteq> None" by (intro notI) simp
  then obtain al2 where c: "with_context ce1 e ?al1 = Some al2" by auto
  have sub: "same_subject al1 al2"
    using same_subject_trans [OF with_enrichment_frame same_subject_trans [OF with_tree_frame with_context_frame [OF c]]] .
  then have s: "al_rule_id al2 = al_rule_id al" "al_pid al2 = al_pid al" "al_action al2 = al_action al"
    using with_trace_frame(1) [OF w] by (simp_all add: same_subject_def)
  define al3 where "al3 = al2\<lparr>al_enforced := True\<rparr>"
  have "enforce_rule start al2 ce1 = Some (al3, ce1\<lparr>ce_cooldowns := cds, ce_enforced := ce_enforced ce1 + 1, ce_enforceQueue := ce_enforceQueue ce1 @ [(al_action al, al3)]\<rparr>)"
    using assms(2-5) f s by (simp add: enforce_rule_def al3_def Let_def)
  then show ?thesis using k c f s by (auto simp: drop_dup_def al3_def intro!: exI [of _ al3])
qed

text \<open>
  A match that a rate limit refuses is not enforced; an action the full queue refuses has used up the cooldown and
  its alert says it was enforced; alerts that go to the policy workers never reach the incident tracker; and a pool
  whose size is not a power of two has workers that no process is routed to.
\<close>

theorem limited_match_not_enforced:
  assumes "drift_pass start e al ce = (True, ce1)" "checkDup start al ce1 = Some False" "both_limits env start al ce1 = Some (False, ce2)"
  shows "rule_path env start e al (ce, als) = Some (ce2, als) \<and> ce_enforceQueue ce2 = ce_enforceQueue ce1 \<and> ce_cooldowns ce2 = ce_cooldowns ce1"
proof
  show "rule_path env start e al (ce, als) = Some (ce2, als)" using assms by (simp add: rule_path_def)
  show "ce_enforceQueue ce2 = ce_enforceQueue ce1 \<and> ce_cooldowns ce2 = ce_cooldowns ce1"
    using assms(3) by (auto simp: both_limits_def rate_allow_def global_allow_def drop_alert_def drop_global_def bind_eq_Some_conv
        split: if_splits prod.splits)
qed

theorem full_queue_marks_enforced:
  assumes "ce_actionExecutor ce" "isEnforcedAction (al_action al)" "ce_enforceQueueSize ce \<le> length (ce_enforceQueue ce)"
    "tryAcquire (al_rule_id al) (al_pid al) (ce_enforceCooldown ce) start (ce_cooldowns ce) = Some (True, cds)"
    "enforce_rule start al ce = Some (al', ce')"
  shows "al_enforced al' \<and> ce_enforced ce' = ce_enforced ce + 1 \<and> ce_enforceQueue ce' = ce_enforceQueue ce \<and> ce_cooldowns ce' = cds"
  using assms by (auto simp: enforce_rule_def Let_def)

theorem policy_alerts_skip_incidents:
  "dispatch start als ce = ((als', True), ce') \<Longrightarrow> ce_incidentTracker ce' = ce_incidentTracker ce"
  by (auto simp: dispatch_def Let_def split: if_splits)

theorem idle_ingest_workers: "ingest_pool_size 3 numCPU = 3 \<and> ingest_worker 3 pid \<noteq> 1"
proof -
  have "and pid 2 \<noteq> (1 :: u32)"
  proof
    assume "and pid 2 = (1 :: u32)"
    then have "bit (and pid 2) 0 = bit (1 :: u32) 0" by (simp only:)
    moreover have "\<not> bit (and pid (2 :: u32)) 0" unfolding bit_and_iff by simp
    ultimately show False by simp
  qed
  then have "unat (and pid (2 :: u32)) \<noteq> 1" by (metis unat_1 word_unat_eq_iff)
  then show ?thesis by (simp add: ingest_pool_size_def ingest_worker_def)
qed

end
