(* ===== verification/Alert_Delivery.thy ===== *)
theory Alert_Delivery
  imports Alert_Pipeline "HOL-Library.Multiset"
begin

text \<open>
  Alerts on their way out of the engine.  An engine runs through any interleaving of calls of \<open>Ingest\<close>, steps of
  the ingest and policy workers, flushes, reloads and the background loops; a log records which alerts were raised, which were
  returned by \<open>Flush\<close> and which the analysts suppressed.
\<close>

section \<open>Runs of an engine\<close>

datatype ('re, 'g, 'a) engine_op =
    IngestCall "('re, 'g, 'a) engine_env" time event "'a option"
  | IngestWorker "('re, 'g, 'a) engine_env" time nat event
  | PolicyWorker "('re, 'g, 'a) engine_env" nat
  | IngestFlush nat
  | PolicyFlush nat
  | FlushCall
  | EnforceWorker
  | ReloadCall "('re, 'g, 'a) engine_env" "Rule list"
  | LimitsCall duration int bool
  | Upkeep time
  | BufferSweep time duration
  | LimiterTick time
  | GaugeTick time

record delivery_log =
  lg_raised :: "alert list"
  lg_delivered :: "alert list"
  lg_hidden :: "alert list"

definition empty_log :: delivery_log where
  "empty_log = \<lparr>lg_raised = [], lg_delivered = [], lg_hidden = []\<rparr>"

definition hidden_by :: "('re, 'g, 'a) CorrelationEngine \<Rightarrow> alert list \<Rightarrow> alert list" where
  "hidden_by ce als = (case ce_feedbackManager ce of None \<Rightarrow> [] | Some m \<Rightarrow> filter (\<lambda>al. IsSuppressed m (al_rule_id al) (al_comm al)) als)"

definition to_policy :: "('re, 'g, 'a) CorrelationEngine \<Rightarrow> alert list \<Rightarrow> bool" where
  "to_policy ce als \<longleftrightarrow> ce_enableRegoEval ce \<and> als \<noteq> [] \<and> length (ce_regoQueue ce) < ce_regoQueueSize ce"

definition log_raised :: "('re, 'g, 'a) CorrelationEngine \<Rightarrow> alert list \<Rightarrow> delivery_log \<Rightarrow> delivery_log" where
  "log_raised ce new lg =
     lg\<lparr>lg_raised := lg_raised lg @ new, lg_hidden := lg_hidden lg @ (if to_policy ce new then [] else hidden_by ce new)\<rparr>"

fun engine_step :: "('re, 'g, 'a) engine_op \<Rightarrow> ('re, 'g, 'a) CorrelationEngine \<times> delivery_log \<Rightarrow>
    (('re, 'g, 'a) CorrelationEngine \<times> delivery_log) option" where
  "engine_step (IngestCall env start e ad) (ce, lg) =
     do {
       ((_, new), _) \<leftarrow> collect_alerts env start e ad ce;
       ((_, ce'), _) \<leftarrow> Ingest env start e ad ce;
       Some (ce', log_raised ce new lg)
     }"
| "engine_step (IngestWorker env start w e) (ce, lg) =
     (if w < length (ce_ingestLocal ce) then
        do {
          ((_, new), _) \<leftarrow> collect_alerts env start e (ce_ingestDetectors ce ! w) ce;
          ce' \<leftarrow> worker_ingest env start w e ce;
          Some (ce', log_raised ce new lg)
        }
      else None)"
| "engine_step (PolicyWorker env w) (ce, lg) =
     (if w < length (ce_regoLocal ce) then
        Some (rego_work env w ce,
          case ce_regoQueue ce of
            [] \<Rightarrow> lg
          | task # rest \<Rightarrow> lg\<lparr>lg_hidden := lg_hidden lg @ hidden_by ce (fst (evaluateRegoPolicies env task (ce\<lparr>ce_regoQueue := rest\<rparr>)))\<rparr>)
      else None)"
| "engine_step (IngestFlush w) (ce, lg) = (if w < length (ce_ingestLocal ce) then Some (flush_ingest w ce, lg) else None)"
| "engine_step (PolicyFlush w) (ce, lg) = (if w < length (ce_regoLocal ce) then Some (flush_rego w ce, lg) else None)"
| "engine_step FlushCall (ce, lg) = (case engine_Flush ce of (als, ce) \<Rightarrow> Some (ce, lg\<lparr>lg_delivered := lg_delivered lg @ als\<rparr>))"
| "engine_step EnforceWorker (ce, lg) = Some (snd (enforce_work ce), lg)"
| "engine_step (ReloadCall env rules) (ce, lg) = Some (snd (UpdateRules env rules ce), lg)"
| "engine_step (LimitsCall window maxAlerts enabled) (ce, lg) = map_option (\<lambda>ce. (ce, lg)) (UpdateRateLimiter window maxAlerts enabled ce)"
| "engine_step (Upkeep now) (ce, lg) = Some (engine_cleanup now ce, lg)"
| "engine_step (BufferSweep now bufferTTL) (ce, lg) = Some (buffer_sweep now bufferTTL ce, lg)"
| "engine_step (LimiterTick now) (ce, lg) = Some (cleanupLoop_tick now ce, lg)"
| "engine_step (GaugeTick now) (ce, lg) = Some (updateRLGaugeLoop_tick now ce, lg)"

fun engine_run :: "('re, 'g, 'a) engine_op list \<Rightarrow> ('re, 'g, 'a) CorrelationEngine \<times> delivery_log \<Rightarrow>
    (('re, 'g, 'a) CorrelationEngine \<times> delivery_log) option" where
  "engine_run [] st = Some st"
| "engine_run (op # ops) st = Option.bind (engine_step op st) (engine_run ops)"

section \<open>Where alerts are held\<close>

definition ids :: "alert list \<Rightarrow> string multiset" where
  "ids als = mset (map al_id als)"

definition held :: "('re, 'g, 'a) CorrelationEngine \<Rightarrow> string multiset" where
  "held ce = ids (ce_pending ce) + ids (concat (ce_ingestLocal ce)) + ids (concat (ce_regoLocal ce)) + ids (concat (ce_regoQueue ce))"

lemma ids_simps [simp]: "ids [] = {#}" "ids (a # as) = add_mset (al_id a) (ids as)" "ids (as @ bs) = ids as + ids bs"
  by (simp_all add: ids_def)

lemma ids_concat_update: "w < length xss \<Longrightarrow> ids (concat (xss[w := ys])) + ids (xss ! w) = ids (concat xss) + ids ys"
proof (induction xss arbitrary: w)
  case (Cons xs xss)
  show ?case
  proof (cases w)
    case (Suc v)
    with Cons.prems have "ids (concat (xss[v := ys])) + ids (xss ! v) = ids (concat xss) + ids ys" by (intro Cons.IH) simp
    then show ?thesis using Suc by (simp add: add.assoc)
  qed (simp add: ac_simps)
qed simp

lemma ids_feedback: "ids (filter_feedback ce als) + ids (hidden_by ce als) = ids als"
proof (cases "ce_feedbackManager ce")
  case (Some m)
  have "filter_feedback ce als = filter (\<lambda>al. \<not> IsSuppressed m (al_rule_id al) (al_comm al)) als"
    using Some by (simp add: filter_feedback_def FilterAlerts_def filter_alerts_eq)
  then show ?thesis using Some by (induction als) (auto simp: hidden_by_def filter_feedback_def FilterAlerts_def filter_alerts_eq)
qed (simp add: filter_feedback_def hidden_by_def)

lemma held_flush_ingest: "w < length (ce_ingestLocal ce) \<Longrightarrow> held (flush_ingest w ce) = held ce"
  using ids_concat_update [of w "ce_ingestLocal ce" "[]"] by (auto simp: flush_ingest_def held_def ac_simps)

lemma held_flush_rego: "w < length (ce_regoLocal ce) \<Longrightarrow> held (flush_rego w ce) = held ce"
  using ids_concat_update [of w "ce_regoLocal ce" "[]"] by (auto simp: flush_rego_def held_def ac_simps)

lemma held_outbox: "outbox ce' = outbox ce \<Longrightarrow> held ce' = held ce"
  by (simp add: outbox_def held_def)

lemma collect_outbox:
  assumes "collect_alerts env start e ad ce = Some ((ce1, new), ad')"
  shows "outbox ce1 = outbox ce"
proof -
  obtain a p v where "handled (candidates env e ce + a + v) (ce\<lparr>ce_allowlistProfiler := p\<rparr>, []) (ce1, new)"
    by (rule collect_alerts_handled [OF assms])
  then show ?thesis by (simp add: handled_def outbox_def)
qed

lemma dispatch_held:
  assumes "dispatch start new ce1 = ((alerts, queued), ce')"
  shows "queued \<longleftrightarrow> to_policy ce1 new" "queued \<Longrightarrow> held ce' = held ce1 + ids new"
    "\<not> queued \<Longrightarrow> held ce' = held ce1 \<and> alerts = filter_feedback ce1 new" "ce_ingestLocal ce' = ce_ingestLocal ce1"
proof -
  show "queued \<longleftrightarrow> to_policy ce1 new" using assms by (auto simp: dispatch_def to_policy_def Let_def split: if_splits)
  show "held ce' = held ce1 + ids new" if queued using assms that by (auto simp: dispatch_def held_def Let_def ac_simps split: if_splits)
  show "held ce' = held ce1 \<and> alerts = filter_feedback ce1 new" if "\<not> queued"
    using assms that by (auto simp: dispatch_def held_def filter_feedback_def Let_def split: if_splits)
  show "ce_ingestLocal ce' = ce_ingestLocal ce1" using assms by (auto simp: dispatch_def Let_def split: if_splits)
qed

text \<open>What is held after an event, wherever its alerts were put.\<close>

lemma ingest_held:
  assumes "collect_alerts env start e ad ce = Some ((ce1, new), ad')" "dispatch start new ce1 = ((alerts, queued), ce')"
    "held ce'' = held ce' + (if queued then {#} else ids alerts)" "ids (lg_raised lg) = ids (lg_delivered lg) + held ce + ids (lg_hidden lg)"
  shows "ids (lg_raised (log_raised ce new lg)) = ids (lg_delivered (log_raised ce new lg)) + held ce'' + ids (lg_hidden (log_raised ce new lg))"
proof -
  note o = collect_outbox [OF assms(1)]
  have q: "queued \<longleftrightarrow> to_policy ce new" "filter_feedback ce1 = filter_feedback ce" "held ce1 = held ce"
    using dispatch_held(1) [OF assms(2)] o by (auto simp: to_policy_def outbox_def filter_feedback_def held_def)
  show ?thesis
  proof (cases queued)
    case True
    then show ?thesis using assms(3,4) dispatch_held(2) [OF assms(2) True] q by (simp add: log_raised_def ac_simps)
  next
    case False
    then show ?thesis using assms(3,4) dispatch_held(3) [OF assms(2) False] q ids_feedback [of ce new] by (auto simp: log_raised_def ac_simps)
  qed
qed

lemma evaluateRegoPolicies_frame:
  "ids (fst (evaluateRegoPolicies env als ce)) = ids als \<and> outbox (snd (evaluateRegoPolicies env als ce)) = outbox ce \<and>
   tally (snd (evaluateRegoPolicies env als ce)) = tally ce"
proof (induction env als ce rule: evaluateRegoPolicies.induct)
  case (2 env al als ce)
  obtain al1 ce1 where p: "evaluate_policy env al ce = (al1, ce1)" by (rule prod.exhaust)
  obtain als2 ce2 where r: "evaluateRegoPolicies env als ce1 = (als2, ce2)" by (rule prod.exhaust)
  have "al_id al1 = al_id al" "outbox ce1 = outbox ce" "tally ce1 = tally ce"
    using p by (auto simp: evaluate_policy_def apply_decision_def outbox_def tally_def drift_suppressed_def Let_def split: prod.splits if_splits option.splits)
  then show ?case using 2 [OF p [symmetric]] p r by simp
qed simp

lemma rego_work_held:
  assumes "w < length (ce_regoLocal ce)" "ce_regoQueue ce = task # rest"
  shows "held (rego_work env w ce) + ids (hidden_by ce (fst (evaluateRegoPolicies env task (ce\<lparr>ce_regoQueue := rest\<rparr>)))) = held ce"
proof -
  obtain als ce1 where r: "evaluateRegoPolicies env task (ce\<lparr>ce_regoQueue := rest\<rparr>) = (als, ce1)" by (rule prod.exhaust)
  have f: "ids als = ids task" "outbox ce1 = outbox (ce\<lparr>ce_regoQueue := rest\<rparr>)"
    using evaluateRegoPolicies_frame [of env task "ce\<lparr>ce_regoQueue := rest\<rparr>"] by (simp_all add: r)
  have fb: "filter_feedback ce1 als = filter_feedback ce als" using f(2) by (simp add: outbox_def filter_feedback_def)
  let ?loc = "ce_regoLocal ce ! w @ filter_feedback ce als"
  let ?ce = "ce1\<lparr>ce_regoLocal := (ce_regoLocal ce)[w := ?loc]\<rparr>"
  have l: "ce_regoLocal ce1 = ce_regoLocal ce" using f(2) by (simp add: outbox_def)
  have "held (rego_work env w ce) = held ?ce"
    using assms held_flush_rego [of w ?ce] by (auto simp: rego_work_def r fb l Let_def)
  also have "held ?ce + ids (hidden_by ce als) = held ce"
    using f(2) ids_concat_update [OF assms(1), of ?loc] ids_feedback [of ce als] f(1) assms(2) by (auto simp: held_def outbox_def ac_simps)
  finally show ?thesis by (simp add: r)
qed

section \<open>Steps\<close>

definition handled_total :: "('re, 'g, 'a) CorrelationEngine \<Rightarrow> nat" where
  "handled_total ce = ce_alertsGenerated ce + ce_alertsDropped ce + drift_suppressed ce"

text \<open>The balance of a log, and the numbers of the alerts raised since the engine had the sequence number \<open>s\<close>.\<close>

definition log_ok :: "u64 \<Rightarrow> nat \<Rightarrow> ('re, 'g, 'a) CorrelationEngine \<times> delivery_log \<Rightarrow> bool" where
  "log_ok s n st = (case st of (ce, lg) \<Rightarrow> ids (lg_raised lg) = ids (lg_delivered lg) + held ce + ids (lg_hidden lg) \<and>
     (\<exists>K. numbered s K (lg_raised lg) \<and> ce_alertSeq ce = s + of_nat K \<and> n + K \<le> handled_total ce))"

lemma collect_numbers:
  assumes "collect_alerts env start e ad ce = Some ((ce1, new), ad')"
  obtains K where "numbered (ce_alertSeq ce) K new" "ce_alertSeq ce1 = ce_alertSeq ce + of_nat K" "handled_total ce + K \<le> handled_total ce1"
proof -
  obtain a p v where "handled (candidates env e ce + a + v) (ce\<lparr>ce_allowlistProfiler := p\<rparr>, []) (ce1, new)"
    by (rule collect_alerts_handled [OF assms])
  then show thesis using that by (auto simp: handled_def tally_def handled_total_def drift_suppressed_def)
qed

lemma log_ok_same:
  assumes "log_ok s n (ce, lg)" "tally ce' = tally ce" "lg_raised lg' = lg_raised lg"
    "ids (lg_delivered lg') + held ce' + ids (lg_hidden lg') = ids (lg_delivered lg) + held ce + ids (lg_hidden lg)"
  shows "log_ok s n (ce', lg')"
  using assms by (auto simp: log_ok_def tally_def handled_total_def)

lemma log_ok_ingest:
  assumes "log_ok s n (ce, lg)" "collect_alerts env start e ad ce = Some ((ce1, new), ad')" "dispatch start new ce1 = ((alerts, queued), ce')"
    "held ce'' = held ce' + (if queued then {#} else ids alerts)" "tally ce'' = tally ce'"
  shows "log_ok s n (ce'', log_raised ce new lg)"
proof -
  obtain K where k: "numbered s K (lg_raised lg)" "ce_alertSeq ce = s + of_nat K" "n + K \<le> handled_total ce"
    and b: "ids (lg_raised lg) = ids (lg_delivered lg) + held ce + ids (lg_hidden lg)" using assms(1) by (auto simp: log_ok_def)
  obtain L where l: "numbered (ce_alertSeq ce) L new" "ce_alertSeq ce1 = ce_alertSeq ce + of_nat L" "handled_total ce + L \<le> handled_total ce1"
    by (rule collect_numbers [OF assms(2)])
  have t: "tally ce'' = tally ce1" using assms(5) dispatch_frame(1) [OF assms(3)] by simp
  have "numbered s (K + L) (lg_raised lg @ new)" using numbered_append k(1) l(1) k(2) by metis
  moreover have "ce_alertSeq ce'' = s + of_nat (K + L)" using t k(2) l(2) by (simp add: tally_def)
  moreover have "n + (K + L) \<le> handled_total ce''" using t k(3) l(3) by (simp add: tally_def handled_total_def)
  ultimately show ?thesis using ingest_held [OF assms(2-4) b]
    unfolding log_ok_def prod.case by (intro conjI exI [of _ "K + L"]) (simp_all add: log_raised_def)
qed

lemma log_ok_IngestCall:
  assumes "log_ok s n (ce, lg)" "engine_step (IngestCall env start e ad) (ce, lg) = Some st"
  shows "log_ok s n st"
proof -
  have "collect_alerts env start e ad ce \<noteq> None" using assms(2) by (intro notI) simp
  then obtain ce1 new ad' where c: "collect_alerts env start e ad ce = Some ((ce1, new), ad')" by auto
  obtain alerts queued ce' where d: "dispatch start new ce1 = ((alerts, queued), ce')" by (metis prod.exhaust)
  let ?ce = "if alerts \<noteq> [] \<and> \<not> queued then ce'\<lparr>ce_pending := ce_pending ce' @ alerts\<rparr> else ce'"
  have "Ingest env start e ad ce = Some ((alerts, ?ce), ad')" using c d by (simp add: Ingest_def ingestWithAD_def)
  then have st: "st = (?ce, log_raised ce new lg)" using assms(2) c by simp
  have "held ?ce = held ce' + (if queued then {#} else ids alerts)" by (simp add: held_def ac_simps)
  moreover have "tally ?ce = tally ce'" by (simp add: tally_def drift_suppressed_def)
  ultimately show ?thesis unfolding st by (rule log_ok_ingest [OF assms(1) c d])
qed

lemma log_ok_IngestWorker:
  assumes "log_ok s n (ce, lg)" "engine_step (IngestWorker env start w e) (ce, lg) = Some st"
  shows "log_ok s n st"
proof -
  let ?ad = "ce_ingestDetectors ce ! w"
  have w: "w < length (ce_ingestLocal ce)" using assms(2) by (simp split: if_splits)
  have "collect_alerts env start e ?ad ce \<noteq> None" using assms(2) w by (intro notI) simp
  then obtain ce1 new ad' where c: "collect_alerts env start e ?ad ce = Some ((ce1, new), ad')" by auto
  obtain alerts queued ce' where d: "dispatch start new ce1 = ((alerts, queued), ce')" by (metis prod.exhaust)
  define ce2 where "ce2 = ce'\<lparr>ce_ingestDetectors := (ce_ingestDetectors ce')[w := ad']\<rparr>"
  define ce3 where "ce3 = ce2\<lparr>ce_ingestLocal := (ce_ingestLocal ce2)[w := ce_ingestLocal ce2 ! w @ alerts]\<rparr>"
  let ?ce = "if alerts \<noteq> [] \<and> \<not> queued then (if localFlushBatch \<le> length (ce_ingestLocal ce3 ! w) then flush_ingest w ce3 else ce3) else ce2"
  have "worker_ingest env start w e ce = Some ?ce"
    using c d by (simp add: worker_ingest_def ingestWithAD_def ce2_def ce3_def Let_def)
  then have st: "st = (?ce, log_raised ce new lg)" using assms(2) c w by simp
  have w': "w < length (ce_ingestLocal ce2)" using w dispatch_held(4) [OF d] collect_outbox [OF c] by (simp add: ce2_def outbox_def)
  have "held ce3 = held ce2 + ids alerts" using ids_concat_update [OF w', of "ce_ingestLocal ce2 ! w @ alerts"]
    by (auto simp: held_def ce3_def ac_simps)
  moreover have "held (flush_ingest w ce3) = held ce3" using w' by (intro held_flush_ingest) (simp add: ce3_def)
  moreover have "held ce2 = held ce'" by (simp add: held_def ce2_def)
  ultimately have "held ?ce = held ce' + (if queued then {#} else ids alerts)" by auto
  moreover have "tally ?ce = tally ce'" by (simp add: tally_def drift_suppressed_def flush_ingest_def ce3_def ce2_def)
  ultimately show ?thesis unfolding st by (rule log_ok_ingest [OF assms(1) c d])
qed

lemma log_ok_step:
  assumes "log_ok s n (ce, lg)" "engine_step op (ce, lg) = Some st"
  shows "log_ok s n st"
proof (cases op)
  case (IngestCall env start e ad)
  then show ?thesis using log_ok_IngestCall assms by blast
next
  case (IngestWorker env start w e)
  then show ?thesis using log_ok_IngestWorker assms by blast
next
  case (PolicyWorker env w)
  have w: "w < length (ce_regoLocal ce)" using assms(2) PolicyWorker by (simp split: if_splits)
  show ?thesis
  proof (cases "ce_regoQueue ce")
    case Nil
    then show ?thesis using assms PolicyWorker w by (simp add: rego_work_def)
  next
    case (Cons task rest)
    let ?h = "hidden_by ce (fst (evaluateRegoPolicies env task (ce\<lparr>ce_regoQueue := rest\<rparr>)))"
    have st: "st = (rego_work env w ce, lg\<lparr>lg_hidden := lg_hidden lg @ ?h\<rparr>)" using assms(2) PolicyWorker w Cons by simp
    obtain als ce1 where r: "evaluateRegoPolicies env task (ce\<lparr>ce_regoQueue := rest\<rparr>) = (als, ce1)" by (rule prod.exhaust)
    have "tally (rego_work env w ce) = tally ce"
      using evaluateRegoPolicies_frame [of env task "ce\<lparr>ce_regoQueue := rest\<rparr>"] Cons
      by (simp add: rego_work_def r flush_rego_def Let_def tally_def drift_suppressed_def)
    then show ?thesis unfolding st using rego_work_held [OF w Cons, of env]
      by (intro log_ok_same [OF assms(1)]) (simp_all flip: rego_work_held [OF w Cons, of env] add: ac_simps)
  qed
next
  case (IngestFlush w)
  then have st: "st = (flush_ingest w ce, lg)" "w < length (ce_ingestLocal ce)" using assms(2) by (simp_all split: if_splits)
  have "tally (flush_ingest w ce) = tally ce" by (simp add: flush_ingest_def tally_def drift_suppressed_def)
  then show ?thesis unfolding st(1) by (rule log_ok_same [OF assms(1)]) (simp_all add: held_flush_ingest [OF st(2)])
next
  case (PolicyFlush w)
  then have st: "st = (flush_rego w ce, lg)" "w < length (ce_regoLocal ce)" using assms(2) by (simp_all split: if_splits)
  have "tally (flush_rego w ce) = tally ce" by (simp add: flush_rego_def tally_def drift_suppressed_def)
  then show ?thesis unfolding st(1) by (rule log_ok_same [OF assms(1)]) (simp_all add: held_flush_rego [OF st(2)])
next
  case FlushCall
  then have st: "st = (ce\<lparr>ce_pending := []\<rparr>, lg\<lparr>lg_delivered := lg_delivered lg @ ce_pending ce\<rparr>)" using assms(2) by (simp add: engine_Flush_def)
  show ?thesis unfolding st by (rule log_ok_same [OF assms(1)]) (simp_all add: held_def tally_def drift_suppressed_def ac_simps)
next
  case EnforceWorker
  then have st: "st = (snd (enforce_work ce), lg)" using assms(2) by simp
  show ?thesis unfolding st
    by (rule log_ok_same [OF assms(1)]) (simp_all add: held_def tally_def drift_suppressed_def enforce_work_def split: list.split)
next
  case (ReloadCall env rules)
  then have st: "st = (snd (UpdateRules env rules ce), lg)" using assms(2) by simp
  show ?thesis unfolding st by (rule log_ok_same [OF assms(1)]) (simp_all add: held_def tally_def drift_suppressed_def UpdateRules_def Let_def)
next
  case (Upkeep now)
  then have st: "st = (engine_cleanup now ce, lg)" using assms(2) by simp
  show ?thesis unfolding st by (rule log_ok_same [OF assms(1)]) (simp_all add: held_def tally_def drift_suppressed_def engine_cleanup_def)
next
  case (LimitsCall window maxAlerts enabled)
  then obtain rl where st: "st = (ce\<lparr>ce_rateLimiter := rl\<rparr>, lg)" using assms(2) by (auto simp: UpdateRateLimiter_def)
  show ?thesis unfolding st by (rule log_ok_same [OF assms(1)]) (simp_all add: held_def tally_def drift_suppressed_def)
next
  case (BufferSweep now bufferTTL)
  then have st: "st = (buffer_sweep now bufferTTL ce, lg)" using assms(2) by simp
  show ?thesis unfolding st by (rule log_ok_same [OF assms(1)]) (simp_all add: held_def tally_def drift_suppressed_def buffer_sweep_def Let_def)
next
  case (LimiterTick now)
  then have st: "st = (cleanupLoop_tick now ce, lg)" using assms(2) by simp
  show ?thesis unfolding st by (rule log_ok_same [OF assms(1)]) (simp_all add: held_def tally_def drift_suppressed_def cleanupLoop_tick_def)
next
  case (GaugeTick now)
  then have st: "st = (updateRLGaugeLoop_tick now ce, lg)" using assms(2) by simp
  show ?thesis unfolding st by (rule log_ok_same [OF assms(1)]) (simp_all add: held_def tally_def drift_suppressed_def updateRLGaugeLoop_tick_def Let_def)
qed

lemma log_ok_run: "log_ok s n st \<Longrightarrow> engine_run ops st = Some st' \<Longrightarrow> log_ok s n st'"
proof (induction ops st rule: engine_run.induct)
  case (2 op ops st)
  have "engine_step op st \<noteq> None" using "2.prems"(2) by (intro notI) simp
  then obtain st1 where s: "engine_step op st = Some st1" by auto
  moreover have "log_ok s n st1" using log_ok_step "2.prems"(1) s by (metis prod.exhaust)
  ultimately show ?case using "2.IH" "2.prems"(2) by simp
qed simp

lemma log_ok_start: "held ce = {#} \<Longrightarrow> log_ok (ce_alertSeq ce) (handled_total ce) (ce, empty_log)"
  by (auto simp: log_ok_def empty_log_def intro!: exI [of _ 0])

section \<open>Identifiers\<close>

lemma last_part_unique: "xs @ c # ys = xs' @ c # ys' \<Longrightarrow> c \<notin> set ys \<Longrightarrow> c \<notin> set ys' \<Longrightarrow> ys = ys'"
  by (auto simp: append_eq_append_conv2 append_eq_Cons_conv Cons_eq_append_conv)

lemma ends_in_unique:
  assumes "ends_in p al" "ends_in q al'" "al_id al = al_id al'"
  shows "p = q"
proof -
  obtain x y where "al_id al = x @ ''-'' @ dec_nat (unat p)" "al_id al' = y @ ''-'' @ dec_nat (unat q)" using assms(1,2) by (auto simp: ends_in_def)
  with assms(3) have e: "x @ CHR ''-'' # dec_nat (unat p) = y @ CHR ''-'' # dec_nat (unat q)" by simp
  have "CHR ''-'' \<notin> set (dec_nat n)" for n using dec_nat_digits [of "CHR ''-''" n] by (auto simp: is_digit_def)
  then have "dec_nat (unat p) = dec_nat (unat q)" using last_part_unique [OF e] by blast
  then show ?thesis by (simp add: word_unat_eq_iff)
qed

lemma numbered_distinct:
  assumes "numbered s K als" "K < 2 ^ 64"
  shows "distinct (map al_id als)"
proof -
  obtain ks where k: "sorted_wrt (<) ks" "set ks \<subseteq> {0<..K}" "list_all2 (\<lambda>k al. ends_in (s + of_nat k) al) ks als"
    using assms(1) by (auto simp: numbered_def)
  have d: "distinct ks" using k(1) by (simp add: strict_sorted_iff)
  have len: "length ks = length als" using k(3) by (rule list_all2_lengthD)
  have num: "ends_in (s + of_nat (ks ! x)) (als ! x)" if "x < length als" for x
    using list_all2_nthD2 [OF k(3) that] .
  have "i = j" if ij: "i < length als" "j < length als" "al_id (als ! i) = al_id (als ! j)" for i j
  proof -
    have "s + of_nat (ks ! i) = s + of_nat (ks ! j)"
      by (rule ends_in_unique [OF num [OF ij(1)] num [OF ij(2)] ij(3)])
    then have e: "(of_nat (ks ! i) :: u64) = of_nat (ks ! j)" by simp
    have u: "unat (of_nat (ks ! x) :: u64) = ks ! x" if "x < length ks" for x
    proof -
      have "ks ! x < 2 ^ 64" using subsetD [OF k(2) nth_mem [OF that]] assms(2) by simp
      then show ?thesis by (simp add: unat_of_nat)
    qed
    have "ks ! i = unat (of_nat (ks ! i) :: u64)" using u [of i] ij(1) len by (simp only:)
    also have "\<dots> = unat (of_nat (ks ! j) :: u64)" by (simp only: e)
    also have "\<dots> = ks ! j" using u [of j] ij(2) len by (simp only:)
    finally have "ks ! i = ks ! j" .
    then show ?thesis using d ij len by (simp add: nth_eq_iff_index_eq)
  qed
  then show ?thesis unfolding distinct_conv_nth by auto
qed

lemma distinct_submset:
  assumes "mset ys \<subseteq># mset xs" "distinct xs"
  shows "distinct ys"
proof -
  have "count (mset ys) a = (if a \<in> set ys then 1 else 0)" for a
  proof -
    have "count (mset xs) a \<le> 1" unfolding spec [OF iffD1 [OF distinct_count_atmost_1 assms(2)], of a] by simp
    then have "count (mset ys) a \<le> 1" using mset_subset_eq_count [OF assms(1), of a] by (rule order_trans [rotated])
    moreover have "a \<in> set ys \<longleftrightarrow> 0 < count (mset ys) a" by (simp only: count_greater_zero_iff set_mset_mset)
    ultimately show ?thesis by (cases "a \<in> set ys"; simp only: if_True if_False; linarith)
  qed
  then show ?thesis unfolding distinct_count_atmost_1 by blast
qed

text \<open>
  C2 (safety).  No alert is lost or doubled on its way to the consumer.  In every run of an engine that
  starts with empty queues, with any interleaving of callers, workers, flushes and reloads, each alert raised was
  returned by exactly one flush, or was suppressed by the analysts, or is still held in exactly one queue or buffer.
\<close>

theorem alerts_delivered_once:
  assumes "engine_run ops (ce0, empty_log) = Some (ce, lg)" "held ce0 = {#}"
  shows "mset (map al_id (lg_raised lg)) = mset (map al_id (lg_delivered lg)) + held ce + mset (map al_id (lg_hidden lg))"
  using log_ok_run [OF log_ok_start [OF assms(2)] assms(1)] by (simp add: log_ok_def ids_def)

text \<open>
  C4 (safety).  Alert identifiers are unique.  Until the 64-bit counter of handled candidates wraps
  around, no two alerts raised in a run, and so no two delivered, have the same identifier.
\<close>

theorem alert_ids_unique:
  assumes "engine_run ops (ce0, empty_log) = Some (ce, lg)" "held ce0 = {#}" "handled_total ce < handled_total ce0 + 2 ^ 64"
  shows "distinct (map al_id (lg_raised lg)) \<and> distinct (map al_id (lg_delivered lg))"
proof -
  have ok: "log_ok (ce_alertSeq ce0) (handled_total ce0) (ce, lg)" using log_ok_run [OF log_ok_start [OF assms(2)] assms(1)] .
  then obtain K where "numbered (ce_alertSeq ce0) K (lg_raised lg)" "handled_total ce0 + K \<le> handled_total ce" by (auto simp: log_ok_def)
  then have d: "distinct (map al_id (lg_raised lg))" using assms(3) by (intro numbered_distinct) auto
  have "mset (map al_id (lg_delivered lg)) \<subseteq># mset (map al_id (lg_raised lg))" using ok by (simp add: log_ok_def ids_def)
  with d show ?thesis using distinct_submset by blast
qed

definition example_ops :: "(unit, nat, unit) engine_op list" where
  "example_ops = [IngestCall example_engine_env 100 example_event None, FlushCall]"

lemma example_engine_run:
  obtains ce lg where "engine_run example_ops (example_engine, empty_log) = Some (ce, lg)" "map al_id (lg_raised lg) = [''w1-0-7-1'']"
    "map al_id (lg_delivered lg) = [''w1-0-7-1'']" "handled_total ce = 2"
proof -
  obtain alerts ce' where i: "ingestWithAD example_engine_env 100 example_event None example_engine = Some (((alerts, False), ce'), None)"
    "map al_id alerts = [''w1-0-7-1'']" "ce_alertsGenerated ce' = 1" "ce_alertsDropped ce' = 1" "drift_suppressed ce' = 0" by (rule example_ingest)
  obtain ce1 new where c: "collect_alerts example_engine_env 100 example_event None example_engine = Some ((ce1, new), None)"
    and d: "dispatch 100 new ce1 = ((alerts, False), ce')" using ingest_collects [OF i(1)] .
  have o: "outbox ce1 = outbox example_engine" by (rule collect_outbox [OF c])
  then have new: "alerts = new" "ce_pending ce' = []"
    using d by (auto simp: dispatch_def filter_feedback_def outbox_def example_engine_def Let_def)
  have ne: "alerts \<noteq> []" using i(2) by auto
  let ?ce = "ce'\<lparr>ce_pending := ce_pending ce' @ alerts\<rparr>"
  have "Ingest example_engine_env 100 example_event None example_engine = Some ((alerts, ?ce), None)" using i(1) ne by (simp add: Ingest_def)
  then have run: "engine_run example_ops (example_engine, empty_log) =
      Some (?ce\<lparr>ce_pending := []\<rparr>, (log_raised example_engine new empty_log)\<lparr>lg_delivered := alerts\<rparr>)"
    using c new by (simp add: example_ops_def engine_Flush_def empty_log_def log_raised_def)
  show thesis using i new by (intro that [OF run]) (simp_all add: log_raised_def empty_log_def handled_total_def drift_suppressed_def)
qed

lemma example_held: "held example_engine = {#}"
  by (simp add: held_def example_engine_def)

theorem alert_ids_unique_witness:
  "\<exists>ce lg. engine_run example_ops (example_engine, empty_log) = Some (ce, lg) \<and> lg_delivered lg \<noteq> [] \<and>
     distinct (map al_id (lg_raised lg)) \<and> distinct (map al_id (lg_delivered lg))"
proof -
  obtain ce lg where r: "engine_run example_ops (example_engine, empty_log) = Some (ce, lg)" "map al_id (lg_delivered lg) = [''w1-0-7-1'']"
    "handled_total ce = 2" by (rule example_engine_run)
  then show ?thesis using alert_ids_unique [OF r(1) example_held] by auto
qed

theorem alerts_delivered_once_witness:
  "\<exists>ce lg. engine_run example_ops (example_engine, empty_log) = Some (ce, lg) \<and> lg_delivered lg \<noteq> [] \<and>
     mset (map al_id (lg_raised lg)) = mset (map al_id (lg_delivered lg)) + held ce + mset (map al_id (lg_hidden lg))"
proof -
  obtain ce lg where r: "engine_run example_ops (example_engine, empty_log) = Some (ce, lg)" "map al_id (lg_delivered lg) = [''w1-0-7-1'']"
    by (rule example_engine_run)
  then show ?thesis using alerts_delivered_once [OF r(1) example_held] by auto
qed

end
