(* ===== verification/Engine_Totality.thy ===== *)
theory Engine_Totality
  imports Alert_Delivery
begin

text \<open>
  Runs of the correlation engine are not cut short.  The operations of the model that can fail -- the access to a
  shard of the event buffer and the write into an event ring, the access to a shard of the deduplication and
  cooldown maps and the allocation of a rate limiter's ring -- succeed under the invariants of their components,
  and every step of the engine keeps these.  Other accesses, as the lookup in the rule index, are total in the
  model and not covered here.
\<close>

section \<open>Partial results that are there\<close>

definition returns :: "('b \<Rightarrow> bool) \<Rightarrow> 'b option \<Rightarrow> bool" where
  "returns P r = (case r of Some y \<Rightarrow> P y | None \<Rightarrow> False)"

lemma returns_Some [simp]: "returns P (Some y) = P y"
  by (simp add: returns_def)

lemma returnsI: "\<exists>y. r = Some y \<and> P y \<Longrightarrow> returns P r"
  by (auto simp: returns_def)

lemma returnsD: "returns P r \<Longrightarrow> \<exists>y. r = Some y \<and> P y"
  by (cases r) (simp_all add: returns_def)

lemma returns_bind: "returns Q r \<Longrightarrow> (\<And>y. Q y \<Longrightarrow> returns P (f y)) \<Longrightarrow> returns P (Option.bind r f)"
  by (cases r) (simp_all add: returns_def)

lemma returns_map: "returns (\<lambda>y. P (f y)) r \<Longrightarrow> returns P (map_option f r)"
  by (cases r) (simp_all add: returns_def)

lemma returns_mono: "returns Q r \<Longrightarrow> (\<And>y. Q y \<Longrightarrow> P y) \<Longrightarrow> returns P r"
  by (cases r) (simp_all add: returns_def)

section \<open>The invariant\<close>

definition buffer_ok :: "ShardedEventBuffer \<Rightarrow> bool" where
  "buffer_ok sb \<longleftrightarrow> (\<exists>m h. buffer_inv m h sb)"

definition corr_ok :: "('re, 'g, 'a) CorrelationEngine \<Rightarrow> bool" where
  "corr_ok ce \<longleftrightarrow> buffer_ok (ce_buffer ce) \<and> 0 \<le> rl_maxAlerts (ce_rateLimiter ce) \<and>
     stamps_ok MaxDedupEntries (sd_map (ce_dedup ce)) \<and> stamps_ok MaxCooldownEntries (ce_cooldowns ce)"

definition guts where
  "guts ce = (ce_buffer ce, ce_rateLimiter ce, ce_dedup ce, ce_cooldowns ce)"

lemma corr_ok_guts: "guts ce' = guts ce \<Longrightarrow> corr_ok ce' = corr_ok ce"
  by (simp add: guts_def corr_ok_def)

lemma guts_steps [simp]:
  "guts (drop_alert ce) = guts ce" "guts (drop_global ce) = guts ce" "guts (drop_dup ce) = guts ce" "guts (snd (next_seq ce)) = guts ce"
  "guts (fst (emit al (ce, als))) = guts ce" "guts (ce\<lparr>ce_alertSeq := q\<rparr>) = guts ce"
  by (simp_all add: guts_def drop_alert_def drop_global_def drop_dup_def next_seq_def emit_def)

lemma corr_ok_steps [simp]:
  "corr_ok (drop_alert ce) = corr_ok ce" "corr_ok (drop_global ce) = corr_ok ce" "corr_ok (drop_dup ce) = corr_ok ce"
  "corr_ok (snd (next_seq ce)) = corr_ok ce" "corr_ok (fst (emit al (ce, als))) = corr_ok ce" "corr_ok (ce\<lparr>ce_alertSeq := q\<rparr>) = corr_ok ce"
  by (rule corr_ok_guts, simp)+

lemma with_trace_ok: "with_trace env start e al ce = (al', ce') \<Longrightarrow> corr_ok ce' = corr_ok ce"
  by (rule corr_ok_guts) (auto simp: with_trace_def guts_def split: option.splits prod.splits)

lemma global_allow_ok: "global_allow env start ce = (ok, ce') \<Longrightarrow> corr_ok ce' = corr_ok ce"
  by (rule corr_ok_guts) (auto simp: global_allow_def guts_def split: if_splits prod.splits)

lemma drift_pass_ok: "drift_pass start e al ce = (ok, ce') \<Longrightarrow> corr_ok ce' = corr_ok ce"
  by (rule corr_ok_guts) (auto simp: drift_pass_def guts_def split: if_splits option.splits prod.splits)

lemma checkDup_returns: "corr_ok ce \<Longrightarrow> returns (\<lambda>_. True) (checkDup start al ce)"
  using stamps_ok_index [of MaxDedupEntries "sd_map (ce_dedup ce)"] by (auto simp: checkDup_def dedup_check_def corr_ok_def Let_def)

lemma markDedup_returns: "corr_ok ce \<Longrightarrow> returns corr_ok (markDedup start al ce)"
  using dedup_step_ok [of "ce_dedup ce" "Mark (al_rule_id al) (al_pid al) (al_comm al) start"]
  by (auto simp: markDedup_def corr_ok_def)

lemma with_context_returns:
  assumes "corr_ok ce"
  shows "returns (\<lambda>_. True) (with_context ce e al)"
proof -
  obtain m h where b: "buffer_inv m h (ce_buffer ce)" using assms by (auto simp: corr_ok_def buffer_ok_def)
  then show ?thesis using buffer_inv_Get [OF b] by (auto simp: with_context_def)
qed

lemma rate_allow_returns: "corr_ok ce \<Longrightarrow> returns (\<lambda>(ok, ce'). corr_ok ce') (rate_allow start al ce)"
  using newRuleState_ok [of "rl_maxAlerts (ce_rateLimiter ce)" "rl_window (ce_rateLimiter ce)"]
  by (auto simp: rate_allow_def Allow_def corr_ok_def split: option.split prod.split)

lemma both_limits_returns: "corr_ok ce \<Longrightarrow> returns (\<lambda>(ok, ce'). corr_ok ce') (both_limits env start al ce)"
  unfolding both_limits_def
  by (rule returns_bind [OF rate_allow_returns]) (auto split: prod.split simp: global_allow_ok)

lemma enforce_rule_returns:
  assumes "corr_ok ce"
  shows "returns (\<lambda>(al, ce'). corr_ok ce') (enforce_rule start al ce)"
proof -
  have c: "stamps_ok MaxCooldownEntries (ce_cooldowns ce)" using assms by (simp add: corr_ok_def)
  obtain b cds where t: "tryAcquire (al_rule_id al) (al_pid al) (ce_enforceCooldown ce) start (ce_cooldowns ce) = Some (b, cds)"
    "stamps_ok MaxCooldownEntries cds" using tryAcquire_ok [OF c] by blast
  then show ?thesis using assms by (simp add: enforce_rule_def corr_ok_def Let_def)
qed

section \<open>Candidates\<close>

abbreviation fine :: "('re, 'g, 'a) CorrelationEngine \<times> alert list \<Rightarrow> bool" where
  "fine st \<equiv> corr_ok (fst st)"

lemma marked_returns: "corr_ok ce \<Longrightarrow> returns fine (Option.bind (markDedup start al ce) (\<lambda>ce. Some (emit al (ce, als))))"
  by (rule returns_bind [OF markDedup_returns]) simp_all

lemma raise_rule_returns:
  assumes "corr_ok ce"
  shows "returns fine (raise_rule env start e al dup (ce, als))"
proof -
  let ?al = "al\<lparr>al_id := buildAlertID (al_rule_id al) (ev_timestamp e) (ev_pid e) (ce_alertSeq ce + 1)\<rparr>"
  obtain al1 ce1 where w: "with_trace env start e ?al (ce\<lparr>ce_alertSeq := ce_alertSeq ce + 1\<rparr>) = (al1, ce1)" by (rule prod.exhaust)
  have ok: "corr_ok ce1" using with_trace_ok [OF w] assms by simp
  have tail: "returns fine (if dup then Some (drop_dup ce, als) else Option.bind (markDedup start al ce) (\<lambda>ce. Some (emit al (ce, als))))"
    if "corr_ok ce" for al and ce :: "('a, 'b, 'c) CorrelationEngine" using that marked_returns [OF that] by simp
  show ?thesis unfolding raise_rule_def next_seq_def prod.case w
    by (rule returns_bind [OF with_context_returns [OF ok]], rule returns_bind [OF enforce_rule_returns [OF ok]])
      (use tail in \<open>auto split: prod.split\<close>)
qed

lemma rule_path_returns:
  assumes "fine st"
  shows "returns fine (rule_path env start e al st)"
proof -
  obtain ce als where st: "st = (ce, als)" by (rule prod.exhaust)
  obtain pass ce1 where p: "drift_pass start e al ce = (pass, ce1)" by (rule prod.exhaust)
  have ok: "corr_ok ce1" using drift_pass_ok [OF p] assms st by simp
  have lim: "returns (\<lambda>(ok, ce'). corr_ok ce') (if dup then Some (True, ce1) else both_limits env start al ce1)" for dup
    using ok both_limits_returns [OF ok] by simp
  have rest: "returns fine (Option.bind (if dup then Some (True, ce1) else both_limits env start al ce1)
      (\<lambda>(ok, ce). if \<not> ok then Some (ce, als) else raise_rule env start e al dup (ce, als)))" for dup
    by (rule returns_bind [OF lim]) (auto simp: raise_rule_returns split: prod.split)
  have "returns fine (Option.bind (checkDup start al ce1) (\<lambda>isDup. Option.bind (if isDup then Some (True, ce1) else both_limits env start al ce1)
      (\<lambda>(ok, ce). if \<not> ok then Some (ce, als) else raise_rule env start e al isDup (ce, als))))"
    by (rule returns_bind [OF checkDup_returns [OF ok]]) (rule rest)
  then show ?thesis using ok by (simp add: rule_path_def st p)
qed

lemma wasm_path_returns:
  assumes "fine st"
  shows "returns fine (wasm_path env start e al st)"
proof -
  obtain ce als where st: "st = (ce, als)" by (rule prod.exhaust)
  have ok: "corr_ok ce" using assms st by simp
  have emit: "returns fine (Option.bind (with_context ce1 e al1) (\<lambda>al. Some (emit al (ce1, als))))" if "corr_ok ce1" for ce1 al1
    by (rule returns_bind [OF with_context_returns [OF that]]) (simp add: that)
  have mark: "returns fine (Option.bind (markDedup start al ce1) (\<lambda>ce. case next_seq ce of (seq, ce) \<Rightarrow>
      Option.bind (with_context ce e (with_tree ce e (al\<lparr>al_id := buildAlertID (al_rule_id al) (ev_timestamp e) (ev_pid e) seq\<rparr>)))
        (\<lambda>al. Some (emit al (ce, als)))))" if "corr_ok ce1" for ce1
    by (rule returns_bind [OF markDedup_returns [OF that]]) (simp add: next_seq_def emit)
  have lim: "returns fine (Option.bind (both_limits env start al ce) (\<lambda>(ok, ce). if \<not> ok then Some (ce, als) else
      Option.bind (markDedup start al ce) (\<lambda>ce. case next_seq ce of (seq, ce) \<Rightarrow>
        Option.bind (with_context ce e (with_tree ce e (al\<lparr>al_id := buildAlertID (al_rule_id al) (ev_timestamp e) (ev_pid e) seq\<rparr>)))
          (\<lambda>al. Some (emit al (ce, als))))))"
    by (rule returns_bind [OF both_limits_returns [OF ok]]) (use mark in \<open>auto split: prod.split\<close>)
  show ?thesis unfolding wasm_path_def st prod.case
    by (rule returns_bind [OF checkDup_returns [OF ok]]) (use lim ok in simp)
qed

lemma admit_quiet_returns:
  assumes "corr_ok ce"
  shows "returns fine (admit_quiet env start al (ce, als))"
proof -
  have g: "corr_ok ce2" if "corr_ok ce1" "(if ok then global_allow env start ce1 else (False, ce1)) = (b, ce2)" for ok ce1 b ce2
    using that global_allow_ok [of env start ce1 b ce2] by (simp split: if_splits)
  have lim: "returns fine (Option.bind (rate_allow start al ce) (\<lambda>(ok, ce). case (if ok then global_allow env start ce else (False, ce)) of (ok, ce) \<Rightarrow>
      if ok then Option.bind (markDedup start al ce) (\<lambda>ce. Some (emit al (ce, als))) else Some (drop_alert ce, als)))"
    by (rule returns_bind [OF rate_allow_returns [OF assms]]) (auto dest: g simp: marked_returns split: prod.split)
  show ?thesis unfolding admit_quiet_def prod.case
    by (rule returns_bind [OF checkDup_returns [OF assms]]) (use lim assms in simp)
qed

lemma admit_anomaly_returns:
  assumes "corr_ok ce"
  shows "returns fine (admit_anomaly env start al (ce, als))"
proof -
  have lim: "returns fine (Option.bind (rate_allow start al ce) (\<lambda>(perRuleOK, ce). case global_allow env start ce of (globalOK, ce) \<Rightarrow>
      if perRuleOK \<and> globalOK then Option.bind (markDedup start al ce) (\<lambda>ce. Some (emit al (ce, als)))
      else Some (if globalOK then drop_alert ce else drop_global ce, als)))"
    by (rule returns_bind [OF rate_allow_returns [OF assms]]) (auto simp: global_allow_ok marked_returns split: prod.split)
  show ?thesis unfolding admit_anomaly_def prod.case
    by (rule returns_bind [OF checkDup_returns [OF assms]]) (use lim assms in simp)
qed

section \<open>One event\<close>

text \<open>Candidate paths that also return on every state of the invariant.\<close>

locale total_path = candidate_path path
  for path :: "alert \<Rightarrow> ('re, 'g, 'a) CorrelationEngine \<times> alert list \<Rightarrow> (('re, 'g, 'a) CorrelationEngine \<times> alert list) option" +
  assumes returns_one: "fine st \<Longrightarrow> returns fine (path al st)"
begin

lemma returns_all: "fine st \<Longrightarrow> returns fine (fold (\<lambda>al s. Option.bind s (path al)) als (Some st))"
proof (induction als arbitrary: st)
  case (Cons al als)
  then obtain st1 where "path al st = Some st1" "fine st1" using returnsD [OF returns_one] by blast
  then show ?case using Cons.IH by simp
qed simp

lemma stage_total:
  assumes "fine st"
  obtains st' where "fold (\<lambda>al s. Option.bind s (path al)) als (Some st) = Some st'" "fine st'" "handled (length als) st st'"
  using returnsD [OF returns_all [OF assms]] handles_all by blast

end

interpretation rt: total_path "rule_path env start e" for env :: "('re, 'g, 'a) engine_env" and start e
  by unfold_locales (rule rule_path_returns)

interpretation wt: total_path "wasm_path env start e" for env :: "('re, 'g, 'a) engine_env" and start e
  by unfold_locales (rule wasm_path_returns)

lemma rule_stage_returns: "fine st \<Longrightarrow> returns fine (rule_stage env start e st)"
  by (cases "ce_ruleEngine (fst st)") (simp_all add: rule_stage_def EvaluateInto_is_Evaluate rt.returns_all)

lemma wasm_stage_returns: "fine st \<Longrightarrow> returns fine (wasm_stage env start e st)"
  by (cases "gv_wasm env") (simp_all add: wasm_stage_def wt.returns_all)

lemma checkIOCMatch_ok: "checkIOCMatch env start match e ce = (found, ce') \<Longrightarrow> corr_ok ce' = corr_ok ce"
  by (auto simp: checkIOCMatch_def next_seq_def with_trace_ok split: option.splits prod.splits)

lemma ioc_path_returns:
  assumes "fine st"
  shows "returns fine (ioc_path env start e st)"
proof (cases "gv_ioc env")
  case (Some match)
  obtain ce als where st: "st = (ce, als)" by (rule prod.exhaust)
  obtain found ce1 where c: "checkIOCMatch env start match e ce = (found, ce1)" by (rule prod.exhaust)
  have ok: "corr_ok ce1" using checkIOCMatch_ok [OF c] assms st by simp
  have "returns fine (Option.bind (with_context ce1 e (with_tree ce1 e al)) (\<lambda>al. admit_quiet env start al (ce1, als)))" for al
    by (rule returns_bind [OF with_context_returns [OF ok]]) (rule admit_quiet_returns [OF ok])
  then show ?thesis using Some ok by (simp add: ioc_path_def st c split: option.split)
qed (use assms in \<open>simp add: ioc_path_def\<close>)

lemma anomaly_path_returns:
  assumes "fine st"
  shows "returns fine (fst (anomaly_path env start e ad st))"
proof -
  obtain ce als where st: "st = (ce, als)" by (rule prod.exhaust)
  have raise: "returns fine (case next_seq ce of (seq, ce) \<Rightarrow> case with_trace env start e (anomaly_alert e seq r) ce of (al, ce) \<Rightarrow>
      Option.bind (with_context ce e (with_tree ce e (with_enrichment e al))) (\<lambda>al. admit_anomaly env start al (ce, als)))" for r
  proof -
    obtain al1 ce1 where w: "with_trace env start e (anomaly_alert e (ce_alertSeq ce + 1) r) (ce\<lparr>ce_alertSeq := ce_alertSeq ce + 1\<rparr>) = (al1, ce1)"
      by (rule prod.exhaust)
    have ok: "corr_ok ce1" using with_trace_ok [OF w] assms st by simp
    show ?thesis unfolding next_seq_def prod.case w
      by (rule returns_bind [OF with_context_returns [OF ok]]) (rule admit_anomaly_returns [OF ok])
  qed
  show ?thesis
  proof (cases "ce_enableAnomaly ce \<and> ad \<noteq> None")
    case True
    then obtain d where d: "ad = Some d" "ce_enableAnomaly ce" by auto
    obtain result d' where r: "gv_detect env e (als \<noteq> []) d = (result, d')" by (rule prod.exhaust)
    show ?thesis using d r raise assms st by (auto simp: anomaly_path_def split: option.split)
  next
    case False
    then show ?thesis using assms st by (auto simp: anomaly_path_def split: bool.split option.split)
  qed
qed

lemma allowlist_path_returns:
  assumes "fine st"
  shows "returns fine (allowlist_path env start e st)"
proof -
  obtain ce als where st: "st = (ce, als)" by (rule prod.exhaust)
  have ok: "corr_ok (ce\<lparr>ce_allowlistProfiler := p\<rparr>)" "corr_ok (ce\<lparr>ce_allowlistProfiler := p, ce_alertSeq := q\<rparr>)" for p q
    using assms st by (simp_all add: corr_ok_def)
  have raise: "returns fine (Option.bind (with_context ce1 e al1) (\<lambda>al. admit_quiet env start (with_enrichment e al) (ce1, als)))"
    if "corr_ok ce1" for ce1 al1
    by (rule returns_bind [OF with_context_returns [OF that]]) (rule admit_quiet_returns [OF that])
  show ?thesis using assms by (auto simp: allowlist_path_def st next_seq_def Let_def ok raise split: option.split prod.split)
qed

lemma track_event_returns:
  assumes "corr_ok ce"
  shows "returns corr_ok (track_event env start e ce)"
proof -
  obtain m h where b: "buffer_inv m h (ce_buffer ce)" using assms by (auto simp: corr_ok_def buffer_ok_def)
  obtain sb where a: "buffer_Add start (ev_pid e) e (ce_buffer ce) = Some sb" "buffer_ok sb"
    using Add_inv [OF b, of start "ev_pid e" e] unfolding buffer_ok_def by blast
  then show ?thesis using assms by (simp add: track_event_def Let_def corr_ok_def)
qed

lemma collect_alerts_returns:
  assumes "corr_ok ce"
  shows "returns (\<lambda>(st, ad). fine st) (collect_alerts env start e ad ce)"
proof -
  have last: "returns (\<lambda>(st, ad). fine st) (case anomaly_path env start e ad st of (st, ad) \<Rightarrow>
      Option.bind st (\<lambda>st. Option.bind (allowlist_path env start e st) (\<lambda>st. Some (st, ad))))" if "fine st" for st
  proof -
    obtain s ad' where n: "anomaly_path env start e ad st = (s, ad')" by (rule prod.exhaust)
    have "returns fine s" using anomaly_path_returns [OF that, of env start e ad] n by simp
    moreover have "returns (\<lambda>(st, ad). fine st) (Option.bind (allowlist_path env start e st) (\<lambda>st. Some (st, ad')))" if "fine st" for st
      by (rule returns_bind [OF allowlist_path_returns [OF that]]) simp
    ultimately show ?thesis unfolding n prod.case by (rule returns_bind)
  qed
  show ?thesis unfolding collect_alerts_def
    by (rule returns_bind [OF track_event_returns [OF assms]], rule returns_bind [OF rule_stage_returns], simp,
        rule returns_bind [OF wasm_stage_returns], assumption, rule returns_bind [OF ioc_path_returns], assumption, rule last)
qed

section \<open>Runs\<close>

text \<open>
  Workers exist up to the sizes of the pools, which no step changes.  A limit of alerts is a nonnegative 32-bit integer.
\<close>

fun op_in_range :: "nat \<Rightarrow> nat \<Rightarrow> ('re, 'g, 'a) engine_op \<Rightarrow> bool" where
  "op_in_range pool regos (IngestWorker env start w e) \<longleftrightarrow> w < pool"
| "op_in_range pool regos (IngestFlush w) \<longleftrightarrow> w < pool"
| "op_in_range pool regos (PolicyWorker env w) \<longleftrightarrow> w < regos"
| "op_in_range pool regos (PolicyFlush w) \<longleftrightarrow> w < regos"
| "op_in_range pool regos (LimitsCall window maxAlerts enabled) \<longleftrightarrow> 0 \<le> maxAlerts \<and> maxAlerts < 2 ^ 31"
| "op_in_range pool regos op \<longleftrightarrow> True"

definition sound :: "nat \<Rightarrow> nat \<Rightarrow> ('re, 'g, 'a) CorrelationEngine \<Rightarrow> bool" where
  "sound pool regos ce \<longleftrightarrow> corr_ok ce \<and> length (ce_ingestLocal ce) = pool \<and> length (ce_regoLocal ce) = regos"

lemma soundI: "guts ce' = guts ce \<Longrightarrow> length (ce_ingestLocal ce') = length (ce_ingestLocal ce) \<Longrightarrow> length (ce_regoLocal ce') = length (ce_regoLocal ce) \<Longrightarrow>
    sound pool regos ce \<Longrightarrow> sound pool regos ce'"
  using corr_ok_guts [of ce' ce] by (simp add: sound_def)

lemma collect_sound:
  assumes "sound pool regos ce"
  obtains ce1 new ad' where "collect_alerts env start e ad ce = Some ((ce1, new), ad')" "sound pool regos ce1"
proof -
  obtain st ad' where c: "collect_alerts env start e ad ce = Some (st, ad')" "fine st"
    using returnsD [OF collect_alerts_returns, of ce env start e ad] assms by (auto simp: sound_def)
  obtain ce1 new where st: "st = (ce1, new)" by (rule prod.exhaust)
  have "outbox ce1 = outbox ce" using c(1) unfolding st by (rule collect_outbox)
  then have "sound pool regos ce1" using c(2) assms by (simp add: st sound_def outbox_def)
  then show thesis using that c(1) st by blast
qed

lemma dispatch_sound:
  assumes "dispatch start new ce1 = ((alerts, queued), ce')" "sound pool regos ce1"
  shows "sound pool regos ce'"
  using assms(1) by (intro soundI [OF _ _ _ assms(2)]) (auto simp: dispatch_def guts_def Let_def split: if_splits)

lemma flush_sound: "sound pool regos ce \<Longrightarrow> sound pool regos (flush_ingest w ce)" "sound pool regos ce \<Longrightarrow> sound pool regos (flush_rego w ce)"
  by (erule soundI [rotated 3]; simp add: flush_ingest_def flush_rego_def guts_def)+

lemma evaluateRegoPolicies_guts: "guts (snd (evaluateRegoPolicies env als ce)) = guts ce"
proof (induction env als ce rule: evaluateRegoPolicies.induct)
  case (2 env al als ce)
  obtain al1 ce1 where p: "evaluate_policy env al ce = (al1, ce1)" by (rule prod.exhaust)
  have "guts ce1 = guts ce" using p by (auto simp: evaluate_policy_def guts_def Let_def split: prod.splits if_splits option.splits)
  then show ?case using 2 [OF p [symmetric]] p by (simp add: case_prod_beta)
qed simp

lemma rego_work_sound:
  assumes "sound pool regos ce"
  shows "sound pool regos (rego_work env w ce)"
proof (cases "ce_regoQueue ce")
  case (Cons task rest)
  obtain als ce1 where r: "evaluateRegoPolicies env task (ce\<lparr>ce_regoQueue := rest\<rparr>) = (als, ce1)" by (rule prod.exhaust)
  have f: "guts ce1 = guts (ce\<lparr>ce_regoQueue := rest\<rparr>)" "outbox ce1 = outbox (ce\<lparr>ce_regoQueue := rest\<rparr>)"
    using evaluateRegoPolicies_guts [of env task "ce\<lparr>ce_regoQueue := rest\<rparr>"] evaluateRegoPolicies_frame [of env task "ce\<lparr>ce_regoQueue := rest\<rparr>"]
    by (simp_all add: r)
  let ?ce = "ce1\<lparr>ce_regoLocal := (ce_regoLocal ce1)[w := ce_regoLocal ce1 ! w @ filter_feedback ce1 als]\<rparr>"
  have "sound pool regos ?ce" using f by (intro soundI [OF _ _ _ assms]) (simp_all add: guts_def outbox_def)
  then show ?thesis using flush_sound(2) [of pool regos ?ce w] by (simp add: rego_work_def Cons r Let_def)
qed (use assms in \<open>simp add: rego_work_def\<close>)

lemma cleanup_sound:
  assumes "sound pool regos ce"
  shows "sound pool regos (engine_cleanup now ce)"
proof -
  have "corr_ok ce" using assms by (simp add: sound_def)
  then have "corr_ok (engine_cleanup now ce)"
    using drop_before_ok [of MaxCooldownEntries "ce_cooldowns ce"] drop_before_ok [of MaxDedupEntries "sd_map (ce_dedup ce)"]
    by (simp add: corr_ok_def engine_cleanup_def cooldowns_cleanup_def dedup_cleanup_def)
  then show ?thesis using assms by (simp add: sound_def engine_cleanup_def)
qed

lemma sweeps_sound:
  assumes "sound pool regos ce"
  shows "sound pool regos (buffer_sweep now bufferTTL ce)" "sound pool regos (cleanupLoop_tick now ce)" "sound pool regos (updateRLGaugeLoop_tick now ce)"
proof -
  have ok: "corr_ok ce" using assms by (simp add: sound_def)
  then obtain m h where b: "buffer_inv m h (ce_buffer ce)" by (auto simp: corr_ok_def buffer_ok_def)
  have "buffer_ok (snd (buffer_CleanupExpired now ttl (ce_buffer ce)))" for ttl
    using Expire_inv [OF b, of now ttl] unfolding buffer_ok_def by blast
  then show "sound pool regos (buffer_sweep now bufferTTL ce)" using assms by (simp add: sound_def corr_ok_def buffer_sweep_def Let_def)
  show "sound pool regos (cleanupLoop_tick now ce)" using assms by (simp add: sound_def corr_ok_def cleanupLoop_tick_def Cleanup_def Let_def)
  show "sound pool regos (updateRLGaugeLoop_tick now ce)"
    using assms drop_before_ok [of MaxCooldownEntries "ce_cooldowns ce"] drop_before_ok [of MaxDedupEntries "sd_map (ce_dedup ce)"]
    by (simp add: sound_def corr_ok_def updateRLGaugeLoop_tick_def cooldowns_cleanup_def dedup_cleanup_def Let_def)
qed

lemma resize_all_returns: "0 \<le> maxAlerts \<Longrightarrow> returns (\<lambda>_. True) (resize_all window maxAlerts sts)"
proof (induction sts)
  case (Cons x sts)
  obtain k rs where x: "x = (k, rs)" by (rule prod.exhaust)
  have "resize_state window maxAlerts rs \<noteq> None" using Cons.prems by (simp add: resize_state_def Let_def)
  then obtain rs' where "resize_state window maxAlerts rs = Some rs'" by auto
  then show ?case using Cons by (auto simp: x returns_def split: option.splits)
qed simp

lemma limits_sound:
  assumes "sound pool regos ce" "0 \<le> maxAlerts" "maxAlerts < 2 ^ 31"
  shows "returns (sound pool regos) (UpdateRateLimiter window maxAlerts enabled ce)"
proof -
  obtain sts where "resize_all window maxAlerts (rl_states (ce_rateLimiter ce)) = Some sts"
    using returnsD [OF resize_all_returns [OF assms(2)]] by blast
  then show ?thesis
    using assms int32_id [OF assms(2,3)] by (simp add: UpdateRateLimiter_def UpdateConfig_def sound_def corr_ok_def)
qed

lemma ingest_sound:
  assumes "sound pool regos ce" "op = IngestCall env start e ad \<or> op = IngestWorker env start w e \<and> w < pool"
  shows "returns (\<lambda>st. sound pool regos (fst st)) (engine_step op (ce, lg))"
proof -
  define det where "det = (if op = IngestCall env start e ad then ad else ce_ingestDetectors ce ! w)"
  obtain ce1 new ad' where c: "collect_alerts env start e det ce = Some ((ce1, new), ad')" "sound pool regos ce1"
    by (rule collect_sound [OF assms(1)])
  obtain alerts queued ce' where d: "dispatch start new ce1 = ((alerts, queued), ce')" by (metis prod.exhaust)
  have s: "sound pool regos ce'" by (rule dispatch_sound [OF d c(2)])
  have upd: "sound pool regos (ce'\<lparr>ce_pending := q\<rparr>)" "sound pool regos (ce'\<lparr>ce_ingestDetectors := ds\<rparr>)"
    "sound pool regos (ce'\<lparr>ce_ingestDetectors := ds, ce_ingestLocal := (ce_ingestLocal ce')[w := l]\<rparr>)" for q ds l
    by (rule soundI [OF _ _ _ s]; simp add: guts_def)+
  show ?thesis using assms(2)
  proof
    assume op: "op = IngestCall env start e ad"
    then show ?thesis using c d s upd(1) by (simp add: det_def Ingest_def ingestWithAD_def)
  next
    assume op: "op = IngestWorker env start w e \<and> w < pool"
    then have "w < length (ce_ingestLocal ce)" using assms(1) by (simp add: sound_def)
    then show ?thesis using c d s upd(2,3) op flush_sound(1) [OF upd(3)]
      by (simp add: det_def worker_ingest_def ingestWithAD_def Let_def)
  qed
qed

lemma step_sound:
  assumes "sound pool regos ce" "op_in_range pool regos op"
  shows "returns (\<lambda>st. sound pool regos (fst st)) (engine_step op (ce, lg))"
proof (cases op)
  case (IngestCall env start e ad)
  then show ?thesis using ingest_sound [OF assms(1)] by blast
next
  case (IngestWorker env start w e)
  then show ?thesis using ingest_sound [OF assms(1)] assms(2) by (metis op_in_range.simps(1))
next
  case (Upkeep now)
  then show ?thesis using cleanup_sound [OF assms(1)] by simp
next
  case (LimitsCall window maxAlerts enabled)
  then have "returns (sound pool regos) (UpdateRateLimiter window maxAlerts enabled ce)" using limits_sound [OF assms(1)] assms(2) by simp
  then show ?thesis unfolding LimitsCall engine_step.simps by (intro returns_map) simp
next
  case (BufferSweep now bufferTTL)
  then show ?thesis using sweeps_sound(1) [OF assms(1)] by simp
next
  case (LimiterTick now)
  then show ?thesis using sweeps_sound(2) [OF assms(1)] by simp
next
  case (GaugeTick now)
  then show ?thesis using sweeps_sound(3) [OF assms(1)] by simp
next
  case (PolicyWorker env w)
  then show ?thesis using rego_work_sound [OF assms(1)] assms by (simp add: sound_def)
next
  case (IngestFlush w)
  then show ?thesis using flush_sound(1) [OF assms(1)] assms by (simp add: sound_def)
next
  case (PolicyFlush w)
  then show ?thesis using flush_sound(2) [OF assms(1)] assms by (simp add: sound_def)
qed (use assms(1) in \<open>simp_all add: engine_Flush_def enforce_work_def UpdateRules_def Let_def sound_def corr_ok_def split: list.split\<close>)

lemma run_sound: "sound pool regos (fst st) \<Longrightarrow> list_all (op_in_range pool regos) ops \<Longrightarrow> returns (\<lambda>st. sound pool regos (fst st)) (engine_run ops st)"
proof (induction ops st rule: engine_run.induct)
  case (2 op ops st)
  obtain ce lg where st: "st = (ce, lg)" by (rule prod.exhaust)
  obtain st1 where s: "engine_step op st = Some st1" "sound pool regos (fst st1)"
    using returnsD [OF step_sound, of pool regos ce op lg] "2.prems" st by auto
  then show ?case using "2.IH" "2.prems"(2) by simp
qed simp

text \<open>
  C3 (invariant).  A new engine, of a configuration with a positive history size and a limit of alerts that is a
  nonnegative 32-bit integer, completes every sequence of calls, worker steps, flushes, reloads, changes of the
  limits to such integers and rounds of its background loops, whatever the events, rules, plugins and policies and
  the number of processors: no access to a shard of the event buffer, the deduplication map or the cooldown map
  and no write into an event ring is out of range, and no ring of the rate limiter is allocated with a negative
  size.
\<close>

theorem engine_runs_complete:
  assumes "0 < cf_BufferSize cfg" "0 \<le> cf_MaxAlertsPerWindow cfg" "cf_MaxAlertsPerWindow cfg < 2 ^ 31"
    "ce0 = NewCorrelationEngineWithConfig env numCPU gomaxprocs limiter detector calc cfg"
    "list_all (op_in_range (length (ce_ingestLocal ce0)) (length (ce_regoLocal ce0))) ops"
  shows "\<exists>ce lg. engine_run ops (ce0, empty_log) = Some (ce, lg)"
proof -
  have "corr_ok ce0"
    using new_buffer_inv [OF assms(1), of numCPU gomaxprocs] new_shards_ok [of MaxDedupEntries numCPU gomaxprocs] new_shards_ok [of MaxCooldownEntries numCPU gomaxprocs] int32_id [OF assms(2,3)] assms(2)
    by (auto simp: assms(4) corr_ok_def buffer_ok_def NewCorrelationEngineWithConfig_def NewRateLimiter_def newShardedDedup_def newShardedCooldowns_def
        MaxDedupEntries_def MaxCooldownEntries_def Let_def)
  then have "sound (length (ce_ingestLocal ce0)) (length (ce_regoLocal ce0)) (fst (ce0, empty_log))" by (simp add: sound_def)
  from returnsD [OF run_sound [OF this assms(5)]] show ?thesis by auto
qed

definition default_engine :: "(unit, nat, unit) CorrelationEngine" where
  "default_engine = NewCorrelationEngineWithConfig example_engine_env 4 4 nat () NewDNSEntropyCalculator DefaultCorrelationEngineConfig"

theorem engine_runs_complete_witness:
  "\<exists>ce lg. engine_run [IngestWorker example_engine_env 100 3 example_event, IngestFlush 3, Upkeep 200, BufferSweep 200 0, LimitsCall 60 5 True, LimiterTick 300, GaugeTick 300, FlushCall] (default_engine, empty_log) = Some (ce, lg)"
proof -
  have "length (ce_ingestLocal default_engine) = 4"
    by (simp add: default_engine_def NewCorrelationEngineWithConfig_def DefaultCorrelationEngineConfig_def ingest_pool_size_def Let_def pow2_from.simps)
  then show ?thesis
    by (intro engine_runs_complete [OF _ _ _ default_engine_def]) (simp_all add: DefaultCorrelationEngineConfig_def)
qed

end
