(* ===== verification/Spec2Isabelle.thy ===== *)
theory Spec2Isabelle
  imports Wire_Events Dns_Wire Dns_Prefilter Rule_Loader Rate_Limiter Sharded_Maps Alert_Aggregator
    Incident_Tracker Alertmanager_Client Memory_Store Lineage_Tracker Workload_Profiles
    Drift_Baseline Syscall_Allowlist Feedback_Manager Trace_Context Correlation_Engine Alert_Pipeline Alert_Delivery Engine_Totality
begin

text \<open>
  Verification of \<open>ebpf-guard\<close>, a host security agent written in Go.  Kernel probes write samples to ring buffers;
  collectors decode them to events; a correlation engine evaluates detection rules, plugins, indicators, an anomaly
  detector and a system call allowlist on each event and keeps state between events; candidate alerts are
  deduplicated, rate limited, enforced, aggregated and grouped to incidents; alerts are filtered by analyst feedback,
  stored, queried and sent to an alert manager.

  \<^bold>\<open>Conventions.\<close>  Go strings are lists of characters, machine integers are words of their width or integers with the
  wrap-around written out, times and durations are integers in nanoseconds, floating-point values are \<open>f64\<close> of
  \<open>Go_Float\<close>, Go maps are association lists or maps.  An error result is the left summand, a panic of the Go runtime
  is \<open>None\<close>.  Locks are left out: an operation that holds a lock is one step, and concurrent use is an explicit
  sequence of steps.  Clocks, random draws, files, \<open>/proc\<close> and third-party libraries (regular expressions, YAML, JSON,
  \<open>math\<close>, the policy and plugin engines, \<open>x/time/rate\<close>) are arguments, with what is relied on as named hypotheses.

  \<^bold>\<open>Foundations.\<close>
  \<^item> \<open>Guard_Prelude\<close>: the collections of rules, lemmas on association lists, words, byte slices, decimal and
    hexadecimal text; \<open>Ring_Buffer\<close>: the list a ring buffer stands for; \<open>Go_Float\<close>, \<open>Go_Strings\<close>, \<open>Go_Files\<close>:
    what the sources use of floating point, \<open>strings\<close>, \<open>strconv\<close> and \<open>os\<close>; \<open>Net_Addr\<close>: of \<open>net\<close>;
    \<open>Learning_Window\<close>: the specification of a learning phase two profilers share.
  \<^item> \<open>Event_Types\<close>: \<open>pkg/types/event.go\<close>, \<open>incident.go\<close> and \<open>internal/util/bytes.go\<close>.

  \<^bold>\<open>Samples to events.\<close>
  \<^item> \<open>Wire_Events\<close>: \<open>internal/bpf/events.go\<close>, \<open>collector/network_parse.go\<close>.  Parsers invert the documented layouts and
    do not panic on short samples, with the exceptions the findings name.
  \<^item> \<open>Dns_Wire\<close>: \<open>collector/dns_parse.go\<close>.  Decoding inverts encoding with compression pointers and ends on every input.

  \<^bold>\<open>Rules.\<close>
  \<^item> \<open>Rule_Model\<close>, \<open>Rule_Engine\<close>, \<open>Rule_Semantics\<close>: \<open>correlator/rules.go\<close>.  The compiled, cached and indexed evaluation
    agrees with a reference semantics after any reloads.
  \<^item> \<open>Rule_Sampler\<close>: \<open>correlator/sampler.go\<close>; \<open>Rule_Loader\<close>: \<open>rule_loader.go\<close>, \<open>tuning_overlay.go\<close> and the kernel-side
    syscall list.
  \<^item> \<open>Dns_Analysis\<close>: \<open>dns_entropy.go\<close>, \<open>dga_ngram.go\<close>; \<open>Dns_Prefilter\<close>: \<open>dns_prefilter.go\<close> against
    \<open>rules/rego/dns.rego\<close>.

  \<^bold>\<open>State between events.\<close>
  \<^item> \<open>Rate_Limiter\<close>: \<open>ratelimiter.go\<close>, a sliding window; \<open>Event_Buffer\<close>: \<open>sharded_buffer.go\<close>, a bounded history per
    process; \<open>Sharded_Maps\<close>: \<open>sharded_maps.go\<close>, cooldowns and deduplication; \<open>Trace_Context\<close>: \<open>trace_extractor.go\<close>.
  \<^item> \<open>Lineage_Tracker\<close>: \<open>profiler/lineage.go\<close>; \<open>Lru_Heap\<close>: \<open>lru_heap.go\<close>, a refinement of a map of last uses;
    \<open>Workload_Profiles\<close>: \<open>workload.go\<close>; \<open>Drift_Baseline\<close>: \<open>driftbaseline.go\<close>; \<open>Syscall_Allowlist\<close>: \<open>allowlist.go\<close>, with
    its state file.

  \<^bold>\<open>Alerts.\<close>
  \<^item> \<open>Alert_Aggregator\<close>: \<open>aggregator.go\<close>; \<open>Incident_Tracker\<close>: \<open>incident.go\<close>; \<open>Feedback_Manager\<close>: \<open>feedback/manager.go\<close>;
    \<open>Memory_Store\<close>: \<open>store/memory.go\<close>, \<open>summary.go\<close>; \<open>Alertmanager_Client\<close>: \<open>exporter/alertmanager.go\<close> and its circuit
    breaker.

  \<^bold>\<open>The engine.\<close>
  \<^item> \<open>Correlation_Engine\<close>: \<open>correlator/engine.go\<close>, the composition of the above.  Its record holds the states of the
    components, the queues as bounded lists and the counters; \<open>ingestWithAD\<close> is the path of one event, and each worker
    goroutine is a step that takes one task.
  \<^item> \<open>Alert_Pipeline\<close>: every candidate is accounted for; \<open>Alert_Delivery\<close>: in every interleaving of callers and
    workers each alert is delivered once, under a unique identifier; \<open>Engine_Totality\<close>: runs complete, since the
    checked accesses of the event buffer, the sharded maps and the rate limiter succeed by the invariants of these
    components.  The background loops (periodic cleanup, buffer sweep, limiter cleanup, early eviction) are steps.

  \<^bold>\<open>Interfaces.\<close>  Locales state what one part promises another: wire codecs, sampling gates, window logs and bounded logs
  for the ring buffers, the recency order of the profilers, and the candidate paths of the engine.  Each is
  interpreted on the definitions of the model.

  \<^bold>\<open>Bounds.\<close>  Recursion is structural or has a measure, so no fuel is used except where the code has a bound of its own:
  the jumps of DNS name compression and the depth of process trees, with the limits of the source.  Counters of metrics
  are natural numbers; uniqueness of identifiers therefore names the point at which the 64-bit sequence would wrap.

  \<^bold>\<open>Simplifications.\<close>  Index expressions are checked in the sample parsers, the event buffer's shards and ring writes, the
  sharded maps and the allocations of the rate limiter; elsewhere they are total, and nothing is claimed of their range.
  A call that reads the clock several times gets one reading (\<open>ingestWithAD\<close>, \<open>StoreBatch\<close>).  A policy decision
  writes to its own copy of an alert's details, which the code shares.  \<open>ApplyTuningOverlay\<close> returns only the error
  when it fails; the code has changed the rules before the failing one.  The flush after a recovered send is a step of
  its own in the runs of the alert manager client.  \<open>Submit\<close> of the feedback manager writes its file in the same step
  as the update, which the code does after it released the lock, and \<open>RecordEvent\<close> of the workload profiler is one step.

  \<^bold>\<open>Not modelled.\<close>  The agent's entry point, configuration loading, command line and terminal interface (wiring and
  third-party input and output); kernel programs and their loading; enforcement, container, cluster, cloud and network
  clients (operating system and remote services); the SQL, Redis and object stores; the HTTP interface and exporters
  other than the alert manager client; the floating-point statistics of the anomaly detector, whose result is an
  argument of the engine; translators of other rule formats; metrics, tracing spans, tickers and shutdown.
\<close>

end
